(* ===== verification/Prelude.thy ===== *)
theory Prelude
  imports Main
begin

text \<open>
  What every component shares: Go's \<^verbatim>\<open>time.Time\<close> and \<^verbatim>\<open>time.Duration\<close> as they are used under
  \<^verbatim>\<open>src/internal\<close>, the error values, the result of a call that can fail, and the hint
  collections.

  A \<open>time\<close> is a number of nanoseconds since Go's zero time (January 1, year 1, UTC), so
  \<^verbatim>\<open>t.IsZero()\<close> is \<open>t = 0\<close>. A \<open>duration\<close> is a number of nanoseconds; \<^verbatim>\<open>t.Sub(u)\<close> saturates at
  the bounds of an int64, which \<open>time_sub\<close> writes out. Where a Go function returns
  \<^verbatim>\<open>(v, err)\<close>, the model returns \<open>Inl err\<close> or \<open>Inr v\<close>; where it returns only
  an error, the model returns an \<open>error option\<close>.
\<close>

named_theorems time_simps \<open>facts that evaluate clock arithmetic\<close>
named_theorems store_simps \<open>what a stored value reads back as\<close>
named_theorems step_defs \<open>definitions that a step of a component unfolds to\<close>

section \<open>Time\<close>

type_synonym time = int
type_synonym duration = int

definition min_duration :: duration where
  "min_duration = - (2 ^ 63)"

definition max_duration :: duration where
  "max_duration = 2 ^ 63 - 1"

definition time_sub :: "time \<Rightarrow> time \<Rightarrow> duration" where
  "time_sub t u = max min_duration (min max_duration (t - u))"

definition is_zero :: "time \<Rightarrow> bool" where
  "is_zero t \<longleftrightarrow> t = 0"

definition second :: duration where
  "second = 1000000000"

definition minute :: duration where
  "minute = 60 * second"

definition hour :: duration where
  "hour = 60 * minute"

definition unix_epoch :: time where
  "unix_epoch = 62135596800 * second"

lemmas duration_defs = second_def minute_def hour_def
lemmas duration_bounds = min_duration_def max_duration_def

lemma time_sub_exact [time_simps]:
  "min_duration \<le> t - u \<Longrightarrow> t - u \<le> max_duration \<Longrightarrow> time_sub t u = t - u"
  by (simp add: time_sub_def)

lemma time_sub_self [simp]: "time_sub t t = 0"
  by (simp add: time_sub_def duration_bounds)

lemma time_sub_ge_iff [time_simps]:
  assumes "0 < d" and "d \<le> max_duration"
  shows "d \<le> time_sub t u \<longleftrightarrow> u + d \<le> t"
  using assms by (auto simp: time_sub_def duration_bounds)

lemma time_sub_lt_iff [time_simps]:
  assumes "0 < d" and "d \<le> max_duration"
  shows "time_sub t u < d \<longleftrightarrow> t < u + d"
  using time_sub_ge_iff [OF assms, of t u] by linarith

lemma time_sub_mono: "t \<le> t' \<Longrightarrow> time_sub t u \<le> time_sub t' u"
  by (auto simp: time_sub_def)

lemma hour_bounds [simp]: "0 < hour" "hour \<le> max_duration" "\<not> hour \<le> 0"
  by (simp_all add: duration_defs duration_bounds)

text \<open>
  \<^verbatim>\<open>encoding/json\<close> writes a time only when its year lies in \<open>[0, 9999]\<close>; marshalling any
  other time is an error.
\<close>

definition json_time_ok :: "time \<Rightarrow> bool" where
  "json_time_ok t \<longleftrightarrow> - (366 * 24 * hour) \<le> t \<and> t < 3652059 * 24 * hour"

lemma json_time_ok_zero [simp]: "json_time_ok 0"
  by (simp add: json_time_ok_def duration_defs)

section \<open>Errors\<close>

text \<open>
  The sentinel errors the code compares with \<^verbatim>\<open>errors.Is\<close> are constructors; any other
  error is \<open>ErrMsg\<close> with the start of its message, and \<^verbatim>\<open>fmt.Errorf("...: %w", err)\<close> is \<open>Wrap\<close>.
\<close>

datatype error =
    ErrMsg string
  | ErrUnknownTier
  | ErrOverBudget
  | ErrNoStore
  | ErrUnknownProposedVerb
  | ErrProposalNotDescribable
  | ErrProposalNotPrivate
  | ErrProposalRecipientCannotApprove
  | Wrap string error

type_synonym 'a result = "error + 'a"

fun errors_is :: "error \<Rightarrow> error \<Rightarrow> bool" where
  "errors_is (Wrap m e) target = (Wrap m e = target \<or> errors_is e target)"
| "errors_is e target = (e = target)"

lemma errors_is_refl [simp]: "errors_is e e"
  by (cases e) simp_all

section \<open>Lists\<close>

lemma take_drop_filter_length: "length (filter P xs) \<le> length xs"
  by simp

definition last_n :: "nat \<Rightarrow> 'a list \<Rightarrow> 'a list" where
  "last_n n xs = drop (length xs - n) xs"

lemma length_last_n [simp]: "length (last_n n xs) = min n (length xs)"
  by (simp add: last_n_def)

lemma set_last_n_subset: "set (last_n n xs) \<subseteq> set xs"
  by (simp add: last_n_def set_drop_subset)

lemma last_n_all [simp]: "length xs \<le> n \<Longrightarrow> last_n n xs = xs"
  by (simp add: last_n_def)

lemma last_n_filter_none: "filter P xs = [] \<Longrightarrow> filter P (last_n n xs) = []"
  by (metis filter_False filter_empty_conv last_n_def in_set_dropD)

lemma filter_eq_self: "(\<And>x. x \<in> set xs \<Longrightarrow> P x) \<Longrightarrow> filter P xs = xs"
  by (simp add: filter_id_conv)

end
