(* ===== verification/Bolt.thy ===== *)
theory Bolt
  imports Prelude "HOL-Library.List_Lexorder" "HOL-Library.Char_ord"
begin

text \<open>
  The bbolt bucket the persistent stores keep their rows in (\<^verbatim>\<open>internal/acl/bolt.go\<close>,
  \<^verbatim>\<open>internal/budget/bolt.go\<close>, \<^verbatim>\<open>internal/pending/bolt.go\<close>). bbolt is not under
  \<^verbatim>\<open>src/\<close>: what a call into it did is an argument of every operation, an \<open>io\<close>, which says
  whether the transaction went through or which error it failed with. The operations rely on
  its documented behaviour only: keys are iterated in byte order, and a transaction that
  fails leaves the bucket as it was.

  A row's bytes are a \<open>blob\<close>: \<open>Blob r\<close> are the bytes that decode to \<open>r\<close>, \<open>Corrupt\<close> are bytes
  that do not decode.
\<close>

datatype io = Done | Failed error

datatype 'r blob = Blob 'r | Corrupt

type_synonym 'r bucket = "(string \<times> 'r blob) list"

fun bk_put :: "string \<Rightarrow> 'v \<Rightarrow> (string \<times> 'v) list \<Rightarrow> (string \<times> 'v) list" where
  "bk_put k v [] = [(k, v)]"
| "bk_put k v ((k', v') # b) =
     (if k < k' then (k, v) # (k', v') # b
      else if k = k' then (k, v) # b
      else (k', v') # bk_put k v b)"

definition bk_delete :: "string \<Rightarrow> (string \<times> 'v) list \<Rightarrow> (string \<times> 'v) list" where
  "bk_delete k b = filter (\<lambda>(k', _). k' \<noteq> k) b"

definition bk_wf :: "(string \<times> 'v) list \<Rightarrow> bool" where
  "bk_wf b \<longleftrightarrow> sorted_wrt (<) (map fst b)"

lemma map_of_bk_put [store_simps]: "map_of (bk_put k v b) = (map_of b)(k \<mapsto> v)"
  by (induction k v b rule: bk_put.induct) (auto simp: fun_eq_iff)

lemma map_of_bk_delete [store_simps]: "map_of (bk_delete k b) = (map_of b)(k := None)"
  by (induction b) (auto simp: bk_delete_def fun_eq_iff)

lemma keys_bk_put: "set (map fst (bk_put k v b)) = insert k (set (map fst b))"
  by (induction k v b rule: bk_put.induct) auto

lemma bk_wf_Nil [simp]: "bk_wf []"
  by (simp add: bk_wf_def)

lemma bk_wf_put [simp]: "bk_wf b \<Longrightarrow> bk_wf (bk_put k v b)"
proof (induction k v b rule: bk_put.induct)
  case (2 k v k' v' b)
  then show ?case
    using keys_bk_put [of k v b] by (auto simp: bk_wf_def)
qed (simp add: bk_wf_def)

lemma bk_wf_filter [simp]: "bk_wf b \<Longrightarrow> bk_wf (filter P b)"
  by (induction b) (auto simp: bk_wf_def)

lemma bk_wf_distinct: "bk_wf b \<Longrightarrow> distinct (map fst b)"
  unfolding bk_wf_def by (induction b) auto

lemma bk_wf_delete [simp]: "bk_wf b \<Longrightarrow> bk_wf (bk_delete k b)"
  by (simp add: bk_delete_def)

text \<open>
  A write transaction: the closure's error rolls back, and so does a commit that fails.
  A read transaction reports its own failure or runs the closure on the bucket.
\<close>

definition tx_update :: "io \<Rightarrow> 'b \<Rightarrow> ('b \<Rightarrow> 'b result) \<Rightarrow> error option \<times> 'b" where
  "tx_update io b f =
     (case f b of Inl e \<Rightarrow> (Some e, b)
      | Inr b' \<Rightarrow> (case io of Failed e \<Rightarrow> (Some e, b) | Done \<Rightarrow> (None, b')))"

definition tx_view :: "io \<Rightarrow> 'b \<Rightarrow> ('b \<Rightarrow> 'a result) \<Rightarrow> 'a result" where
  "tx_view io b f = (case io of Failed e \<Rightarrow> Inl e | Done \<Rightarrow> f b)"

lemma tx_update_failed: "tx_update io b f = (Some e, b') \<Longrightarrow> b' = b"
  by (auto simp: tx_update_def split: sum.splits io.splits)

lemma tx_update_committed:
  "tx_update io b f = (None, b') \<longleftrightarrow> io = Done \<and> f b = Inr b'"
  by (auto simp: tx_update_def split: sum.splits io.splits)

lemma tx_view_Done [simp]: "tx_view Done b f = f b"
  by (simp add: tx_view_def)

end
