(* ===== verification/Core.thy ===== *)
theory Core
  imports Prelude "HOL-Library.Word"
begin

text \<open>
  The platform-neutral values of \<^verbatim>\<open>internal/core/engine.go\<close> that every other component passes
  around: users, surfaces, queries, replies, actions and chunks. A Go struct is a record
  with the struct's fields; a field's name carries the first letters of the struct, because
  Isabelle keeps field names in one space. Strings are Go strings, that is bytes.
\<close>

datatype surface = SurfaceGroup | SurfaceDM

record user =
  u_ID :: string
  u_Display :: string

record action =
  a_Verb :: string
  a_Params :: "string \<rightharpoonup> string"
  a_Label :: string

record reply =
  r_Text :: string
  r_Refused :: bool
  r_Silent :: bool
  r_Actions :: "action list"
  r_Notice :: string
  r_Reaction :: string

definition empty_reply :: reply where
  "empty_reply = \<lparr>r_Text = '''', r_Refused = False, r_Silent = False, r_Actions = [],
     r_Notice = '''', r_Reaction = ''''\<rparr>"

record history_turn =
  h_Speaker :: string
  h_Bot :: bool
  h_Text :: string
  h_Time :: time
  h_MessageID :: string
  h_ReplyTo :: string

record query =
  q_User :: user
  q_Surface :: surface
  q_Text :: string
  q_History :: "history_turn list"
  q_ReplyContext :: string
  q_Chat :: string
  q_Remember :: bool
  q_Withdrawals :: "64 word"

record chunk =
  c_Source :: string
  c_Text :: string

end
