(* ===== verification/Acl.thy ===== *)
theory Acl
  imports Bolt Core
begin

text \<open>
  Access control and consent: \<^verbatim>\<open>internal/acl/acl.go\<close> (the gate and its decisions),
  \<^verbatim>\<open>internal/acl/authority.go\<close> (tiers as authority, consent and tier writes) and
  \<^verbatim>\<open>internal/acl/bolt.go\<close> (the persistent rows). The interface \<^verbatim>\<open>acl.Store\<close> is the locale
  \<open>acl_store\<close>; \<^verbatim>\<open>BoltStore\<close> interprets it.
\<close>

section \<open>Tiers, consent, records\<close>

type_synonym tier = string

definition TierUnlimited :: tier where "TierUnlimited = ''unlimited''"
definition TierTrusted :: tier where "TierTrusted = ''trusted''"
definition TierDefault :: tier where "TierDefault = ''default''"
definition TierThrottled :: tier where "TierThrottled = ''throttled''"
definition TierAdmin :: tier where "TierAdmin = ''admin''"

lemmas tier_defs = TierUnlimited_def TierTrusted_def TierDefault_def TierThrottled_def TierAdmin_def

datatype consent = ConsentUnknown | ConsentGranted | ConsentDeclined

record acl_record =
  rec_UserID :: string
  rec_Tier :: tier
  rec_Consent :: consent
  rec_RateCount :: int
  rec_RateWindowStart :: time

definition zero_record :: "string \<Rightarrow> acl_record" where
  "zero_record uid = \<lparr>rec_UserID = uid, rec_Tier = '''', rec_Consent = ConsentUnknown,
     rec_RateCount = 0, rec_RateWindowStart = 0\<rparr>"

lemma zero_record_fields [simp]:
  "rec_UserID (zero_record u) = u" "rec_Tier (zero_record u) = ''''"
  "rec_Consent (zero_record u) = ConsentUnknown" "rec_RateCount (zero_record u) = 0"
  "rec_RateWindowStart (zero_record u) = 0"
  by (simp_all add: zero_record_def)

datatype decision =
    DecideServe | DecideLogOnly | DecideNudge | DecideRefuse | DecideRateLimited | DecideSilent

section \<open>The persistent store (bolt.go)\<close>

type_synonym acl_db = "acl_record bucket"

definition acl_marshal :: "acl_record \<Rightarrow> acl_record blob result" where
  "acl_marshal r =
     (if json_time_ok (rec_RateWindowStart r) then Inr (Blob r)
      else Inl (Wrap ''acl: marshal record'' (ErrMsg ''year outside of range [0,9999]'')))"

definition acl_get :: "io \<Rightarrow> acl_db \<Rightarrow> string \<Rightarrow> acl_record result" where
  "acl_get io b uid =
     (case tx_view io b (\<lambda>b. case map_of b uid of
          None \<Rightarrow> Inr None
        | Some Corrupt \<Rightarrow> Inl (ErrMsg ''invalid record'')
        | Some (Blob r) \<Rightarrow> Inr (Some r)) of
        Inl e \<Rightarrow> Inl (Wrap ''acl: get'' e)
      | Inr None \<Rightarrow> Inr (zero_record uid)
      | Inr (Some r) \<Rightarrow> Inr r)"

definition acl_put :: "io \<Rightarrow> acl_db \<Rightarrow> acl_record \<Rightarrow> error option \<times> acl_db" where
  "acl_put io b r =
     (case acl_marshal r of
        Inl e \<Rightarrow> (Some e, b)
      | Inr v \<Rightarrow> (case tx_update io b (\<lambda>b. Inr (bk_put (rec_UserID r) v b)) of
            (None, b') \<Rightarrow> (None, b')
          | (Some e, b') \<Rightarrow> (Some (Wrap ''acl: put'' e), b')))"

definition acl_update ::
    "io \<Rightarrow> acl_db \<Rightarrow> string \<Rightarrow> (acl_record \<Rightarrow> acl_record result) \<Rightarrow> error option \<times> acl_db" where
  "acl_update io b uid mutate =
     (case tx_update io b (\<lambda>b.
          case (case map_of b uid of
                  None \<Rightarrow> Inr (zero_record uid)
                | Some Corrupt \<Rightarrow> Inl (Wrap ''acl: unmarshal record'' (ErrMsg ''invalid record''))
                | Some (Blob r) \<Rightarrow> Inr r) of
            Inl e \<Rightarrow> Inl e
          | Inr r \<Rightarrow> (case mutate r of
                Inl e \<Rightarrow> Inl e
              | Inr r' \<Rightarrow> (case acl_marshal r' of
                    Inl e \<Rightarrow> Inl e
                  | Inr v \<Rightarrow> Inr (bk_put uid v b)))) of
        (None, b') \<Rightarrow> (None, b')
      | (Some e, b') \<Rightarrow> (Some (Wrap ''acl: update'' e), b'))"

fun acl_unconsented_scan :: "acl_db \<Rightarrow> string list result" where
  "acl_unconsented_scan [] = Inr []"
| "acl_unconsented_scan ((k, Corrupt) # b) =
     Inl (Wrap ''acl: unmarshal record'' (ErrMsg ''invalid record''))"
| "acl_unconsented_scan ((k, Blob r) # b) =
     (case acl_unconsented_scan b of
        Inl e \<Rightarrow> Inl e
      | Inr out \<Rightarrow> Inr (if rec_Consent r \<noteq> ConsentGranted then k # out else out))"

definition acl_unconsented :: "io \<Rightarrow> acl_db \<Rightarrow> string list result" where
  "acl_unconsented io b =
     (case tx_view io b acl_unconsented_scan of
        Inl e \<Rightarrow> Inl (Wrap ''acl: list unconsented'' e)
      | Inr out \<Rightarrow> Inr out)"

text \<open>What a bucket holds for a user: the row a read would find, or nothing readable.\<close>

definition acl_row :: "acl_db \<Rightarrow> string \<Rightarrow> acl_record option" where
  "acl_row b uid =
     (case map_of b uid of None \<Rightarrow> Some (zero_record uid) | Some (Blob r) \<Rightarrow> Some r | Some Corrupt \<Rightarrow> None)"

text \<open>Every row lies under the key of the user it names, so \<^verbatim>\<open>Put\<close> writes the row it read.\<close>

definition acl_wf :: "acl_db \<Rightarrow> bool" where
  "acl_wf b \<longleftrightarrow> bk_wf b \<and> (\<forall>k r. map_of b k = Some (Blob r) \<longrightarrow> rec_UserID r = k)"

lemma acl_wf_Nil [simp]: "acl_wf []"
  by (simp add: acl_wf_def)

lemma acl_row_Nil [simp]: "acl_row [] u = Some (zero_record u)"
  by (simp add: acl_row_def)

lemma acl_row_put [store_simps]:
  "acl_row (bk_put k (Blob r) b) = (acl_row b)(k \<mapsto> r)"
  by (auto simp: acl_row_def fun_eq_iff map_of_bk_put)

lemma acl_get_row: "acl_get io b u = Inr r \<longleftrightarrow> io = Done \<and> acl_row b u = Some r"
  by (auto simp: acl_get_def tx_view_def acl_row_def split: io.splits option.splits blob.splits)

lemma acl_get_Done: "acl_row b u = Some r \<Longrightarrow> acl_get Done b u = Inr r"
  by (simp add: acl_get_row)

lemma acl_put_ok:
  "acl_put io b r = (None, b') \<longleftrightarrow>
     io = Done \<and> json_time_ok (rec_RateWindowStart r) \<and> b' = bk_put (rec_UserID r) (Blob r) b"
  by (auto simp: acl_put_def acl_marshal_def tx_update_def split: io.splits)

lemma acl_put_err: "acl_put io b r = (Some e, b') \<Longrightarrow> b' = b"
  by (auto simp: acl_put_def acl_marshal_def tx_update_def split: io.splits if_splits)

lemma acl_update_ok:
  "acl_update io b u f = (None, b') \<longleftrightarrow>
     (\<exists>r r'. io = Done \<and> acl_row b u = Some r \<and> f r = Inr r' \<and>
        json_time_ok (rec_RateWindowStart r') \<and> b' = bk_put u (Blob r') b)"
  by (auto simp: acl_update_def acl_marshal_def tx_update_def acl_row_def
      split: io.splits option.splits blob.splits sum.splits if_splits)

lemma acl_update_err: "acl_update io b u f = (Some e, b') \<Longrightarrow> b' = b"
  by (auto simp: acl_update_def tx_update_def
      split: io.splits option.splits blob.splits sum.splits)

lemma acl_row_UserID: "acl_wf b \<Longrightarrow> acl_row b u = Some r \<Longrightarrow> rec_UserID r = u"
  by (auto simp: acl_wf_def acl_row_def split: option.splits blob.splits)

lemma acl_wf_bk_put: "acl_wf b \<Longrightarrow> rec_UserID r = k \<Longrightarrow> acl_wf (bk_put k (Blob r) b)"
  by (simp add: acl_wf_def map_of_bk_put)

section \<open>The store's contract\<close>

text \<open>
  What the gate relies on of an \<^verbatim>\<open>acl.Store\<close> (the interface of \<^verbatim>\<open>acl.go\<close>): a read gives the
  user's row, a write replaces one user's row, \<^verbatim>\<open>Update\<close> applies its closure to the row it
  finds, and a call that fails changes nothing.
\<close>

locale acl_store =
  fixes get :: "'io \<Rightarrow> 's \<Rightarrow> string \<Rightarrow> acl_record result"
    and put :: "'io \<Rightarrow> 's \<Rightarrow> acl_record \<Rightarrow> error option \<times> 's"
    and update :: "'io \<Rightarrow> 's \<Rightarrow> string \<Rightarrow> (acl_record \<Rightarrow> acl_record result) \<Rightarrow> error option \<times> 's"
    and row :: "'s \<Rightarrow> string \<Rightarrow> acl_record option"
    and keyed :: "'s \<Rightarrow> bool"
  assumes get_row: "get io s u = Inr r \<Longrightarrow> row s u = Some r"
    and put_row: "put io s r = (None, s') \<Longrightarrow> row s' = (row s)(rec_UserID r \<mapsto> r)"
    and put_err: "put io s r = (Some e, s') \<Longrightarrow> s' = s"
    and update_row: "update io s u f = (None, s') \<Longrightarrow>
          \<exists>r r'. row s u = Some r \<and> f r = Inr r' \<and> row s' = (row s)(u \<mapsto> r')"
    and update_err: "update io s u f = (Some e, s') \<Longrightarrow> s' = s"
    and keyed_row: "keyed s \<Longrightarrow> row s u = Some r \<Longrightarrow> rec_UserID r = u"
    and keyed_put: "keyed s \<Longrightarrow> put io s r = (ee, s') \<Longrightarrow> keyed s'"
    and keyed_update: "keyed s \<Longrightarrow> (\<And>r r'. f r = Inr r' \<Longrightarrow> rec_UserID r' = rec_UserID r) \<Longrightarrow>
          update io s u f = (ee, s') \<Longrightarrow> keyed s'"
begin

lemma get_put:
  assumes "put io s r = (None, s')" and "get io' s' u = Inr x"
  shows "x = r \<and> u = rec_UserID r \<or> u \<noteq> rec_UserID r \<and> row s u = Some x"
  using put_row [OF assms(1)] get_row [OF assms(2)] by (auto split: if_splits)

lemma get_update:
  assumes "update io s u f = (None, s')" and "get io' s' u = Inr x"
  shows "\<exists>r. row s u = Some r \<and> f r = Inr x"
  using update_row [OF assms(1)] get_row [OF assms(2)] by auto

lemma update_others:
  assumes "update io s u f = (ee, s')" and "v \<noteq> u"
  shows "row s' v = row s v"
proof (cases ee)
  case None
  with assms show ?thesis by (auto dest!: update_row)
next
  case (Some e)
  with assms show ?thesis by (auto dest: update_err)
qed

text \<open>
  A read, another writer's \<^verbatim>\<open>Update\<close> of the same row, then a write of the row read at first:
  the \<^verbatim>\<open>Update\<close> is gone.
\<close>

lemma lost_update:
  assumes "keyed s" and "get i1 s u = Inr r"
    and "update i2 s u f = (None, s1)"
    and "rec_UserID r' = rec_UserID r" and "put i3 s1 r' = (None, s2)"
  shows "row s2 u = Some r'"
  using keyed_row [OF assms(1) get_row [OF assms(2)]] put_row [OF assms(5)] assms(4) by simp

text \<open>Two \<^verbatim>\<open>Update\<close>s of one row compose: neither is lost.\<close>

lemma updates_compose:
  assumes "update i1 s u f = (None, s1)" and "update i2 s1 u g = (None, s2)"
  shows "\<exists>r r1 r2. row s u = Some r \<and> f r = Inr r1 \<and> g r1 = Inr r2 \<and> row s2 u = Some r2"
  using update_row [OF assms(1)] update_row [OF assms(2)] by fastforce

end

interpretation acl_bolt: acl_store acl_get acl_put acl_update acl_row acl_wf
proof (unfold_locales, goal_cases)
  case 1 then show ?case by (simp add: acl_get_row)
next
  case 2 then show ?case by (auto simp: acl_put_ok acl_row_put)
next
  case 3 then show ?case by (rule acl_put_err)
next
  case 4 then show ?case by (auto simp: acl_update_ok acl_row_put)
next
  case 5 then show ?case by (rule acl_update_err)
next
  case 6 then show ?case by (rule acl_row_UserID)
next
  case (7 s io r ee s')
  then show ?case by (cases ee) (auto simp: acl_put_ok acl_wf_bk_put dest: acl_put_err)
next
  case (8 s f io u ee s')
  show ?case
  proof (cases ee)
    case None
    with 8 obtain r r' where "acl_row s u = Some r" "f r = Inr r'" "s' = bk_put u (Blob r') s"
      by (auto simp: acl_update_ok)
    with 8 show ?thesis by (metis acl_row_UserID acl_wf_bk_put)
  next
    case (Some e)
    with 8 show ?thesis by (auto dest: acl_update_err)
  qed
qed

section \<open>The gate (acl.go)\<close>

record gate =
  g_defTier :: tier
  g_cooldown :: duration
  g_nudged :: "string \<rightharpoonup> time"

definition new_gate :: "tier \<Rightarrow> gate" where
  "new_gate t = \<lparr>g_defTier = t, g_cooldown = 0, g_nudged = Map.empty\<rparr>"

definition with_nudge_cooldown :: "gate \<Rightarrow> duration \<Rightarrow> gate" where
  "with_nudge_cooldown g cooldown = g\<lparr>g_cooldown := cooldown\<rparr>"

text \<open>The windows that have not passed at \<open>now\<close>: what the pruning loop of \<^verbatim>\<open>nudge\<close> leaves.\<close>

definition nudge_live :: "time \<Rightarrow> duration \<Rightarrow> (string \<rightharpoonup> time) \<Rightarrow> string \<rightharpoonup> time" where
  "nudge_live now cooldown m =
     (\<lambda>id. case m id of None \<Rightarrow> None
        | Some at \<Rightarrow> if time_sub now at \<ge> cooldown then None else Some at)"

definition gate_nudge :: "time \<Rightarrow> gate \<Rightarrow> string \<Rightarrow> decision \<times> gate" where
  "gate_nudge now g uid =
     (if g_cooldown g \<le> 0 then (DecideNudge, g)
      else let live = nudge_live now (g_cooldown g) (g_nudged g) in
        if live uid \<noteq> None then (DecideSilent, g\<lparr>g_nudged := live\<rparr>)
        else (DecideNudge, g\<lparr>g_nudged := live(uid \<mapsto> now)\<rparr>))"

definition rateWindow :: duration where
  "rateWindow = hour"

definition unlimitedRate :: int where
  "unlimitedRate = -1"

definition tierAllowance :: "tier \<rightharpoonup> int" where
  "tierAllowance = [TierUnlimited \<mapsto> unlimitedRate, TierAdmin \<mapsto> unlimitedRate,
     TierTrusted \<mapsto> 120, TierDefault \<mapsto> 30, TierThrottled \<mapsto> 5]"

definition allowanceFor :: "tier \<Rightarrow> int" where
  "allowanceFor t = (case tierAllowance t of Some a \<Rightarrow> a | None \<Rightarrow> the (tierAllowance TierDefault))"

definition resolveTier :: "gate \<Rightarrow> acl_record \<Rightarrow> tier" where
  "resolveTier g r = (if rec_Tier r \<noteq> [] then rec_Tier r else g_defTier g)"

record gate_input =
  gi_User :: user
  gi_Surface :: surface
  gi_Directed :: bool

text \<open>The rate window \<^verbatim>\<open>Check\<close> counts in: the row's, or a fresh one when that has passed.\<close>

definition roll_window :: "time \<Rightarrow> acl_record \<Rightarrow> acl_record" where
  "roll_window now r =
     (if is_zero (rec_RateWindowStart r) \<or> time_sub now (rec_RateWindowStart r) \<ge> rateWindow
      then r\<lparr>rec_RateWindowStart := now, rec_RateCount := 0\<rparr> else r)"

text \<open>
  \<^verbatim>\<open>Check\<close> between its read and its write: either it settles on a decision, or it has a row
  to write before it serves.
\<close>

datatype verdict = Settled decision | Write acl_record

definition check_decide :: "time \<Rightarrow> gate \<Rightarrow> acl_record \<Rightarrow> gate_input \<Rightarrow> verdict \<times> gate" where
  "check_decide now g r inp =
     (if rec_Consent r = ConsentDeclined then (Settled DecideSilent, g)
      else if rec_Consent r \<noteq> ConsentGranted then
        (if gi_Directed inp then
           (case gate_nudge now g (u_ID (gi_User inp)) of (d, g') \<Rightarrow> (Settled d, g'))
         else (Settled DecideSilent, g))
      else if \<not> gi_Directed inp then (Settled DecideLogOnly, g)
      else
        let allow = allowanceFor (resolveTier g r); r1 = roll_window now r
        in if allow \<noteq> unlimitedRate \<and> rec_RateCount r1 \<ge> allow
           then (Settled DecideRateLimited, g)
           else (Write (r1\<lparr>rec_RateCount := rec_RateCount r1 + 1\<rparr>), g))"

definition check ::
    "io \<Rightarrow> io \<Rightarrow> time \<Rightarrow> gate \<Rightarrow> acl_db \<Rightarrow> gate_input \<Rightarrow> (decision \<times> error option) \<times> gate \<times> acl_db" where
  "check io_get io_put now g b inp =
     (case acl_get io_get b (u_ID (gi_User inp)) of
        Inl e \<Rightarrow> ((DecideRefuse, Some e), g, b)
      | Inr r \<Rightarrow> (case check_decide now g r inp of
            (Settled d, g') \<Rightarrow> ((d, None), g', b)
          | (Write r', g') \<Rightarrow> (case acl_put io_put b r' of
                (Some e, b') \<Rightarrow> ((DecideRefuse, Some e), g', b')
              | (None, b') \<Rightarrow> ((DecideServe, None), g', b'))))"

section \<open>Authority (authority.go)\<close>

definition tierAuthority :: "tier \<rightharpoonup> int" where
  "tierAuthority = [TierThrottled \<mapsto> 0, TierDefault \<mapsto> 1, TierTrusted \<mapsto> 2,
     TierUnlimited \<mapsto> 3, TierAdmin \<mapsto> 4]"

definition ValidTier :: "tier \<Rightarrow> bool" where
  "ValidTier t \<longleftrightarrow> tierAuthority t \<noteq> None"

definition AtLeast :: "tier \<Rightarrow> tier \<Rightarrow> bool" where
  "AtLeast have_t want =
     (case tierAuthority want of None \<Rightarrow> False
      | Some w \<Rightarrow> (case tierAuthority have_t of None \<Rightarrow> 0 | Some h \<Rightarrow> h) \<ge> w)"

definition Authorize :: "io \<Rightarrow> gate \<Rightarrow> acl_db \<Rightarrow> user \<Rightarrow> tier \<Rightarrow> bool result" where
  "Authorize io g b usr minTier =
     (case acl_get io b (u_ID usr) of
        Inl e \<Rightarrow> Inl e
      | Inr r \<Rightarrow> Inr (AtLeast (resolveTier g r) minTier))"

definition SetConsent :: "io \<Rightarrow> acl_db \<Rightarrow> string \<Rightarrow> consent \<Rightarrow> error option \<times> acl_db" where
  "SetConsent io b uid c = acl_update io b uid (\<lambda>r. Inr (r\<lparr>rec_Consent := c\<rparr>))"

definition ConsentOf :: "io \<Rightarrow> acl_db \<Rightarrow> string \<Rightarrow> consent result" where
  "ConsentOf io b uid =
     (case acl_get io b uid of Inl e \<Rightarrow> Inl e | Inr r \<Rightarrow> Inr (rec_Consent r))"

definition SetTier :: "io \<Rightarrow> acl_db \<Rightarrow> string \<Rightarrow> tier \<Rightarrow> error option \<times> acl_db" where
  "SetTier io b uid t =
     (if \<not> ValidTier t then (Some ErrUnknownTier, b)
      else acl_update io b uid (\<lambda>r. Inr (r\<lparr>rec_Tier := t\<rparr>)))"

end
