(* ===== verification/Acl_Props.thy ===== *)
theory Acl_Props
  imports Acl
begin

text \<open>
  What the gate of theory \<open>Acl\<close> guarantees: which decision each state leads to, that nothing
  is written for an unconsented user, the nudge cooldown, the rate limit over a run of
  checks, how a check races with a withdrawal, and the fail-closed authority order.
\<close>

section \<open>One check\<close>

lemma roll_window_fields [simp]:
  "rec_UserID (roll_window now r) = rec_UserID r" "rec_Tier (roll_window now r) = rec_Tier r"
  "rec_Consent (roll_window now r) = rec_Consent r"
  by (simp_all add: roll_window_def)

lemma gate_nudge_decision: "fst (gate_nudge now g u) \<in> {DecideNudge, DecideSilent}"
  by (simp add: gate_nudge_def Let_def)

lemma gate_nudge_config:
  "gate_nudge now g u = (d, g') \<Longrightarrow> g_defTier g' = g_defTier g \<and> g_cooldown g' = g_cooldown g"
  by (auto simp: gate_nudge_def Let_def split: if_splits)

lemma check_decide_config:
  "check_decide now g r inp = (v, g') \<Longrightarrow> g_defTier g' = g_defTier g \<and> g_cooldown g' = g_cooldown g"
  using gate_nudge_config by (fastforce simp: check_decide_def Let_def split: if_splits prod.splits)

lemma resolveTier_config: "g_defTier g' = g_defTier g \<Longrightarrow> rec_Tier r' = rec_Tier r \<Longrightarrow>
    resolveTier g' r' = resolveTier g r"
  by (simp add: resolveTier_def)

lemma check_decide_Write:
  "check_decide now g r inp = (Write r', g') \<longleftrightarrow>
     rec_Consent r = ConsentGranted \<and> gi_Directed inp \<and> g' = g \<and>
     (allowanceFor (resolveTier g r) = unlimitedRate \<or>
      rec_RateCount (roll_window now r) < allowanceFor (resolveTier g r)) \<and>
     r' = (roll_window now r)\<lparr>rec_RateCount := rec_RateCount (roll_window now r) + 1\<rparr>"
  by (auto simp: check_decide_def Let_def split: prod.splits)

lemma check_decide_Settled: "check_decide now g r inp = (Settled d, g') \<Longrightarrow> d \<noteq> DecideServe"
  using gate_nudge_decision [of now g "u_ID (gi_User inp)"]
  by (auto simp: check_decide_def Let_def split: if_splits prod.splits)

definition served_row :: "time \<Rightarrow> acl_record \<Rightarrow> acl_record" where
  "served_row now r = (roll_window now r)\<lparr>rec_RateCount := rec_RateCount (roll_window now r) + 1\<rparr>"

lemma served_row_fields [simp]:
  "rec_UserID (served_row now r) = rec_UserID r" "rec_Tier (served_row now r) = rec_Tier r"
  "rec_Consent (served_row now r) = rec_Consent r"
  "rec_RateCount (served_row now r) = rec_RateCount (roll_window now r) + 1"
  "rec_RateWindowStart (served_row now r) = rec_RateWindowStart (roll_window now r)"
  by (simp_all add: served_row_def)

lemma check_not_serve:
  assumes "check ig ip now g b inp = ((d, e), g', b')" and "d \<noteq> DecideServe"
  shows "b' = b"
  using assms
  by (auto simp: check_def split: sum.splits verdict.splits prod.splits option.splits
      dest: acl_put_err)

lemma check_serve:
  assumes "check ig ip now g b inp = ((DecideServe, e), g', b')"
  obtains r where "acl_row b (u_ID (gi_User inp)) = Some r" "rec_Consent r = ConsentGranted"
    "gi_Directed inp" "e = None"
    "allowanceFor (resolveTier g r) = unlimitedRate \<or>
      rec_RateCount (roll_window now r) < allowanceFor (resolveTier g r)"
    "b' = bk_put (rec_UserID r) (Blob (served_row now r)) b"
  using assms that
  by (auto simp: check_def check_decide_Write acl_get_row acl_put_ok served_row_def
      split: sum.splits verdict.splits prod.splits option.splits dest: check_decide_Settled)

lemma check_config:
  "check ig ip now g b inp = (de, g', b') \<Longrightarrow> g_defTier g' = g_defTier g \<and> g_cooldown g' = g_cooldown g"
  by (auto simp: check_def split: sum.splits verdict.splits prod.splits option.splits
      dest: check_decide_config)

lemma check_wf:
  assumes "acl_wf b" and "check ig ip now g b inp = (de, g', b')"
  shows "acl_wf b'"
proof (cases "fst de = DecideServe")
  case True
  with assms(2) obtain e where c: "check ig ip now g b inp = ((DecideServe, e), g', b')"
    by (cases de) auto
  then show ?thesis by (rule check_serve) (simp add: acl_wf_bk_put assms(1))
next
  case False
  with assms show ?thesis using check_not_serve by (metis prod.collapse)
qed

lemma check_other_rows:
  assumes wf: "acl_wf b" and c: "check ig ip now g b inp = (de, g', b')" and "v \<noteq> u_ID (gi_User inp)"
  shows "acl_row b' v = acl_row b v"
proof (cases "fst de = DecideServe")
  case True
  with c obtain e where c: "check ig ip now g b inp = ((DecideServe, e), g', b')"
    by (cases de) auto
  then show ?thesis
    by (rule check_serve) (use assms in \<open>auto simp: acl_row_put dest: acl_row_UserID\<close>)
next
  case False
  with c show ?thesis using check_not_serve by (metis prod.collapse)
qed

lemma check_served_row:
  assumes "acl_wf b" and "check ig ip now g b inp = ((DecideServe, e), g', b')"
  shows "acl_row b' (u_ID (gi_User inp)) =
    map_option (served_row now) (acl_row b (u_ID (gi_User inp)))"
  using assms(2) by (rule check_serve) (use assms(1) in \<open>auto simp: acl_row_put dest: acl_row_UserID\<close>)


lemma unconsented_raw:
  assumes "acl_row b (u_ID (gi_User inp)) = Some r" and "rec_Consent r \<noteq> ConsentGranted"
    and "check Done ip now g b inp = ((d, e), g', b')"
  shows "b' = b \<and> d \<in> {DecideNudge, DecideSilent} \<and> e = None"
  using assms gate_nudge_decision [of now g "u_ID (gi_User inp)"]
  by (auto simp: check_def acl_get_Done check_decide_def Let_def split: if_splits prod.splits)

lemma check_fails_closed_raw:
  "acl_get ig b (u_ID (gi_User inp)) = Inl err \<Longrightarrow>
     check ig ip now g b inp = ((DecideRefuse, Some err), g, b)"
  by (simp add: check_def)

text \<open>Whatever an unconsented user sends, the gate writes nothing to the store and answers
  with a nudge or with silence; a user who declined is never nudged, and an undirected
  message is never nudged either.\<close>

theorem unconsented_writes_nothing:
  assumes "acl_row b (u_ID (gi_User inp)) = Some r" and "rec_Consent r \<noteq> ConsentGranted"
    and "check Done ip now g b inp = ((d, e), g', b')"
  shows "b' = b \<and> d \<in> {DecideNudge, DecideSilent} \<and> e = None \<and>
    (rec_Consent r = ConsentDeclined \<or> \<not> gi_Directed inp \<longrightarrow> d = DecideSilent \<and> g' = g)"
  using assms gate_nudge_decision [of now g "u_ID (gi_User inp)"]
  by (auto simp: check_def acl_get_Done check_decide_def Let_def split: if_splits prod.splits)

theorem unconsented_writes_nothing_witness:
  "fst (fst (check Done Done 5 (new_gate TierDefault) []
     \<lparr>gi_User = \<lparr>u_ID = ''42'', u_Display = ''a''\<rparr>, gi_Surface = SurfaceGroup, gi_Directed = True\<rparr>))
   \<in> {DecideNudge, DecideSilent}"
  (is "fst (fst ?c) \<in> _")
proof -
  obtain d e g' b' where c: "?c = ((d, e), g', b')" by (metis prod.exhaust)
  then show ?thesis
    using unconsented_writes_nothing [OF _ _ c, of "zero_record ''42''"] by simp
qed

text \<open>When the row cannot be read the gate refuses: nobody is served on an unknown state.\<close>

theorem check_fails_closed:
  assumes "acl_get ig b (u_ID (gi_User inp)) = Inl err"
  shows "check ig ip now g b inp = ((DecideRefuse, Some err), g, b)"
  using assms by (simp add: check_def)

theorem check_fails_closed_witness:
  "check (Failed (ErrMsg ''io'')) Done 0 (new_gate TierDefault) []
     \<lparr>gi_User = \<lparr>u_ID = ''42'', u_Display = ''a''\<rparr>, gi_Surface = SurfaceGroup, gi_Directed = True\<rparr>
   = ((DecideRefuse, Some (Wrap ''acl: get'' (ErrMsg ''io''))), new_gate TierDefault, [])"
  by (rule check_fails_closed) (simp add: acl_get_def tx_view_def)

section \<open>The rate limit over a run\<close>

text \<open>A check as it happens: what its two store calls did, the clock, and the message.\<close>

type_synonym check_event = "io \<times> io \<times> time \<times> gate_input"

fun served :: "string \<Rightarrow> gate \<Rightarrow> acl_db \<Rightarrow> check_event list \<Rightarrow> int" where
  "served u g b [] = 0"
| "served u g b ((ig, ip, t, inp) # es) =
     (case check ig ip t g b inp of ((d, e), g', b') \<Rightarrow>
        (if d = DecideServe \<and> u_ID (gi_User inp) = u then 1 else 0) + served u g' b' es)"

lemma served_nonneg: "0 \<le> served u g b es"
  by (induction es arbitrary: g b) (auto split: prod.splits)

lemma rateWindow_hour [simp]: "rateWindow = hour"
  by (simp add: rateWindow_def)

lemma roll_window_keep:
  assumes "t0 \<le> rec_RateWindowStart r" and "0 < t0" and "t < t0 + hour"
  shows "roll_window t r = r"
proof -
  have "t < rec_RateWindowStart r + hour" using assms by linarith
  then show ?thesis
    using assms by (simp add: roll_window_def is_zero_def time_sub_ge_iff)
qed

lemma roll_window_cases:
  obtains "roll_window t r = r" | "rec_RateWindowStart (roll_window t r) = t" "rec_RateCount (roll_window t r) = 0"
  by (cases "is_zero (rec_RateWindowStart r) \<or> time_sub t (rec_RateWindowStart r) \<ge> rateWindow")
    (auto simp: roll_window_def)

text \<open>
  One step of a run, from the point of view of user \<open>u\<close>: either \<open>u\<close> is not served and the
  row of \<open>u\<close> is as it was, or \<open>u\<close> is served within the allowance and the row counts it.
\<close>

lemma served_step:
  assumes wf: "acl_wf b" and row: "acl_row b u = Some r"
    and c: "check ig ip t g b inp = ((d, e), g', b')"
    and lim: "allowanceFor (resolveTier g r) = a" "a \<noteq> unlimitedRate"
  shows "(\<not> (d = DecideServe \<and> u_ID (gi_User inp) = u) \<and> acl_row b' u = Some r) \<or>
         (d = DecideServe \<and> u_ID (gi_User inp) = u \<and> acl_row b' u = Some (served_row t r) \<and>
          rec_RateCount (roll_window t r) < a)"
proof (cases "d = DecideServe \<and> u_ID (gi_User inp) = u")
  case True
  then have c': "check ig ip t g b inp = ((DecideServe, e), g', b')" and u: "u_ID (gi_User inp) = u"
    using c by auto
  from c' have "rec_RateCount (roll_window t r) < a"
    by (rule check_serve) (use u row lim in auto)
  moreover have "acl_row b' u = Some (served_row t r)"
    using check_served_row [OF wf c'] u row by simp
  ultimately show ?thesis using True by blast
next
  case False
  then have "acl_row b' u = acl_row b u"
    using check_other_rows [OF wf c] check_not_serve [OF c] by (cases "u_ID (gi_User inp) = u") auto
  with row have "acl_row b' u = Some r" by simp
  with False show ?thesis by blast
qed

lemma served_in_window:
  assumes "acl_wf b" and "acl_row b u = Some r"
    and "allowanceFor (resolveTier g r) = a" "a \<noteq> unlimitedRate"
    and "0 < t0" and "t0 \<le> rec_RateWindowStart r"
    and "\<And>ig ip t inp. (ig, ip, t, inp) \<in> set es \<Longrightarrow> t < t0 + hour"
  shows "served u g b es \<le> max 0 (a - rec_RateCount r)"
  using assms
proof (induction es arbitrary: g b r)
  case Nil
  then show ?case by simp
next
  case (Cons ev es)
  obtain ig ip t inp where ev: "ev = (ig, ip, t, inp)" by (metis prod.exhaust)
  obtain d e g' b' where c: "check ig ip t g b inp = ((d, e), g', b')" by (metis prod.exhaust)
  have keep: "roll_window t r = r"
    using Cons.prems(5,6) Cons.prems(7) [of ig ip t inp] ev by (intro roll_window_keep) auto
  have wf': "acl_wf b'" using Cons.prems(1) c by (rule check_wf)
  have res: "allowanceFor (resolveTier g' r') = a" if "rec_Tier r' = rec_Tier r" for r'
    using resolveTier_config [of g' g r' r] check_config [OF c] that Cons.prems(3) by simp
  have later: "\<And>ig ip t inp. (ig, ip, t, inp) \<in> set es \<Longrightarrow> t < t0 + hour"
    using Cons.prems(7) by auto
  from served_step [OF Cons.prems(1,2) c Cons.prems(3,4)] show ?case
  proof (elim disjE conjE)
    assume n: "\<not> (d = DecideServe \<and> u_ID (gi_User inp) = u)" and r': "acl_row b' u = Some r"
    have "served u g' b' es \<le> max 0 (a - rec_RateCount r)"
      by (rule Cons.IH [OF wf' r' res Cons.prems(4,5,6) later]) simp
    with n show ?thesis by (auto simp: ev c)
  next
    assume s: "d = DecideServe" "u_ID (gi_User inp) = u" and r': "acl_row b' u = Some (served_row t r)"
      and lt: "rec_RateCount (roll_window t r) < a"
    have "served u g' b' es \<le> max 0 (a - rec_RateCount (served_row t r))"
      by (rule Cons.IH [OF wf' r' res Cons.prems(4,5) _ later]) (use keep Cons.prems(6) in auto)
    with s lt show ?thesis by (simp add: ev c keep)
  qed
qed


definition demo_input :: gate_input where
  "demo_input = \<lparr>gi_User = \<lparr>u_ID = ''42'', u_Display = ''a''\<rparr>, gi_Surface = SurfaceGroup, gi_Directed = True\<rparr>"


section \<open>The nudge cooldown\<close>

text \<open>A run of \<^verbatim>\<open>nudge\<close> calls, each with its clock and its user, and what each decided.\<close>

fun nudge_run :: "gate \<Rightarrow> (time \<times> string) list \<Rightarrow> decision list" where
  "nudge_run g [] = []"
| "nudge_run g ((t, u) # es) = (case gate_nudge t g u of (d, g') \<Rightarrow> d # nudge_run g' es)"

lemma length_nudge_run [simp]: "length (nudge_run g es) = length es"
  by (induction es arbitrary: g) (auto split: prod.splits)

lemma nudge_run_take: "nudge_run g (take n es) = take n (nudge_run g es)"
  by (induction g es arbitrary: n rule: nudge_run.induct) (auto simp: take_Cons' split: prod.splits)

text \<open>A window that has not passed silences its user, whoever else is nudged meanwhile.\<close>

lemma nudge_window_silent:
  assumes "g_nudged g u = Some t0" and "0 < g_cooldown g" "g_cooldown g \<le> max_duration"
    and "\<And>t v. (t, v) \<in> set es \<Longrightarrow> t < t0 + g_cooldown g"
    and "i < length es" and "snd (es ! i) = u"
  shows "nudge_run g es ! i = DecideSilent"
  using assms
proof (induction es arbitrary: g i)
  case Nil
  then show ?case by simp
next
  case (Cons ev es)
  obtain t v where ev: "ev = (t, v)" by (cases ev)
  obtain d g' where n: "gate_nudge t g v = (d, g')" by (cases "gate_nudge t g v")
  have "t < t0 + g_cooldown g" using Cons.prems(4) [of t v] ev by simp
  then have live: "nudge_live t (g_cooldown g) (g_nudged g) u = Some t0"
    using Cons.prems(1-3) by (simp add: nudge_live_def time_sub_ge_iff)
  have g': "g_nudged g' u = Some t0"
    using n live Cons.prems(2) by (auto simp: gate_nudge_def Let_def split: if_splits)
  have d: "v = u \<Longrightarrow> d = DecideSilent"
    using n live Cons.prems(2) by (auto simp: gate_nudge_def Let_def split: if_splits)
  have cd: "g_cooldown g' = g_cooldown g" using gate_nudge_config [OF n] by simp
  show ?case
  proof (cases i)
    case 0
    with Cons.prems(6) d ev n show ?thesis by simp
  next
    case (Suc j)
    have later: "t < t0 + g_cooldown g'" if "(t, v) \<in> set es" for t v
      using Cons.prems(4) [of t v] that cd by simp
    have "nudge_run g' es ! j = DecideSilent"
      by (rule Cons.IH [OF g' _ _ later]) (use Cons.prems(2,3,5,6) cd Suc in auto)
    with Suc ev n show ?thesis by simp
  qed
qed

lemma nudged_sets_window:
  "gate_nudge t g u = (DecideNudge, g') \<Longrightarrow> 0 < g_cooldown g \<Longrightarrow> g_nudged g' u = Some t"
  by (auto simp: gate_nudge_def Let_def split: if_splits)

text \<open>With a cooldown, one user is nudged at most once per cooldown, across chats and
  whatever other users are nudged in between: of two nudges of one user the later one
  comes at least a cooldown after the earlier one.\<close>

theorem nudge_spacing:
  assumes "0 < g_cooldown g" "g_cooldown g \<le> max_duration"
    and "sorted (map fst es)" and "i < j" "j < length es"
    and "snd (es ! i) = u" "snd (es ! j) = u"
    and "nudge_run g es ! i = DecideNudge" "nudge_run g es ! j = DecideNudge"
  shows "fst (es ! i) + g_cooldown g \<le> fst (es ! j)"
  using assms
proof (induction es arbitrary: g i j)
  case Nil
  then show ?case by simp
next
  case (Cons ev es)
  obtain t v where ev: "ev = (t, v)" by (cases ev)
  obtain d g' where n: "gate_nudge t g v = (d, g')" by (cases "gate_nudge t g v")
  have cd: "g_cooldown g' = g_cooldown g" using gate_nudge_config [OF n] by simp
  obtain k where j: "j = Suc k" using Cons.prems(4) by (cases j) auto
  show ?case
  proof (cases i)
    case (Suc m)
    have "fst (es ! m) + g_cooldown g' \<le> fst (es ! k)"
      by (rule Cons.IH) (use Cons.prems Suc j cd ev n in auto)
    with Suc j cd show ?thesis by simp
  next
    case 0
    then have w: "g_nudged g' u = Some t"
      using Cons.prems(1,6,8) ev n nudged_sets_window [of t g v g'] by auto
    show ?thesis
    proof (rule ccontr)
      assume "\<not> ?thesis"
      then have early: "fst (es ! k) < t + g_cooldown g" using 0 j ev by simp
      have sorted: "sorted (map fst es)" using Cons.prems(3) ev by simp
      have k: "k < length es" "snd (es ! k) = u" using Cons.prems(5,7) j by simp_all
      have before: "t' < t + g_cooldown g'" if "(t', v') \<in> set (take (Suc k) es)" for t' v'
      proof -
        from that obtain l where l: "l < Suc k" "l < length es" "es ! l = (t', v')"
          by (auto simp: in_set_conv_nth)
        then have "t' \<le> fst (es ! k)"
          using sorted_nth_mono [OF sorted, of l k] k by simp
        with early cd show ?thesis by simp
      qed
      have "nudge_run g' (take (Suc k) es) ! k = DecideSilent"
        by (rule nudge_window_silent [OF w _ _ before]) (use Cons.prems(1,2) cd k in auto)
      then have "nudge_run g' es ! k = DecideSilent" by (simp add: nudge_run_take)
      then show False using Cons.prems(9) j ev n by simp
    qed
  qed
qed

theorem nudge_spacing_witness:
  "fst ([(1::time, ''42''), (5, ''7''), (1 + hour, ''42'')] ! 0) + hour
     \<le> fst ([(1::time, ''42''), (5, ''7''), (1 + hour, ''42'')] ! 2)"
proof -
  let ?g = "with_nudge_cooldown (new_gate TierDefault) hour"
  show ?thesis
    using nudge_spacing [of ?g "[(1, ''42''), (5, ''7''), (1 + hour, ''42'')]" 0 2 "''42''"]
    by (simp add: with_nudge_cooldown_def new_gate_def gate_nudge_def nudge_live_def Let_def
        time_sub_def duration_bounds duration_defs)
qed

section \<open>A check against a withdrawal\<close>

text \<open>
  \<^verbatim>\<open>Check\<close> is a read and a write, not one transaction. \<open>check_read\<close> is its first half, up to
  the row it would write, and \<open>check_write\<close> its second half; another call can run between
  them.
\<close>

definition check_read :: "io \<Rightarrow> time \<Rightarrow> gate \<Rightarrow> acl_db \<Rightarrow> gate_input \<Rightarrow> (error + verdict) \<times> gate" where
  "check_read io now g b inp =
     (case acl_get io b (u_ID (gi_User inp)) of
        Inl e \<Rightarrow> (Inl e, g)
      | Inr r \<Rightarrow> (case check_decide now g r inp of (v, g') \<Rightarrow> (Inr v, g')))"

definition check_write :: "io \<Rightarrow> error + verdict \<Rightarrow> acl_db \<Rightarrow> (decision \<times> error option) \<times> acl_db" where
  "check_write io v b =
     (case v of Inl e \<Rightarrow> ((DecideRefuse, Some e), b)
      | Inr (Settled d) \<Rightarrow> ((d, None), b)
      | Inr (Write r) \<Rightarrow> (case acl_put io b r of
            (Some e, b') \<Rightarrow> ((DecideRefuse, Some e), b')
          | (None, b') \<Rightarrow> ((DecideServe, None), b')))"

lemma check_split:
  "check ig ip now g b inp =
     (case check_read ig now g b inp of (v, g') \<Rightarrow>
        (case check_write ip v b of (de, b') \<Rightarrow> (de, g', b')))"
  by (auto simp: check_def check_read_def check_write_def split: sum.splits verdict.splits
      prod.splits option.splits)

text \<open>A check and a withdrawal race, and the withdrawal can be lost: when a user's
  \<^verbatim>\<open>SetConsent(declined)\<close> commits between the read and the write of a check that serves the
  same user, the check's write puts the consent it read back, so the user who declined is
  on record as having consented. (Each call alone is a transaction; \<^verbatim>\<open>Check\<close> is two.)\<close>

theorem check_overwrites_withdrawal:
  assumes "acl_wf b" and "check_read ig now g b inp = (Inr (Write r'), g')"
    and "SetConsent iu b (u_ID (gi_User inp)) ConsentDeclined = (None, b1)"
    and "check_write ip (Inr (Write r')) b1 = (de, b2)" and "fst de = DecideServe"
  shows "acl_row b1 (u_ID (gi_User inp)) \<noteq> acl_row b2 (u_ID (gi_User inp)) \<and>
    ConsentOf Done b1 (u_ID (gi_User inp)) = Inr ConsentDeclined \<and>
    ConsentOf Done b2 (u_ID (gi_User inp)) = Inr ConsentGranted"
proof -
  let ?u = "u_ID (gi_User inp)"
  obtain r where get: "acl_get ig b ?u = Inr r" and d: "check_decide now g r inp = (Write r', g')"
    using assms(2) by (auto simp: check_read_def split: sum.splits prod.splits)
  have r': "rec_UserID r' = rec_UserID r" "rec_Consent r' = ConsentGranted"
    using d by (auto simp: check_decide_Write)
  have put: "acl_put ip b1 r' = (None, b2)"
    using assms(4,5) by (auto simp: check_write_def split: prod.splits option.splits)
  have b1: "\<exists>r1. acl_row b1 ?u = Some r1 \<and> rec_Consent r1 = ConsentDeclined"
    using acl_bolt.update_row [OF assms(3) [unfolded SetConsent_def]] by auto
  have "acl_row b2 ?u = Some r'"
    by (rule acl_bolt.lost_update [OF assms(1) get assms(3) [unfolded SetConsent_def] r'(1) put])
  with b1 r' show ?thesis by (auto simp: ConsentOf_def acl_get_Done)
qed

theorem check_overwrites_withdrawal_witness:
  "\<exists>b1 b2. SetConsent Done [(''42'', Blob ((zero_record ''42'')\<lparr>rec_Consent := ConsentGranted\<rparr>))]
       ''42'' ConsentDeclined = (None, b1) \<and>
     ConsentOf Done b1 ''42'' = Inr ConsentDeclined \<and> ConsentOf Done b2 ''42'' = Inr ConsentGranted"
proof -
  let ?r = "(zero_record ''42'')\<lparr>rec_Consent := ConsentGranted\<rparr>"
  let ?r' = "?r\<lparr>rec_RateWindowStart := 7, rec_RateCount := 1\<rparr>"
  let ?b = "[(''42'', Blob ?r)]"
  let ?b1 = "[(''42'', Blob (?r\<lparr>rec_Consent := ConsentDeclined\<rparr>))]"
  let ?b2 = "[(''42'', Blob ?r')]"
  have rd: "check_read Done 7 (new_gate TierDefault) ?b demo_input = (Inr (Write ?r'), new_gate TierDefault)"
    by (simp add: check_read_def acl_get_def demo_input_def check_decide_def resolveTier_def new_gate_def
        allowanceFor_def tierAllowance_def tier_defs unlimitedRate_def roll_window_def is_zero_def
        Let_def zero_record_def)
  have wd: "SetConsent Done ?b ''42'' ConsentDeclined = (None, ?b1)"
    by (simp add: SetConsent_def acl_update_def tx_update_def acl_marshal_def zero_record_def
        json_time_ok_def duration_defs)
  have wr: "check_write Done (Inr (Write ?r')) ?b1 = ((DecideServe, None), ?b2)"
    by (simp add: check_write_def acl_put_def tx_update_def acl_marshal_def zero_record_def
        json_time_ok_def duration_defs)
  have wf: "acl_wf ?b" by (simp add: acl_wf_def bk_wf_def)
  have u: "u_ID (gi_User demo_input) = ''42''" by (simp add: demo_input_def)
  show ?thesis
    using check_overwrites_withdrawal [OF wf rd _ wr, unfolded u, OF wd] wd by auto
qed

section \<open>Authority\<close>

lemma tierAuthority_None: "tierAuthority t = None \<longleftrightarrow>
    t \<notin> {TierThrottled, TierDefault, TierTrusted, TierUnlimited, TierAdmin}"
  by (auto simp: tierAuthority_def)

lemma AtLeast_admin: "AtLeast t TierAdmin \<longleftrightarrow> t = TierAdmin"
  by (auto simp: AtLeast_def tierAuthority_def tier_defs)

lemma AtLeast_unknown: "\<not> ValidTier t \<Longrightarrow> \<not> AtLeast h t"
  by (auto simp: AtLeast_def ValidTier_def)

text \<open>An admin-gated action is authorized exactly for the users whose tier, read fresh
  (the row's, else the instance default), is admin; an action whose required tier is
  unknown is authorized for nobody; a row that cannot be read authorizes nobody.\<close>

theorem Authorize_fail_closed:
  "(Authorize io g b usr TierAdmin = Inr True \<longleftrightarrow>
     (\<exists>r. acl_get io b (u_ID usr) = Inr r \<and> resolveTier g r = TierAdmin)) \<and>
   (\<not> ValidTier t \<longrightarrow> Authorize io g b usr t \<noteq> Inr True) \<and>
   (Authorize io g b usr t = Inl e \<longleftrightarrow> acl_get io b (u_ID usr) = Inl e)"
  by (auto simp: Authorize_def AtLeast_admin AtLeast_unknown split: sum.splits)

theorem Authorize_fail_closed_witness:
  "Authorize Done (new_gate TierDefault) [] \<lparr>u_ID = ''1'', u_Display = ''''\<rparr> ''root'' \<noteq> Inr True"
  using Authorize_fail_closed [of Done "new_gate TierDefault" "[]" "\<lparr>u_ID = ''1'', u_Display = ''''\<rparr>" "''root''"]
  by (simp add: ValidTier_def tierAuthority_def tier_defs)

text \<open>Authority is a total preorder on the tiers, so a grant to a tier reaches the higher ones.\<close>

lemma AtLeast_trans: "AtLeast a b \<Longrightarrow> AtLeast b c \<Longrightarrow> AtLeast a c"
  by (auto simp: AtLeast_def split: option.splits)

lemma AtLeast_linear: "ValidTier a \<Longrightarrow> ValidTier b \<Longrightarrow> AtLeast a b \<or> AtLeast b a"
  by (auto simp: AtLeast_def ValidTier_def)

definition tiers_valid :: "acl_db \<Rightarrow> bool" where
  "tiers_valid b \<longleftrightarrow> (\<forall>u r. acl_row b u = Some r \<longrightarrow> rec_Tier r = [] \<or> ValidTier (rec_Tier r))"

datatype acl_op =
    OpCheck io io time gate_input
  | OpSetConsent io string consent
  | OpSetTier io string tier

fun acl_step :: "gate \<times> acl_db \<Rightarrow> acl_op \<Rightarrow> gate \<times> acl_db" where
  "acl_step (g, b) (OpCheck ig ip t inp) = snd (check ig ip t g b inp)"
| "acl_step (g, b) (OpSetConsent io u c) = (g, snd (SetConsent io b u c))"
| "acl_step (g, b) (OpSetTier io u t) = (g, snd (SetTier io b u t))"

lemma tiers_valid_check:
  assumes "acl_wf b" "tiers_valid b" "check ig ip t g b inp = (de, g', b')"
  shows "tiers_valid b'"
proof (cases "fst de = DecideServe")
  case True
  with assms(3) obtain e where c: "check ig ip t g b inp = ((DecideServe, e), g', b')"
    by (cases de) auto
  have "rec_Tier r = [] \<or> ValidTier (rec_Tier r)" if row': "acl_row b' v = Some r" for v r
  proof (cases "v = u_ID (gi_User inp)")
    case True
    then obtain z where "acl_row b v = Some z" "rec_Tier r = rec_Tier z"
      using check_served_row [OF assms(1) c] row' by auto
    then show ?thesis using assms(2) unfolding tiers_valid_def by metis
  next
    case False
    then show ?thesis
      using check_other_rows [OF assms(1) c, of v] that assms(2) by (simp add: tiers_valid_def)
  qed
  then show ?thesis by (simp add: tiers_valid_def)
next
  case False
  with assms check_not_serve show ?thesis by (metis prod.collapse)
qed

lemma tiers_valid_SetConsent: "tiers_valid b \<Longrightarrow> tiers_valid (snd (SetConsent io b u c))"
proof (cases "SetConsent io b u c")
  case (Pair ee b')
  assume v: "tiers_valid b"
  show ?thesis
  proof (cases ee)
    case None
    then show ?thesis using Pair v acl_bolt.update_row [of io b u _ b'] unfolding SetConsent_def
      by (fastforce simp: tiers_valid_def)
  next
    case (Some e)
    then show ?thesis using Pair v acl_bolt.update_err unfolding SetConsent_def by fastforce
  qed
qed

lemma tiers_valid_SetTier: "tiers_valid b \<Longrightarrow> tiers_valid (snd (SetTier io b u t))"
proof (cases "SetTier io b u t")
  case (Pair ee b')
  assume v: "tiers_valid b"
  show ?thesis
  proof (cases ee)
    case None
    then show ?thesis using Pair v acl_bolt.update_row [of io b u _ b'] unfolding SetTier_def
      by (fastforce simp: tiers_valid_def split: if_splits)
  next
    case (Some e)
    then show ?thesis using Pair v acl_bolt.update_err unfolding SetTier_def by (fastforce split: if_splits)
  qed
qed

lemma acl_wf_step: "acl_wf (snd gb) \<Longrightarrow> acl_wf (snd (acl_step gb op))"
proof (induction gb op rule: acl_step.induct)
  case (1 g b ig ip t inp)
  then show ?case by (cases "check ig ip t g b inp") (auto dest: check_wf)
next
  case (2 g b io u c)
  then show ?case
    using acl_bolt.keyed_update [of b "\<lambda>r. Inr (r\<lparr>rec_Consent := c\<rparr>)" io u]
    by (cases "SetConsent io b u c") (auto simp: SetConsent_def)
next
  case (3 g b io u t)
  then show ?case
    using acl_bolt.keyed_update [of b "\<lambda>r. Inr (r\<lparr>rec_Tier := t\<rparr>)" io u]
    by (cases "SetTier io b u t") (auto simp: SetTier_def split: if_splits)
qed

text \<open>C28: Whatever sequence of checks, consent answers and tier assignments runs, from an
  empty store no row ever holds a tier that has no rank.\<close>

theorem tiers_stay_valid:
  "acl_wf (snd (foldl acl_step (g, []) ops)) \<and> tiers_valid (snd (foldl acl_step (g, []) ops))"
proof (induction ops rule: rev_induct)
  case Nil
  show ?case by (simp add: tiers_valid_def)
next
  case (snoc op ops)
  obtain g' b where s: "foldl acl_step (g, []) ops = (g', b)" by (metis prod.exhaust)
  with snoc have wf: "acl_wf b" and tv: "tiers_valid b" by simp_all
  have "acl_wf (snd (acl_step (g', b) op))" using wf acl_wf_step [of "(g', b)" op] by simp
  moreover have "tiers_valid (snd (acl_step (g', b) op))"
  proof (cases op)
    case (OpCheck ig ip t inp)
    then show ?thesis using tiers_valid_check [OF wf tv] by (cases "check ig ip t g' b inp") auto
  qed (use tv tiers_valid_SetConsent tiers_valid_SetTier in simp_all)
  ultimately show ?case using s by simp
qed

end
