(* ===== verification/Budget.thy ===== *)
theory Budget
  imports Bolt "HOL-Library.Word"
begin

text \<open>
  The global spend ceiling: \<^verbatim>\<open>internal/budget/budget.go\<close> (the meter) and
  \<^verbatim>\<open>internal/budget/bolt.go\<close> (its persisted state). Token counts are Go's int64, kept as
  \<open>64 word\<close> read with \<open>sint\<close>. The meter's store is an interface (\<^verbatim>\<open>budget.Store\<close>): the
  operations take its \<open>load\<close> and \<open>save\<close> as arguments, the locale \<open>meter_store\<close> states what a
  store promises, and \<^verbatim>\<open>MemoryStore\<close> and \<^verbatim>\<open>BoltStore\<close> interpret it.
\<close>

section \<open>The meter\<close>

record budget_config =
  bc_Ceiling :: "64 word"
  bc_Period :: duration

record budget_state =
  bs_PeriodStart :: time
  bs_Spent :: "64 word"

record meter =
  m_ceiling :: "64 word"
  m_period :: duration
  m_start :: time
  m_spent :: "64 word"

type_synonym ('io, 's) loader = "'io \<Rightarrow> 's \<Rightarrow> budget_state option result"
type_synonym ('io, 's) saver = "'io \<Rightarrow> 's \<Rightarrow> budget_state \<Rightarrow> error option \<times> 's"

text \<open>\<^verbatim>\<open>Load\<close>'s \<^verbatim>\<open>(state, found)\<close> is an option; a nil store is \<open>None\<close>.\<close>

definition meter_New ::
    "('io, 's) loader \<Rightarrow> 'io \<Rightarrow> time \<Rightarrow> budget_config \<Rightarrow> 's option \<Rightarrow> meter result" where
  "meter_New load io now cfg store =
     (if sint (bc_Ceiling cfg) \<le> 0 then Inl (ErrMsg ''budget: a positive token ceiling is required'')
      else if bc_Period cfg \<le> 0 then Inl (ErrMsg ''budget: a positive period is required'')
      else (case store of None \<Rightarrow> Inl (ErrMsg ''budget: a store is required'')
        | Some s \<Rightarrow> (case load io s of
              Inl e \<Rightarrow> Inl (Wrap ''budget: load state'' e)
            | Inr (Some st) \<Rightarrow> Inr \<lparr>m_ceiling = bc_Ceiling cfg, m_period = bc_Period cfg,
                 m_start = bs_PeriodStart st, m_spent = bs_Spent st\<rparr>
            | Inr None \<Rightarrow> Inr \<lparr>m_ceiling = bc_Ceiling cfg, m_period = bc_Period cfg,
                 m_start = now, m_spent = 0\<rparr>)))"

definition meter_state :: "meter \<Rightarrow> budget_state" where
  "meter_state m = \<lparr>bs_PeriodStart = m_start m, bs_Spent = m_spent m\<rparr>"

definition rollLocked :: "('io, 's) saver \<Rightarrow> 'io \<Rightarrow> time \<Rightarrow> meter \<Rightarrow> 's \<Rightarrow> meter \<times> 's" where
  "rollLocked save io now m s =
     (if time_sub now (m_start m) < m_period m then (m, s)
      else let m' = m\<lparr>m_start := now, m_spent := 0\<rparr> in (m', snd (save io s (meter_state m'))))"

definition meter_Allow :: "('io, 's) saver \<Rightarrow> 'io \<Rightarrow> time \<Rightarrow> meter \<Rightarrow> 's \<Rightarrow> bool \<times> meter \<times> 's" where
  "meter_Allow save io now m s =
     (case rollLocked save io now m s of (m', s') \<Rightarrow> (sint (m_spent m') < sint (m_ceiling m'), m', s'))"

definition meter_Record ::
    "('io, 's) saver \<Rightarrow> 'io \<Rightarrow> 'io \<Rightarrow> time \<Rightarrow> 64 word \<Rightarrow> meter \<Rightarrow> 's \<Rightarrow> error option \<times> meter \<times> 's" where
  "meter_Record save io_roll io now tokens m s =
     (let tokens' = (if sint tokens < 0 then 0 else tokens) in
      case rollLocked save io_roll now m s of (m1, s1) \<Rightarrow>
        let m2 = m1\<lparr>m_spent := m_spent m1 + tokens'\<rparr> in
        (case save io s1 (meter_state m2) of (e, s2) \<Rightarrow> (e, m2, s2)))"

definition meter_Remaining :: "('io, 's) saver \<Rightarrow> 'io \<Rightarrow> time \<Rightarrow> meter \<Rightarrow> 's \<Rightarrow> 64 word \<times> meter \<times> 's" where
  "meter_Remaining save io now m s =
     (case rollLocked save io now m s of (m', s') \<Rightarrow>
        let r = m_ceiling m' - m_spent m' in ((if sint r > 0 then r else 0), m', s'))"

section \<open>The metered model call (runtime/metered.go)\<close>

text \<open>
  \<^verbatim>\<open>bmodel.Chat\<close> is not under \<^verbatim>\<open>src/\<close>: the wrapped model is the parameter \<open>inner\<close>, a
  function of the request that also steps an environment \<open>e\<close>, so that a call which is not
  made leaves \<open>e\<close> as it was.
\<close>

record usage =
  us_InputTokens :: "64 word"
  us_OutputTokens :: "64 word"

record 'c chat_response =
  cr_Content :: 'c
  cr_Usage :: "usage option"

definition used_tokens :: "'c chat_response \<Rightarrow> 64 word" where
  "used_tokens resp =
     (case cr_Usage resp of None \<Rightarrow> 0 | Some u \<Rightarrow> us_InputTokens u + us_OutputTokens u)"

definition metered_Chat ::
    "('io, 's) saver \<Rightarrow> ('req \<Rightarrow> 'e \<Rightarrow> 'c chat_response result \<times> 'e) \<Rightarrow> 'io \<times> time \<Rightarrow> 'io \<times> 'io \<times> time
     \<Rightarrow> 'req \<Rightarrow> meter \<times> 's \<times> 'e \<Rightarrow> 'c chat_response result \<times> meter \<times> 's \<times> 'e" where
  "metered_Chat save inner a rc req st =
     (case (a, rc, st) of ((ioa, ta), (ior, ios, tr), (m, s, e)) \<Rightarrow>
        (case meter_Allow save ioa ta m s of (ok, m1, s1) \<Rightarrow>
           if \<not> ok then (Inl ErrOverBudget, m1, s1, e)
           else (case inner req e of
               (Inl err, e') \<Rightarrow> (Inl err, m1, s1, e')
             | (Inr resp, e') \<Rightarrow>
                 (case meter_Record save ior ios tr (used_tokens resp) m1 s1 of
                    (_, m2, s2) \<Rightarrow> (Inr resp, m2, s2, e')))))"

section \<open>The stores\<close>

record budget_memory =
  bm_st :: budget_state
  bm_found :: bool

definition bmem_load :: "unit \<Rightarrow> budget_memory \<Rightarrow> budget_state option result" where
  "bmem_load io s = Inr (if bm_found s then Some (bm_st s) else None)"

definition bmem_save :: "unit \<Rightarrow> budget_memory \<Rightarrow> budget_state \<Rightarrow> error option \<times> budget_memory" where
  "bmem_save io s st = (None, s\<lparr>bm_st := st, bm_found := True\<rparr>)"

type_synonym budget_db = "budget_state bucket"

definition stateKey :: string where
  "stateKey = ''state''"

definition budget_load :: "io \<Rightarrow> budget_db \<Rightarrow> budget_state option result" where
  "budget_load io b =
     (case tx_view io b (\<lambda>b. case map_of b stateKey of
          None \<Rightarrow> Inr None
        | Some Corrupt \<Rightarrow> Inl (ErrMsg ''invalid state'')
        | Some (Blob st) \<Rightarrow> Inr (Some st)) of
        Inl e \<Rightarrow> Inl (Wrap ''budget: load'' e)
      | Inr x \<Rightarrow> Inr x)"

definition budget_save :: "io \<Rightarrow> budget_db \<Rightarrow> budget_state \<Rightarrow> error option \<times> budget_db" where
  "budget_save io b st =
     (if \<not> json_time_ok (bs_PeriodStart st)
      then (Some (Wrap ''budget: marshal state'' (ErrMsg ''year outside of range [0,9999]'')), b)
      else (case tx_update io b (\<lambda>b. Inr (bk_put stateKey (Blob st) b)) of
          (None, b') \<Rightarrow> (None, b')
        | (Some e, b') \<Rightarrow> (Some (Wrap ''budget: save'' e), b')))"

section \<open>The store's contract, and what the meter gets from it\<close>

locale meter_store =
  fixes load :: "('io, 's) loader" and save :: "('io, 's) saver"
    and stored :: "'s \<Rightarrow> budget_state option"
  assumes load_ok: "load io s = Inr x \<Longrightarrow> x = stored s"
    and save_ok: "save io s st = (None, s') \<Longrightarrow> stored s' = Some st"
    and save_err: "save io s st = (Some e, s') \<Longrightarrow> s' = s"
begin

lemma record_persists:
  assumes "meter_Record save ir io now t m s = (None, m', s')"
  shows "stored s' = Some (meter_state m')"
  using assms by (auto simp: meter_Record_def Let_def split: prod.splits dest: save_ok)

text \<open>A meter built anew over the store of a meter that recorded goes on where that one was.\<close>

lemma restart_resumes:
  assumes "meter_Record save ir io now t m s = (None, m', s')"
    and "meter_New load io' now' \<lparr>bc_Ceiling = c, bc_Period = p\<rparr> (Some s') = Inr m''"
  shows "m_start m'' = m_start m' \<and> m_spent m'' = m_spent m'"
  using assms(2) record_persists [OF assms(1)]
  by (auto simp: meter_New_def meter_state_def split: if_splits sum.splits option.splits dest: load_ok)

lemma record_failed_keeps:
  assumes "meter_Record save ir io now t m s = (Some e, m', s')"
    and "time_sub now (m_start m) < m_period m"
  shows "s' = s"
  using assms by (auto simp: meter_Record_def rollLocked_def Let_def split: prod.splits dest: save_err)

end

interpretation budget_mem: meter_store bmem_load bmem_save
    "\<lambda>s. if bm_found s then Some (bm_st s) else None"
  by unfold_locales (auto simp: bmem_load_def bmem_save_def)

definition budget_stored :: "budget_db \<Rightarrow> budget_state option" where
  "budget_stored b = (case map_of b stateKey of Some (Blob st) \<Rightarrow> Some st | _ \<Rightarrow> None)"

lemma budget_save_ok: "budget_save io b st = (None, b') \<longleftrightarrow>
    io = Done \<and> json_time_ok (bs_PeriodStart st) \<and> b' = bk_put stateKey (Blob st) b"
  by (auto simp: budget_save_def tx_update_def split: io.splits)

interpretation budget_bolt: meter_store budget_load budget_save budget_stored
proof (unfold_locales, goal_cases)
  case (1 io s x)
  then show ?case
    by (auto simp: budget_load_def tx_view_def budget_stored_def split: io.splits option.splits blob.splits)
next
  case (2 io s st s')
  then show ?case by (auto simp: budget_save_ok budget_stored_def map_of_bk_put)
next
  case (3 io s st e s')
  then show ?case by (auto simp: budget_save_def tx_update_def split: if_splits io.splits)
qed

section \<open>The ceiling over a run\<close>

text \<open>
  The model-call path as \<^verbatim>\<open>runtime/metered.go\<close> drives the meter: a call starts after an
  \<^verbatim>\<open>Allow\<close> that answered true, and its usage is recorded when it ends. \<open>N\<close> bounds the calls in
  flight, and the run's state is the meter, its store and the number of calls in flight.
\<close>

datatype 'io meter_ev = EvAllow time 'io | EvRecord time 'io 'io "64 word"

fun meter_step :: "('io, 's) saver \<Rightarrow> nat \<Rightarrow> meter \<times> 's \<times> nat \<Rightarrow> 'io meter_ev \<Rightarrow> meter \<times> 's \<times> nat" where
  "meter_step save N (m, s, k) (EvAllow t io) =
     (if k < N then (case meter_Allow save io t m s of (ok, m', s') \<Rightarrow> (m', s', if ok then Suc k else k))
      else (m, s, k))"
| "meter_step save N (m, s, k) (EvRecord t ir io n) =
     (if 0 < k then (case meter_Record save ir io t n m s of (_, m', s') \<Rightarrow> (m', s', k - 1))
      else (m, s, k))"

definition meter_run where
  "meter_run save N = foldl (meter_step save N)"

lemma sint_add_small:
  fixes a b :: "64 word"
  assumes "0 \<le> sint a" "0 \<le> sint b" "sint a + sint b < 2 ^ 63"
  shows "sint (a + b) = sint a + sint b"
  using assms by (simp add: signed_take_bit_int_eq_self sint_word_ariths)

lemma rollLocked_fields:
  assumes "rollLocked save io now m s = (m', s')"
  shows "m_ceiling m' = m_ceiling m" "m_period m' = m_period m"
    "m_spent m' = m_spent m \<or> m_spent m' = 0"
  using assms by (auto simp: rollLocked_def Let_def split: if_splits)

definition meter_inv :: "int \<Rightarrow> int \<Rightarrow> nat \<Rightarrow> meter \<times> 's \<times> nat \<Rightarrow> bool" where
  "meter_inv ceil c N st = (case st of (m, s, k) \<Rightarrow>
     sint (m_ceiling m) = ceil \<and> 0 \<le> sint (m_spent m) \<and> k \<le> N \<and>
     sint (m_spent m) + int k * c \<le> ceil - 1 + int N * c)"

fun ev_within :: "int \<Rightarrow> 'io meter_ev \<Rightarrow> bool" where
  "ev_within c (EvAllow t io) = True"
| "ev_within c (EvRecord t ir io n) = (sint n \<le> c)"

lemma meter_inv_step:
  assumes "meter_inv ceil c N st" and "ev_within c ev"
    and "0 < ceil" "0 \<le> c" "ceil - 1 + int N * c < 2 ^ 63"
  shows "meter_inv ceil c N (meter_step save N st ev)"
proof -
  obtain m s k where st: "st = (m, s, k)" by (metis prod.exhaust)
  have inv: "sint (m_ceiling m) = ceil" "0 \<le> sint (m_spent m)" "k \<le> N"
    "sint (m_spent m) + int k * c \<le> ceil - 1 + int N * c"
    using assms(1) st by (simp_all add: meter_inv_def)
  have kc: "int k * c \<le> int N * c" using inv(3) assms(4) by (simp add: mult_right_mono)
  have rolled: "0 \<le> sint (m_spent m')" "sint (m_spent m') + int k * c \<le> ceil - 1 + int N * c"
      "sint (m_ceiling m') = ceil"
    if "rollLocked save io now m s = (m', s')" for io now m' s'
    using rollLocked_fields [OF that] inv kc assms(3) by auto
  show ?thesis
  proof (cases ev)
    case (EvAllow t io)
    obtain m' s' where r: "rollLocked save io t m s = (m', s')" by (metis prod.exhaust)
    have "int (Suc k) * c \<le> int N * c" if "k < N" using that assms(4) by (intro mult_right_mono) auto
    with rolled [OF r] inv show ?thesis
      by (auto simp: EvAllow st meter_inv_def meter_Allow_def r)
  next
    case (EvRecord t ir io n)
    obtain m' s' where r: "rollLocked save ir t m s = (m', s')" by (metis prod.exhaust)
    let ?n = "if sint n < 0 then 0 else n"
    have n: "0 \<le> sint ?n" "sint ?n \<le> c" using assms(2,4) EvRecord by auto
    show ?thesis
    proof (cases "0 < k")
      case True
      then have kk: "int k * c = int (k - 1) * c + c"
        by (metis Suc_diff_1 mult.commute of_nat_Suc distrib_left mult.right_neutral add.commute)
      have "0 \<le> int (k - 1) * c" using assms(4) by simp
      then have "sint (m_spent m') + sint ?n < 2 ^ 63"
        using rolled [OF r] n(2) kk assms(5) by linarith
      then have add: "sint (m_spent m' + ?n) = sint (m_spent m') + sint ?n"
        using rolled(1) [OF r] n(1) by (intro sint_add_small)
      show ?thesis
        using rolled [OF r] n add inv kk
        by (auto simp: EvRecord st meter_inv_def meter_Record_def r Let_def True
            split: prod.splits simp del: of_nat_diff)
    next
      case False
      with assms(1) st EvRecord show ?thesis by simp
    qed
  qed
qed

text \<open>With at most N calls in flight, none of them using more than c tokens, the spend of a
  period never exceeds the ceiling by more than the calls in flight can use: at every point
  of any run it is at most \<open>ceiling - 1 + N * c\<close>, whatever the clock does and whether or not
  the store's writes succeed (as long as that bound is an int64).\<close>

theorem overspend_bound:
  assumes "0 < sint (m_ceiling m)" "0 \<le> c" "sint (m_ceiling m) - 1 + int N * c < 2 ^ 63"
    and "m_spent m = 0" and "\<And>ev. ev \<in> set evs \<Longrightarrow> ev_within c ev"
    and "meter_run save N (m, s, 0) evs = (m', s', k)"
  shows "sint (m_spent m') \<le> sint (m_ceiling m) - 1 + int N * c"
proof -
  let ?ceil = "sint (m_ceiling m)"
  have "meter_inv ?ceil c N (meter_run save N (m, s, 0) evs)"
    using assms(5)
  proof (induction evs rule: rev_induct)
    case Nil
    have "0 \<le> int N * c" using assms(2) by simp
    with assms(1,2,4) show ?case by (simp add: meter_run_def meter_inv_def)
  next
    case (snoc ev evs)
    then have "meter_inv ?ceil c N (meter_run save N (m, s, 0) evs)" by simp
    with snoc.prems assms(1-3) show ?case
      using meter_inv_step [of ?ceil c N "meter_run save N (m, s, 0) evs" ev save]
      by (simp add: meter_run_def)
  qed
  then have inv: "0 \<le> sint (m_spent m')" "sint (m_spent m') + int k * c \<le> ?ceil - 1 + int N * c"
    by (simp_all add: assms(6) meter_inv_def)
  have "0 \<le> int k * c" using assms(2) by simp
  with inv show ?thesis by linarith
qed

theorem overspend_bound_witness:
  "sint (m_spent (fst (meter_run bmem_save 1 (\<lparr>m_ceiling = 100, m_period = hour, m_start = 1, m_spent = 0\<rparr>,
       \<lparr>bm_st = \<lparr>bs_PeriodStart = 0, bs_Spent = 0\<rparr>, bm_found = False\<rparr>, 0)
     [EvAllow 1 (), EvRecord 2 () () 90, EvAllow 3 (), EvRecord 4 () () 90, EvAllow 5 ()])))
   \<le> 100 - 1 + 1 * 90"
  (is "sint (m_spent (fst (meter_run _ _ (?m, ?s, _) ?evs))) \<le> _")
proof -
  obtain m' s' k where r: "meter_run bmem_save 1 (?m, ?s, 0) ?evs = (m', s', k)" by (metis prod.exhaust)
  have "sint (m_spent m') \<le> sint (m_ceiling ?m) - 1 + int 1 * 90"
    by (rule overspend_bound [OF _ _ _ _ _ r]) auto
  then show ?thesis using r by simp
qed

text \<open>The meter survives a restart: once a call's usage was recorded and saved, a meter
  built over the same bolt store has the period and the spend the recording one had, so a
  restart never resets the spend.\<close>

theorem budget_restart_resumes:
  assumes "meter_Record budget_save ir io now t m b = (None, m', b')"
    and "meter_New budget_load io' now' \<lparr>bc_Ceiling = c, bc_Period = p\<rparr> (Some b') = Inr m''"
  shows "m_start m'' = m_start m' \<and> m_spent m'' = m_spent m'"
  using assms by (rule budget_bolt.restart_resumes)

theorem budget_restart_resumes_witness:
  "meter_New budget_load Done 9 \<lparr>bc_Ceiling = 100, bc_Period = hour\<rparr> (Some [(stateKey, Blob \<lparr>bs_PeriodStart = 1, bs_Spent = 40\<rparr>)])
     = Inr \<lparr>m_ceiling = 100, m_period = hour, m_start = 1, m_spent = 40\<rparr>"
proof -
  let ?m = "\<lparr>m_ceiling = 100, m_period = hour, m_start = 1, m_spent = 0\<rparr>"
  let ?b = "[(stateKey, Blob \<lparr>bs_PeriodStart = 1, bs_Spent = 40\<rparr>)]"
  have rec: "meter_Record budget_save Done Done 5 40 ?m [] = (None, ?m\<lparr>m_spent := 40\<rparr>, ?b)"
    by (simp add: meter_Record_def rollLocked_def budget_save_def tx_update_def meter_state_def
        time_sub_def duration_bounds duration_defs json_time_ok_def Let_def)
  have new: "\<exists>m''. meter_New budget_load Done 9 \<lparr>bc_Ceiling = 100, bc_Period = hour\<rparr> (Some ?b) = Inr m''
      \<and> m_ceiling m'' = 100 \<and> m_period m'' = hour"
    by (simp add: meter_New_def budget_load_def)
  then obtain m'' where m: "meter_New budget_load Done 9 \<lparr>bc_Ceiling = 100, bc_Period = hour\<rparr> (Some ?b) = Inr m''"
    "m_ceiling m'' = 100" "m_period m'' = hour" by blast
  show ?thesis using budget_restart_resumes [OF rec m(1)] m by simp
qed

text \<open>A meter is never built without a positive ceiling, a positive period and a store that
  loads, and \<^verbatim>\<open>Allow\<close> answers true exactly while the (rolled) period's spend is below the
  ceiling.\<close>

theorem meter_New_fails_closed:
  "(meter_New load io now cfg st = Inr m \<longrightarrow>
      0 < sint (bc_Ceiling cfg) \<and> 0 < bc_Period cfg \<and> (\<exists>s x. st = Some s \<and> load io s = Inr x)) \<and>
   (fst (meter_Allow save ia t m s) \<longleftrightarrow>
      time_sub t (m_start m) < m_period m \<and> sint (m_spent m) < sint (m_ceiling m) \<or>
      \<not> time_sub t (m_start m) < m_period m \<and> 0 < sint (m_ceiling m))"
  by (auto simp: meter_New_def meter_Allow_def rollLocked_def Let_def split: if_splits option.splits sum.splits)

theorem meter_New_fails_closed_witness:
  "meter_New bmem_load () 3 \<lparr>bc_Ceiling = 100, bc_Period = hour\<rparr>
      (Some \<lparr>bm_st = \<lparr>bs_PeriodStart = 0, bs_Spent = 0\<rparr>, bm_found = False\<rparr>)
     = Inr \<lparr>m_ceiling = 100, m_period = hour, m_start = 3, m_spent = 0\<rparr> \<and> 0 < sint (100 :: 64 word)"
  using meter_New_fails_closed [of bmem_load "()" 3 "\<lparr>bc_Ceiling = 100, bc_Period = hour\<rparr>"
      "Some \<lparr>bm_st = \<lparr>bs_PeriodStart = 0, bs_Spent = 0\<rparr>, bm_found = False\<rparr>"
      "\<lparr>m_ceiling = 100, m_period = hour, m_start = 3, m_spent = 0\<rparr>" bmem_save "()" 3
      "\<lparr>bm_st = \<lparr>bs_PeriodStart = 0, bs_Spent = 0\<rparr>, bm_found = False\<rparr>"]
  by (simp add: meter_New_def bmem_load_def)

text \<open>Over the ceiling no model call is made: the call is refused with the over-budget
  error and the model is not touched; and whenever the model answers, the answer is returned
  and its tokens are on the meter, even when the meter's store failed.\<close>

theorem metered_call:
  fixes inner :: "'req \<Rightarrow> 'e \<Rightarrow> 'c chat_response result \<times> 'e"
  assumes "metered_Chat save inner (ioa, ta) (ior, ios, tr) req (m, s, e) = (res, m', s', e')"
  shows "(\<not> fst (meter_Allow save ioa ta m s) \<longrightarrow> res = Inl ErrOverBudget \<and> e' = e) \<and>
    (fst (meter_Allow save ioa ta m s) \<longrightarrow> e' = snd (inner req e) \<and> res = fst (inner req e)) \<and>
    (\<forall>resp. res = Inr resp \<longrightarrow> (\<exists>base. m_spent m' = base +
        (if sint (used_tokens resp) < 0 then 0 else used_tokens resp) \<and>
        (base = m_spent m \<or> base = 0)))"
proof -
  obtain ok m1 s1 where al: "meter_Allow save ioa ta m s = (ok, m1, s1)" by (metis prod.exhaust)
  have m1: "m_spent m1 = m_spent m \<or> m_spent m1 = 0"
    using al rollLocked_fields(3) [of save ioa ta m s]
    by (auto simp: meter_Allow_def split: prod.splits)
  have rec: "\<exists>base. m_spent (fst (snd (meter_Record save ior ios tr n m1 s1))) =
      base + (if sint n < 0 then 0 else n) \<and> (base = m_spent m \<or> base = 0)" for n
  proof -
    obtain m2 s2 where r: "rollLocked save ior tr m1 s1 = (m2, s2)" by (metis prod.exhaust)
    show ?thesis using rollLocked_fields(3) [OF r] m1
      by (auto simp: meter_Record_def Let_def r split: prod.splits)
  qed
  obtain r e1 where inn: "inner req e = (r, e1)" by (metis prod.exhaust)
  show ?thesis
  proof (cases "ok \<and> (\<exists>resp. r = Inr resp)")
    case True
    then obtain resp where ok: "ok" "r = Inr resp" by blast
    obtain er m2 s2 where rc: "meter_Record save ior ios tr (used_tokens resp) m1 s1 = (er, m2, s2)"
      by (metis prod.exhaust)
    have "res = Inr resp" "m' = m2" "e' = e1"
      using assms by (simp_all add: metered_Chat_def al inn ok rc)
    with rec [of "used_tokens resp"] show ?thesis by (simp add: al inn ok rc)
  next
    case False
    with assms show ?thesis
      by (cases r) (auto simp: metered_Chat_def al inn split: if_splits)
  qed
qed

theorem metered_call_witness:
  "fst (metered_Chat bmem_save (\<lambda>req e. (Inr \<lparr>cr_Content = ''hi'', cr_Usage = None\<rparr>, Suc e)) ((), 2) ((), (), 3) ''q''
     (\<lparr>m_ceiling = 100, m_period = hour, m_start = 1, m_spent = 100\<rparr>,
      \<lparr>bm_st = \<lparr>bs_PeriodStart = 1, bs_Spent = 100\<rparr>, bm_found = True\<rparr>, 0 :: nat)) = Inl ErrOverBudget"
  (is "fst (metered_Chat _ ?inner _ _ _ (?m, ?s, _)) = _")
proof -
  obtain res m' s' e' where r: "metered_Chat bmem_save ?inner ((), 2) ((), (), 3) ''q'' (?m, ?s, 0) = (res, m', s', e')"
    by (metis prod.exhaust)
  have "\<not> fst (meter_Allow bmem_save () 2 ?m ?s)"
    by (simp add: meter_Allow_def rollLocked_def time_sub_def duration_bounds duration_defs)
  with metered_call [OF r] r show ?thesis by simp
qed

end
