(* ===== verification/Pending.thy ===== *)
theory Pending
  imports Bolt Core
begin

text \<open>
  The pending actions behind confirmation buttons: \<^verbatim>\<open>internal/pending/pending.go\<close> (the token
  store's rules and the in-memory store) and \<^verbatim>\<open>internal/pending/bolt.go\<close> (the durable one).
  \<^verbatim>\<open>newToken\<close> reads the system's randomness, so the token it drew, or its error, is an
  argument. Both stores interpret the locale \<open>pending_store\<close>, where single use, expiry and
  sweeping are proved once.
\<close>

section \<open>Records and their rules\<close>

datatype status = Resolved | Expired | Consumed

record pend_record =
  pr_Action :: action
  pr_ExpiresAt :: time
  pr_ConsumedAt :: time

definition empty_action :: action where
  "empty_action = \<lparr>a_Verb = '''', a_Params = Map.empty, a_Label = ''''\<rparr>"

definition resolveRecord :: "pend_record \<Rightarrow> time \<Rightarrow> action \<times> status \<times> pend_record option" where
  "resolveRecord r now =
     (if \<not> is_zero (pr_ConsumedAt r) then (empty_action, Consumed, None)
      else if pr_ExpiresAt r < now then (empty_action, Expired, None)
      else (pr_Action r, Resolved, Some (r\<lparr>pr_ConsumedAt := now\<rparr>)))"

definition new_record :: "action \<Rightarrow> time \<Rightarrow> pend_record" where
  "new_record a expires = \<lparr>pr_Action = a, pr_ExpiresAt = expires, pr_ConsumedAt = 0\<rparr>"

lemma new_record_fields [simp]:
  "pr_Action (new_record a x) = a" "pr_ExpiresAt (new_record a x) = x" "pr_ConsumedAt (new_record a x) = 0"
  by (simp_all add: new_record_def)

section \<open>The in-memory store\<close>

text \<open>The map is kept in key order; the code only looks up, writes, deletes and counts.\<close>

record pend_memory =
  pm_m :: "(string \<times> pend_record) list"
  pm_ttl :: duration

definition NewMemoryStore :: "duration \<Rightarrow> pend_memory" where
  "NewMemoryStore ttl = \<lparr>pm_m = [], pm_ttl = ttl\<rparr>"

definition pmem_Put :: "string result \<Rightarrow> time \<Rightarrow> unit \<Rightarrow> pend_memory \<Rightarrow> action \<Rightarrow> string result \<times> pend_memory" where
  "pmem_Put newToken now io s a =
     (case newToken of Inl e \<Rightarrow> (Inl e, s)
      | Inr token \<Rightarrow> (Inr token, s\<lparr>pm_m := bk_put token (new_record a (now + pm_ttl s)) (pm_m s)\<rparr>))"

definition pmem_Resolve :: "time \<Rightarrow> unit \<Rightarrow> pend_memory \<Rightarrow> string \<Rightarrow> (action \<times> status \<times> error option) \<times> pend_memory" where
  "pmem_Resolve now io s token =
     (case map_of (pm_m s) token of
        None \<Rightarrow> ((empty_action, Expired, None), s)
      | Some r \<Rightarrow> (case resolveRecord r now of
            (a, st, None) \<Rightarrow> ((a, st, None), s)
          | (a, st, Some r') \<Rightarrow> ((a, st, None), s\<lparr>pm_m := bk_put token r' (pm_m s)\<rparr>)))"

definition pmem_Sweep :: "time \<Rightarrow> unit \<Rightarrow> pend_memory \<Rightarrow> nat result \<times> pend_memory" where
  "pmem_Sweep now io s =
     (let stale = filter (\<lambda>(k, r). pr_ExpiresAt r < now) (pm_m s)
      in (Inr (length stale), s\<lparr>pm_m := filter (\<lambda>(k, r). \<not> pr_ExpiresAt r < now) (pm_m s)\<rparr>))"

section \<open>The durable store\<close>

record pend_bolt =
  pb_db :: "pend_record bucket"
  pb_ttl :: duration

definition pend_marshal :: "string \<Rightarrow> pend_record \<Rightarrow> pend_record blob result" where
  "pend_marshal what r =
     (if json_time_ok (pr_ExpiresAt r) \<and> json_time_ok (pr_ConsumedAt r) then Inr (Blob r)
      else Inl (Wrap what (ErrMsg ''year outside of range [0,9999]'')))"

definition pbolt_Put :: "string result \<Rightarrow> time \<Rightarrow> io \<Rightarrow> pend_bolt \<Rightarrow> action \<Rightarrow> string result \<times> pend_bolt" where
  "pbolt_Put newToken now io s a =
     (case newToken of Inl e \<Rightarrow> (Inl e, s)
      | Inr token \<Rightarrow> (case pend_marshal ''pending: marshal record'' (new_record a (now + pb_ttl s)) of
            Inl e \<Rightarrow> (Inl e, s)
          | Inr data \<Rightarrow> (case tx_update io (pb_db s) (\<lambda>b. Inr (bk_put token data b)) of
                (None, b') \<Rightarrow> (Inr token, s\<lparr>pb_db := b'\<rparr>)
              | (Some e, b') \<Rightarrow> (Inl (Wrap ''pending: put token'' e), s\<lparr>pb_db := b'\<rparr>))))"

text \<open>
  The closure of \<^verbatim>\<open>Resolve\<close> sets the captured \<^verbatim>\<open>action\<close> and \<^verbatim>\<open>status\<close> and gives the new
  bucket; the transaction's error, whatever its source, discards both.
\<close>

definition pbolt_resolve_tx ::
    "time \<Rightarrow> string \<Rightarrow> pend_record bucket \<Rightarrow> ((action \<times> status) \<times> pend_record bucket) result" where
  "pbolt_resolve_tx now token b =
     (case map_of b token of
        None \<Rightarrow> Inr ((empty_action, Expired), b)
      | Some Corrupt \<Rightarrow> Inl (Wrap ''pending: unmarshal record'' (ErrMsg ''invalid record''))
      | Some (Blob r) \<Rightarrow> (case resolveRecord r now of
            (a, st, None) \<Rightarrow> Inr ((a, st), b)
          | (a, st, Some r') \<Rightarrow> (case pend_marshal ''pending: marshal tombstone'' r' of
                Inl e \<Rightarrow> Inl e
              | Inr data \<Rightarrow> Inr ((a, st), bk_put token data b))))"

definition pbolt_Resolve :: "time \<Rightarrow> io \<Rightarrow> pend_bolt \<Rightarrow> string \<Rightarrow> (action \<times> status \<times> error option) \<times> pend_bolt" where
  "pbolt_Resolve now io s token =
     (case pbolt_resolve_tx now token (pb_db s) of
        Inl e \<Rightarrow> ((empty_action, Expired, Some (Wrap ''pending: resolve token'' e)), s)
      | Inr ((a, st), b') \<Rightarrow> (case io of
            Failed e \<Rightarrow> ((empty_action, Expired, Some (Wrap ''pending: resolve token'' e)), s)
          | Done \<Rightarrow> ((a, st, None), s\<lparr>pb_db := b'\<rparr>)))"

fun pend_stale :: "time \<Rightarrow> pend_record blob \<Rightarrow> bool" where
  "pend_stale now Corrupt = True"
| "pend_stale now (Blob r) = (pr_ExpiresAt r < now)"

definition pbolt_Sweep :: "time \<Rightarrow> io \<Rightarrow> pend_bolt \<Rightarrow> nat result \<times> pend_bolt" where
  "pbolt_Sweep now io s =
     (let stale = map fst (filter (\<lambda>(k, v). pend_stale now v) (pb_db s)) in
      case tx_update io (pb_db s) (\<lambda>b. Inr (foldl (\<lambda>b k. bk_delete k b) b stale)) of
        (None, b') \<Rightarrow> (Inr (length stale), s\<lparr>pb_db := b'\<rparr>)
      | (Some e, b') \<Rightarrow> (Inl (Wrap ''pending: sweep'' e), s\<lparr>pb_db := b'\<rparr>))"

section \<open>Runs of a token store\<close>

datatype 'io pend_op =
    PPut "string result" time 'io action
  | PResolve time 'io string
  | PSweep time 'io

text \<open>What the operations of a run returned: for a \<^verbatim>\<open>Resolve\<close> its token and result.\<close>

datatype pend_out = OutPut "string result" | OutResolve string action status "error option" | OutSweep "nat result"

type_synonym ('io, 's) putter = "string result \<Rightarrow> time \<Rightarrow> 'io \<Rightarrow> 's \<Rightarrow> action \<Rightarrow> string result \<times> 's"
type_synonym ('io, 's) resolver = "time \<Rightarrow> 'io \<Rightarrow> 's \<Rightarrow> string \<Rightarrow> (action \<times> status \<times> error option) \<times> 's"
type_synonym ('io, 's) sweeper = "time \<Rightarrow> 'io \<Rightarrow> 's \<Rightarrow> nat result \<times> 's"

fun pend_step :: "('io, 's) putter \<Rightarrow> ('io, 's) resolver \<Rightarrow> ('io, 's) sweeper \<Rightarrow> 's \<Rightarrow> 'io pend_op \<Rightarrow> pend_out \<times> 's" where
  "pend_step put res swp s (PPut nt t io a) = (case put nt t io s a of (x, s') \<Rightarrow> (OutPut x, s'))"
| "pend_step put res swp s (PResolve t io tok) =
     (case res t io s tok of ((a, st, e), s') \<Rightarrow> (OutResolve tok a st e, s'))"
| "pend_step put res swp s (PSweep t io) = (case swp t io s of (x, s') \<Rightarrow> (OutSweep x, s'))"

fun pend_run :: "('io, 's) putter \<Rightarrow> ('io, 's) resolver \<Rightarrow> ('io, 's) sweeper \<Rightarrow> 's \<Rightarrow> 'io pend_op list \<Rightarrow> pend_out list" where
  "pend_run put res swp s [] = []"
| "pend_run put res swp s (op # ops) =
     (case pend_step put res swp s op of (x, s') \<Rightarrow> x # pend_run put res swp s' ops)"

fun hit :: "string \<Rightarrow> pend_out \<Rightarrow> bool" where
  "hit tok (OutResolve t a st e) = (t = tok \<and> st = Resolved)"
| "hit tok _ = False"

definition resolved_count :: "string \<Rightarrow> pend_out list \<Rightarrow> nat" where
  "resolved_count tok outs = length (filter (hit tok) outs)"

lemma resolved_count_simps [simp]:
  "resolved_count tok [] = 0"
  "resolved_count tok (x # xs) = (if hit tok x then 1 else 0) + resolved_count tok xs"
  by (simp_all add: resolved_count_def)

fun op_clock :: "'io pend_op \<Rightarrow> time" where
  "op_clock (PPut nt t io a) = t"
| "op_clock (PResolve t io tok) = t"
| "op_clock (PSweep t io) = t"

fun puts_token :: "string \<Rightarrow> 'io pend_op \<Rightarrow> bool" where
  "puts_token tok (PPut nt t io a) = (nt = Inr tok)"
| "puts_token tok op = False"

section \<open>The contract\<close>

locale pending_store =
  fixes put :: "('io, 's) putter" and resolve :: "('io, 's) resolver" and sweep :: "('io, 's) sweeper"
    and row :: "'s \<Rightarrow> string \<Rightarrow> pend_record option" and ttl :: "'s \<Rightarrow> duration"
    and keyed :: "'s \<Rightarrow> bool"
  assumes put_ok: "put nt t io s a = (Inr tok, s') \<Longrightarrow>
          nt = Inr tok \<and> row s' = (row s)(tok \<mapsto> new_record a (t + ttl s)) \<and> ttl s' = ttl s"
    and put_err: "put nt t io s a = (Inl e, s') \<Longrightarrow> s' = s"
    and resolve_ok: "resolve t io s tok = ((a, st, None), s') \<Longrightarrow>
          (case row s tok of None \<Rightarrow> st = Expired \<and> a = empty_action \<and> row s' = row s
           | Some r \<Rightarrow> (case resolveRecord r t of (a', st', upd) \<Rightarrow> a = a' \<and> st = st' \<and>
               row s' = (case upd of None \<Rightarrow> row s | Some r' \<Rightarrow> (row s)(tok \<mapsto> r')))) \<and> ttl s' = ttl s"
    and resolve_err: "resolve t io s tok = ((a, st, Some e), s') \<Longrightarrow> st = Expired \<and> s' = s"
    and sweep_ok: "keyed s \<Longrightarrow> sweep t io s = (Inr n, s') \<Longrightarrow>
          row s' = (\<lambda>k. case row s k of None \<Rightarrow> None
             | Some r \<Rightarrow> if pr_ExpiresAt r < t then None else Some r) \<and> ttl s' = ttl s"
    and sweep_err: "sweep t io s = (Inl e, s') \<Longrightarrow> s' = s"
    and keyed_step: "keyed s \<Longrightarrow> pend_step put resolve sweep s op = (x, s') \<Longrightarrow> keyed s'"
begin

lemma resolved_iff:
  assumes "resolve t io s tok = ((a, st, e), s')"
  shows "st = Resolved \<longleftrightarrow> e = None \<and>
    (\<exists>r. row s tok = Some r \<and> pr_ConsumedAt r = 0 \<and> t \<le> pr_ExpiresAt r)"
  using assms resolve_ok [of t io s tok a st s'] resolve_err [of t io s tok a st _ s']
  by (cases e) (auto simp: resolveRecord_def is_zero_def split: option.splits if_splits)

lemma resolved_row:
  assumes "resolve t io s tok = ((a, Resolved, e), s')"
  shows "\<exists>r. row s tok = Some r \<and> a = pr_Action r \<and> row s' = (row s)(tok \<mapsto> r\<lparr>pr_ConsumedAt := t\<rparr>)"
  using assms resolve_ok [of t io s tok a Resolved s'] resolve_err [of t io s tok a Resolved _ s']
  by (cases e) (auto simp: resolveRecord_def is_zero_def split: option.splits if_splits)

text \<open>A token that is gone or used stays so while nobody puts it again.\<close>

definition dead :: "'s \<Rightarrow> string \<Rightarrow> bool" where
  "dead s tok \<longleftrightarrow> (case row s tok of None \<Rightarrow> True | Some r \<Rightarrow> pr_ConsumedAt r \<noteq> 0)"

lemma dead_step:
  assumes "dead s tok" and "\<not> puts_token tok op" and "0 < op_clock op" and "keyed s"
    and "pend_step put resolve sweep s op = (x, s')"
  shows "dead s' tok \<and> \<not> hit tok x"
proof (cases op)
  case (PPut nt t io a)
  obtain y where y: "put nt t io s a = (y, s')" "x = OutPut y"
    using assms(5) PPut by (auto split: prod.splits)
  show ?thesis
  proof (cases y)
    case (Inl e)
    then show ?thesis using y put_err [of nt t io s a e s'] assms(1) by simp
  next
    case (Inr tok')
    then show ?thesis
      using y put_ok [of nt t io s a tok' s'] assms(1,2) PPut by (auto simp: dead_def)
  qed
next
  case (PResolve t io tok')
  obtain a st e where r: "resolve t io s tok' = ((a, st, e), s')" "x = OutResolve tok' a st e"
    using assms(5) PResolve by (auto split: prod.splits)
  have "dead s' tok"
  proof (cases e)
    case None
    with r resolve_ok [of t io s tok' a st s'] assms(1,3) PResolve show ?thesis
      by (auto simp: dead_def resolveRecord_def is_zero_def split: option.splits if_splits)
  next
    case (Some err)
    with r resolve_err [of t io s tok' a st err s'] assms(1) show ?thesis by simp
  qed
  moreover have "\<not> (tok' = tok \<and> st = Resolved)"
    using resolved_iff [OF r(1)] assms(1) by (auto simp: dead_def)
  ultimately show ?thesis using r(2) by auto
next
  case (PSweep t io)
  obtain y where y: "sweep t io s = (y, s')" "x = OutSweep y"
    using assms(5) PSweep by (auto split: prod.splits)
  show ?thesis
  proof (cases y)
    case (Inl e)
    then show ?thesis using y sweep_err [of t io s e s'] assms(1) by simp
  next
    case (Inr n)
    then show ?thesis
      using y sweep_ok [OF assms(4), of t io n s'] assms(1) by (auto simp: dead_def split: option.splits)
  qed
qed

lemma dead_run:
  "dead s tok \<Longrightarrow> keyed s \<Longrightarrow> (\<And>op. op \<in> set ops \<Longrightarrow> \<not> puts_token tok op \<and> 0 < op_clock op) \<Longrightarrow>
     resolved_count tok (pend_run put resolve sweep s ops) = 0"
proof (induction ops arbitrary: s)
  case Nil
  then show ?case by simp
next
  case (Cons op ops)
  obtain x s' where st: "pend_step put resolve sweep s op = (x, s')" by (metis prod.exhaust)
  have "dead s' tok \<and> \<not> hit tok x"
    using dead_step [OF Cons.prems(1) _ _ Cons.prems(2) st] Cons.prems(3) by simp
  with Cons.IH [of s'] keyed_step [OF Cons.prems(2) st] Cons.prems(3) st show ?case by simp
qed

lemma single_use:
  assumes "keyed s" and "\<And>op. op \<in> set ops \<Longrightarrow> \<not> puts_token tok op \<and> 0 < op_clock op"
  shows "resolved_count tok (pend_run put resolve sweep s ops) \<le> 1"
  using assms
proof (induction ops arbitrary: s)
  case Nil
  then show ?case by simp
next
  case (Cons op ops)
  obtain x s' where st: "pend_step put resolve sweep s op = (x, s')" by (metis prod.exhaust)
  show ?case
  proof (cases "hit tok x")
    case False
    with Cons.IH [of s'] keyed_step [OF Cons.prems(1) st] Cons.prems(2) st show ?thesis by simp
  next
    case True
    then obtain a e where x: "x = OutResolve tok a Resolved e" by (cases x) auto
    then obtain t io where op: "op = PResolve t io tok" "resolve t io s tok = ((a, Resolved, e), s')"
      using st by (cases op) (auto split: prod.splits)
    have "0 < t" using Cons.prems(2) [of op] op by simp
    with resolved_row [OF op(2)] have "dead s' tok" by (auto simp: dead_def)
    then have "resolved_count tok (pend_run put resolve sweep s' ops) = 0"
      using keyed_step [OF Cons.prems(1) st] Cons.prems(2) by (intro dead_run) auto
    with st show ?thesis by simp
  qed
qed

text \<open>A click after the lifetime never resolves, and a click within it does, once.\<close>

lemma put_then_resolve:
  assumes "put nt t io s a = (Inr tok, s1)" and "resolve t' io' s1 tok = ((a', st, None), s2)"
  shows "st = (if t' \<le> t + ttl s then Resolved else Expired) \<and>
    (st = Resolved \<longrightarrow> a' = a)"
  using put_ok [OF assms(1)] resolve_ok [OF assms(2)]
  by (auto simp: resolveRecord_def is_zero_def split: if_splits)

end

definition pmem_row :: "pend_memory \<Rightarrow> string \<Rightarrow> pend_record option" where
  "pmem_row s = map_of (pm_m s)"

definition pbolt_row :: "pend_bolt \<Rightarrow> string \<Rightarrow> pend_record option" where
  "pbolt_row s tok = (case map_of (pb_db s) tok of Some (Blob r) \<Rightarrow> Some r | _ \<Rightarrow> None)"

lemma map_of_filter_value:
  "distinct (map fst b) \<Longrightarrow>
     map_of (filter (\<lambda>(k, v). P v) b) k = (case map_of b k of None \<Rightarrow> None | Some v \<Rightarrow> if P v then Some v else None)"
  by (induction b) (auto split: option.splits simp: image_iff map_of_eq_None_iff dest: map_of_SomeD)


definition pmem_wf :: "pend_memory \<Rightarrow> bool" where
  "pmem_wf s \<longleftrightarrow> bk_wf (pm_m s)"

definition pbolt_wf :: "pend_bolt \<Rightarrow> bool" where
  "pbolt_wf s \<longleftrightarrow> bk_wf (pb_db s)"

interpretation pend_mem: pending_store pmem_Put pmem_Resolve pmem_Sweep pmem_row pm_ttl pmem_wf
proof (unfold_locales, goal_cases)
  case (1 nt t io s a tok s')
  then show ?case by (auto simp: pmem_Put_def pmem_row_def map_of_bk_put split: sum.splits)
next
  case (2 nt t io s a e s')
  then show ?case by (auto simp: pmem_Put_def split: sum.splits)
next
  case (3 t io s tok a st s')
  then show ?case
    by (auto simp: pmem_Resolve_def pmem_row_def map_of_bk_put split: option.splits prod.splits)
next
  case (4 t io s tok a st e s')
  then show ?case by (auto simp: pmem_Resolve_def split: option.splits prod.splits)
next
  case (5 s t io n s')
  then show ?case
    using map_of_filter_value [OF bk_wf_distinct, of "pm_m s" "\<lambda>r. \<not> pr_ExpiresAt r < t"]
    by (auto simp: pmem_Sweep_def pmem_row_def pmem_wf_def Let_def fun_eq_iff split: option.splits)
next
  case (6 t io s e s')
  then show ?case by (simp add: pmem_Sweep_def Let_def)
next
  case (7 s op x s')
  then show ?case
    by (cases op) (auto simp: pmem_Sweep_def pmem_Resolve_def pmem_Put_def pmem_wf_def Let_def
        split: option.splits prod.splits sum.splits)
qed

lemma map_of_delete_all:
  "map_of (foldl (\<lambda>b k. bk_delete k b) b ks) k = (if k \<in> set ks then None else map_of b k)"
  by (induction ks arbitrary: b) (auto simp: map_of_bk_delete)

lemma bk_wf_delete_all: "bk_wf b \<Longrightarrow> bk_wf (foldl (\<lambda>b k. bk_delete k b) b ks)"
  by (induction ks arbitrary: b) auto

lemma map_of_stale:
  assumes "bk_wf b"
  shows "k \<in> set (map fst (filter (\<lambda>(k, v). P v) b)) \<longleftrightarrow> (\<exists>v. map_of b k = Some v \<and> P v)"
  using bk_wf_distinct [OF assms] by (force simp: map_of_eq_Some_iff)

interpretation pend_bolt: pending_store pbolt_Put pbolt_Resolve pbolt_Sweep pbolt_row pb_ttl pbolt_wf
proof (unfold_locales, goal_cases)
  case (1 nt t io s a tok s')
  then show ?case
    by (auto simp: pbolt_Put_def pbolt_row_def pend_marshal_def tx_update_def map_of_bk_put fun_eq_iff
        split: sum.splits io.splits if_splits)
next
  case (2 nt t io s a e s')
  then show ?case
    by (auto simp: pbolt_Put_def tx_update_def split: sum.splits io.splits prod.splits option.splits)
next
  case (3 t io s tok a st s')
  then show ?case
    by (auto simp: pbolt_Resolve_def pbolt_resolve_tx_def pbolt_row_def pend_marshal_def map_of_bk_put
        fun_eq_iff split: sum.splits io.splits option.splits prod.splits blob.splits if_splits)
next
  case (4 t io s tok a st e s')
  then show ?case by (auto simp: pbolt_Resolve_def split: sum.splits io.splits prod.splits)
next
  case (5 s t io n s')
  then have b: "pb_db s' = foldl (\<lambda>b k. bk_delete k b) (pb_db s)
      (map fst (filter (\<lambda>(k, v). pend_stale t v) (pb_db s)))" and "pb_ttl s' = pb_ttl s"
    and wf: "bk_wf (pb_db s)"
    by (auto simp: pbolt_Sweep_def tx_update_def Let_def pbolt_wf_def split: io.splits)
  moreover have "pbolt_row s' k = (case pbolt_row s k of None \<Rightarrow> None
      | Some r \<Rightarrow> if pr_ExpiresAt r < t then None else Some r)" for k
    unfolding pbolt_row_def b map_of_delete_all map_of_stale [OF wf]
    by (auto split: option.splits blob.splits)
  ultimately show ?case by auto
next
  case (6 t io s e s')
  then show ?case by (auto simp: pbolt_Sweep_def tx_update_def Let_def split: io.splits)
next
  case (7 s op x s')
  then show ?case
    by (cases op) (auto simp: pbolt_Sweep_def pbolt_Resolve_def pbolt_resolve_tx_def pbolt_Put_def
        pend_marshal_def tx_update_def pbolt_wf_def Let_def bk_wf_delete_all
        split: option.splits prod.splits sum.splits io.splits blob.splits if_splits)
qed

section \<open>The properties\<close>

text \<open>C31: A confirmation button works at most once: over any run of the durable store (double
  clicks, sweeps, other tokens, failing transactions), a token that is not drawn again
  resolves at most one time.\<close>

theorem token_single_use:
  assumes "pbolt_wf s" and "\<And>op. op \<in> set ops \<Longrightarrow> \<not> puts_token tok op \<and> 0 < op_clock op"
  shows "resolved_count tok (pend_run pbolt_Put pbolt_Resolve pbolt_Sweep s ops) \<le> 1"
  using assms by (rule pend_bolt.single_use)

text \<open>A button resolves to exactly the action it was made for, while its lifetime has not
  passed, and is expired after it; this is what both stores do with a token just put.\<close>

theorem token_lifetime:
  assumes "pbolt_Put nt t io s a = (Inr tok, s1)"
    and "pbolt_Resolve t' io' s1 tok = ((a', st, None), s2)"
  shows "st = (if t' \<le> t + pb_ttl s then Resolved else Expired) \<and> (st = Resolved \<longrightarrow> a' = a)"
  using assms by (rule pend_bolt.put_then_resolve)

theorem token_single_use_witness:
  "resolved_count ''tok'' (pend_run pbolt_Put pbolt_Resolve pbolt_Sweep
     \<lparr>pb_db = [(''tok'', Blob (new_record empty_action (1 + hour)))], pb_ttl = hour\<rparr>
     [PResolve 5 Done ''tok'', PResolve 6 Done ''tok'', PSweep (2 * hour) Done, PResolve 7 Done ''tok'']) \<le> 1"
  by (rule token_single_use) (auto simp: pbolt_wf_def bk_wf_def duration_defs)

theorem token_lifetime_witness:
  "\<exists>s. fst (pbolt_Resolve (7 + hour) Done s ''tok'') = (empty_action, Expired, None) \<and>
     snd (pbolt_Put (Inr ''tok'') 5 Done \<lparr>pb_db = [], pb_ttl = hour\<rparr> empty_action) = s"
proof -
  let ?s1 = "\<lparr>pb_db = [(''tok'', Blob (new_record empty_action (5 + hour)))], pb_ttl = hour\<rparr>"
  have p: "pbolt_Put (Inr ''tok'') 5 Done \<lparr>pb_db = [], pb_ttl = hour\<rparr> empty_action = (Inr ''tok'', ?s1)"
    by (simp add: pbolt_Put_def pend_marshal_def tx_update_def json_time_ok_def duration_defs)
  have r: "pbolt_Resolve (7 + hour) Done ?s1 ''tok'' = ((empty_action, Expired, None), ?s1)"
    by (simp add: pbolt_Resolve_def pbolt_resolve_tx_def resolveRecord_def is_zero_def)
  have "Expired = (if 7 + hour \<le> 5 + pb_ttl \<lparr>pb_db = [] :: pend_record bucket, pb_ttl = hour\<rparr> then Resolved else Expired)"
    using token_lifetime [OF p r] by simp
  with p r show ?thesis by simp
qed

text \<open>
  The comment on \<^verbatim>\<open>resolveRecord\<close> says that a later click on a used button reads "already
  completed" even after the lifetime has passed; the sweeper drops the tombstone of a token
  whose lifetime has passed, and from then on the click reads "expired".
\<close>

text \<open>A used button does not stay "already completed": once a sweep runs after its lifetime
  has passed, a click on it reads as expired, although it was consumed.\<close>

theorem sweep_forgets_consumed:
  assumes "pbolt_wf s" and "pbolt_row s tok = Some r" and "pr_ConsumedAt r \<noteq> 0"
    and "pr_ExpiresAt r < t" and "pbolt_Sweep t Done s = (Inr n, s')"
  shows "fst (pbolt_Resolve t' Done s tok) = (empty_action, Consumed, None) \<and>
    fst (pbolt_Resolve t' Done s' tok) = (empty_action, Expired, None)"
proof -
  have row: "map_of (pb_db s) tok = Some (Blob r)"
    using assms(2) by (auto simp: pbolt_row_def split: option.splits blob.splits)
  have "tok \<in> set (map fst (filter (\<lambda>(k, v). pend_stale t v) (pb_db s)))"
    using map_of_stale [of "pb_db s" tok "pend_stale t"] row assms(1,4) by (simp add: pbolt_wf_def)
  moreover have "pb_db s' = foldl (\<lambda>b k. bk_delete k b) (pb_db s)
      (map fst (filter (\<lambda>(k, v). pend_stale t v) (pb_db s)))"
    using assms(5) by (auto simp: pbolt_Sweep_def tx_update_def Let_def)
  ultimately have "map_of (pb_db s') tok = None" by (simp only: map_of_delete_all if_True)
  with row show ?thesis
    using assms(3) by (simp add: pbolt_Resolve_def pbolt_resolve_tx_def resolveRecord_def is_zero_def)
qed

theorem sweep_forgets_consumed_witness:
  "\<exists>s s'. fst (pbolt_Resolve 9 Done s ''tok'') = (empty_action, Consumed, None) \<and>
     fst (pbolt_Resolve 9 Done s' ''tok'') = (empty_action, Expired, None)"
proof -
  let ?r = "(new_record empty_action 5)\<lparr>pr_ConsumedAt := 2\<rparr>"
  let ?s = "\<lparr>pb_db = [(''tok'', Blob ?r)], pb_ttl = 4\<rparr>"
  have sw: "pbolt_Sweep 8 Done ?s = (Inr 1, ?s\<lparr>pb_db := []\<rparr>)"
    by (simp add: pbolt_Sweep_def tx_update_def bk_delete_def)
  show ?thesis
    using sweep_forgets_consumed [OF _ _ _ _ sw, of "''tok''" ?r 9]
    by (force simp: pbolt_wf_def bk_wf_def pbolt_row_def)
qed

end
