(* ===== verification/LangPacks.thy ===== *)
theory LangPacks
  imports Prelude
begin

text \<open>
  Language packs (\<^verbatim>\<open>langpacks/langpacks.go\<close>) and the message catalog the runtime reads them
  through (\<^verbatim>\<open>internal/runtime/strings.go\<close>). What a read of a pack's file gave is an argument (it is
  missing, unreadable, or gives bytes), and so is the YAML parser.
\<close>

record pack =
  pk_Code :: string
  pk_Name :: string
  pk_Prompt :: string
  pk_Strings :: "string \<rightharpoonup> string"

datatype layer = NoFile | BadFile error | Layer pack

text \<open>\<open>yaml\<close> is \<^verbatim>\<open>yaml.Unmarshal\<close> into a pack; its errors are never that a file does not exist.\<close>

datatype file_bytes = Missing | Unreadable error | Bytes string

definition parse_pack :: "(string \<Rightarrow> pack result) \<Rightarrow> string \<Rightarrow> string \<Rightarrow> pack result" where
  "parse_pack yaml data name =
     (case yaml data of Inl e \<Rightarrow> Inl (Wrap (''parse '' @ name) e) | Inr p \<Rightarrow> Inr p)"

definition read_pack :: "(string \<Rightarrow> pack result) \<Rightarrow> string \<Rightarrow> file_bytes \<Rightarrow> layer" where
  "read_pack yaml name fb =
     (case fb of
        Missing \<Rightarrow> NoFile
      | Unreadable e \<Rightarrow> BadFile e
      | Bytes data \<Rightarrow> (case parse_pack yaml data name of Inl e \<Rightarrow> BadFile e | Inr p \<Rightarrow> Layer p))"

definition baseCode :: string where
  "baseCode = ''en''"

definition overlay :: "pack \<Rightarrow> pack \<Rightarrow> pack" where
  "overlay dst src =
     \<lparr>pk_Code = (if pk_Code src \<noteq> [] then pk_Code src else pk_Code dst),
      pk_Name = (if pk_Name src \<noteq> [] then pk_Name src else pk_Name dst),
      pk_Prompt = (if pk_Prompt src \<noteq> [] then pk_Prompt src else pk_Prompt dst),
      pk_Strings = pk_Strings dst ++ pk_Strings src\<rparr>"

text \<open>\<open>emb\<close> reads the embedded pack of a code; \<open>ext\<close> the one in the directory, if one is set.\<close>

definition Load :: "(string \<Rightarrow> layer) \<Rightarrow> layer option \<Rightarrow> string \<Rightarrow> pack result" where
  "Load emb ext code =
     (case emb baseCode of
        NoFile \<Rightarrow> Inl (Wrap ''langpacks: base pack'' (ErrMsg ''file does not exist''))
      | BadFile e \<Rightarrow> Inl (Wrap ''langpacks: base pack'' e)
      | Layer base \<Rightarrow>
          let pack0 = (if code \<noteq> baseCode then base\<lparr>pk_Code := code, pk_Name := code\<rparr> else base);
              step1 = (if code = baseCode then Inr (pack0, True)
                else (case emb code of
                    Layer l \<Rightarrow> Inr (overlay pack0 l, True)
                  | NoFile \<Rightarrow> Inr (pack0, False)
                  | BadFile e \<Rightarrow> Inl (Wrap ''langpacks: embedded pack'' e)))
          in (case step1 of Inl e \<Rightarrow> Inl e
            | Inr (pack1, found1) \<Rightarrow>
                (case (case ext of None \<Rightarrow> Inr (pack1, found1)
                    | Some (Layer l) \<Rightarrow> Inr (overlay pack1 l, True)
                    | Some NoFile \<Rightarrow> Inr (pack1, found1)
                    | Some (BadFile e) \<Rightarrow> Inl (Wrap ''langpacks: external pack'' e)) of
                   Inl e \<Rightarrow> Inl e
                 | Inr (pack2, found2) \<Rightarrow>
                     if found2 then Inr pack2
                     else Inl (ErrMsg ''langpacks: no pack for language''))))"

text \<open>
  The same over files: \<open>emb\<close> are the embedded ones, \<open>files\<close> those of the file system, \<open>join\<close> is
  \<^verbatim>\<open>filepath.Join\<close>.
\<close>

definition load_files ::
    "(string \<Rightarrow> pack result) \<Rightarrow> (string \<Rightarrow> file_bytes) \<Rightarrow> (string \<Rightarrow> file_bytes) \<Rightarrow> (string \<Rightarrow> string \<Rightarrow> string)
     \<Rightarrow> string \<Rightarrow> string \<Rightarrow> pack result" where
  "load_files yaml emb files join code dir =
     Load (\<lambda>c. read_pack yaml (c @ ''.yaml'') (emb (c @ ''.yaml'')))
       (if dir \<noteq> [] then Some (read_pack yaml (join dir (code @ ''.yaml'')) (files (join dir (code @ ''.yaml''))))
        else None)
       code"

section \<open>The catalog\<close>

type_synonym catalog = "string \<rightharpoonup> string"

text \<open>The embedded English catalog; the program does not start (\<open>None\<close>) when its pack does not load.\<close>

definition mustBaseStrings :: "(string \<Rightarrow> pack result) \<Rightarrow> (string \<Rightarrow> file_bytes) \<Rightarrow> (string \<Rightarrow> file_bytes) \<Rightarrow>
    (string \<Rightarrow> string \<Rightarrow> string) \<Rightarrow> catalog option" where
  "mustBaseStrings yaml emb files join =
     (case load_files yaml emb files join ''en'' [] of Inl e \<Rightarrow> None | Inr p \<Rightarrow> Some (pk_Strings p))"

text \<open>\<open>base\<close> is the embedded English catalog; a missing key of it reads as the empty string.\<close>

definition strings_Get :: "catalog \<Rightarrow> catalog \<Rightarrow> string \<Rightarrow> string" where
  "strings_Get base s key =
     (case s key of
        Some v \<Rightarrow> if v \<noteq> [] then v else (case base key of None \<Rightarrow> [] | Some w \<Rightarrow> w)
      | None \<Rightarrow> (case base key of None \<Rightarrow> [] | Some w \<Rightarrow> w))"

fun layer_text :: "layer option \<Rightarrow> string \<Rightarrow> string option" where
  "layer_text (Some (Layer l)) key = pk_Strings l key"
| "layer_text _ key = None"

text \<open>Every message of a loaded pack is the first one set of: the deployment's own pack, the
  built-in pack of the language, the English pack; a language with neither a built-in nor a
  deployment pack, or an unreadable one, does not load at all.\<close>

theorem Load_layers:
  assumes "Load emb ext code = Inr p"
  shows "pk_Strings p key =
      (case layer_text ext key of Some v \<Rightarrow> Some v
       | None \<Rightarrow> (case (if code = baseCode then None else layer_text (Some (emb code)) key) of Some v \<Rightarrow> Some v
           | None \<Rightarrow> layer_text (Some (emb baseCode)) key)) \<and>
    (code = baseCode \<or> (\<exists>l. emb code = Layer l) \<or> (\<exists>l. ext = Some (Layer l)))"
  using assms
  by (auto simp: Load_def Let_def overlay_def map_add_def
      split: layer.splits option.splits if_splits)

theorem Load_layers_witness:
  "\<exists>p. Load (\<lambda>c. if c = ''en'' then Layer \<lparr>pk_Code = ''en'', pk_Name = ''English'', pk_Prompt = [],
        pk_Strings = [''nudge'' \<mapsto> ''hello'']\<rparr> else NoFile)
      (Some (Layer \<lparr>pk_Code = [], pk_Name = [], pk_Prompt = [], pk_Strings = [''refuse'' \<mapsto> ''no'']\<rparr>)) ''fa'' = Inr p \<and>
     pk_Strings p ''nudge'' = Some ''hello'' \<and> pk_Strings p ''refuse'' = Some ''no''"
  (is "\<exists>p. Load ?emb ?ext _ = _ \<and> _")
proof -
  obtain p where p: "Load ?emb ?ext ''fa'' = Inr p"
    by (simp add: Load_def baseCode_def)
  show ?thesis
    using Load_layers [OF p, of "''nudge''"] Load_layers [OF p, of "''refuse''"] p by (simp add: baseCode_def)
qed

lemma strings_Get_nonempty:
  "strings_Get base s key \<noteq> [] \<longleftrightarrow> (\<exists>v. s key = Some v \<and> v \<noteq> []) \<or> (\<exists>w. base key = Some w \<and> w \<noteq> [])"
  by (auto simp: strings_Get_def split: option.splits)

end
