(* ===== verification/GoText.thy ===== *)
theory GoText
  imports Prelude "HOL-Library.Sublist"
begin

text \<open>
  The parts of Go's \<^verbatim>\<open>strings\<close>, \<^verbatim>\<open>unicode/utf8\<close> and \<^verbatim>\<open>unicode\<close> packages the program uses. A
  Go string is a byte sequence, here a \<open>string\<close> whose characters are the bytes; a rune is a
  natural number. Decoding follows \<^verbatim>\<open>utf8.DecodeRuneInString\<close>: a byte that starts no valid
  encoding is the rune U+FFFD, one byte wide. The classes of \<^verbatim>\<open>unicode\<close> that are tables of
  the standard library (letters, digits, case) are the fields of a \<open>unicode\<close> record, an
  argument of the operations that consult them; white space and control characters are
  written out.
\<close>

type_synonym rune = nat

section \<open>Decoding and encoding\<close>

abbreviation byte :: "char \<Rightarrow> nat" where
  "byte c \<equiv> of_char c"

definition rune_error :: rune where
  "rune_error = 65533"

definition cont_in :: "nat \<Rightarrow> nat \<Rightarrow> string \<Rightarrow> nat \<Rightarrow> bool" where
  "cont_in lo hi s i \<longleftrightarrow> i < length s \<and> lo \<le> byte (s ! i) \<and> byte (s ! i) \<le> hi"

text \<open>The rune at the head of a nonempty string and its width in bytes.\<close>

definition decode_rune :: "string \<Rightarrow> rune \<times> nat" where
  "decode_rune s =
     (let b0 = byte (s ! 0); c = (\<lambda>i. byte (s ! i) - 128); ok = cont_in 128 191 s in
      if b0 < 128 then (b0, 1)
      else if 194 \<le> b0 \<and> b0 \<le> 223 \<and> ok 1 then ((b0 - 192) * 64 + c 1, 2)
      else if 224 \<le> b0 \<and> b0 \<le> 239 \<and>
              cont_in (if b0 = 224 then 160 else 128) (if b0 = 237 then 159 else 191) s 1 \<and> ok 2
           then ((b0 - 224) * 4096 + c 1 * 64 + c 2, 3)
      else if 240 \<le> b0 \<and> b0 \<le> 244 \<and>
              cont_in (if b0 = 240 then 144 else 128) (if b0 = 244 then 143 else 191) s 1 \<and> ok 2 \<and> ok 3
           then ((b0 - 240) * 262144 + c 1 * 4096 + c 2 * 64 + c 3, 4)
      else (rune_error, 1))"

lemma decode_rune_width: "0 < snd (decode_rune s)"
  by (simp add: decode_rune_def Let_def)

lemma decode_rune_pos: "(r, n) = decode_rune s \<Longrightarrow> 0 < n"
  using decode_rune_width [of s] by (metis snd_conv)

text \<open>A string as its runes, each with the bytes it was read from.\<close>

function segs :: "string \<Rightarrow> (rune \<times> string) list" where
  "segs s = (if s = [] then []
     else case decode_rune s of (r, n) \<Rightarrow> (r, take n s) # segs (drop n s))"
  by auto
termination
  by (relation "measure length") (auto simp: decode_rune_pos)

declare segs.simps [simp del]

lemma segs_Nil [simp]: "segs [] = []"
  by (simp add: segs.simps)

lemma segs_concat: "concat (map snd (segs s)) = s"
proof (induction s rule: segs.induct)
  case (1 s)
  then show ?case by (subst segs.simps) (auto split: prod.splits)
qed

definition runes :: "string \<Rightarrow> rune list" where
  "runes s = map fst (segs s)"

definition encode_rune :: "rune \<Rightarrow> string" where
  "encode_rune r =
     map char_of
      (if r < 128 then [r]
       else if r < 2048 then [192 + r div 64, 128 + r mod 64]
       else if 55296 \<le> r \<and> r \<le> 57343 \<or> 1114111 < r then [239, 191, 189]
       else if r < 65536 then [224 + r div 4096, 128 + r div 64 mod 64, 128 + r mod 64]
       else [240 + r div 262144, 128 + r div 4096 mod 64, 128 + r div 64 mod 64, 128 + r mod 64])"

definition of_runes :: "rune list \<Rightarrow> string" where
  "of_runes rs = concat (map encode_rune rs)"

lemma segs_ascii: "list_all (\<lambda>c. byte c < (128 :: nat)) s \<Longrightarrow> segs s = map (\<lambda>c. (byte c, [c])) s"
  by (induction s) (subst segs.simps; simp add: decode_rune_def)+

lemma runes_ascii: "list_all (\<lambda>c. byte c < (128 :: nat)) s \<Longrightarrow> runes s = map of_char s"
  by (simp add: runes_def segs_ascii)

definition newline :: string where
  "newline = [char_of (10 :: nat)]"

section \<open>The classes\<close>

record unicode =
  uc_lower :: "rune \<Rightarrow> rune"
  uc_letter :: "rune \<Rightarrow> bool"
  uc_digit :: "rune \<Rightarrow> bool"

text \<open>The tables on ASCII, for concrete runs.\<close>

definition ascii_tables :: unicode where
  "ascii_tables = \<lparr>uc_lower = (\<lambda>r. if 65 \<le> r \<and> r \<le> 90 then r + 32 else r),
     uc_letter = (\<lambda>r. 65 \<le> r \<and> r \<le> 90 \<or> 97 \<le> r \<and> r \<le> 122),
     uc_digit = (\<lambda>r. 48 \<le> r \<and> r \<le> 57)\<rparr>"

definition is_space :: "rune \<Rightarrow> bool" where
  "is_space r \<longleftrightarrow> 9 \<le> r \<and> r \<le> 13 \<or> r = 32 \<or> r = 133 \<or> r = 160 \<or> r = 5760 \<or>
     8192 \<le> r \<and> r \<le> 8202 \<or> r = 8232 \<or> r = 8233 \<or> r = 8239 \<or> r = 8287 \<or> r = 12288"

definition is_control :: "rune \<Rightarrow> bool" where
  "is_control r \<longleftrightarrow> r < 32 \<or> 127 \<le> r \<and> r < 160"

section \<open>Operations of strings\<close>

fun split_segs :: "(rune \<Rightarrow> bool) \<Rightarrow> (rune \<times> string) list \<Rightarrow> string \<Rightarrow> string list" where
  "split_segs f [] acc = (if acc = [] then [] else [acc])"
| "split_segs f ((r, bs) # ss) acc =
     (if f r then (if acc = [] then [] else [acc]) @ split_segs f ss []
      else split_segs f ss (acc @ bs))"

definition FieldsFunc :: "(rune \<Rightarrow> bool) \<Rightarrow> string \<Rightarrow> string list" where
  "FieldsFunc f s = split_segs f (segs s) []"

definition Fields :: "string \<Rightarrow> string list" where
  "Fields = FieldsFunc is_space"

definition ToLower :: "'a unicode_scheme \<Rightarrow> string \<Rightarrow> string" where
  "ToLower uc s = of_runes (map (uc_lower uc) (runes s))"

fun drop_spaces :: "(rune \<times> string) list \<Rightarrow> (rune \<times> string) list" where
  "drop_spaces [] = []"
| "drop_spaces ((r, bs) # ss) = (if is_space r then drop_spaces ss else (r, bs) # ss)"

definition TrimSpace :: "string \<Rightarrow> string" where
  "TrimSpace s = concat (map snd (rev (drop_spaces (rev (drop_spaces (segs s))))))"

lemma drop_spaces_ascii:
  "drop_spaces (map (\<lambda>c. (byte c, [c])) s) = map (\<lambda>c. (byte c, [c])) (dropWhile (\<lambda>c. is_space (byte c)) s)"
  by (induction s) auto

lemma TrimSpace_ascii:
  assumes "list_all (\<lambda>c. byte c < (128 :: nat)) s"
  shows "TrimSpace s = rev (dropWhile (\<lambda>c. is_space (byte c)) (rev (dropWhile (\<lambda>c. is_space (byte c)) s)))"
proof -
  have c: "concat (map snd (map (\<lambda>c. (byte c :: nat, [c])) xs)) = xs" for xs by (induction xs) auto
  show ?thesis
    by (simp only: TrimSpace_def segs_ascii [OF assms] drop_spaces_ascii rev_map c)
qed

fun Index :: "string \<Rightarrow> string \<Rightarrow> nat option" where
  "Index s sub = (if prefix sub s then Some 0
     else case s of [] \<Rightarrow> None | _ # s' \<Rightarrow> map_option Suc (Index s' sub))"

declare Index.simps [simp del]

definition Contains :: "string \<Rightarrow> string \<Rightarrow> bool" where
  "Contains s sub \<longleftrightarrow> sublist sub s"

lemma Contains_Index: "Contains s sub \<longleftrightarrow> Index s sub \<noteq> None"
proof (induction s)
  case Nil
  then show ?case by (simp add: Contains_def Index.simps [of "[]"])
next
  case (Cons c s)
  then show ?case by (auto simp: Contains_def Index.simps [of "c # s"] sublist_Cons_right)
qed

text \<open>\<^verbatim>\<open>strings.ReplaceAll\<close> with a nonempty old text: leftmost occurrences, none overlapping.\<close>

function ReplaceAll :: "string \<Rightarrow> string \<Rightarrow> string \<Rightarrow> string" where
  "ReplaceAll s old new =
     (if s = [] \<or> old = [] then s
      else if prefix old s then new @ ReplaceAll (drop (length old) s) old new
      else hd s # ReplaceAll (tl s) old new)"
  by auto
termination
  by (relation "measure (\<lambda>(s, old, new). length s)") (auto simp: Suc_le_eq)

declare ReplaceAll.simps [simp del]

definition TrimPrefix :: "string \<Rightarrow> string \<Rightarrow> string" where
  "TrimPrefix s p = (if prefix p s then drop (length p) s else s)"

definition TrimSuffix :: "string \<Rightarrow> string \<Rightarrow> string" where
  "TrimSuffix s p = (if suffix p s then take (length s - length p) s else s)"

definition join :: "'a list \<Rightarrow> 'a list list \<Rightarrow> 'a list" where
  "join sep xs = (case xs of [] \<Rightarrow> [] | x # xs' \<Rightarrow> x @ concat (map (\<lambda>y. sep @ y) xs'))"

lemma ReplaceAll_absent: "\<not> Contains s old \<Longrightarrow> ReplaceAll s old new = s"
proof (induction s old new rule: ReplaceAll.induct)
  case (1 s old new)
  show ?case
  proof (cases s)
    case Nil
    then show ?thesis by (simp add: ReplaceAll.simps)
  next
    case (Cons c s')
    with 1 show ?thesis
      by (subst ReplaceAll.simps) (auto simp: Contains_def sublist_Cons_right)
  qed
qed

lemma length_ReplaceAll_le: "length (ReplaceAll s old []) \<le> length s"
proof (induction s old "[] :: string" rule: ReplaceAll.induct)
  case (1 s old)
  show ?case
  proof (cases "s = [] \<or> old = []")
    case True
    then show ?thesis by (simp add: ReplaceAll.simps)
  next
    case False
    then obtain c s' where s: "s = c # s'" by (cases s) auto
    with False 1 show ?thesis by (subst ReplaceAll.simps) auto
  qed
qed

section \<open>Numbers\<close>

text \<open>\<^verbatim>\<open>strconv.Itoa\<close>, \<^verbatim>\<open>strconv.FormatInt\<close> in base ten and the verb \<^verbatim>\<open>%d\<close>.\<close>

fun digits :: "nat \<Rightarrow> string" where
  "digits n = (if n < 10 then [char_of (48 + n)] else digits (n div 10) @ [char_of (48 + n mod 10)])"

declare digits.simps [simp del]

definition itoa :: "int \<Rightarrow> string" where
  "itoa i = (if i < 0 then CHR ''-'' # digits (nat (- i)) else digits (nat i))"

definition digit_value :: "char \<Rightarrow> nat" where
  "digit_value c = byte c - 48"

lemma digits_value: "foldl (\<lambda>n c. n * 10 + digit_value c) 0 (digits n) = n"
proof (induction n rule: digits.induct)
  case (1 n)
  have b: "digit_value (char_of (48 + k :: nat)) = k" if "k < 10" for k
    using that by (simp add: digit_value_def)
  show ?case
  proof (cases "n < 10")
    case True
    then show ?thesis by (subst digits.simps) (simp add: b)
  next
    case False
    then have "foldl (\<lambda>n c. n * 10 + digit_value c) 0 (digits (n div 10)) = n div 10"
      by (rule 1)
    with False show ?thesis by (subst digits.simps) (simp add: b)
  qed
qed

lemma digits_inj: "digits m = digits n \<longleftrightarrow> m = n"
  by (metis digits_value)

lemma digits_chars: "c \<in> set (digits n) \<Longrightarrow> 48 \<le> byte c \<and> byte c \<le> (57 :: nat)"
proof (induction n rule: digits.induct)
  case (1 n)
  have b: "48 \<le> byte (char_of (48 + k :: nat)) \<and> byte (char_of (48 + k)) \<le> (57 :: nat)" if "k < 10" for k
    using that by simp
  from 1 show ?case
    by (subst (asm) (2) digits.simps) (auto simp: b split: if_splits)
qed

lemma digits_nonempty [simp]: "digits n \<noteq> []"
  by (subst digits.simps) simp

lemma itoa_inj: "itoa i = itoa j \<longleftrightarrow> i = j"
proof
  assume eq: "itoa i = itoa j"
  have minus: "CHR ''-'' \<notin> set (digits n)" for n
    using digits_chars [of "CHR ''-''" n] by auto
  have "CHR ''-'' # digits m \<noteq> digits n" "digits n \<noteq> CHR ''-'' # digits m" for m n
    using minus [of n] by (metis list.set_intros(1))+
  with eq show "i = j"
    by (auto simp: itoa_def digits_inj split: if_splits)
qed simp

lemma itoa_no_slash: "CHR ''/'' \<notin> set (itoa i)"
  using digits_chars [of "CHR ''/''"] by (auto simp: itoa_def)

end
