(* ===== verification/Actions.thy ===== *)
theory Actions
  imports Acl_Props Pending LangPacks GoText
begin

text \<open>
  Interactive actions: the verb registry (\<^verbatim>\<open>internal/runtime/registry.go\<close>), the verbs it
  holds (\<^verbatim>\<open>verbs.go\<close>), proposals (\<^verbatim>\<open>proposer.go\<close>) and the execution of a resolved action
  (\<^verbatim>\<open>executeAction\<close> and \<^verbatim>\<open>resolveCallback\<close> of \<^verbatim>\<open>handler.go\<close>). A verb's executor acts on a
  state \<open>'w\<close>; for the verbs of the program that is the access-control store.
\<close>

section \<open>Verbs\<close>

type_synonym params = "string \<rightharpoonup> string"

definition param :: "params \<Rightarrow> string \<Rightarrow> string" where
  "param p k = (case p k of None \<Rightarrow> [] | Some v \<Rightarrow> v)"

record 'w verb =
  v_MinTier :: tier
  v_Validate :: "(params \<Rightarrow> error option) option"
  v_Execute :: "user \<Rightarrow> params \<Rightarrow> 'w \<Rightarrow> string result \<times> 'w"
  v_Describe :: "(params \<Rightarrow> string) option"

type_synonym 'w registry = "string \<rightharpoonup> 'w verb"

definition NewRegistry :: "'w registry" where
  "NewRegistry = Map.empty"

definition Register :: "'w registry \<Rightarrow> string \<Rightarrow> 'w verb \<Rightarrow> 'w registry" where
  "Register r name v = r(name \<mapsto> v)"

definition Lookup :: "'w registry \<Rightarrow> string \<Rightarrow> 'w verb option" where
  "Lookup r name = r name"

definition verbEcho :: string where "verbEcho = ''echo''"
definition verbSetTier :: string where "verbSetTier = ''set_tier''"
definition verbDismiss :: string where "verbDismiss = ''dismiss''"
definition verbConsentGrant :: string where "verbConsentGrant = ''consent_grant''"

lemmas verb_names = verbEcho_def verbSetTier_def verbDismiss_def verbConsentGrant_def

definition EchoVerb :: "'w verb" where
  "EchoVerb = \<lparr>v_MinTier = TierThrottled, v_Validate = None,
     v_Execute = (\<lambda>_ _ w. (Inr [], w)), v_Describe = None\<rparr>"

text \<open>The text between target and tier: a space, U+2192, a space.\<close>

definition arrow :: string where
  "arrow = ''' '' @ map char_of [226, 134, 146 :: nat] @ '' ''"

definition set_tier_validate :: "params \<Rightarrow> error option" where
  "set_tier_validate p =
     (if TrimSpace (param p ''user'') = [] then Some (ErrMsg ''set_tier: missing user'')
      else if \<not> ValidTier (param p ''tier'') then Some (ErrMsg ''set_tier: unknown tier'')
      else None)"

definition set_tier_describe :: "params \<Rightarrow> string" where
  "set_tier_describe p = ''Set '' @ param p ''user'' @ arrow @ param p ''tier''"

definition SetTierVerb :: "io \<Rightarrow> acl_db verb" where
  "SetTierVerb io = \<lparr>v_MinTier = TierAdmin, v_Validate = Some set_tier_validate,
     v_Execute = (\<lambda>_ p b. case SetTier io b (param p ''user'') (param p ''tier'') of
         (Some e, b') \<Rightarrow> (Inl e, b')
       | (None, b') \<Rightarrow> (Inr (''Set '' @ param p ''user'' @ arrow @ param p ''tier'' @ ''.''), b')),
     v_Describe = Some set_tier_describe\<rparr>"

definition DismissVerb :: "'w verb" where
  "DismissVerb = \<lparr>v_MinTier = TierThrottled, v_Validate = None,
     v_Execute = (\<lambda>_ _ w. (Inr ''Dismissed.'', w)), v_Describe = None\<rparr>"

definition ConsentGrantVerb :: "io \<Rightarrow> string \<Rightarrow> acl_db verb" where
  "ConsentGrantVerb io granted = \<lparr>v_MinTier = TierThrottled, v_Validate = None,
     v_Execute = (\<lambda>subject _ b. case SetConsent io b (u_ID subject) ConsentGranted of
         (Some e, b') \<Rightarrow> (Inl e, b')
       | (None, b') \<Rightarrow> (Inr granted, b')),
     v_Describe = None\<rparr>"

text \<open>\<open>granted\<close> is the catalog's text for a granted consent.\<close>

definition DefaultRegistry :: "io \<Rightarrow> string \<Rightarrow> acl_db registry" where
  "DefaultRegistry io granted =
     Register (Register (Register (Register NewRegistry
       verbEcho EchoVerb) verbDismiss DismissVerb)
       verbConsentGrant (ConsentGrantVerb io granted)) verbSetTier (SetTierVerb io)"

section \<open>Executing an action\<close>

type_synonym texts = "string \<Rightarrow> string"

definition notice_reply :: "string \<Rightarrow> string \<Rightarrow> reply" where
  "notice_reply n t = empty_reply\<lparr>r_Notice := n, r_Text := t\<rparr>"

text \<open>
  \<open>authz\<close> is the authorizer's read of the subject's current tier, \<open>strs\<close> the catalog's
  \<^verbatim>\<open>Get\<close>. A nil registry is \<open>None\<close>.
\<close>

definition executeAction ::
    "'w registry option \<Rightarrow> (user \<Rightarrow> tier \<Rightarrow> 'w \<Rightarrow> bool result) \<Rightarrow> user \<Rightarrow> action \<Rightarrow> texts \<Rightarrow> 'w \<Rightarrow> reply \<times> 'w" where
  "executeAction reg authz subject act strs w =
     (case reg of None \<Rightarrow> (notice_reply (strs ''callback_unknown_verb'') [], w)
      | Some r \<Rightarrow> (case Lookup r (a_Verb act) of
          None \<Rightarrow> (notice_reply (strs ''callback_unknown_verb'') [], w)
        | Some v \<Rightarrow> (case authz subject (v_MinTier v) w of
            Inl e \<Rightarrow> (notice_reply (strs ''callback_denied'') [], w)
          | Inr False \<Rightarrow> (notice_reply (strs ''callback_denied'') [], w)
          | Inr True \<Rightarrow>
              (case (case v_Validate v of None \<Rightarrow> None | Some f \<Rightarrow> f (a_Params act)) of
                 Some e \<Rightarrow> (notice_reply (strs ''callback_invalid'') [], w)
               | None \<Rightarrow> (case v_Execute v subject (a_Params act) w of
                     (Inl e, w') \<Rightarrow> (notice_reply (strs ''callback_failed'') [], w')
                   | (Inr line, w') \<Rightarrow> (notice_reply (strs ''callback_done'') line, w'))))))"

text \<open>A click: the token's store \<open>s\<close>, or none, and the state \<open>w\<close> its action would act on.\<close>

definition resolveCallback ::
    "('s \<Rightarrow> string \<Rightarrow> (action \<times> status \<times> error option) \<times> 's) \<Rightarrow> 's option \<Rightarrow> 'w registry option
     \<Rightarrow> (user \<Rightarrow> tier \<Rightarrow> 'w \<Rightarrow> bool result) \<Rightarrow> user \<Rightarrow> string \<Rightarrow> texts \<Rightarrow> 'w \<Rightarrow> reply \<times> 's option \<times> 'w" where
  "resolveCallback resolve so reg authz subject token strs w =
     (case so of
        None \<Rightarrow> (notice_reply (strs ''callback_expired'') (strs ''callback_expired_edit''), None, w)
      | Some s \<Rightarrow> (case resolve s token of
          ((a, st, Some e), s') \<Rightarrow> (notice_reply (strs ''callback_error'') [], Some s', w)
        | ((a, st, None), s') \<Rightarrow> (case st of
              Resolved \<Rightarrow> (case executeAction reg authz subject a strs w of (r, w') \<Rightarrow> (r, Some s', w'))
            | Consumed \<Rightarrow> (notice_reply (strs ''callback_consumed'') (strs ''callback_consumed_edit''), Some s', w)
            | Expired \<Rightarrow> (notice_reply (strs ''callback_expired'') (strs ''callback_expired_edit''), Some s', w))))"

section \<open>Proposals\<close>

record proposal =
  pp_Prompt :: string
  pp_Action :: action

definition isPrivileged :: "tier \<Rightarrow> bool" where
  "isPrivileged t \<longleftrightarrow> AtLeast t TierAdmin"

definition dismissLabel :: string where
  "dismissLabel = ''Dismiss''"

definition proposal_reply :: "proposal \<Rightarrow> string \<Rightarrow> reply" where
  "proposal_reply p label = empty_reply\<lparr>r_Text := pp_Prompt p,
     r_Actions := [(pp_Action p)\<lparr>a_Label := label\<rparr>,
       \<lparr>a_Verb = verbDismiss, a_Params = Map.empty, a_Label = dismissLabel\<rparr>]\<rparr>"

definition RenderProposal ::
    "'w registry \<Rightarrow> proposal \<Rightarrow> user \<Rightarrow> surface \<Rightarrow> (user \<Rightarrow> tier \<Rightarrow> bool result) \<Rightarrow> reply result" where
  "RenderProposal reg p recipient sf authz =
     (case Lookup reg (a_Verb (pp_Action p)) of
        None \<Rightarrow> Inl ErrUnknownProposedVerb
      | Some v \<Rightarrow>
        (case (case v_Validate v of None \<Rightarrow> None | Some f \<Rightarrow> f (a_Params (pp_Action p))) of
           Some e \<Rightarrow> Inl (Wrap ''runtime: invalid proposed params'' e)
         | None \<Rightarrow>
             if isPrivileged (v_MinTier v) then
               (case v_Describe v of
                  None \<Rightarrow> Inl ErrProposalNotDescribable
                | Some describe \<Rightarrow>
                    if sf \<noteq> SurfaceDM then Inl ErrProposalNotPrivate
                    else (case authz recipient (v_MinTier v) of
                        Inl e \<Rightarrow> Inl e
                      | Inr False \<Rightarrow> Inl ErrProposalRecipientCannotApprove
                      | Inr True \<Rightarrow> Inr (proposal_reply p (describe (a_Params (pp_Action p))))))
             else (case v_Describe v of
                 None \<Rightarrow> Inr (proposal_reply p ''Approve'')
               | Some describe \<Rightarrow> Inr (proposal_reply p (describe (a_Params (pp_Action p)))))))"

section \<open>What a click can change\<close>

lemma Lookup_default:
  "Lookup (DefaultRegistry io granted) name =
     (if name = verbSetTier then Some (SetTierVerb io)
      else if name = verbConsentGrant then Some (ConsentGrantVerb io granted)
      else if name = verbDismiss then Some DismissVerb
      else if name = verbEcho then Some EchoVerb else None)"
  by (simp add: Lookup_def DefaultRegistry_def Register_def NewRegistry_def)

lemma executeAction_state:
  assumes "executeAction (Some reg) authz subject act strs w = (r, w')" and "w' \<noteq> w"
  obtains v where "Lookup reg (a_Verb act) = Some v" "authz subject (v_MinTier v) w = Inr True"
    "(case v_Validate v of None \<Rightarrow> None | Some f \<Rightarrow> f (a_Params act)) = None"
    "w' = snd (v_Execute v subject (a_Params act) w)"
  using assms that
  by (auto simp: executeAction_def split: option.splits sum.splits bool.splits prod.splits)

lemma SetConsent_row:
  assumes "SetConsent io b u c = (e, b')" "b' \<noteq> b"
  shows "\<exists>r. acl_row b u = Some r \<and> acl_row b' = (acl_row b)(u \<mapsto> r\<lparr>rec_Consent := c\<rparr>)"
  using assms acl_bolt.update_row [of io b u _ b'] acl_bolt.update_err [of io b u _ _ b']
  unfolding SetConsent_def by (cases e) fastforce+

lemma SetTier_row:
  assumes "SetTier io b u t = (e, b')" "b' \<noteq> b"
  shows "ValidTier t \<and> (\<exists>r. acl_row b u = Some r \<and> acl_row b' = (acl_row b)(u \<mapsto> r\<lparr>rec_Tier := t\<rparr>))"
  using assms acl_bolt.update_row [of io b u _ b'] acl_bolt.update_err [of io b u _ _ b']
  unfolding SetTier_def by (cases e) (fastforce split: if_splits)+

text \<open>C33: A button click changes access state in two ways only. Someone whose tier, read fresh at
  the click, is admin gives a user the valid tier the button names; or the clicker's own
  consent is granted. Nothing else of any row changes, whatever action a token carried.\<close>

theorem click_authority:
  assumes "executeAction (Some (DefaultRegistry io granted)) (\<lambda>usr t b. Authorize ia g b usr t)
      subject act strs b = (r, b')"
    and "b' \<noteq> b"
  shows "(a_Verb act = verbSetTier \<and>
      (\<exists>ra. acl_row b (u_ID subject) = Some ra \<and> resolveTier g ra = TierAdmin) \<and>
      ValidTier (param (a_Params act) ''tier'') \<and>
      (\<exists>rt. acl_row b (param (a_Params act) ''user'') = Some rt \<and>
         acl_row b' = (acl_row b)(param (a_Params act) ''user'' \<mapsto>
           rt\<lparr>rec_Tier := param (a_Params act) ''tier''\<rparr>))) \<or>
    (a_Verb act = verbConsentGrant \<and>
      (\<exists>rs. acl_row b (u_ID subject) = Some rs \<and>
         acl_row b' = (acl_row b)(u_ID subject \<mapsto> rs\<lparr>rec_Consent := ConsentGranted\<rparr>)))"
proof -
  obtain v where v: "Lookup (DefaultRegistry io granted) (a_Verb act) = Some v"
    and au: "Authorize ia g b subject (v_MinTier v) = Inr True"
    and w': "b' = snd (v_Execute v subject (a_Params act) b)"
    using executeAction_state [OF assms] by metis
  consider "a_Verb act = verbSetTier" "v = SetTierVerb io"
    | "a_Verb act = verbConsentGrant" "v = ConsentGrantVerb io granted"
    | "v = DismissVerb" | "v = EchoVerb"
    using v by (auto simp: Lookup_default split: if_splits)
  then show ?thesis
  proof cases
    case 1
    obtain e where st: "SetTier io b (param (a_Params act) ''user'') (param (a_Params act) ''tier'') = (e, b')"
      using w' 1 by (cases "SetTier io b (param (a_Params act) ''user'') (param (a_Params act) ''tier'')")
        (auto simp: SetTierVerb_def split: option.splits)
    have "\<exists>ra. acl_row b (u_ID subject) = Some ra \<and> resolveTier g ra = TierAdmin"
      using au 1 by (auto simp: SetTierVerb_def Authorize_def AtLeast_admin acl_get_row split: sum.splits)
    with SetTier_row [OF st assms(2)] 1 show ?thesis by blast
  next
    case 2
    obtain e where "SetConsent io b (u_ID subject) ConsentGranted = (e, b')"
      using w' 2 by (cases "SetConsent io b (u_ID subject) ConsentGranted")
        (auto simp: ConsentGrantVerb_def split: option.splits)
    from SetConsent_row [OF this assms(2)] 2 show ?thesis by blast
  next
    case 3
    with w' assms(2) show ?thesis by (simp add: DismissVerb_def)
  next
    case 4
    with w' assms(2) show ?thesis by (simp add: EchoVerb_def)
  qed
qed

definition demo_user :: user where
  "demo_user = \<lparr>u_ID = ''42'', u_Display = ''a''\<rparr>"

theorem click_authority_witness:
  "\<exists>r b'. executeAction (Some (DefaultRegistry Done ''ok'')) (\<lambda>usr t b. Authorize Done (new_gate TierDefault) b usr t)
      demo_user \<lparr>a_Verb = ''consent_grant'', a_Params = Map.empty, a_Label = []\<rparr> (\<lambda>_. []) [] = (r, b') \<and>
    acl_row b' ''42'' = Some ((zero_record ''42'')\<lparr>rec_Consent := ConsentGranted\<rparr>)"
  (is "\<exists>r b'. executeAction ?reg ?az ?u ?act ?strs [] = _ \<and> _")
proof -
  obtain r b' where e: "executeAction ?reg ?az ?u ?act ?strs [] = (r, b')" by (metis prod.exhaust)
  have b': "b' = [(''42'', Blob ((zero_record ''42'')\<lparr>rec_Consent := ConsentGranted\<rparr>))]"
    using e by (simp add: executeAction_def Lookup_default verb_names ConsentGrantVerb_def Authorize_def
        acl_get_def AtLeast_def tierAuthority_def tier_defs resolveTier_def new_gate_def SetConsent_def
        acl_update_def tx_update_def acl_marshal_def demo_user_def)
  then have "b' \<noteq> []" by simp
  from click_authority [OF e this] have "acl_row b' ''42'' = Some ((zero_record ''42'')\<lparr>rec_Consent := ConsentGranted\<rparr>)"
    by (auto simp: verb_names demo_user_def)
  with e show ?thesis by blast
qed

section \<open>What a proposal shows\<close>

text \<open>A privileged proposal tells its approver the truth and reaches only someone who can
  approve it: when a tier change is offered, it is offered in a direct message to a user
  authorized at that moment, its parameters are valid, the approve button carries exactly
  the proposed action under a label naming the target and the tier, and executing that
  action sets that target to that tier and changes no other row.\<close>

theorem proposal_truthful:
  assumes "RenderProposal (DefaultRegistry io granted) p recipient sf authz = Inr rep"
    and "a_Verb (pp_Action p) = verbSetTier"
  shows "sf = SurfaceDM \<and> authz recipient TierAdmin = Inr True \<and>
    set_tier_validate (a_Params (pp_Action p)) = None \<and>
    r_Actions rep = [(pp_Action p)\<lparr>a_Label := ''Set '' @ param (a_Params (pp_Action p)) ''user'' @ arrow @
        param (a_Params (pp_Action p)) ''tier''\<rparr>,
      \<lparr>a_Verb = verbDismiss, a_Params = Map.empty, a_Label = dismissLabel\<rparr>] \<and>
    (\<forall>b b' line. v_Execute (SetTierVerb io) recipient (a_Params (pp_Action p)) b = (Inr line, b') \<longrightarrow>
       (\<exists>r. acl_row b' = (acl_row b)(param (a_Params (pp_Action p)) ''user'' \<mapsto>
          r\<lparr>rec_Tier := param (a_Params (pp_Action p)) ''tier''\<rparr>)))"
proof -
  have "sf = SurfaceDM \<and> authz recipient TierAdmin = Inr True \<and>
      set_tier_validate (a_Params (pp_Action p)) = None \<and>
      rep = proposal_reply p (set_tier_describe (a_Params (pp_Action p)))"
    using assms
    by (auto simp: RenderProposal_def Lookup_default SetTierVerb_def isPrivileged_def AtLeast_admin
        split: option.splits sum.splits bool.splits if_splits)
  moreover have "\<exists>r. acl_row b' = (acl_row b)(param (a_Params (pp_Action p)) ''user'' \<mapsto>
          r\<lparr>rec_Tier := param (a_Params (pp_Action p)) ''tier''\<rparr>)"
    if "v_Execute (SetTierVerb io) recipient (a_Params (pp_Action p)) b = (Inr line, b')" for b b' line
    using that acl_bolt.update_row [of io b "param (a_Params (pp_Action p)) ''user''" _ b']
    by (fastforce simp: SetTierVerb_def SetTier_def split: prod.splits option.splits if_splits)
  ultimately show ?thesis by (simp add: proposal_reply_def set_tier_describe_def)
qed

theorem proposal_truthful_witness:
  "\<exists>rep. RenderProposal (DefaultRegistry Done ''ok'')
      \<lparr>pp_Prompt = ''p'', pp_Action = \<lparr>a_Verb = verbSetTier, a_Params = [''user'' \<mapsto> ''7'', ''tier'' \<mapsto> ''trusted''], a_Label = ''x''\<rparr>\<rparr>
      demo_user SurfaceDM (\<lambda>_ _. Inr True) = Inr rep \<and>
    a_Label (r_Actions rep ! 0) = ''Set '' @ ''7'' @ arrow @ ''trusted''"
  (is "\<exists>rep. RenderProposal ?reg ?p _ _ ?az = _ \<and> _")
proof -
  have segs: "segs ''7'' = [(55, ''7'')]"
    by (subst segs.simps) (simp add: decode_rune_def)
  have "TrimSpace ''7'' = ''7''" by (simp add: TrimSpace_def segs is_space_def)
  then have "\<exists>rep. RenderProposal ?reg ?p demo_user SurfaceDM ?az = Inr rep"
    by (simp add: RenderProposal_def Lookup_default SetTierVerb_def isPrivileged_def AtLeast_admin
        set_tier_validate_def param_def ValidTier_def tierAuthority_def tier_defs)
  then obtain rep where rep: "RenderProposal ?reg ?p demo_user SurfaceDM ?az = Inr rep" by blast
  with proposal_truthful [OF rep] show ?thesis by (simp add: param_def)
qed

text \<open>
  \<^verbatim>\<open>Validate\<close> looks at the trimmed target, \<^verbatim>\<open>Execute\<close> writes the target as it came: with a
  padded id the tier goes to a row no user has.
\<close>

text \<open>The tier verb accepts a padded user id and then changes a different row than the user's:
  for the target " 42" the parameters are valid, and the tier of "42" is not changed.\<close>

theorem set_tier_padded_target:
  assumes "p = [''user'' \<mapsto> '' 42'', ''tier'' \<mapsto> ''trusted'']"
    and "v_Execute (SetTierVerb io) subject p b = (Inr line, b')"
  shows "set_tier_validate p = None \<and> acl_row b' ''42'' = acl_row b ''42'' \<and>
    (\<exists>r. acl_row b' '' 42'' = Some r \<and> rec_Tier r = TierTrusted)"
proof -
  have segs: "segs '' 42'' = [(32, '' ''), (52, ''4''), (50, ''2'')]"
    by (subst segs_ascii) simp_all
  have "TrimSpace '' 42'' = ''42''" by (simp add: TrimSpace_def segs is_space_def)
  then have "set_tier_validate p = None"
    by (simp add: assms(1) set_tier_validate_def param_def ValidTier_def tierAuthority_def tier_defs)
  moreover have "\<exists>r. acl_row b' = (acl_row b)('' 42'' \<mapsto> r\<lparr>rec_Tier := ''trusted''\<rparr>)"
    using assms acl_bolt.update_row [of io b "'' 42''" _ b']
    by (fastforce simp: SetTierVerb_def SetTier_def param_def split: prod.splits option.splits if_splits)
  ultimately show ?thesis by (auto simp: TierTrusted_def)
qed

theorem set_tier_padded_target_witness:
  "\<exists>line b'. v_Execute (SetTierVerb Done) demo_user [''user'' \<mapsto> '' 42'', ''tier'' \<mapsto> ''trusted''] [] = (Inr line, b') \<and>
     acl_row b' ''42'' = acl_row [] ''42''"
proof -
  obtain line b' where e: "v_Execute (SetTierVerb Done) demo_user [''user'' \<mapsto> '' 42'', ''tier'' \<mapsto> ''trusted''] [] = (Inr line, b')"
    by (simp add: SetTierVerb_def SetTier_def ValidTier_def tierAuthority_def tier_defs param_def
        acl_update_def tx_update_def acl_marshal_def)
  with set_tier_padded_target [OF refl e] show ?thesis by blast
qed

end
