(* ===== verification/ConvMemory.thy ===== *)
theory ConvMemory
  imports GoText "HOL-Library.Multiset"
begin

text \<open>
  Short-term conversation memory: \<^verbatim>\<open>internal/memory/memory.go\<close> (the buffer) and
  \<^verbatim>\<open>internal/memory/select.go\<close> (what a query gets injected). The buffer's map from
  conversations to turns is a partial function; a nil \<^verbatim>\<open>*Buffer\<close> behaves as one that retains
  nothing, because every operation starts with \<^verbatim>\<open>Enabled\<close>.
\<close>

section \<open>The buffer\<close>

record turn =
  t_SpeakerID :: string
  t_Speaker :: string
  t_Bot :: bool
  t_Text :: string
  t_Time :: time
  t_MessageID :: string
  t_ReplyTo :: string

record buffer =
  b_retain :: int
  b_convos :: "string \<rightharpoonup> turn list"

definition mem_New :: "int \<Rightarrow> buffer" where
  "mem_New retain = \<lparr>b_retain = retain, b_convos = Map.empty\<rparr>"

definition mem_Enabled :: "buffer \<Rightarrow> bool" where
  "mem_Enabled b \<longleftrightarrow> b_retain b > 0"

definition turns_of :: "buffer \<Rightarrow> string \<Rightarrow> turn list" where
  "turns_of b chat = (case b_convos b chat of None \<Rightarrow> [] | Some ts \<Rightarrow> ts)"

definition mem_Append :: "buffer \<Rightarrow> string \<Rightarrow> turn \<Rightarrow> buffer" where
  "mem_Append b chat t =
     (if \<not> mem_Enabled b then b
      else let ts = turns_of b chat @ [t];
               ts' = (if int (length ts) > b_retain b then last_n (nat (b_retain b)) ts else ts)
           in b\<lparr>b_convos := (b_convos b)(chat \<mapsto> ts')\<rparr>)"

definition mem_Recent :: "buffer \<Rightarrow> string \<Rightarrow> int \<Rightarrow> turn list" where
  "mem_Recent b chat k =
     (if \<not> mem_Enabled b \<or> k \<le> 0 then []
      else let ts = turns_of b chat; k' = (if k > int (length ts) then length ts else nat k)
           in last_n k' ts)"

definition purgeLocked :: "string \<Rightarrow> string \<Rightarrow> (string \<rightharpoonup> turn list) \<Rightarrow> string \<rightharpoonup> turn list" where
  "purgeLocked chat speaker m =
     m(chat \<mapsto> filter (\<lambda>t. t_SpeakerID t \<noteq> speaker) (case m chat of None \<Rightarrow> [] | Some ts \<Rightarrow> ts))"

definition mem_Purge :: "buffer \<Rightarrow> string \<Rightarrow> string \<Rightarrow> buffer" where
  "mem_Purge b chat speaker =
     (if \<not> mem_Enabled b \<or> speaker = [] then b
      else b\<lparr>b_convos := purgeLocked chat speaker (b_convos b)\<rparr>)"

text \<open>The range over the map purges every conversation it holds.\<close>

definition mem_PurgeUser :: "buffer \<Rightarrow> string \<Rightarrow> buffer" where
  "mem_PurgeUser b speaker =
     (if \<not> mem_Enabled b \<or> speaker = [] then b
      else b\<lparr>b_convos := (\<lambda>chat. if b_convos b chat = None then None
             else purgeLocked chat speaker (b_convos b) chat)\<rparr>)"

section \<open>Selection\<close>

definition recencyFloor :: int where
  "recencyFloor = 3"

definition notWord :: "unicode \<Rightarrow> rune \<Rightarrow> bool" where
  "notWord uc r \<longleftrightarrow> \<not> uc_letter uc r \<and> \<not> uc_digit uc r"

definition terms :: "unicode \<Rightarrow> string \<Rightarrow> string set" where
  "terms uc q = set (filter (\<lambda>w. length w > 2) (FieldsFunc (notWord uc) (ToLower uc q)))"

definition score :: "unicode \<Rightarrow> string \<Rightarrow> string set \<Rightarrow> nat" where
  "score uc text qterms =
     (if qterms = {} then 0
      else card (qterms \<inter> set (FieldsFunc (notWord uc) (ToLower uc text))))"

definition mid_conversation :: "time \<Rightarrow> duration \<Rightarrow> string \<Rightarrow> turn list \<Rightarrow> bool" where
  "mid_conversation now window sender ts \<longleftrightarrow>
     (\<exists>t \<in> set ts. \<not> t_Bot t \<and> t_SpeakerID t = sender \<and> now - window < t_Time t)"

text \<open>The indices of the recency floor, then those of the best scored other turns.\<close>

definition floor_idx :: "int \<Rightarrow> turn list \<Rightarrow> nat list" where
  "floor_idx injectN ts =
     (let fl = (if recencyFloor > injectN then injectN else recencyFloor)
      in [length ts - nat fl ..< length ts])"

definition ranked_idx :: "unicode \<Rightarrow> string \<Rightarrow> nat list \<Rightarrow> turn list \<Rightarrow> (nat \<times> nat) list" where
  "ranked_idx uc q chosen ts =
     (let qt = terms uc q;
          scored = filter (\<lambda>(i, s). s > 0)
            (map (\<lambda>i. (i, score uc (t_Text (ts ! i)) qt)) (filter (\<lambda>i. i \<notin> set chosen) [0..<length ts]))
      in sort_key (\<lambda>(i, s). - int s) scored)"

fun fill_chosen :: "nat \<Rightarrow> nat list \<Rightarrow> (nat \<times> nat) list \<Rightarrow> nat list" where
  "fill_chosen injectN chosen [] = chosen"
| "fill_chosen injectN chosen ((i, s) # rs) =
     (if length chosen \<ge> injectN then chosen else fill_chosen injectN (chosen @ [i]) rs)"

definition chosen_idx :: "unicode \<Rightarrow> string \<Rightarrow> int \<Rightarrow> turn list \<Rightarrow> nat list" where
  "chosen_idx uc q injectN ts =
     (let c = floor_idx injectN ts in
      if int (length c) < injectN then fill_chosen (nat injectN) c (ranked_idx uc q c ts) else c)"

definition mem_Select ::
    "unicode \<Rightarrow> time \<Rightarrow> buffer \<Rightarrow> string \<Rightarrow> string \<Rightarrow> string \<Rightarrow> bool \<Rightarrow> int \<Rightarrow> duration \<Rightarrow> turn list" where
  "mem_Select uc now b chat q sender isReply injectN window =
     (if \<not> mem_Enabled b \<or> injectN \<le> 0 then []
      else let ts = turns_of b chat in
        if ts = [] then []
        else if \<not> isReply \<and> \<not> mid_conversation now window sender ts then []
        else let c = chosen_idx uc q injectN ts in
          map (\<lambda>i. ts ! i) (filter (\<lambda>i. i \<in> set c) [0..<length ts]))"

section \<open>What the buffer holds\<close>

text \<open>
  The reference: per conversation the full list of appended turns, without those of purged
  speakers. The buffer keeps a bounded end of it.
\<close>

datatype mem_op = MAppend string turn | MPurge string string | MPurgeUser string

fun mem_step :: "buffer \<Rightarrow> mem_op \<Rightarrow> buffer" where
  "mem_step b (MAppend chat t) = mem_Append b chat t"
| "mem_step b (MPurge chat u) = mem_Purge b chat u"
| "mem_step b (MPurgeUser u) = mem_PurgeUser b u"

fun log_step :: "(string \<Rightarrow> turn list) \<Rightarrow> mem_op \<Rightarrow> string \<Rightarrow> turn list" where
  "log_step l (MAppend chat t) = l(chat := l chat @ [t])"
| "log_step l (MPurge chat u) = (if u = [] then l else l(chat := filter (\<lambda>t. t_SpeakerID t \<noteq> u) (l chat)))"
| "log_step l (MPurgeUser u) = (if u = [] then l else (\<lambda>c. filter (\<lambda>t. t_SpeakerID t \<noteq> u) (l c)))"

fun is_append :: "mem_op \<Rightarrow> bool" where
  "is_append (MAppend c t) = True"
| "is_append _ = False"

lemma turns_of_New [simp]: "turns_of (mem_New n) c = []"
  by (simp add: turns_of_def mem_New_def)

lemma retain_step [simp]: "b_retain (mem_step b op) = b_retain b"
  by (cases op) (auto simp: mem_Append_def mem_Purge_def mem_PurgeUser_def Let_def)

lemma turns_of_Append:
  "mem_Enabled b \<Longrightarrow> turns_of (mem_Append b chat t) c =
     (if c = chat then last_n (nat (b_retain b)) (turns_of b c @ [t]) else turns_of b c)"
  by (auto simp: mem_Append_def turns_of_def mem_Enabled_def Let_def last_n_def)

lemma turns_of_Purge:
  "mem_Enabled b \<Longrightarrow> turns_of (mem_Purge b chat u) c =
     (if c = chat \<and> u \<noteq> [] then filter (\<lambda>t. t_SpeakerID t \<noteq> u) (turns_of b c) else turns_of b c)"
  by (auto simp: mem_Purge_def turns_of_def purgeLocked_def)

lemma turns_of_PurgeUser:
  "mem_Enabled b \<Longrightarrow> turns_of (mem_PurgeUser b u) c =
     (if u \<noteq> [] then filter (\<lambda>t. t_SpeakerID t \<noteq> u) (turns_of b c) else turns_of b c)"
  by (auto simp: mem_PurgeUser_def turns_of_def purgeLocked_def split: option.splits)

lemmas turns_of_step = turns_of_Append turns_of_Purge turns_of_PurgeUser

lemma suffix_filter: "suffix xs ys \<Longrightarrow> suffix (filter P xs) (filter P ys)"
  by (auto simp: suffix_def)

lemma suffix_last_n: "suffix (last_n n xs) xs"
  by (simp add: last_n_def suffix_drop)

lemma last_n_suffix_append: "suffix xs ys \<Longrightarrow> suffix (last_n n (xs @ [t])) (ys @ [t])"
  using suffix_last_n [of n "xs @ [t]"] by (auto intro: suffix_order.trans)

lemma last_n_last_n_append: "0 < n \<Longrightarrow> last_n n (last_n n xs @ [t]) = last_n n (xs @ [t])"
  by (cases "length xs \<le> n") (auto simp: last_n_def Suc_diff_le)

definition mem_run :: "int \<Rightarrow> mem_op list \<Rightarrow> buffer" where
  "mem_run retain ops = foldl mem_step (mem_New retain) ops"

definition log_run :: "mem_op list \<Rightarrow> string \<Rightarrow> turn list" where
  "log_run ops = foldl log_step (\<lambda>_. []) ops"

lemma mem_run_retain: "b_retain (mem_run n ops) = n"
  unfolding mem_run_def by (induction ops rule: rev_induct) (simp_all add: mem_New_def)

lemma mem_run_snoc: "mem_run n (ops @ [op]) = mem_step (mem_run n ops) op"
  by (simp add: mem_run_def)

lemma log_run_snoc: "log_run (ops @ [op]) = log_step (log_run ops) op"
  by (simp add: log_run_def)

lemma mem_run_suffix:
  assumes "0 < n"
  shows "suffix (turns_of (mem_run n ops) c) (log_run ops c) \<and>
    length (turns_of (mem_run n ops) c) \<le> nat n \<and>
    (list_all is_append ops \<longrightarrow> turns_of (mem_run n ops) c = last_n (nat n) (log_run ops c))"
proof (induction ops arbitrary: c rule: rev_induct)
  case Nil
  show ?case by (simp add: mem_run_def log_run_def)
next
  case (snoc op ops)
  have en: "mem_Enabled (mem_run n ops)" using assms by (simp add: mem_Enabled_def mem_run_retain)
  show ?case
  proof (cases op)
    case (MAppend chat t)
    let ?T = "turns_of (mem_run n ops) chat"
    have "suffix (last_n (nat n) (?T @ [t])) (log_run ops chat @ [t])"
      using snoc [of chat] by (blast intro: last_n_suffix_append)
    moreover have "list_all is_append ops \<longrightarrow> last_n (nat n) (?T @ [t]) = last_n (nat n) (log_run ops chat @ [t])"
      using snoc [of chat] assms by (simp add: last_n_last_n_append)
    ultimately show ?thesis using snoc [of c] en
      by (simp add: MAppend mem_run_snoc log_run_snoc turns_of_step mem_run_retain del: suffix_snoc)
  next
    case (MPurge chat u)
    with snoc [of c] en show ?thesis
      by (auto simp: mem_run_snoc log_run_snoc turns_of_step suffix_filter
          intro: order_trans [OF length_filter_le])
  next
    case (MPurgeUser u)
    with snoc [of c] en show ?thesis
      by (auto simp: mem_run_snoc log_run_snoc turns_of_step suffix_filter
          intro: order_trans [OF length_filter_le])
  qed
qed

lemma mem_run_disabled: "n \<le> 0 \<Longrightarrow> turns_of (mem_run n ops) c = []"
proof (induction ops rule: rev_induct)
  case Nil
  show ?case by (simp add: mem_run_def)
next
  case (snoc op ops)
  then show ?case
    by (cases op) (simp_all add: mem_run_snoc mem_Append_def mem_Purge_def mem_PurgeUser_def
        mem_Enabled_def mem_run_retain)
qed

text \<open>C40: Over any run of appends and purges the buffer refines the full history: every
  conversation holds at most the retain bound of turns, they are an end of the
  conversation's history without the purged speakers' turns, and when nothing was purged
  they are exactly its last turns up to the bound.\<close>

theorem buffer_refines_history:
  "suffix (turns_of (mem_run n ops) c) (log_run ops c) \<and>
   int (length (turns_of (mem_run n ops) c)) \<le> max 0 n \<and>
   (list_all is_append ops \<longrightarrow> turns_of (mem_run n ops) c = last_n (nat n) (log_run ops c))"
proof (cases "0 < n")
  case True
  with mem_run_suffix [OF True, of ops c] show ?thesis by (auto simp: le_nat_iff)
next
  case False
  then show ?thesis by (simp add: mem_run_disabled last_n_def)
qed

theorem buffer_refines_history_witness:
  "\<exists>t. turns_of (mem_run 1 [MAppend ''c'' (t\<lparr>t_Text := ''a''\<rparr>), MAppend ''c'' (t\<lparr>t_Text := ''b''\<rparr>)]) ''c''
     = [t\<lparr>t_Text := ''b''\<rparr>]"
  by (rule exI, subst buffer_refines_history [THEN conjunct2, THEN conjunct2, THEN mp])
    (simp_all add: log_run_def last_n_def)

lemma purge_forgets:
  assumes "mem_Enabled b" and "u \<noteq> []"
  shows "t \<in> set (turns_of (mem_PurgeUser b u) c) \<longleftrightarrow> t \<in> set (turns_of b c) \<and> t_SpeakerID t \<noteq> u"
  using assms by (auto simp: turns_of_step)

section \<open>What is injected\<close>

definition floor_size :: "int \<Rightarrow> turn list \<Rightarrow> nat" where
  "floor_size injectN ts = min (length ts) (min 3 (nat injectN))"

lemma floor_idx_eq: "0 < n \<Longrightarrow> floor_idx n ts = [length ts - floor_size n ts ..< length ts]"
  by (auto simp: floor_idx_def floor_size_def recencyFloor_def Let_def min_def)

lemma fill_chosen_eq:
  "fill_chosen n c rs = c @ take (n - length c) (map fst rs)"
proof (induction n c rs rule: fill_chosen.induct)
  case (2 n c i s rs)
  have "n - length c = Suc k \<Longrightarrow> n - Suc (length c) = k" for k by simp
  with 2 show ?case by (cases "n - length c") auto
qed simp

lemma set_ranked_idx:
  "set (ranked_idx uc q c ts) =
     {(i, s). i < length ts \<and> i \<notin> set c \<and> s = score uc (t_Text (ts ! i)) (terms uc q) \<and> 0 < s}"
  by (auto simp: ranked_idx_def Let_def)

lemma distinct_ranked_idx: "distinct (map fst (ranked_idx uc q c ts))"
proof -
  let ?f = "\<lambda>i. (i, score uc (t_Text (ts ! i)) (terms uc q))"
  let ?xs = "filter (\<lambda>(i, s). s > 0) (map ?f (filter (\<lambda>i. i \<notin> set c) [0..<length ts]))"
  have "distinct (map fst ?xs)"
    by (rule distinct_map_filter) (simp add: comp_def)
  moreover have m: "mset (map fst (sort_key (\<lambda>(i, s). - int s) ?xs)) = mset (map fst ?xs)"
    by (simp only: mset_map mset_sort)
  ultimately have "distinct (map fst (sort_key (\<lambda>(i, s). - int s) ?xs))"
    using mset_eq_imp_distinct_iff [OF m] by blast
  then show ?thesis unfolding ranked_idx_def Let_def .
qed

lemma sorted_ranked_idx: "sorted (map (\<lambda>(i, s). - int s) (ranked_idx uc q c ts))"
  by (simp add: ranked_idx_def Let_def)

lemma chosen_idx_eq:
  assumes "0 < n"
  shows "chosen_idx uc q n ts = floor_idx n ts @
    take (nat n - length (floor_idx n ts)) (map fst (ranked_idx uc q (floor_idx n ts) ts))"
  using assms by (auto simp: chosen_idx_def Let_def fill_chosen_eq)

lemma chosen_idx_props:
  assumes "0 < n"
  shows "distinct (chosen_idx uc q n ts)" and "length (chosen_idx uc q n ts) \<le> nat n"
    and "set (chosen_idx uc q n ts) \<subseteq> {..<length ts}"
proof -
  let ?c = "floor_idx n ts"
  have c: "distinct ?c" "length ?c \<le> nat n" "set ?c \<subseteq> {..<length ts}"
    using assms by (auto simp: floor_idx_eq floor_size_def)
  have "set (map fst (ranked_idx uc q ?c ts)) \<inter> set ?c = {}" by (auto simp: set_ranked_idx)
  then have "set (take k (map fst (ranked_idx uc q ?c ts))) \<inter> set ?c = {}" for k
    using set_take_subset [of k "map fst (ranked_idx uc q ?c ts)"] by blast
  then show "distinct (chosen_idx uc q n ts)"
    using c(1) distinct_ranked_idx [of uc q ?c ts] by (auto simp: chosen_idx_eq [OF assms])
  show "length (chosen_idx uc q n ts) \<le> nat n" using c(2) by (simp add: chosen_idx_eq [OF assms])
  show "set (chosen_idx uc q n ts) \<subseteq> {..<length ts}"
    using c(3) by (auto simp: chosen_idx_eq [OF assms] set_ranked_idx dest!: in_set_takeD)
qed

text \<open>A list cut at \<open>k\<close> in key order: nothing kept scores below something dropped.\<close>

lemma sorted_take_best:
  assumes "sorted (map f xs)" "x \<in> set (take k xs)" "y \<in> set xs" "y \<notin> set (take k xs)"
  shows "f x \<le> f y"
proof -
  have "xs = take k xs @ drop k xs" by simp
  then have "y \<in> set (drop k xs)" using assms(3,4) by (metis Un_iff set_append)
  moreover have "sorted (map f (take k xs) @ map f (drop k xs))"
    using assms(1) by (metis append_take_drop_id map_append)
  ultimately show ?thesis using assms(2) by (auto simp: sorted_append)
qed

lemma chosen_ranked:
  assumes "0 < n" and "i \<in> set (chosen_idx uc q n ts)" "i < length ts - floor_size n ts"
  shows "(i, score uc (t_Text (ts ! i)) (terms uc q))
    \<in> set (take (nat n - length (floor_idx n ts)) (ranked_idx uc q (floor_idx n ts) ts))"
proof -
  have "i \<in> set (take (nat n - length (floor_idx n ts)) (map fst (ranked_idx uc q (floor_idx n ts) ts)))"
    using assms(2,3) by (auto simp: chosen_idx_eq [OF assms(1)] floor_idx_eq [OF assms(1)])
  then obtain s where s: "(i, s) \<in> set (take (nat n - length (floor_idx n ts)) (ranked_idx uc q (floor_idx n ts) ts))"
    by (auto simp: take_map)
  moreover have "s = score uc (t_Text (ts ! i)) (terms uc q)"
    using in_set_takeD [OF s] by (simp add: set_ranked_idx)
  ultimately show ?thesis by simp
qed

lemma chosen_best_pos:
  assumes "0 < n" and "i \<in> set (chosen_idx uc q n ts)" "i < length ts - floor_size n ts"
  shows "0 < score uc (t_Text (ts ! i)) (terms uc q)"
  using in_set_takeD [OF chosen_ranked [OF assms]] by (simp add: set_ranked_idx)

lemma chosen_best:
  assumes "0 < n" and "i \<in> set (chosen_idx uc q n ts)" "i < length ts - floor_size n ts"
    and "j < length ts" "j \<notin> set (chosen_idx uc q n ts)"
  shows "score uc (t_Text (ts ! j)) (terms uc q) \<le> score uc (t_Text (ts ! i)) (terms uc q)"
proof -
  let ?c = "floor_idx n ts"
  let ?r = "ranked_idx uc q ?c ts"
  let ?s = "\<lambda>i. score uc (t_Text (ts ! i)) (terms uc q)"
  show ?thesis
  proof (cases "?s j = 0")
    case False
    then have jr: "(j, ?s j) \<in> set ?r"
      using assms(4,5) by (simp add: set_ranked_idx chosen_idx_eq [OF assms(1)])
    moreover have "(j, ?s j) \<notin> set (take (nat n - length ?c) ?r)"
      using assms(5) by (force simp: chosen_idx_eq [OF assms(1)] take_map)
    ultimately have "(\<lambda>(i, s). - int s) (i, ?s i) \<le> (\<lambda>(i, s). - int s) (j, ?s j)"
      by (rule sorted_take_best [OF sorted_ranked_idx chosen_ranked [OF assms(1-3)]])
    then show ?thesis by simp
  qed simp
qed

lemma mem_Select_turns:
  "mem_Select uc now b chat q sender isReply n window =
     (if mem_Enabled b \<and> 0 < n \<and> (isReply \<or> mid_conversation now window sender (turns_of b chat))
      then map ((!) (turns_of b chat))
        (filter (\<lambda>i. i \<in> set (chosen_idx uc q n (turns_of b chat))) [0..<length (turns_of b chat)])
      else [])"
  by (auto simp: mem_Select_def Let_def mid_conversation_def)

lemma nths_idx: "map ((!) xs) (filter P [0..<length xs]) = nths xs (Collect P)"
proof (induction xs rule: rev_induct)
  case (snoc x xs)
  have "map ((!) (xs @ [x])) (filter P [0..<length xs]) = map ((!) xs) (filter P [0..<length xs])"
    by (auto simp: nth_append)
  with snoc show ?case by (simp add: nths_append)
qed simp

text \<open>What a query gets injected is a chronological selection of the conversation's retained
  turns, at most the inject budget of them; nothing at all for a message that is neither a
  reply nor from someone who spoke within the window. When there is one, it always holds the
  most recent turns (three, or fewer when the budget or the conversation is smaller), and
  of the older ones only turns that share a term with the query, the best scored first: no
  turn left out scores more than one that was taken.\<close>

theorem select_spec:
  fixes b chat defines "ts \<equiv> turns_of b chat"
  shows "\<exists>S. mem_Select uc now b chat q sender isReply n window = nths ts S \<and>
    length (nths ts S) \<le> nat n \<and>
    (nths ts S \<noteq> [] \<longrightarrow> isReply \<or> mid_conversation now window sender ts) \<and>
    (mem_Enabled b \<and> 0 < n \<and> (isReply \<or> mid_conversation now window sender ts) \<longrightarrow>
       {length ts - floor_size n ts ..< length ts} \<subseteq> S \<and>
       (\<forall>i \<in> S. i < length ts - floor_size n ts \<longrightarrow> 0 < score uc (t_Text (ts ! i)) (terms uc q) \<and>
          (\<forall>j < length ts. j \<notin> S \<longrightarrow>
             score uc (t_Text (ts ! j)) (terms uc q) \<le> score uc (t_Text (ts ! i)) (terms uc q))))"
proof (cases "mem_Enabled b \<and> 0 < n \<and> (isReply \<or> mid_conversation now window sender ts)")
  case True
  let ?S = "set (chosen_idx uc q n ts)"
  have n: "0 < n" using True by simp
  have sel: "mem_Select uc now b chat q sender isReply n window = nths ts ?S"
    using True by (simp add: mem_Select_turns ts_def nths_idx)
  have "length (nths ts ?S) = card {i. i < length ts \<and> i \<in> ?S}" by (simp add: length_nths)
  also have "\<dots> \<le> card ?S" by (intro card_mono) auto
  also have "\<dots> \<le> nat n"
    using chosen_idx_props(2) [OF n, of uc q ts] card_length [of "chosen_idx uc q n ts"] by linarith
  finally have len: "length (nths ts ?S) \<le> nat n" .
  have fl: "{length ts - floor_size n ts ..< length ts} \<subseteq> ?S"
    by (auto simp: chosen_idx_eq [OF n] floor_idx_eq [OF n])
  have best: "\<forall>i \<in> ?S. i < length ts - floor_size n ts \<longrightarrow> 0 < score uc (t_Text (ts ! i)) (terms uc q) \<and>
      (\<forall>j < length ts. j \<notin> ?S \<longrightarrow>
         score uc (t_Text (ts ! j)) (terms uc q) \<le> score uc (t_Text (ts ! i)) (terms uc q))"
    using chosen_best [OF n] chosen_best_pos [OF n] by blast
  show ?thesis by (rule exI [of _ ?S]) (use sel len fl best True in simp)
next
  case False
  then have "mem_Select uc now b chat q sender isReply n window = nths ts {}"
    by (auto simp: mem_Select_turns ts_def)
  with False show ?thesis by (intro exI [of _ "{}"] conjI impI) auto
qed

theorem select_spec_witness:
  "let t = \<lparr>t_SpeakerID = ''u'', t_Speaker = ''U'', t_Bot = False, t_Text = ''a'', t_Time = 0,
             t_MessageID = ''m'', t_ReplyTo = ''''\<rparr>;
       b = \<lparr>b_retain = 9, b_convos = [''c'' \<mapsto> [t\<lparr>t_Text := ''old''\<rparr>, t, t, t]]\<rparr>
   in mem_Select ascii_tables 5 b ''c'' '''' ''u'' True 4 60 = [t, t, t]"
proof -
  define t where "t = \<lparr>t_SpeakerID = ''u'', t_Speaker = ''U'', t_Bot = False, t_Text = ''a'', t_Time = 0,
             t_MessageID = ''m'', t_ReplyTo = ''''\<rparr>"
  define b where "b = \<lparr>b_retain = 9, b_convos = [''c'' \<mapsto> [t\<lparr>t_Text := ''old''\<rparr>, t, t, t]]\<rparr>"
  have ts: "turns_of b ''c'' = [t\<lparr>t_Text := ''old''\<rparr>, t, t, t]" by (simp add: b_def turns_of_def)
  have en: "mem_Enabled b" by (simp add: b_def mem_Enabled_def)
  have nt: "terms ascii_tables '''' = {}"
    by (simp add: terms_def ToLower_def FieldsFunc_def runes_def of_runes_def segs.simps)
  from select_spec [of ascii_tables 5 b "''c''" "''''" "''u''" True 4 60] obtain S where
    S: "mem_Select ascii_tables 5 b ''c'' '''' ''u'' True 4 60 = nths [t\<lparr>t_Text := ''old''\<rparr>, t, t, t] S"
      "{Suc 0..<Suc (Suc (Suc (Suc 0)))} \<subseteq> S" "\<forall>i \<in> S. 0 < i"
    by (auto simp: ts en nt floor_size_def score_def)
  then have "0 \<notin> S" "Suc 0 \<in> S" "Suc (Suc 0) \<in> S" "Suc (Suc (Suc 0)) \<in> S" by auto
  with S have "mem_Select ascii_tables 5 b ''c'' '''' ''u'' True 4 60 = [t, t, t]"
    by (simp add: nths_Cons)
  then show ?thesis by (simp add: Let_def t_def b_def)
qed

end
