(* ===== verification/LongMemory.thy ===== *)
theory LongMemory
  imports Bolt Core GoText
begin

text \<open>
  Long-term memory as the program drives it: \<^verbatim>\<open>internal/core/longmemory.go\<close> (windows,
  sessions, withdrawal counts and what a turn keeps), \<^verbatim>\<open>internal/runtime/purge.go\<close>
  (retention), \<^verbatim>\<open>internal/namespaces/record.go\<close> (the durable record of namespaces) and
  \<^verbatim>\<open>internal/runtime/erase.go\<close> (erasing a user). The memory stores themselves are bonyan's,
  not under \<^verbatim>\<open>src/\<close>: appending to a store, deleting a subject and deleting what is older
  than a cut are arguments of the operations, functions on an environment.
\<close>

section \<open>Windows and sessions\<close>

text \<open>Go's \<^verbatim>\<open>%\<close> on durations takes the sign of the dividend.\<close>

definition go_rem :: "int \<Rightarrow> int \<Rightarrow> int" where
  "go_rem a b = (if a < 0 then - ((- a) mod \<bar>b\<bar>) else a mod \<bar>b\<bar>)"

definition Truncate :: "duration \<Rightarrow> duration \<Rightarrow> duration" where
  "Truncate d m = (if m \<le> 0 then d else d - go_rem d m)"

definition WindowStart :: "time \<Rightarrow> duration \<Rightarrow> time" where
  "WindowStart t w = unix_epoch + Truncate (time_sub t unix_epoch) w"

text \<open>\<^verbatim>\<open>t.Unix()\<close> is the whole seconds since the epoch, rounded down.\<close>

definition Unix :: "time \<Rightarrow> int" where
  "Unix t = (t - unix_epoch) div second"

definition Session :: "string \<Rightarrow> string \<Rightarrow> time \<Rightarrow> string" where
  "Session chat usr start = chat @ ''/'' @ usr @ ''/'' @ itoa (Unix start)"

section \<open>The memory and its turns\<close>

record 'st long_memory =
  lm_Store :: 'st
  lm_Groups :: "string \<rightharpoonup> 'st option"
  lm_Window :: duration
  lm_Scrubber :: "(string \<Rightarrow> string) option"
  lm_withdrawn :: "string \<rightharpoonup> 64 word"

definition withdrawn_count :: "'st long_memory \<Rightarrow> string \<Rightarrow> 64 word" where
  "withdrawn_count m usr = (case lm_withdrawn m usr of None \<Rightarrow> 0 | Some n \<Rightarrow> n)"

text \<open>A nil \<^verbatim>\<open>*Memory\<close> is \<open>None\<close>.\<close>

definition Withdrawals :: "'st long_memory option \<Rightarrow> string \<Rightarrow> 64 word" where
  "Withdrawals mo usr = (case mo of None \<Rightarrow> 0 | Some m \<Rightarrow> withdrawn_count m usr)"

definition Withdraw :: "'st long_memory option \<Rightarrow> string \<Rightarrow> 'st long_memory option" where
  "Withdraw mo usr = (case mo of None \<Rightarrow> None
     | Some m \<Rightarrow> Some (m\<lparr>lm_withdrawn := (lm_withdrawn m)(usr \<mapsto> withdrawn_count m usr + 1)\<rparr>))"

definition storeFor :: "'st long_memory \<Rightarrow> string \<Rightarrow> 'st" where
  "storeFor m chat = (case lm_Groups m chat of Some (Some s) \<Rightarrow> s | _ \<Rightarrow> lm_Store m)"

record 'st turn_ref =
  tr_store :: 'st
  tr_subject :: string
  tr_session :: string
  tr_scrubber :: "(string \<Rightarrow> string) option"
  tr_withdrawn :: "64 word"

definition mem_use :: "'st long_memory option \<Rightarrow> time \<Rightarrow> query \<Rightarrow> 'st turn_ref option" where
  "mem_use mo now q =
     (case mo of None \<Rightarrow> None
      | Some m \<Rightarrow>
          if \<not> q_Remember q \<or> u_ID (q_User q) = [] \<or> q_Chat q = [] then None
          else Some \<lparr>tr_store = storeFor m (q_Chat q), tr_subject = u_ID (q_User q),
                 tr_session = Session (q_Chat q) (u_ID (q_User q)) (WindowStart now (lm_Window m)),
                 tr_scrubber = lm_Scrubber m, tr_withdrawn = q_Withdrawals q\<rparr>)"

datatype provenance = KindUser | KindModel

text \<open>
  \<open>app\<close> is the store's \<^verbatim>\<open>Append\<close>: store, subject, session, provenance and text. \<open>keep\<close>
  holds the memory's read lock throughout, and \<open>Withdraw\<close> needs it for writing, so one
  \<open>mem_keep\<close> never interleaves with a \<open>Withdraw\<close>.
\<close>

definition mem_keep ::
    "('st \<Rightarrow> string \<Rightarrow> string \<Rightarrow> provenance \<Rightarrow> string \<Rightarrow> 'e \<Rightarrow> error option \<times> 'e)
     \<Rightarrow> 'st long_memory \<Rightarrow> 'st turn_ref option \<Rightarrow> string \<Rightarrow> string \<Rightarrow> 'e \<Rightarrow> 'e" where
  "mem_keep app m to message answer e =
     (case to of None \<Rightarrow> e
      | Some t \<Rightarrow>
          if withdrawn_count m (tr_subject t) \<noteq> tr_withdrawn t then e
          else let scrub = (case tr_scrubber t of None \<Rightarrow> (\<lambda>s. s) | Some f \<Rightarrow> f) in
            (case app (tr_store t) (tr_subject t) (tr_session t) KindUser (scrub message) e of
               (Some _, e1) \<Rightarrow> e1
             | (None, e1) \<Rightarrow>
                 snd (app (tr_store t) (tr_subject t) (tr_session t) KindModel (scrub answer) e1)))"

section \<open>Retention (purge.go)\<close>

definition purgeDelay :: duration where
  "purgeDelay = minute"

definition untilPurge :: "time \<Rightarrow> duration \<Rightarrow> duration" where
  "untilPurge t window = time_sub (WindowStart (t - purgeDelay) window + (window + purgeDelay)) t"

definition PurgeCut :: "time \<Rightarrow> duration \<Rightarrow> duration \<Rightarrow> time" where
  "PurgeCut now window retention = WindowStart now window - retention"

section \<open>The record of namespaces (record.go)\<close>

text \<open>
  The map from namespaces to when they were dropped, in key order; the zero time is a
  configured namespace. What is on disk is the last record that reached it. A save can fail
  before the rename, which leaves the old file, or after it (the directory's sync), which
  leaves the new one.
\<close>

datatype save_io = SaveDone | SaveFailed error | SaveUnsynced error

record ns_record =
  nr_dropped :: "(string \<times> time) list"
  nr_disk :: "(string \<times> time option) list option"

datatype file_read = NotExist | ReadFailed error | ReadCorrupt error | ReadFile "(string \<times> time option) list"

definition ns_Open :: "file_read \<Rightarrow> (string \<times> time) list result" where
  "ns_Open f =
     (case f of NotExist \<Rightarrow> Inr []
      | ReadFailed e \<Rightarrow> Inl (Wrap ''namespaces: read'' e)
      | ReadCorrupt e \<Rightarrow> Inl (Wrap ''namespaces: parse'' e)
      | ReadFile es \<Rightarrow> Inr (foldl (\<lambda>m (ns, e). bk_put ns (case e of None \<Rightarrow> 0 | Some t \<Rightarrow> t) m) [] es))"

definition ns_file :: "(string \<times> time) list \<Rightarrow> (string \<times> time option) list" where
  "ns_file m = map (\<lambda>(ns, t). (ns, if \<not> is_zero t then Some t else None)) m"

definition ns_save :: "save_io \<Rightarrow> ns_record \<Rightarrow> error option \<times> ns_record" where
  "ns_save io r =
     (if \<not> (\<forall>(ns, t) \<in> set (nr_dropped r). is_zero t \<or> json_time_ok t)
      then (Some (ErrMsg ''year outside of range [0,9999]''), r)
      else (case io of
          SaveDone \<Rightarrow> (None, r\<lparr>nr_disk := Some (ns_file (nr_dropped r))\<rparr>)
        | SaveFailed e \<Rightarrow> (Some (Wrap ''namespaces: save'' e), r)
        | SaveUnsynced e \<Rightarrow>
            (Some (Wrap ''namespaces: save'' e), r\<lparr>nr_disk := Some (ns_file (nr_dropped r))\<rparr>)))"

definition ns_Configured :: "save_io \<Rightarrow> string list \<Rightarrow> ns_record \<Rightarrow> error option \<times> ns_record" where
  "ns_Configured io nss r =
     ns_save io (r\<lparr>nr_dropped := foldl (\<lambda>m ns. bk_put ns 0 m) (nr_dropped r) nss\<rparr>)"

definition ns_lookup :: "ns_record \<Rightarrow> string \<Rightarrow> time" where
  "ns_lookup r ns = (case map_of (nr_dropped r) ns of None \<Rightarrow> 0 | Some t \<Rightarrow> t)"

definition ns_Dropped :: "save_io \<Rightarrow> string \<Rightarrow> time \<Rightarrow> ns_record \<Rightarrow> time result \<times> ns_record" where
  "ns_Dropped io ns now r =
     (if \<not> is_zero (ns_lookup r ns) then (Inr (ns_lookup r ns), r)
      else (case ns_save io (r\<lparr>nr_dropped := bk_put ns now (nr_dropped r)\<rparr>) of
          (Some e, r') \<Rightarrow> (Inl e, r'\<lparr>nr_dropped := bk_put ns 0 (nr_dropped r')\<rparr>)
        | (None, r') \<Rightarrow> (Inr now, r')))"

definition ns_Namespaces :: "ns_record \<Rightarrow> string list" where
  "ns_Namespaces r = map fst (nr_dropped r)"

definition ns_Forget :: "save_io \<Rightarrow> string \<Rightarrow> ns_record \<Rightarrow> error option \<times> ns_record" where
  "ns_Forget io ns r =
     (case map_of (nr_dropped r) ns of
        None \<Rightarrow> (None, r)
      | Some t \<Rightarrow> (case ns_save io (r\<lparr>nr_dropped := bk_delete ns (nr_dropped r)\<rparr>) of
            (Some e, r') \<Rightarrow> (Some e, r'\<lparr>nr_dropped := bk_put ns t (nr_dropped r')\<rparr>)
          | (None, r') \<Rightarrow> (None, r')))"

section \<open>Purging a namespace (purge.go)\<close>

record ns_purge =
  np_Namespace :: string
  np_Retention :: duration
  np_Window :: duration
  np_Dropped :: time

text \<open>\<open>delete_before\<close> is the backend's \<^verbatim>\<open>DeleteBefore\<close> on the backend's state \<open>be\<close>.\<close>

definition ns_Purge ::
    "(time \<Rightarrow> 'be \<Rightarrow> error option \<times> 'be) \<Rightarrow> save_io \<Rightarrow> time \<Rightarrow> ns_purge \<Rightarrow> 'be \<times> ns_record
     \<Rightarrow> error option \<times> 'be \<times> ns_record" where
  "ns_Purge delete_before io now p st =
     (case st of (be, r) \<Rightarrow>
        let cut = PurgeCut now (np_Window p) (np_Retention p) in
        (case delete_before cut be of
           (Some e, be') \<Rightarrow> (Some (Wrap (''namespace '' @ np_Namespace p) e), be', r)
         | (None, be') \<Rightarrow>
             if is_zero (np_Dropped p) \<or> cut < np_Dropped p then (None, be', r)
             else (case ns_Forget io (np_Namespace p) r of
                 (Some e, r') \<Rightarrow> (Some (Wrap (''namespace '' @ np_Namespace p) e), be', r')
               | (None, r') \<Rightarrow> (None, be', r'))))"

section \<open>Erasing a user (erase.go)\<close>

record erase_result =
  er_Namespace :: string
  er_Err :: "error option"

definition Erased :: "erase_result list \<Rightarrow> bool" where
  "Erased rs \<longleftrightarrow> (\<forall>r \<in> set rs. er_Err r = None)"

text \<open>
  \<open>del ns\<close> is \<^verbatim>\<open>DeleteSubject\<close> of the namespace's store, when one is open; it acts on the
  environment \<open>e\<close> all stores share.
\<close>

fun erase_all ::
    "(string \<rightharpoonup> (string \<Rightarrow> 'e \<Rightarrow> error option \<times> 'e)) \<Rightarrow> string \<Rightarrow> string list \<Rightarrow> 'e
     \<Rightarrow> erase_result list \<times> 'e" where
  "erase_all del usr [] e = ([], e)"
| "erase_all del usr (ns # nss) e =
     (case (case del ns of None \<Rightarrow> (Some ErrNoStore, e) | Some d \<Rightarrow> d usr e) of
        (err, e1) \<Rightarrow> (case erase_all del usr nss e1 of
            (rs, e2) \<Rightarrow> (\<lparr>er_Namespace = ns, er_Err = err\<rparr> # rs, e2)))"

definition Erase ::
    "(string \<rightharpoonup> (string \<Rightarrow> 'e \<Rightarrow> error option \<times> 'e)) \<Rightarrow> string \<Rightarrow> ns_record
     \<Rightarrow> 'st long_memory option \<times> 'e \<Rightarrow> erase_result list \<times> 'st long_memory option \<times> 'e" where
  "Erase del usr r st =
     (case st of (mo, e) \<Rightarrow>
        (case erase_all del usr (ns_Namespaces r) e of (rs, e') \<Rightarrow> (rs, Withdraw mo usr, e')))"

section \<open>Facts about windows\<close>

text \<open>The clock range in which \<^verbatim>\<open>t.Sub(epoch)\<close> is exact and not negative.\<close>

definition modern :: "time \<Rightarrow> bool" where
  "modern t \<longleftrightarrow> unix_epoch \<le> t \<and> t - unix_epoch \<le> max_duration"

lemma modern_sub: "modern t \<Longrightarrow> time_sub t unix_epoch = t - unix_epoch"
  by (auto simp: modern_def duration_bounds intro!: time_sub_exact)

lemma WindowStart_eq:
  assumes "modern t" "0 < w"
  shows "WindowStart t w = t - (t - unix_epoch) mod w"
  using assms by (simp add: WindowStart_def modern_sub Truncate_def go_rem_def) (simp add: modern_def)

lemma WindowStart_le: "modern t \<Longrightarrow> 0 < w \<Longrightarrow> WindowStart t w \<le> t"
  by (simp add: WindowStart_eq)

lemma WindowStart_gt: "modern t \<Longrightarrow> 0 < w \<Longrightarrow> t < WindowStart t w + w"
  using pos_mod_bound [of w "t - unix_epoch"] by (simp add: WindowStart_eq)

definition boundary :: "duration \<Rightarrow> time \<Rightarrow> bool" where
  "boundary w t \<longleftrightarrow> (t - unix_epoch) mod w = 0"

lemma boundary_WindowStart:
  assumes "modern t" "0 < w"
  shows "boundary w (WindowStart t w)"
proof -
  have "WindowStart t w - unix_epoch = w * ((t - unix_epoch) div w)"
    using assms by (simp add: WindowStart_eq minus_mod_eq_mult_div [symmetric])
  then show ?thesis by (simp add: boundary_def)
qed

lemma boundary_unique:
  assumes "boundary w a" "boundary w b" "0 < w" "a \<le> t" "t < a + w" "b \<le> t" "t < b + w"
  shows "a = b"
proof -
  obtain i j where i: "a - unix_epoch = w * i" and j: "b - unix_epoch = w * j"
    using assms(1,2) by (metis boundary_def mod_0_imp_dvd dvd_def)
  have "w * i < w * (j + 1)" "w * j < w * (i + 1)"
    using assms i j by (auto simp: algebra_simps)
  then have "i = j" using assms(3) by (simp add: mult_less_cancel_left)
  with i j show ?thesis by simp
qed

lemma boundary_shift: "boundary w a \<Longrightarrow> boundary w (a + k * w)"
proof -
  have "a + k * w - unix_epoch = (a - unix_epoch) + k * w" by simp
  then show "boundary w a \<Longrightarrow> ?thesis" unfolding boundary_def by (simp only: mod_mult_self1)
qed

text \<open>Two window starts in order are at least a window apart.\<close>

lemma boundary_less:
  assumes "boundary w a" "boundary w b" "0 < w" "a < b"
  shows "a + w \<le> b"
proof -
  obtain i j where i: "a - unix_epoch = w * i" and j: "b - unix_epoch = w * j"
    using assms(1,2) by (metis boundary_def mod_0_imp_dvd dvd_def)
  have "w * i < w * j" using assms(4) i j by linarith
  then have "i + 1 \<le> j" using assms(3) by (simp add: mult_less_cancel_left)
  then have "w * (i + 1) \<le> w * j" using assms(3) by (intro mult_left_mono) auto
  with i j show ?thesis by (simp add: algebra_simps)
qed

text \<open>The purge runs within one window and always shortly after a window boundary: from a
  moment t the wait is positive, at most one window, and ends exactly the delay after a
  boundary.\<close>

theorem untilPurge_spec:
  assumes "modern (t - purgeDelay)" "0 < w" "w + purgeDelay \<le> max_duration"
  shows "0 < untilPurge t w \<and> untilPurge t w \<le> w \<and> boundary w (t + untilPurge t w - purgeDelay)"
proof -
  let ?s = "WindowStart (t - purgeDelay) w"
  have s: "?s \<le> t - purgeDelay" "t - purgeDelay < ?s + w"
    using assms by (auto intro: WindowStart_le WindowStart_gt)
  have "0 \<le> purgeDelay" by (simp add: purgeDelay_def duration_defs)
  then have u: "untilPurge t w = ?s + (w + purgeDelay) - t"
    unfolding untilPurge_def using s assms(2,3)
    by (intro time_sub_exact) (auto simp: duration_bounds)
  have "boundary w (?s + 1 * w)"
    by (rule boundary_shift) (rule boundary_WindowStart [OF assms(1,2)])
  then show ?thesis using s u by simp
qed

theorem untilPurge_spec_witness:
  "0 < untilPurge (unix_epoch + 90 * second) hour \<and> untilPurge (unix_epoch + 90 * second) hour \<le> hour"
proof -
  have "modern (unix_epoch + 90 * second - purgeDelay)"
    by (simp add: modern_def purgeDelay_def duration_defs duration_bounds)
  moreover have "hour + purgeDelay \<le> max_duration"
    by (simp add: purgeDelay_def duration_defs duration_bounds)
  ultimately show ?thesis using untilPurge_spec [of "unix_epoch + 90 * second" hour] by simp
qed

lemma PurgeCut_boundary:
  assumes "modern now" "0 < w" "retention = int k * w"
  shows "boundary w (PurgeCut now w retention)"
proof -
  have "boundary w (WindowStart now w + (- int k) * w)"
    by (rule boundary_shift) (rule boundary_WindowStart [OF assms(1,2)])
  then show ?thesis by (simp add: PurgeCut_def assms(3))
qed

text \<open>With retention a whole number of windows, a purge deletes only records whose retention
  has passed, deletes every record once its retention passed a full window ago, and never
  splits a session: of two records of one window either both are deleted or neither.\<close>

theorem PurgeCut_spec:
  assumes "modern now" "0 < w" "retention = int k * w"
    and "boundary w s" "s \<le> r1" "r1 < s + w" "s \<le> r2" "r2 < s + w"
  shows "(r1 < PurgeCut now w retention \<longrightarrow> r1 + retention < now) \<and>
    (r1 + retention + w \<le> now \<longrightarrow> r1 < PurgeCut now w retention) \<and>
    (r1 < PurgeCut now w retention \<longleftrightarrow> r2 < PurgeCut now w retention)"
proof -
  let ?c = "PurgeCut now w retention"
  have le: "WindowStart now w \<le> now" and gt: "now < WindowStart now w + w"
    using assms(1,2) by (auto intro: WindowStart_le WindowStart_gt)
  have b: "boundary w ?c" by (rule PurgeCut_boundary [OF assms(1-3)])
  have "s < ?c \<longrightarrow> s + w \<le> ?c" using boundary_less [OF assms(4) b assms(2)] by blast
  with assms(5-8) have "r1 < ?c \<longleftrightarrow> r2 < ?c" by linarith
  with le gt show ?thesis by (simp add: PurgeCut_def) linarith
qed

theorem PurgeCut_spec_witness:
  "unix_epoch + 10 < PurgeCut (unix_epoch + 4 * hour) hour (2 * hour)"
proof -
  have "modern (unix_epoch + 4 * hour)" by (simp add: modern_def duration_defs duration_bounds)
  moreover have "unix_epoch + 10 + 2 * hour + hour \<le> unix_epoch + 4 * hour" "10 < hour"
    by (simp_all add: duration_defs)
  moreover have "boundary hour unix_epoch" by (simp add: boundary_def)
  ultimately show ?thesis
    using PurgeCut_spec [of "unix_epoch + 4 * hour" hour "2 * hour" 2 unix_epoch "unix_epoch + 10" "unix_epoch + 10"]
    by simp
qed

section \<open>Sessions\<close>

lemma slash_split:
  assumes "a @ ''/'' @ x = b @ ''/'' @ y" "CHR ''/'' \<notin> set a" "CHR ''/'' \<notin> set b"
  shows "a = b \<and> x = y"
  using assms
proof (induction a arbitrary: b)
  case Nil
  then show ?case by (cases b) auto
next
  case (Cons c a)
  then show ?case by (cases b) auto
qed

text \<open>A session holds one user's turns of one chat in one window: for chat and user ids
  without a slash, two turns share a session name only when chat, user and the second their
  window starts at are the same.\<close>

theorem Session_injective:
  assumes "CHR ''/'' \<notin> set c" "CHR ''/'' \<notin> set c'" "CHR ''/'' \<notin> set u" "CHR ''/'' \<notin> set u'"
  shows "Session c u s = Session c' u' s' \<longleftrightarrow> c = c' \<and> u = u' \<and> Unix s = Unix s'"
proof
  assume "Session c u s = Session c' u' s'"
  then have "c @ ''/'' @ (u @ ''/'' @ itoa (Unix s)) = c' @ ''/'' @ (u' @ ''/'' @ itoa (Unix s'))"
    by (simp add: Session_def)
  then have "c = c'" and "u @ ''/'' @ itoa (Unix s) = u' @ ''/'' @ itoa (Unix s')"
    using slash_split [of c _ c'] assms(1,2) by blast+
  moreover have "u = u' \<and> itoa (Unix s) = itoa (Unix s')"
    using slash_split [OF calculation(2) assms(3,4)] .
  ultimately show "c = c' \<and> u = u' \<and> Unix s = Unix s'"
    by (simp add: itoa_inj)
qed (simp add: Session_def)

theorem Session_injective_witness:
  "Session ''-100'' ''42'' unix_epoch \<noteq> Session ''-100'' ''7'' unix_epoch"
  using Session_injective [of "''-100''" "''-100''" "''42''" "''7''" unix_epoch unix_epoch] by simp

section \<open>The record of namespaces\<close>

definition ns_wf :: "ns_record \<Rightarrow> bool" where
  "ns_wf r \<longleftrightarrow> bk_wf (nr_dropped r)"

lemma bk_put_last: "bk_wf (b @ [(k, v)]) \<Longrightarrow> bk_put k v b = b @ [(k, v)]"
proof (induction b)
  case (Cons kv b)
  then show ?case by (cases kv) (auto simp: bk_wf_def)
qed simp

lemma ns_Open_file: "bk_wf m \<Longrightarrow> ns_Open (ReadFile (ns_file m)) = Inr m"
proof -
  have "foldl (\<lambda>m (ns, e). bk_put ns (case e of None \<Rightarrow> 0 | Some t \<Rightarrow> t) m) [] (ns_file m) = m"
    if "bk_wf m" for m :: "(string \<times> time) list"
    using that
  proof (induction m rule: rev_induct)
    case (snoc x m)
    obtain k t where x: "x = (k, t)" by (cases x)
    have "bk_wf m" using snoc.prems by (auto simp: bk_wf_def sorted_wrt_append)
    moreover have "bk_put k t m = m @ [(k, t)]" using snoc.prems x by (simp add: bk_put_last)
    ultimately show ?case using snoc x by (cases "t = 0") (simp_all add: ns_file_def is_zero_def)
  qed (simp add: ns_file_def)
  then show "bk_wf m \<Longrightarrow> ?thesis" by (simp add: ns_Open_def)
qed

datatype ns_op = NsConfigured save_io "string list" | NsDropped save_io string time | NsForget save_io string

fun ns_step :: "ns_record \<Rightarrow> ns_op \<Rightarrow> bool \<times> ns_record" where
  "ns_step r (NsConfigured io nss) = (case ns_Configured io nss r of (e, r') \<Rightarrow> (e = None, r'))"
| "ns_step r (NsDropped io ns now) = (case ns_Dropped io ns now r of (x, r') \<Rightarrow> ((\<exists>t. x = Inr t), r'))"
| "ns_step r (NsForget io ns) = (case ns_Forget io ns r of (e, r') \<Rightarrow> (e = None, r'))"

lemma ns_save_cases:
  assumes "ns_save io r = (e, r')"
  shows "nr_dropped r' = nr_dropped r" and "e = None \<Longrightarrow> nr_disk r' = Some (ns_file (nr_dropped r))"
    and "nr_disk r' = nr_disk r \<or> nr_disk r' = Some (ns_file (nr_dropped r))"
  using assms by (auto simp: ns_save_def split: if_splits save_io.splits)

lemma bk_wf_configured: "bk_wf m \<Longrightarrow> bk_wf (foldl (\<lambda>m ns. bk_put ns 0 m) m nss)"
  by (induction nss arbitrary: m) auto

lemma ns_wf_step:
  assumes "ns_wf r" "ns_step r op = (ok, r')"
  shows "ns_wf r'"
  using assms
  by (cases op) (auto simp: ns_wf_def ns_Configured_def ns_Dropped_def ns_Forget_def bk_wf_configured
      split: prod.splits option.splits if_splits dest!: ns_save_cases(1))

text \<open>What is on disk is the record of some moment: the one in memory, once a save went through.\<close>

definition ns_saved :: "ns_record \<Rightarrow> bool" where
  "ns_saved r \<longleftrightarrow> nr_disk r = Some (ns_file (nr_dropped r))"

lemma ns_save_None: "ns_save io r = (None, r') \<Longrightarrow> ns_saved r'"
  using ns_save_cases(1,2) [of io r None r'] by (simp add: ns_saved_def)

lemma ns_saved_step:
  assumes "ns_saved r" "ns_step r op = (True, r')"
  shows "ns_saved r'"
  using assms
  by (cases op) (auto simp: ns_Configured_def ns_Dropped_def ns_Forget_def
      split: prod.splits option.splits if_splits sum.splits dest: ns_save_None)

text \<open>The record survives a restart: after an update that reported success, opening the file
  gives exactly the record in memory, so a namespace is on disk before anything is kept in
  it, with the moment it was dropped.\<close>

theorem ns_record_roundtrip:
  assumes "ns_wf r" "ns_saved r" "ns_step r op = (True, r')"
  shows "map_option (\<lambda>f. ns_Open (ReadFile f)) (nr_disk r') = Some (Inr (nr_dropped r'))"
  using ns_wf_step [OF assms(1,3)] ns_saved_step [OF assms(2,3)]
  by (simp add: ns_saved_def ns_wf_def ns_Open_file)

theorem ns_record_roundtrip_witness:
  "\<exists>r'. ns_step \<lparr>nr_dropped = [], nr_disk = Some []\<rparr> (NsConfigured SaveDone [''b'', ''a'']) = (True, r') \<and>
     map_option (\<lambda>f. ns_Open (ReadFile f)) (nr_disk r') = Some (Inr [(''a'', 0), (''b'', 0)])"
proof -
  let ?r = "\<lparr>nr_dropped = [], nr_disk = Some []\<rparr>"
  let ?r' = "\<lparr>nr_dropped = [(''a'', 0), (''b'', 0)], nr_disk = Some [(''a'', None), (''b'', None)]\<rparr>"
  have st: "ns_step ?r (NsConfigured SaveDone [''b'', ''a'']) = (True, ?r')"
    by (simp add: ns_Configured_def ns_save_def ns_file_def is_zero_def less_char_def)
  show ?thesis
    using ns_record_roundtrip [OF _ _ st] st by (simp add: ns_wf_def ns_saved_def ns_file_def)
qed

lemma ns_Forget_map:
  assumes "ns_Forget io ns r = (e, r')" "e \<noteq> None"
  shows "map_of (nr_dropped r') = map_of (nr_dropped r)"
  using assms by (auto simp: ns_Forget_def map_of_bk_put map_of_bk_delete fun_eq_iff
      split: option.splits prod.splits if_splits dest!: ns_save_cases(1))

text \<open>A dropped namespace is forgotten only when nothing is left in it: if a purge takes it
  out of the record, the backend deleted everything older than a cut at or after the moment
  it was dropped, so of records all older than that moment none is left. A configured
  namespace is never forgotten by a purge.\<close>

theorem purge_forgets_only_empty:
  fixes del :: "time \<Rightarrow> 'be \<Rightarrow> error option \<times> 'be" and held :: "'be \<Rightarrow> time set"
  assumes del: "\<And>t be be'. del t be = (None, be') \<Longrightarrow> held be' = {r \<in> held be. t \<le> r}"
    and older: "\<And>r. r \<in> held be \<Longrightarrow> r < np_Dropped p"
    and before: "map_of (nr_dropped r) (np_Namespace p) \<noteq> None"
    and purge: "ns_Purge del io now p (be, r) = (e, be', r')"
    and after: "map_of (nr_dropped r') (np_Namespace p) = None"
  shows "held be' = {} \<and> np_Dropped p \<noteq> 0 \<and> e = None"
proof -
  let ?cut = "PurgeCut now (np_Window p) (np_Retention p)"
  obtain e1 be1 where d: "del ?cut be = (e1, be1)" by (metis prod.exhaust)
  have "r' \<noteq> r" using before after by auto
  then have n: "e1 = None" "np_Dropped p \<noteq> 0" "np_Dropped p \<le> ?cut"
    using purge d by (auto simp: ns_Purge_def Let_def is_zero_def split: option.splits if_splits)
  obtain e2 r2 where f: "ns_Forget io (np_Namespace p) r = (e2, r2)" by (metis prod.exhaust)
  have r: "be' = be1" "r' = r2" "e = map_option (Wrap (''namespace '' @ np_Namespace p)) e2"
    using purge d n f by (auto simp: ns_Purge_def Let_def is_zero_def split: option.splits)
  have "e2 = None"
  proof (rule ccontr)
    assume "e2 \<noteq> None"
    then have "map_of (nr_dropped r2) = map_of (nr_dropped r)" by (rule ns_Forget_map [OF f])
    with before after r(2) show False by simp
  qed
  moreover have "held be' = {}"
    using del [of ?cut be be1] d n older r by fastforce
  ultimately show ?thesis using r n by simp
qed

theorem purge_forgets_only_empty_witness:
  "\<exists>r'. ns_Purge (\<lambda>t be. (None, filter (\<lambda>r. t \<le> r) be)) SaveDone (unix_epoch + 9 * hour)
      \<lparr>np_Namespace = ''n'', np_Retention = hour, np_Window = hour, np_Dropped = unix_epoch + 2\<rparr>
      ([unix_epoch + 1], \<lparr>nr_dropped = [(''n'', unix_epoch + 2)], nr_disk = None\<rparr>) = (None, [], r') \<and>
    map_of (nr_dropped r') ''n'' = None"
  (is "\<exists>r'. ns_Purge ?del _ ?now ?p (?be, ?r) = _ \<and> _")
proof -
  have cut: "PurgeCut 62135629200000000000 3600000000000 3600000000000 = 62135625600000000000"
    by (simp add: PurgeCut_def WindowStart_def Truncate_def go_rem_def time_sub_def unix_epoch_def
        duration_defs duration_bounds)
  obtain e be' r' where p: "ns_Purge ?del SaveDone ?now ?p (?be, ?r) = (e, be', r')" by (metis prod.exhaust)
  have r': "map_of (nr_dropped r') ''n'' = None"
    using p by (auto simp: ns_Purge_def Let_def cut is_zero_def unix_epoch_def duration_defs ns_Forget_def
        ns_save_def bk_delete_def)
  have "set be' = {} \<and> np_Dropped ?p \<noteq> 0 \<and> e = None"
    by (rule purge_forgets_only_empty [where held = set and del = ?del, OF _ _ _ p]) (auto simp: r')
  with p r' show ?thesis by simp
qed

section \<open>Erasing\<close>

lemma erase_all_namespaces: "erase_all del u nss e = (rs, e') \<Longrightarrow> map er_Namespace rs = nss"
  by (induction nss arbitrary: e rs) (auto split: prod.splits)

text \<open>A store's delete leaves nothing of the subject when it succeeds, and adds nothing anywhere.\<close>

definition subject_deletes ::
    "(string \<rightharpoonup> (string \<Rightarrow> 'e \<Rightarrow> error option \<times> 'e)) \<Rightarrow> string \<Rightarrow> ('e \<Rightarrow> string \<Rightarrow> string set) \<Rightarrow> bool" where
  "subject_deletes del u held \<longleftrightarrow> (\<forall>ns d e err e'. del ns = Some d \<longrightarrow> d u e = (err, e') \<longrightarrow>
     (err = None \<longrightarrow> u \<notin> held e' ns) \<and> (\<forall>n. held e' n \<subseteq> held e n))"

lemma erase_all_gone:
  assumes del: "subject_deletes del u held" and "erase_all del u nss e = (rs, e')"
  shows "(\<forall>n. held e' n \<subseteq> held e n) \<and> (Erased rs \<longrightarrow> (\<forall>ns \<in> set nss. u \<notin> held e' ns)) \<and>
    (\<forall>ns \<in> set nss. del ns = None \<longrightarrow> \<not> Erased rs)"
  using assms(2)
proof (induction nss arbitrary: e rs)
  case Nil
  then show ?case by simp
next
  case (Cons ns nss)
  obtain err e1 where d: "(case del ns of None \<Rightarrow> (Some ErrNoStore, e) | Some d \<Rightarrow> d u e) = (err, e1)"
    by (metis prod.exhaust)
  obtain rs' where rs': "erase_all del u nss e1 = (rs', e')" "rs = \<lparr>er_Namespace = ns, er_Err = err\<rparr> # rs'"
    using Cons.prems d by (auto split: prod.splits)
  have n: "(err = None \<longrightarrow> u \<notin> held e1 ns) \<and> (\<forall>n. held e1 n \<subseteq> held e n)"
    using d del by (cases "del ns") (auto simp: subject_deletes_def)
  have "del ns = None \<Longrightarrow> err \<noteq> None" using d by auto
  then show ?case using Cons.IH [OF rs'(1)] rs'(2) n by (auto simp: Erased_def)
qed

lemma Erase_cases: "Erase del u r (mo, e) = (rs, mo', e') \<longleftrightarrow> erase_all del u (ns_Namespaces r) e = (rs, e') \<and> mo' = Withdraw mo u"
  by (auto simp: Erase_def split: prod.splits)

text \<open>A withdrawal's erase tries every recorded namespace, in order, even when one fails; and
  when it reports that all of it went, no recorded namespace holds anything of the user any
  more (given that a store's delete that succeeds leaves nothing of the subject, and that
  deleting adds nothing anywhere). A recorded namespace without an open store is a failure.\<close>

theorem Erase_complete:
  fixes del :: "string \<rightharpoonup> (string \<Rightarrow> 'e \<Rightarrow> error option \<times> 'e)" and held :: "'e \<Rightarrow> string \<Rightarrow> string set"
  assumes gone: "\<And>ns d e e'. del ns = Some d \<Longrightarrow> d u e = (None, e') \<Longrightarrow> u \<notin> held e' ns"
    and less: "\<And>ns d e err e' n. del ns = Some d \<Longrightarrow> d u e = (err, e') \<Longrightarrow> held e' n \<subseteq> held e n"
    and run: "Erase del u r (mo, e) = (rs, mo', e')"
  shows "map er_Namespace rs = ns_Namespaces r \<and>
    (Erased rs \<longrightarrow> (\<forall>ns \<in> set (ns_Namespaces r). u \<notin> held e' ns)) \<and>
    (\<forall>ns \<in> set (ns_Namespaces r). del ns = None \<longrightarrow> \<not> Erased rs)"
proof -
  have ea: "erase_all del u (ns_Namespaces r) e = (rs, e')" using run by (simp add: Erase_cases)
  have "subject_deletes del u held" using gone less unfolding subject_deletes_def by metis
  note all = erase_all_gone [OF this ea]
  show ?thesis using erase_all_namespaces [OF ea] all by blast
qed

theorem Erase_complete_witness:
  "\<exists>rs mo e'. Erase [''n'' \<mapsto> \<lambda>u e. (None, filter (\<lambda>(ns, s). s \<noteq> u) e)] ''42''
      \<lparr>nr_dropped = [(''n'', 0)], nr_disk = None\<rparr> (None :: unit long_memory option, [(''n'', ''42''), (''n'', ''7'')])
      = (rs, mo, e') \<and> Erased rs \<and> (''n'', ''42'') \<notin> set e'"
  (is "\<exists>rs mo e'. Erase ?del _ ?r (?mo, ?e) = _ \<and> _")
proof -
  obtain rs mo e' where run: "Erase ?del ''42'' ?r (?mo, ?e) = (rs, mo, e')" by (metis prod.exhaust)
  have er: "Erased rs" using run by (auto simp: Erase_def ns_Namespaces_def Erased_def)
  have "map er_Namespace rs = ns_Namespaces ?r \<and>
    (Erased rs \<longrightarrow> (\<forall>ns \<in> set (ns_Namespaces ?r). ''42'' \<notin> {s. (ns, s) \<in> set e'})) \<and>
    (\<forall>ns \<in> set (ns_Namespaces ?r). ?del ns = None \<longrightarrow> \<not> Erased rs)"
    by (rule Erase_complete [where held = "\<lambda>e ns. {s. (ns, s) \<in> set e}", OF _ _ run])
      (auto split: if_splits)
  with run er show ?thesis by (auto simp: ns_Namespaces_def)
qed

end
