(* ===== verification/GoFloat.thy ===== *)
theory GoFloat
  imports Complex_Main
begin

text \<open>Go's float64 as far as the program compares one: a sort key, a temperature, a similarity floor.\<close>

text \<open>
  A float64 as far as the code looks at it. The order is the one Go's \<^verbatim>\<open><\<close> gives on numbers; NaN,
  for which every comparison of Go's is false, is put last so that there is one.
\<close>

datatype f64 = NInf | Fin rat | PInf | NaN

fun f64_rank :: "f64 \<Rightarrow> nat" where
  "f64_rank NInf = 0" | "f64_rank (Fin q) = 1" | "f64_rank PInf = 2" | "f64_rank NaN = 3"

instantiation f64 :: linorder
begin

fun less_eq_f64 :: "f64 \<Rightarrow> f64 \<Rightarrow> bool" where
  "less_eq_f64 (Fin p) (Fin q) = (p \<le> q)"
| "less_eq_f64 x y = (f64_rank x \<le> f64_rank y)"

definition less_f64 :: "f64 \<Rightarrow> f64 \<Rightarrow> bool" where
  "less_f64 x y \<longleftrightarrow> x \<le> y \<and> \<not> y \<le> (x :: f64)"

instance
proof
  fix x y z :: f64
  show "(x < y) = (x \<le> y \<and> \<not> y \<le> x)" by (rule less_f64_def)
  show "x \<le> x" by (cases x) simp_all
  show "x \<le> y \<Longrightarrow> y \<le> z \<Longrightarrow> x \<le> z" by (cases x; cases y; cases z) simp_all
  show "x \<le> y \<Longrightarrow> y \<le> x \<Longrightarrow> x = y" by (cases x; cases y) simp_all
  show "x \<le> y \<or> y \<le> x" by (cases x; cases y) auto
qed

end

text \<open>Go's \<^verbatim>\<open><\<close> and \<^verbatim>\<open>==\<close> on float64.\<close>

fun go_less :: "f64 \<Rightarrow> f64 \<Rightarrow> bool" where
  "go_less NaN y = False"
| "go_less x NaN = False"
| "go_less x y = (x < y)"

definition go_eq :: "f64 \<Rightarrow> f64 \<Rightarrow> bool" where
  "go_eq x y \<longleftrightarrow> x = y \<and> x \<noteq> NaN"

lemma go_less_order: "x \<noteq> NaN \<Longrightarrow> y \<noteq> NaN \<Longrightarrow> go_less x y \<longleftrightarrow> x < y"
  by (cases x; cases y) auto

end
