(* ===== verification/Logs.thy ===== *)
theory Logs
  imports Bolt GoText
begin

text \<open>
  The two append-only records: the quarantine log (\<^verbatim>\<open>internal/quarantine/quarantine.go\<close>) and
  the transcript (\<^verbatim>\<open>internal/transcript/transcript.go\<close>). The JSON text of an entry is an
  argument, \<open>json\<close>; what a write to a file did is an argument too: a failing write can leave
  the first bytes of the line.
\<close>

datatype write_io = WriteDone | WriteFailed nat error

section \<open>The quarantine log\<close>

record q_entry =
  qe_Time :: time
  qe_ChatID :: string
  qe_UserID :: string
  qe_Handle :: string
  qe_Surface :: string
  qe_Text :: string

definition qmem_Append :: "q_entry list \<Rightarrow> q_entry \<Rightarrow> error option \<times> q_entry list" where
  "qmem_Append l e = (None, l @ [e])"

definition qmem_Entries :: "q_entry list \<Rightarrow> q_entry list" where
  "qmem_Entries l = l"

definition write_file :: "write_io \<Rightarrow> string \<Rightarrow> string \<Rightarrow> error option \<times> string" where
  "write_file io line content =
     (case io of WriteDone \<Rightarrow> (None, content @ line)
      | WriteFailed n e \<Rightarrow> (Some e, content @ take n line))"

definition qfile_Append ::
    "(q_entry \<Rightarrow> string) \<Rightarrow> write_io \<Rightarrow> string \<Rightarrow> q_entry \<Rightarrow> error option \<times> string" where
  "qfile_Append json io content e =
     (if \<not> json_time_ok (qe_Time e)
      then (Some (Wrap ''quarantine: marshal entry'' (ErrMsg ''year outside of range [0,9999]'')), content)
      else (case write_file io (json e @ newline) content of
          (None, c) \<Rightarrow> (None, c)
        | (Some err, c) \<Rightarrow> (Some (Wrap ''quarantine: append'' err), c)))"

section \<open>The transcript\<close>

datatype role = RoleHuman | RoleBot | RoleSystem

definition EventRateLimited :: string where
  "EventRateLimited = ''rate_limited''"

record t_entry =
  te_Time :: time
  te_Role :: role
  te_ChatID :: string
  te_UserID :: string
  te_Speaker :: string
  te_Text :: string
  te_MessageID :: string
  te_ReplyTo :: string
  te_Event :: string

definition tmem_Append :: "t_entry list \<Rightarrow> t_entry \<Rightarrow> error option \<times> t_entry list" where
  "tmem_Append l e = (None, l @ [e])"

definition safe_rune :: "rune \<Rightarrow> rune" where
  "safe_rune r =
     (if 97 \<le> r \<and> r \<le> 122 \<or> 65 \<le> r \<and> r \<le> 90 \<or> 48 \<le> r \<and> r \<le> 57 \<or> r = 45 \<or> r = 95
      then r else 95)"

definition safeChatFilename :: "string \<Rightarrow> string" where
  "safeChatFilename chat =
     (let safe = of_runes (map safe_rune (runes chat))
      in (if safe = [] then ''chat'' else safe) @ ''.jsonl'')"

text \<open>
  A directory log: the files under the directory by name, and the names whose handle is
  open. \<open>io_open\<close> is what opening a file not yet open did.
\<close>

record dir_log =
  dl_files :: "string \<rightharpoonup> string"
  dl_open :: "string set"

definition fileFor :: "io \<Rightarrow> dir_log \<Rightarrow> string \<Rightarrow> string result \<times> dir_log" where
  "fileFor io_open d chat =
     (let name = safeChatFilename chat in
      if name \<in> dl_open d then (Inr name, d)
      else (case io_open of
          Failed e \<Rightarrow> (Inl (Wrap ''transcript: open'' e), d)
        | Done \<Rightarrow> (Inr name,
            d\<lparr>dl_open := insert name (dl_open d),
              dl_files := (dl_files d)(name \<mapsto> (case dl_files d name of None \<Rightarrow> [] | Some c \<Rightarrow> c))\<rparr>)))"

definition tdir_Append ::
    "(t_entry \<Rightarrow> string) \<Rightarrow> io \<Rightarrow> write_io \<Rightarrow> dir_log \<Rightarrow> t_entry \<Rightarrow> error option \<times> dir_log" where
  "tdir_Append json io_open io_write d e =
     (if \<not> json_time_ok (te_Time e)
      then (Some (Wrap ''transcript: marshal entry'' (ErrMsg ''year outside of range [0,9999]'')), d)
      else (case fileFor io_open d (te_ChatID e) of
          (Inl err, d1) \<Rightarrow> (Some err, d1)
        | (Inr name, d1) \<Rightarrow>
            (case write_file io_write (json e @ newline) (case dl_files d1 name of None \<Rightarrow> [] | Some c \<Rightarrow> c) of
               (None, c) \<Rightarrow> (None, d1\<lparr>dl_files := (dl_files d1)(name \<mapsto> c)\<rparr>)
             | (Some err, c) \<Rightarrow>
                 (Some (Wrap ''transcript: append'' err), d1\<lparr>dl_files := (dl_files d1)(name \<mapsto> c)\<rparr>))))"

section \<open>File names\<close>

definition safe_char :: "char \<Rightarrow> bool" where
  "safe_char c \<longleftrightarrow> (let b = byte c :: nat in
     97 \<le> b \<and> b \<le> 122 \<or> 65 \<le> b \<and> b \<le> 90 \<or> 48 \<le> b \<and> b \<le> 57 \<or> b = 45 \<or> b = 95)"

lemma safe_rune_encoded: "c \<in> set (encode_rune (safe_rune r)) \<Longrightarrow> safe_char c"
  by (auto simp: safe_rune_def encode_rune_def safe_char_def Let_def split: if_splits)

lemma safe_name_chars: "c \<in> set (of_runes (map safe_rune rs)) \<Longrightarrow> safe_char c"
  by (auto simp: of_runes_def dest: safe_rune_encoded)

text \<open>A transcript file never leaves its directory: whatever the chat id, the file name is
  some letters, digits, dashes and underscores, at least one, followed by the one suffix, so
  it has no path separator and no dot but the suffix's.\<close>

theorem safeChatFilename_safe:
  "\<exists>stem. safeChatFilename chat = stem @ ''.jsonl'' \<and> stem \<noteq> [] \<and> list_all safe_char stem \<and>
     CHR ''/'' \<notin> set (safeChatFilename chat)"
proof -
  let ?s = "of_runes (map safe_rune (runes chat))"
  let ?stem = "if ?s = [] then ''chat'' else ?s"
  have all: "list_all safe_char ?stem"
    by (auto simp: list_all_iff safe_char_def dest: safe_name_chars)
  moreover have "CHR ''/'' \<notin> set ?stem"
    using all by (force simp: list_all_iff safe_char_def Let_def)
  ultimately show ?thesis by (intro exI [of _ ?stem]) (simp add: safeChatFilename_def Let_def)
qed

text \<open>Ids that are safe already keep their own file.\<close>

definition safe_id :: "string \<Rightarrow> bool" where
  "safe_id s \<longleftrightarrow> list_all safe_char s"

lemma safe_char_ascii: "safe_char c \<Longrightarrow> byte c < (128 :: nat)"
  by (auto simp: safe_char_def Let_def)

lemma safe_rune_id: "safe_char c \<Longrightarrow> encode_rune (safe_rune (byte c)) = [c]"
  by (auto simp: safe_char_def safe_rune_def encode_rune_def Let_def)

lemma safe_id_filename: "safe_id s \<Longrightarrow> s \<noteq> [] \<Longrightarrow> safeChatFilename s = s @ ''.jsonl''"
proof -
  assume s: "safe_id s" "s \<noteq> []"
  then have "runes s = map of_char s"
    by (intro runes_ascii) (auto simp: safe_id_def list_all_iff safe_char_ascii)
  moreover have "of_runes (map safe_rune (map of_char s)) = s"
    using s(1) unfolding safe_id_def of_runes_def
    by (induction s) (simp_all add: safe_rune_id)
  ultimately show ?thesis using s(2) by (simp add: safeChatFilename_def)
qed

lemma safe_id_filename_inj:
  "safe_id s \<Longrightarrow> safe_id t \<Longrightarrow> s \<noteq> [] \<Longrightarrow> t \<noteq> [] \<Longrightarrow> safeChatFilename s = safeChatFilename t \<longleftrightarrow> s = t"
  by (simp add: safe_id_filename)

section \<open>Lines\<close>

fun split_lines :: "string \<Rightarrow> string \<Rightarrow> string list" where
  "split_lines acc [] = (if acc = [] then [] else [acc])"
| "split_lines acc (c # s) = (if [c] = newline then acc # split_lines [] s else split_lines (acc @ [c]) s)"

lemma split_lines_line:
  "newline ! 0 \<notin> set l \<Longrightarrow> split_lines acc (l @ newline @ s) = (acc @ l) # split_lines [] s"
  by (induction l arbitrary: acc) (auto simp: newline_def)

fun qfile_run :: "(q_entry \<Rightarrow> string) \<Rightarrow> string \<Rightarrow> (write_io \<times> q_entry) list \<Rightarrow> string" where
  "qfile_run json c [] = c"
| "qfile_run json c ((io, e) # es) = qfile_run json (snd (qfile_Append json io c e)) es"

lemma qfile_run_content:
  assumes "\<And>io e. (io, e) \<in> set es \<Longrightarrow> io = WriteDone \<and> json_time_ok (qe_Time e)"
  shows "qfile_run json c es = c @ concat (map (\<lambda>(io, e). json e @ newline) es)"
  using assms
proof (induction es arbitrary: c)
  case (Cons x es)
  obtain io e where x: "x = (io, e)" by (cases x)
  have "io = WriteDone" "json_time_ok (qe_Time e)" using Cons.prems [of io e] x by simp_all
  moreover have "qfile_run json c es = c @ concat (map (\<lambda>(io, e). json e @ newline) es)" for c
    by (rule Cons.IH) (rule Cons.prems, simp)
  ultimately show ?case by (simp add: x qfile_Append_def write_file_def)
qed simp

text \<open>The quarantine file is one line per entry, in the order of the appends, as long as the
  writes succeed: reading it back line by line gives exactly the entries' JSON (an encoder
  that, as \<^verbatim>\<open>encoding/json\<close>, writes no raw newline).\<close>

theorem quarantine_lines:
  assumes "\<And>io e. (io, e) \<in> set es \<Longrightarrow> io = WriteDone \<and> json_time_ok (qe_Time e)"
    and "\<And>e. newline ! 0 \<notin> set (json e)"
  shows "split_lines [] (qfile_run json [] es) = map (\<lambda>(io, e). json e) es"
proof -
  have "split_lines [] (concat (map (\<lambda>(io, e). json e @ newline) es)) = map (\<lambda>(io, e). json e) es"
  proof (induction es)
    case (Cons x es)
    obtain io e where "x = (io, e)" by (cases x)
    with Cons show ?case using split_lines_line [OF assms(2), of "[]" e] by simp
  qed simp
  then show ?thesis using qfile_run_content [of es json "[]"] assms(1) by simp
qed

definition demo_entry :: q_entry where
  "demo_entry = \<lparr>qe_Time = 0, qe_ChatID = ''-100'', qe_UserID = ''42'', qe_Handle = ''a'',
     qe_Surface = ''group'', qe_Text = ''hi''\<rparr>"

theorem quarantine_lines_witness:
  "split_lines [] (qfile_run (\<lambda>e. ''e'') [] [(WriteDone, demo_entry), (WriteDone, demo_entry)])
     = [''e'', ''e'']"
proof -
  have "newline ! 0 \<notin> set ''e''" by (simp add: newline_def char_of_def)
  then show ?thesis by (subst quarantine_lines) (auto simp: demo_entry_def)
qed

end
