(* ===== verification/Handler.thy ===== *)
theory Handler
  imports Actions ConvMemory Engine Logs
begin

text \<open>
  The handler every transport calls with a message (\<^verbatim>\<open>internal/runtime/handler.go\<close>), the
  consent flow of direct messages (\<^verbatim>\<open>consent.go\<close>), the conversation context
  (\<^verbatim>\<open>runtime/memory.go\<close>) and the policy (\<^verbatim>\<open>policy.go\<close>). The handler is a function from a
  message and the state of everything it touches to a reply and the new state. What each
  store call did, and what the clock read at each place that reads it, are arguments:
  \<open>io\<close> and \<open>clk\<close>, indexed by the place. Log lines and metrics are not modelled.
\<close>

section \<open>Inbound messages (transport.go)\<close>

record callback =
  cb_Token :: string
  cb_QueryID :: string
  cb_MessageID :: string

record inbound =
  in_User :: user
  in_Surface :: surface
  in_Text :: string
  in_ReplyTo :: string
  in_Directed :: bool
  in_MessageID :: string
  in_ReplyToMessageID :: string
  in_ReplyToBot :: bool
  in_ReplyToText :: string
  in_ReplyToSender :: string
  in_Callback :: "callback option"

definition ActionsAsText :: "action list \<Rightarrow> string" where
  "ActionsAsText as = concat (map (\<lambda>(i, a). newline @ itoa (int i + 1) @ ''. '' @ a_Label a) (enumerate 0 as))"

section \<open>Policy\<close>

definition NewAdminSet :: "string list \<Rightarrow> string set" where
  "NewAdminSet ids = set (filter (\<lambda>i. i \<noteq> []) (map TrimSpace ids))"

definition NudgeMessage :: string where "NudgeMessage = ''message''"
definition NudgeReaction :: string where "NudgeReaction = ''reaction''"

record nudge =
  nd_Mode :: string
  nd_Text :: string
  nd_Emoji :: string

definition DefaultNudgeEmoji :: string where
  "DefaultNudgeEmoji = map char_of [240, 159, 164, 157 :: nat]"

definition nudge_resolve :: "nudge \<Rightarrow> nudge" where
  "nudge_resolve n =
     (let n1 = (if nd_Mode n = [] then n\<lparr>nd_Mode := NudgeMessage\<rparr> else n)
      in if nd_Emoji n1 = [] then n1\<lparr>nd_Emoji := DefaultNudgeEmoji\<rparr> else n1)"

text \<open>
  \<open>po_Erase\<close> holds the eraser's stores, \<open>None\<close> when the instance keeps no long-term memory;
  \<open>po_Consent\<close> is whether a consent surface is wired; \<open>po_Texts\<close> is the catalog's \<^verbatim>\<open>Get\<close>.
\<close>

record 'm policy =
  po_Admins :: "string set"
  po_Nudge :: nudge
  po_Inject :: int
  po_FollowupWindow :: duration
  po_Texts :: texts
  po_Erase :: "(string \<rightharpoonup> (string \<Rightarrow> 'm \<Rightarrow> error option \<times> 'm)) option"
  po_MemoryDerive :: bool
  po_ConsentAck :: string
  po_Consent :: bool

section \<open>The state\<close>

text \<open>
  A nil log, pending store or memory is \<open>None\<close>. \<open>w_env\<close> is what the retriever, the model and
  the tools act on, \<open>w_mem\<close> what long-term memory holds.
\<close>

record ('e, 'st, 'm) world =
  w_gate :: gate
  w_acl :: acl_db
  w_buf :: buffer
  w_qlog :: "q_entry list option"
  w_tlog :: "t_entry list option"
  w_pend :: "pend_bolt option"
  w_lm :: "'st long_memory option"
  w_ns :: ns_record
  w_env :: 'e
  w_mem :: 'm

datatype io_site = IoGateGet | IoGatePut | IoConsentRead | IoConsentWrite | IoQuarantine
  | IoHuman | IoBot | IoSystem | IoResolve | IoAuthorize | IoVerb

datatype clk_site = ClkGate | ClkSelect | ClkUserTurn | ClkBotTurn | ClkQuarantine
  | ClkHuman | ClkBot | ClkSystem | ClkMemory | ClkResolve

record happened =
  hp_io :: "io_site \<Rightarrow> io"
  hp_clk :: "clk_site \<Rightarrow> time"
  hp_ctx_err :: "error option"

section \<open>Conversation context (memory.go)\<close>

definition selectHistory :: "unicode \<Rightarrow> time \<Rightarrow> buffer \<Rightarrow> inbound \<Rightarrow> int \<Rightarrow> duration \<Rightarrow> history_turn list" where
  "selectHistory uc now buf inb injectN window =
     map (\<lambda>t. \<lparr>h_Speaker = t_Speaker t, h_Bot = t_Bot t, h_Text = t_Text t, h_Time = t_Time t,
           h_MessageID = t_MessageID t, h_ReplyTo = t_ReplyTo t\<rparr>)
       (mem_Select uc now buf (in_ReplyTo inb) (in_Text inb) (u_ID (in_User inb))
          (in_ReplyToMessageID inb \<noteq> []) injectN window)"

definition replyContextOf :: "inbound \<Rightarrow> string" where
  "replyContextOf inb =
     (let t = TrimSpace (in_ReplyToText inb) in
      if t = [] then []
      else let sender = DisplayName (in_ReplyToSender inb) in
        if sender \<noteq> [] then sender @ '': '' @ t else t)"

definition rememberUser :: "time \<Rightarrow> buffer \<Rightarrow> inbound \<Rightarrow> buffer" where
  "rememberUser now buf inb = mem_Append buf (in_ReplyTo inb)
     \<lparr>t_SpeakerID = u_ID (in_User inb), t_Speaker = u_Display (in_User inb), t_Bot = False,
      t_Text = in_Text inb, t_Time = now, t_MessageID = in_MessageID inb,
      t_ReplyTo = in_ReplyToMessageID inb\<rparr>"

definition rememberBot :: "time \<Rightarrow> buffer \<Rightarrow> string \<Rightarrow> string \<Rightarrow> buffer" where
  "rememberBot now buf chat txtv =
     (if TrimSpace txtv = [] then buf
      else mem_Append buf chat \<lparr>t_SpeakerID = [], t_Speaker = [], t_Bot = True, t_Text = txtv,
        t_Time = now, t_MessageID = [], t_ReplyTo = []\<rparr>)"

section \<open>Logging\<close>

definition surfaceLabel :: "surface \<Rightarrow> string" where
  "surfaceLabel s = (case s of SurfaceDM \<Rightarrow> ''dm'' | SurfaceGroup \<Rightarrow> ''group'')"

text \<open>A log takes the entry when its append went through; a failure is only warned about.\<close>

definition log_append :: "io \<Rightarrow> 'a \<Rightarrow> 'a list option \<Rightarrow> 'a list option" where
  "log_append io e l = (case l of None \<Rightarrow> None | Some es \<Rightarrow> Some (if io = Done then es @ [e] else es))"

definition served_entry :: "time \<Rightarrow> inbound \<Rightarrow> q_entry" where
  "served_entry now inb = \<lparr>qe_Time = now, qe_ChatID = in_ReplyTo inb, qe_UserID = u_ID (in_User inb),
     qe_Handle = u_Display (in_User inb), qe_Surface = surfaceLabel (in_Surface inb), qe_Text = in_Text inb\<rparr>"

definition logServed :: "happened \<Rightarrow> inbound \<Rightarrow> ('e, 'st, 'm) world \<Rightarrow> ('e, 'st, 'm) world" where
  "logServed hp inb w =
     (if in_Surface inb \<noteq> SurfaceGroup then w
      else w\<lparr>w_qlog := log_append (hp_io hp IoQuarantine) (served_entry (hp_clk hp ClkQuarantine) inb) (w_qlog w)\<rparr>)"

definition human_entry :: "time \<Rightarrow> inbound \<Rightarrow> t_entry" where
  "human_entry now inb = \<lparr>te_Time = now, te_Role = RoleHuman, te_ChatID = in_ReplyTo inb,
     te_UserID = u_ID (in_User inb), te_Speaker = u_Display (in_User inb), te_Text = in_Text inb,
     te_MessageID = in_MessageID inb, te_ReplyTo = in_ReplyToMessageID inb, te_Event = []\<rparr>"

definition logTranscriptHuman :: "happened \<Rightarrow> inbound \<Rightarrow> ('e, 'st, 'm) world \<Rightarrow> ('e, 'st, 'm) world" where
  "logTranscriptHuman hp inb w =
     (if in_Surface inb \<noteq> SurfaceGroup then w
      else w\<lparr>w_tlog := log_append (hp_io hp IoHuman) (human_entry (hp_clk hp ClkHuman) inb) (w_tlog w)\<rparr>)"

definition plain_entry :: "time \<Rightarrow> role \<Rightarrow> string \<Rightarrow> t_entry" where
  "plain_entry now rl chat = \<lparr>te_Time = now, te_Role = rl, te_ChatID = chat, te_UserID = [], te_Speaker = [],
     te_Text = [], te_MessageID = [], te_ReplyTo = [], te_Event = []\<rparr>"

definition logTranscriptBot :: "happened \<Rightarrow> inbound \<Rightarrow> string \<Rightarrow> ('e, 'st, 'm) world \<Rightarrow> ('e, 'st, 'm) world" where
  "logTranscriptBot hp inb txtv w =
     (if in_Surface inb \<noteq> SurfaceGroup then w
      else w\<lparr>w_tlog := log_append (hp_io hp IoBot)
        ((plain_entry (hp_clk hp ClkBot) RoleBot (in_ReplyTo inb))\<lparr>te_Text := txtv\<rparr>) (w_tlog w)\<rparr>)"

definition logTranscriptSystem :: "happened \<Rightarrow> inbound \<Rightarrow> string \<Rightarrow> ('e, 'st, 'm) world \<Rightarrow> ('e, 'st, 'm) world" where
  "logTranscriptSystem hp inb event w =
     (if in_Surface inb \<noteq> SurfaceGroup then w
      else w\<lparr>w_tlog := log_append (hp_io hp IoSystem)
        ((plain_entry (hp_clk hp ClkSystem) RoleSystem (in_ReplyTo inb))\<lparr>te_Event := event\<rparr>) (w_tlog w)\<rparr>)"

section \<open>Answering\<close>

definition text_reply :: "string \<Rightarrow> reply" where
  "text_reply t = empty_reply\<lparr>r_Text := t\<rparr>"

definition refuse_reply :: "texts \<Rightarrow> reply" where
  "refuse_reply strs = empty_reply\<lparr>r_Text := strs ''refuse'', r_Refused := True\<rparr>"

definition answer ::
    "('e, 'st, 'm) engine \<Rightarrow> happened \<Rightarrow> texts \<Rightarrow> inbound \<Rightarrow> history_turn list \<Rightarrow> bool \<Rightarrow> 64 word
     \<Rightarrow> ('e, 'st, 'm) world \<Rightarrow> reply result \<times> ('e, 'st, 'm) world" where
  "answer e hp strs inb history remember withdrawals w =
     (case Answer e (w_lm w) (w_lm w) (hp_clk hp ClkMemory) (hp_ctx_err hp)
         \<lparr>q_User = in_User inb, q_Surface = in_Surface inb, q_Text = in_Text inb, q_History = history,
          q_ReplyContext = replyContextOf inb, q_Chat = in_ReplyTo inb, q_Remember = remember,
          q_Withdrawals = withdrawals\<rparr> (w_env w, w_mem w) of
        (Inl err, env, mem) \<Rightarrow>
          (if errors_is err ErrOverBudget
           then Inr (empty_reply\<lparr>r_Text := strs ''at_capacity'', r_Refused := True\<rparr>)
           else Inl err, w\<lparr>w_env := env, w_mem := mem\<rparr>)
      | (Inr rep, env, mem) \<Rightarrow> (Inr rep, w\<lparr>w_env := env, w_mem := mem\<rparr>))"

definition answerRemembering ::
    "unicode \<Rightarrow> ('e, 'st, 'm) engine \<Rightarrow> happened \<Rightarrow> 'm policy \<Rightarrow> inbound \<Rightarrow> bool \<Rightarrow> 64 word
     \<Rightarrow> ('e, 'st, 'm) world \<Rightarrow> reply result \<times> ('e, 'st, 'm) world" where
  "answerRemembering uc e hp po inb remember withdrawals w =
     (let history = selectHistory uc (hp_clk hp ClkSelect) (w_buf w) inb (po_Inject po) (po_FollowupWindow po);
          w1 = w\<lparr>w_buf := rememberUser (hp_clk hp ClkUserTurn) (w_buf w) inb\<rparr>
      in case answer e hp (po_Texts po) inb history remember withdrawals w1 of
           (Inl err, w2) \<Rightarrow> (Inl err, w2)
         | (Inr rep, w2) \<Rightarrow>
             (Inr rep, if r_Refused rep then w2
              else w2\<lparr>w_buf := rememberBot (hp_clk hp ClkBotTurn) (w_buf w2) (in_ReplyTo inb) (r_Text rep)\<rparr>))"

definition nudgeReply :: "nudge \<Rightarrow> texts \<Rightarrow> reply" where
  "nudgeReply n strs =
     (let n' = nudge_resolve n in
      if nd_Mode n' = NudgeReaction then empty_reply\<lparr>r_Reaction := nd_Emoji n'\<rparr>
      else text_reply (if nd_Text n' = [] then strs ''nudge'' else nd_Text n'))"

definition purgeIfWithdrawn :: "happened \<Rightarrow> 'm policy \<Rightarrow> string \<Rightarrow> ('e, 'st, 'm) world \<Rightarrow> ('e, 'st, 'm) world" where
  "purgeIfWithdrawn hp po usr w =
     (if \<not> po_Consent po then w
      else (case ConsentOf (hp_io hp IoConsentRead) (w_acl w) usr of
          Inl e \<Rightarrow> w
        | Inr c \<Rightarrow> if c \<noteq> ConsentGranted then w\<lparr>w_buf := mem_PurgeUser (w_buf w) usr\<rparr> else w))"

section \<open>Consent by direct message (consent.go)\<close>

definition isConsentCommand :: "string \<Rightarrow> bool" where
  "isConsentCommand t \<longleftrightarrow> TrimSpace t \<in> {''/start'', ''/consent'', ''/consent remove''}"

definition disclosure :: "texts \<Rightarrow> bool \<Rightarrow> bool \<Rightarrow> bool \<Rightarrow> string" where
  "disclosure strs transcript memory derive =
     strs ''consent_disclosure_intro'' @
     (if transcript then strs ''consent_transcript_line'' else []) @
     (if memory then strs ''consent_memory_line'' @
        (if derive then strs ''consent_memory_derive_line'' else []) else []) @
     strs ''consent_disclosure_tap''"

definition dmConsentFlow ::
    "happened \<Rightarrow> 'm policy \<Rightarrow> inbound \<Rightarrow> ('e, 'st, 'm) world \<Rightarrow> reply \<times> ('e, 'st, 'm) world" where
  "dmConsentFlow hp po inb w =
     (let strs = po_Texts po; usr = u_ID (in_User inb); cmd = TrimSpace (in_Text inb) in
      if cmd = ''/consent'' then
        (case SetConsent (hp_io hp IoConsentWrite) (w_acl w) usr ConsentGranted of
           (Some e, b) \<Rightarrow> (text_reply (strs ''consent_error''), w\<lparr>w_acl := b\<rparr>)
         | (None, b) \<Rightarrow> ((text_reply (strs ''consent_granted''))\<lparr>r_Reaction := po_ConsentAck po\<rparr>, w\<lparr>w_acl := b\<rparr>))
      else if cmd = ''/consent remove'' then
        (case SetConsent (hp_io hp IoConsentWrite) (w_acl w) usr ConsentDeclined of
           (Some e, b) \<Rightarrow> (text_reply (strs ''consent_error''), w\<lparr>w_acl := b\<rparr>)
         | (None, b) \<Rightarrow>
             let w1 = w\<lparr>w_acl := b, w_buf := mem_PurgeUser (w_buf w) usr\<rparr> in
             (case po_Erase po of
                None \<Rightarrow> ((text_reply (strs ''consent_removed''))\<lparr>r_Reaction := po_ConsentAck po\<rparr>, w1)
              | Some del \<Rightarrow>
                  (case Erase del usr (w_ns w1) (w_lm w1, w_mem w1) of
                     (rs, lm, mem) \<Rightarrow>
                       let w2 = w1\<lparr>w_lm := lm, w_mem := mem\<rparr> in
                       if \<not> Erased rs then (text_reply (strs ''consent_erase_failed''), w2)
                       else ((text_reply (strs ''consent_removed_erased''))\<lparr>r_Reaction := po_ConsentAck po\<rparr>, w2))))
      else (case ConsentOf (hp_io hp IoConsentRead) (w_acl w) usr of
          Inl e \<Rightarrow> (text_reply (strs ''consent_error''), w)
        | Inr c \<Rightarrow>
            if c = ConsentGranted then (text_reply (strs ''consent_already''), w)
            else ((text_reply (disclosure strs (w_tlog w \<noteq> None) (po_Erase po \<noteq> None) (po_MemoryDerive po)))
                \<lparr>r_Actions := [\<lparr>a_Verb = verbConsentGrant, a_Params = Map.empty,
                   a_Label = strs ''consent_opt_in_label''\<rparr>]\<rparr>, w)))"

section \<open>The handler\<close>

text \<open>After the gate's decision: what is logged, and the reply.\<close>

definition act_on_decision ::
    "unicode \<Rightarrow> ('e, 'st, 'm) engine \<Rightarrow> happened \<Rightarrow> 'm policy \<Rightarrow> inbound \<Rightarrow> 64 word \<Rightarrow> decision
     \<Rightarrow> ('e, 'st, 'm) world \<Rightarrow> reply result \<times> ('e, 'st, 'm) world" where
  "act_on_decision uc e hp po inb withdrawals d w =
     (let usr = u_ID (in_User inb);
          w1 = (if d \<in> {DecideServe, DecideLogOnly, DecideRateLimited}
            then logTranscriptHuman hp inb (logServed hp inb w) else w)
      in case d of
        DecideServe \<Rightarrow>
          (case answerRemembering uc e hp po inb (in_Surface inb = SurfaceGroup) withdrawals w1 of
             (res, w2) \<Rightarrow>
               let w3 = purgeIfWithdrawn hp po usr w2 in
               (res, case res of Inl err \<Rightarrow> w3
                 | Inr rep \<Rightarrow> if \<not> r_Silent rep \<and> r_Text rep \<noteq> []
                     then logTranscriptBot hp inb (r_Text rep) w3 else w3))
      | DecideLogOnly \<Rightarrow>
          (Inr (empty_reply\<lparr>r_Silent := True\<rparr>),
           purgeIfWithdrawn hp po usr (w1\<lparr>w_buf := rememberUser (hp_clk hp ClkUserTurn) (w_buf w1) inb\<rparr>))
      | DecideNudge \<Rightarrow> (Inr (nudgeReply (po_Nudge po) (po_Texts po)), w1)
      | DecideRateLimited \<Rightarrow>
          (Inr (text_reply (po_Texts po ''rate_limited'')),
           logTranscriptSystem hp inb EventRateLimited
             (purgeIfWithdrawn hp po usr (w1\<lparr>w_buf := rememberUser (hp_clk hp ClkUserTurn) (w_buf w1) inb\<rparr>)))
      | DecideSilent \<Rightarrow> (Inr (empty_reply\<lparr>r_Silent := True\<rparr>), w1)
      | DecideRefuse \<Rightarrow> (Inr (refuse_reply (po_Texts po)), w1))"

definition handle ::
    "unicode \<Rightarrow> ('e, 'st, 'm) engine \<Rightarrow> acl_db registry option \<Rightarrow> happened \<Rightarrow> 'm policy \<Rightarrow> inbound
     \<Rightarrow> ('e, 'st, 'm) world \<Rightarrow> reply result \<times> ('e, 'st, 'm) world" where
  "handle uc e reg hp po inb w =
     (case in_Callback inb of
        Some cb \<Rightarrow>
          (case resolveCallback (\<lambda>s tok. pbolt_Resolve (hp_clk hp ClkResolve) (hp_io hp IoResolve) s tok) (w_pend w) reg
              (\<lambda>usr t b. Authorize (hp_io hp IoAuthorize) (w_gate w) b usr t) (in_User inb) (cb_Token cb)
              (po_Texts po) (w_acl w) of
             (rep, pend, b) \<Rightarrow> (Inr rep, w\<lparr>w_pend := pend, w_acl := b\<rparr>))
      | None \<Rightarrow>
          if in_Surface inb = SurfaceDM \<and> po_Consent po then
            (if u_ID (in_User inb) \<in> po_Admins po \<and> \<not> isConsentCommand (in_Text inb)
             then answerRemembering uc e hp po inb False 0 w
             else (case dmConsentFlow hp po inb w of (rep, w') \<Rightarrow> (Inr rep, w')))
          else
            let withdrawals = (case po_Erase po of None \<Rightarrow> 0 | Some _ \<Rightarrow> Withdrawals (w_lm w) (u_ID (in_User inb)))
            in (case check (hp_io hp IoGateGet) (hp_io hp IoGatePut) (hp_clk hp ClkGate) (w_gate w) (w_acl w)
                  \<lparr>gi_User = in_User inb, gi_Surface = in_Surface inb, gi_Directed = in_Directed inb\<rparr> of
                ((d, Some err), g', b') \<Rightarrow> (Inr (refuse_reply (po_Texts po)), w\<lparr>w_gate := g', w_acl := b'\<rparr>)
              | ((d, None), g', b') \<Rightarrow>
                  act_on_decision uc e hp po inb withdrawals d (w\<lparr>w_gate := g', w_acl := b'\<rparr>)))"

end
