(* ===== verification/Utf8.thy ===== *)
theory Utf8
  imports GoText
begin

text \<open>
  Facts about UTF-8 the text-handling components share: decoding inverts encoding on Unicode
  scalar values, every decoded rune is one, and splitting and joining work on runes as they
  do on bytes.
\<close>

definition valid_rune :: "rune \<Rightarrow> bool" where
  "valid_rune r \<longleftrightarrow> r < 55296 \<or> 57343 < r \<and> r \<le> 1114111"

lemma byte_char_of: "n < 256 \<Longrightarrow> byte (char_of n) = (n :: nat)"
  by simp

lemma encode_rune_nonempty [simp]: "encode_rune r \<noteq> []"
  by (simp add: encode_rune_def)

lemma decode2:
  assumes "2 \<le> a" "a < 32" "b < 64"
  shows "decode_rune (map char_of [192 + a, 128 + b :: nat] @ s) = (a * 64 + b, 2)"
  using assms by (simp add: decode_rune_def cont_in_def Let_def)

lemma decode3:
  assumes "a < 16" "b < 64" "c < 64" "a = 0 \<Longrightarrow> 32 \<le> b" "a = 13 \<Longrightarrow> b < 32"
  shows "decode_rune (map char_of [224 + a, 128 + b, 128 + c :: nat] @ s) = (a * 4096 + b * 64 + c, 3)"
proof -
  have "cont_in (if 224 + a = 224 then 160 else 128) (if 224 + a = 237 then 159 else 191)
      (map char_of [224 + a, 128 + b, 128 + c] @ s) 1"
    using assms by (cases "a = 0"; cases "a = 13") (simp_all add: cont_in_def)
  then show ?thesis using assms by (simp add: decode_rune_def cont_in_def Let_def)
qed

lemma decode4:
  assumes "a \<le> 4" "b < 64" "c < 64" "d < 64" "a = 0 \<Longrightarrow> 16 \<le> b" "a = 4 \<Longrightarrow> b < 16"
  shows "decode_rune (map char_of [240 + a, 128 + b, 128 + c, 128 + d :: nat] @ s) =
    (a * 262144 + b * 4096 + c * 64 + d, 4)"
proof -
  have "cont_in (if 240 + a = 240 then 144 else 128) (if 240 + a = 244 then 143 else 191)
      (map char_of [240 + a, 128 + b, 128 + c, 128 + d] @ s) 1"
    using assms by (cases "a = 0"; cases "a = 4") (simp_all add: cont_in_def)
  then show ?thesis using assms by (simp add: decode_rune_def cont_in_def Let_def)
qed

lemma decode_encode3:
  assumes "valid_rune r" and "2048 \<le> r" and "r < 65536"
  shows "decode_rune (encode_rune r @ s) = (r, length (encode_rune r))"
proof -
  have e: "encode_rune r = map char_of [224 + r div 4096, 128 + r div 64 mod 64, 128 + r mod 64]"
    using assms by (auto simp: encode_rune_def valid_rune_def)
  define x where "x = r div 64"
  define y where "y = x div 64"
  have xy: "r div 4096 = y" by (simp add: x_def y_def div_mult2_eq [symmetric])
  have sum: "y * 4096 + x mod 64 * 64 + r mod 64 = r"
    using div_mult_mod_eq [of r 64] div_mult_mod_eq [of x 64] unfolding x_def [symmetric] y_def [symmetric]
    by linarith
  have "decode_rune (encode_rune r @ s) = (y * 4096 + x mod 64 * 64 + r mod 64, 3)"
    unfolding e xy x_def [symmetric]
  proof (rule decode3)
    have m: "x mod 64 < 64" "r mod 64 < 64" by simp_all
    then show "x mod 64 < 64" "r mod 64 < 64" .
    show "y < 16" using assms(3) sum by linarith
    show "32 \<le> x mod 64" if "y = 0" using assms(2) that sum m by linarith
    show "x mod 64 < 32" if "y = 13"
      using assms that sum m unfolding valid_rune_def by linarith
  qed
  then show ?thesis by (simp add: sum e)
qed

lemma decode_encode4:
  assumes "valid_rune r" and "65536 \<le> r"
  shows "decode_rune (encode_rune r @ s) = (r, length (encode_rune r))"
proof -
  have r4: "r \<le> 1114111" using assms(1) by (auto simp: valid_rune_def)
  have e: "encode_rune r = map char_of [240 + r div 262144, 128 + r div 4096 mod 64,
      128 + r div 64 mod 64, 128 + r mod 64]"
    using assms by (auto simp: encode_rune_def valid_rune_def)
  define x where "x = r div 64"
  define y where "y = x div 64"
  define z where "z = y div 64"
  have xy: "r div 4096 = y" "r div 262144 = z" by (simp_all add: x_def y_def z_def div_mult2_eq [symmetric])
  have sum: "z * 262144 + y mod 64 * 4096 + x mod 64 * 64 + r mod 64 = r"
    using div_mult_mod_eq [of r 64] div_mult_mod_eq [of x 64] div_mult_mod_eq [of y 64]
    unfolding x_def [symmetric] y_def [symmetric] z_def [symmetric] by linarith
  have "decode_rune (encode_rune r @ s) = (z * 262144 + y mod 64 * 4096 + x mod 64 * 64 + r mod 64, 4)"
    unfolding e xy x_def [symmetric]
  proof (rule decode4)
    have m: "x mod 64 < 64" "y mod 64 < 64" "r mod 64 < 64" by simp_all
    then show "y mod 64 < 64" "x mod 64 < 64" "r mod 64 < 64" by blast+
    show "z \<le> 4" using r4 sum by linarith
    show "16 \<le> y mod 64" if "z = 0" using assms(2) that sum m by linarith
    show "y mod 64 < 16" if "z = 4" using r4 that sum m by linarith
  qed
  then show ?thesis by (simp add: sum e)
qed

lemma decode_encode:
  assumes "valid_rune r"
  shows "decode_rune (encode_rune r @ s) = (r, length (encode_rune r))"
proof -
  consider "r < 128" | "128 \<le> r" "r < 2048" | "2048 \<le> r" "r < 65536" | "65536 \<le> r" by linarith
  then show ?thesis
  proof cases
    case 1
    then show ?thesis by (simp add: encode_rune_def decode_rune_def)
  next
    case 2
    then have e: "encode_rune r = map char_of [192 + r div 64, 128 + r mod 64]"
      by (simp add: encode_rune_def)
    have "2 \<le> r div 64" "r div 64 < 32" "r mod 64 < 64" "r div 64 * 64 + r mod 64 = r" using 2 by auto
    then show ?thesis unfolding e using decode2 [of "r div 64" "r mod 64" s] by simp
  qed (use assms in \<open>simp_all add: decode_encode3 decode_encode4\<close>)
qed

lemma segs_encode: "valid_rune r \<Longrightarrow> segs (encode_rune r @ s) = (r, encode_rune r) # segs s"
  by (subst segs.simps) (simp add: decode_encode)

lemma segs_of_runes: "list_all valid_rune rs \<Longrightarrow> segs (of_runes rs) = map (\<lambda>r. (r, encode_rune r)) rs"
  by (induction rs) (simp_all add: of_runes_def segs_encode)

lemma runes_of_runes: "list_all valid_rune rs \<Longrightarrow> runes (of_runes rs) = rs"
  by (simp add: runes_def segs_of_runes comp_def)

lemma valid_rune3:
  fixes a b c :: nat
  assumes "a \<le> 15" "b \<le> 63" "c \<le> 63" and "a = 13 \<Longrightarrow> b \<le> 31"
  shows "valid_rune (a * 4096 + b * 64 + c)"
proof -
  have "a \<le> 12 \<or> a = 13 \<or> 14 \<le> a" by linarith
  with assms show ?thesis unfolding valid_rune_def by linarith
qed

lemma valid_rune4:
  fixes a b c d :: nat
  assumes "a \<le> 4" "b \<le> 63" "c \<le> 63" "d \<le> 63" and "a = 4 \<Longrightarrow> b \<le> 15" and "a = 0 \<Longrightarrow> 16 \<le> b"
  shows "valid_rune (a * 262144 + b * 4096 + c * 64 + d)"
proof -
  have "a = 0 \<or> 1 \<le> a \<and> a \<le> 3 \<or> a = 4" using assms(1) by linarith
  with assms show ?thesis unfolding valid_rune_def by linarith
qed

lemma decode_valid: "valid_rune (fst (decode_rune s))"
proof -
  let ?b = "\<lambda>i. byte (s ! i) :: nat"
  let ?P2 = "194 \<le> ?b 0 \<and> ?b 0 \<le> 223 \<and> cont_in 128 191 s 1"
  let ?P3 = "224 \<le> ?b 0 \<and> ?b 0 \<le> 239 \<and>
      cont_in (if ?b 0 = 224 then 160 else 128) (if ?b 0 = 237 then 159 else 191) s 1 \<and> cont_in 128 191 s 2"
  let ?P4 = "240 \<le> ?b 0 \<and> ?b 0 \<le> 244 \<and>
      cont_in (if ?b 0 = 240 then 144 else 128) (if ?b 0 = 244 then 143 else 191) s 1 \<and>
      cont_in 128 191 s 2 \<and> cont_in 128 191 s 3"
  have d: "fst (decode_rune s) = (if ?b 0 < 128 then ?b 0
      else if ?P2 then (?b 0 - 192) * 64 + (?b 1 - 128)
      else if ?P3 then (?b 0 - 224) * 4096 + (?b 1 - 128) * 64 + (?b 2 - 128)
      else if ?P4 then (?b 0 - 240) * 262144 + (?b 1 - 128) * 4096 + (?b 2 - 128) * 64 + (?b 3 - 128)
      else rune_error)"
    unfolding decode_rune_def Let_def by (simp only: if_distrib [of fst] fst_conv)
  consider (a) "?b 0 < 128" | (b) "\<not> ?b 0 < 128" ?P2 | (c) "\<not> ?b 0 < 128" "\<not> ?P2" ?P3
    | (e) "\<not> ?b 0 < 128" "\<not> ?P2" "\<not> ?P3" ?P4 | (f) "\<not> ?b 0 < 128" "\<not> ?P2" "\<not> ?P3" "\<not> ?P4"
    by blast
  then show ?thesis
  proof cases
    case a
    then show ?thesis by (simp add: d valid_rune_def)
  next
    case b
    then have "fst (decode_rune s) = (?b 0 - 192) * 64 + (?b 1 - 128)" unfolding d by (simp only: if_False if_True simp_thms)
    moreover have "?b 0 - 192 \<le> 31" "?b 1 - 128 \<le> 63" using b by (auto simp: cont_in_def)
    ultimately show ?thesis by (simp add: valid_rune_def)
  next
    case c
    then have v: "fst (decode_rune s) = (?b 0 - 224) * 4096 + (?b 1 - 128) * 64 + (?b 2 - 128)"
      unfolding d by (simp only: if_False if_True simp_thms)
    show ?thesis unfolding v by (rule valid_rune3) (use c(3) in \<open>auto simp: cont_in_def split: if_splits\<close>)
  next
    case e
    then have v: "fst (decode_rune s) = (?b 0 - 240) * 262144 + (?b 1 - 128) * 4096 + (?b 2 - 128) * 64 + (?b 3 - 128)"
      unfolding d by (simp only: if_False if_True simp_thms)
    show ?thesis unfolding v by (rule valid_rune4) (use e(4) in \<open>auto simp: cont_in_def split: if_splits\<close>)
  next
    case f
    then have "fst (decode_rune s) = rune_error" unfolding d by (simp only: if_False simp_thms)
    then show ?thesis by (simp add: valid_rune_def rune_error_def)
  qed
qed

lemma runes_valid: "list_all valid_rune (runes s)"
proof (induction s rule: segs.induct)
  case (1 s)
  show ?case
  proof (cases "s = []")
    case False
    obtain r n where d: "decode_rune s = (r, n)" by (metis prod.exhaust)
    have "runes s = r # runes (drop n s)"
      using False d by (simp add: runes_def segs.simps [of s])
    moreover have "valid_rune r" using decode_valid [of s] d by simp
    ultimately show ?thesis using 1 [OF False d [symmetric]] by simp
  qed (simp add: runes_def)
qed

section \<open>Splitting and joining on runes\<close>

fun split_runes :: "(rune \<Rightarrow> bool) \<Rightarrow> rune list \<Rightarrow> rune list \<Rightarrow> rune list list" where
  "split_runes f [] acc = (if acc = [] then [] else [acc])"
| "split_runes f (r # rs) acc =
     (if f r then (if acc = [] then [] else [acc]) @ split_runes f rs []
      else split_runes f rs (acc @ [r]))"

lemma of_runes_append [simp]: "of_runes (a @ b) = of_runes a @ of_runes b"
  by (simp add: of_runes_def)

lemma of_runes_single [simp]: "of_runes [r] = encode_rune r"
  by (simp add: of_runes_def)

lemma of_runes_empty [simp]: "of_runes rs = [] \<longleftrightarrow> rs = []"
  by (cases rs) (simp_all add: of_runes_def)

lemma split_segs_runes:
  "split_segs f (map (\<lambda>r. (r, encode_rune r)) rs) (of_runes acc) = map of_runes (split_runes f rs acc)"
proof (induction f rs acc rule: split_runes.induct)
  case (2 f r rs acc)
  from 2(2) have "\<not> f r \<Longrightarrow> split_segs f (map (\<lambda>r. (r, encode_rune r)) rs) (of_runes acc @ encode_rune r) =
      map of_runes (split_runes f rs (acc @ [r]))" by simp
  with 2(1) show ?case by (auto simp: of_runes_def [of "[]"])
qed simp

lemma FieldsFunc_of_runes:
  "list_all valid_rune rs \<Longrightarrow> FieldsFunc f (of_runes rs) = map of_runes (split_runes f rs [])"
  using split_segs_runes [of f rs "[]"] by (simp add: FieldsFunc_def segs_of_runes of_runes_def [of "[]"])

lemma split_runes_sets:
  "w \<in> set (split_runes f rs acc) \<Longrightarrow> w \<noteq> [] \<and> set w \<subseteq> set acc \<union> {r \<in> set rs. \<not> f r}"
  by (induction f rs acc rule: split_runes.induct) (fastforce split: if_splits)+

lemma of_runes_concat: "of_runes (concat rss) = concat (map of_runes rss)"
  by (induction rss) (simp_all add: of_runes_def)

lemma of_runes_join: "of_runes (join sep ws) = join (of_runes sep) (map of_runes ws)"
  by (cases ws) (simp_all add: join_def of_runes_concat comp_def)

lemma set_join: "set (join sep ws) \<subseteq> set sep \<union> \<Union> (set ` set ws)"
  by (cases ws) (auto simp: join_def)

text \<open>An ASCII byte of an encoded text is a rune of it.\<close>

lemma of_runes_ascii: "c \<in> set (of_runes rs) \<Longrightarrow> byte c < (128 :: nat) \<Longrightarrow> byte c \<in> set rs"
proof (induction rs)
  case (Cons r rs)
  have "byte c = r" if "c \<in> set (encode_rune r)" "byte c < (128 :: nat)"
    using that by (auto simp: encode_rune_def split: if_splits)
  with Cons show ?case by (auto simp: of_runes_def)
qed (simp add: of_runes_def)

section \<open>ASCII text in front\<close>

lemma segs_Cons_ascii: "byte c < (128 :: nat) \<Longrightarrow> segs (c # s) = (byte c, [c]) # segs s"
  by (subst segs.simps) (simp add: decode_rune_def)

lemma runes_ascii_append: "list_all (\<lambda>c. byte c < (128 :: nat)) a \<Longrightarrow> runes (a @ s) = map of_char a @ runes s"
  by (induction a) (simp_all add: runes_def segs_Cons_ascii)

end
