(* ===== verification/Handler_Props.thy ===== *)
theory Handler_Props
  imports Handler Engine_Props
begin

text \<open>
  What the handler of theory \<open>Handler\<close> guarantees end to end: nothing an unconsented user says
  is recorded or reaches the model, every admitted group message is recorded, direct messages
  stay private, and a withdrawal leaves nothing behind.
\<close>

section \<open>Frames\<close>

lemma log_fields [simp]:
  "w_buf (logServed hp inb w) = w_buf w" "w_buf (logTranscriptHuman hp inb w) = w_buf w"
  "w_buf (logTranscriptBot hp inb x w) = w_buf w" "w_buf (logTranscriptSystem hp inb x w) = w_buf w"
  "w_qlog (logTranscriptHuman hp inb w) = w_qlog w" "w_qlog (logTranscriptBot hp inb x w) = w_qlog w"
  "w_qlog (logTranscriptSystem hp inb x w) = w_qlog w" "w_tlog (logServed hp inb w) = w_tlog w"
  "w_mem (logServed hp inb w) = w_mem w" "w_mem (logTranscriptHuman hp inb w) = w_mem w"
  "w_mem (logTranscriptBot hp inb x w) = w_mem w" "w_mem (logTranscriptSystem hp inb x w) = w_mem w"
  "w_lm (logServed hp inb w) = w_lm w" "w_lm (logTranscriptHuman hp inb w) = w_lm w"
  "w_env (logServed hp inb w) = w_env w" "w_env (logTranscriptHuman hp inb w) = w_env w"
  by (simp_all add: logServed_def logTranscriptHuman_def logTranscriptBot_def logTranscriptSystem_def)

lemma answer_fields:
  assumes "answer e hp strs inb h rem wd w = (r, w')"
  shows "w_qlog w' = w_qlog w" "w_tlog w' = w_tlog w" "w_acl w' = w_acl w" "w_lm w' = w_lm w"
    "w_buf w' = w_buf w" "w_gate w' = w_gate w" "w_pend w' = w_pend w" "w_ns w' = w_ns w"
  using assms by (auto simp: answer_def split: prod.splits sum.splits)

lemma answerRemembering_cases:
  assumes "answerRemembering uc e hp po inb rem wd w = (r, w')"
  obtains w2 b where "answer e hp (po_Texts po) inb
      (selectHistory uc (hp_clk hp ClkSelect) (w_buf w) inb (po_Inject po) (po_FollowupWindow po)) rem wd
      (w\<lparr>w_buf := rememberUser (hp_clk hp ClkUserTurn) (w_buf w) inb\<rparr>) = (r, w2)" "w' = w2\<lparr>w_buf := b\<rparr>"
proof -
  let ?w1 = "w\<lparr>w_buf := rememberUser (hp_clk hp ClkUserTurn) (w_buf w) inb\<rparr>"
  let ?h = "selectHistory uc (hp_clk hp ClkSelect) (w_buf w) inb (po_Inject po) (po_FollowupWindow po)"
  obtain r2 w2 where a: "answer e hp (po_Texts po) inb ?h rem wd ?w1 = (r2, w2)" by (metis prod.exhaust)
  have same: "\<exists>b. v = v\<lparr>w_buf := b\<rparr>" for v :: "('a, 'b, 'c) world"
    by (rule exI [of _ "w_buf v"]) simp
  have "r = r2 \<and> (\<exists>b. w' = w2\<lparr>w_buf := b\<rparr>)"
    using assms a same by (cases r2) (auto simp: answerRemembering_def Let_def split: if_splits)
  with a that show ?thesis by blast
qed

lemma answerRemembering_fields:
  assumes "answerRemembering uc e hp po inb rem wd w = (r, w')"
  shows "w_qlog w' = w_qlog w" "w_tlog w' = w_tlog w" "w_acl w' = w_acl w" "w_lm w' = w_lm w"
    "w_gate w' = w_gate w" "w_pend w' = w_pend w" "w_ns w' = w_ns w"
  by (rule answerRemembering_cases [OF assms], simp add: answer_fields)+

lemma purge_frame: "purgeIfWithdrawn hp po u w = w\<lparr>w_buf := w_buf (purgeIfWithdrawn hp po u w)\<rparr>"
  by (auto simp: purgeIfWithdrawn_def split: sum.splits)

lemma purge_fields [simp]:
  "w_qlog (purgeIfWithdrawn hp po u w) = w_qlog w" "w_tlog (purgeIfWithdrawn hp po u w) = w_tlog w"
  "w_env (purgeIfWithdrawn hp po u w) = w_env w" "w_mem (purgeIfWithdrawn hp po u w) = w_mem w"
  by (auto simp: purgeIfWithdrawn_def split: sum.splits)

section \<open>Nothing without consent\<close>

abbreviation gate_check where
  "gate_check hp inb w \<equiv> check (hp_io hp IoGateGet) (hp_io hp IoGatePut) (hp_clk hp ClkGate) (w_gate w) (w_acl w)
     \<lparr>gi_User = in_User inb, gi_Surface = in_Surface inb, gi_Directed = in_Directed inb\<rparr>"

definition to_gate :: "'m policy \<Rightarrow> inbound \<Rightarrow> bool" where
  "to_gate po inb \<longleftrightarrow> in_Callback inb = None \<and> \<not> (in_Surface inb = SurfaceDM \<and> po_Consent po)"

definition admitted_withdrawals :: "'m policy \<Rightarrow> inbound \<Rightarrow> ('e, 'st, 'm) world \<Rightarrow> 64 word" where
  "admitted_withdrawals po inb w =
     (case po_Erase po of None \<Rightarrow> 0 | Some _ \<Rightarrow> Withdrawals (w_lm w) (u_ID (in_User inb)))"

lemma handle_gate:
  assumes "to_gate po inb" "gate_check hp inb w = ((d, eo), g', b')"
  shows "handle uc e reg hp po inb w =
    (case eo of Some err \<Rightarrow> (Inr (refuse_reply (po_Texts po)), w\<lparr>w_gate := g', w_acl := b'\<rparr>)
     | None \<Rightarrow> act_on_decision uc e hp po inb (admitted_withdrawals po inb w) d (w\<lparr>w_gate := g', w_acl := b'\<rparr>))"
  using assms by (auto simp: handle_def to_gate_def admitted_withdrawals_def Let_def split: option.splits)

lemma unconsented_handled:
  assumes "to_gate po inb"
    and "\<And>r. acl_get (hp_io hp IoGateGet) (w_acl w) (u_ID (in_User inb)) = Inr r \<Longrightarrow> rec_Consent r \<noteq> ConsentGranted"
    and "handle uc e reg hp po inb w = (res, w')"
  shows "w' = w\<lparr>w_gate := w_gate w'\<rparr> \<and>
    res \<in> {Inr (nudgeReply (po_Nudge po) (po_Texts po)), Inr (empty_reply\<lparr>r_Silent := True\<rparr>),
      Inr (refuse_reply (po_Texts po))}"
proof (cases "acl_get (hp_io hp IoGateGet) (w_acl w) (u_ID (in_User inb))")
  case (Inl err)
  then have "gate_check hp inb w = ((DecideRefuse, Some err), w_gate w, w_acl w)"
    by (simp add: check_fails_closed_raw)
  from handle_gate [OF assms(1) this] assms(3) show ?thesis by auto
next
  case (Inr r)
  have io: "hp_io hp IoGateGet = Done" and row: "acl_row (w_acl w) (u_ID (in_User inb)) = Some r"
    using Inr by (simp_all add: acl_get_row)
  have nc: "rec_Consent r \<noteq> ConsentGranted" by (rule assms(2) [OF Inr])
  obtain d eo g' b' where c: "gate_check hp inb w = ((d, eo), g', b')" by (metis prod.exhaust)
  have "b' = w_acl w \<and> d \<in> {DecideNudge, DecideSilent} \<and> eo = None"
    using unconsented_raw [OF _ nc, of "w_acl w" "\<lparr>gi_User = in_User inb, gi_Surface = in_Surface inb, gi_Directed = in_Directed inb\<rparr>"]
      row c io by simp
  with handle_gate [OF assms(1) c, of uc e reg] assms(3) show ?thesis
    by (auto simp: act_on_decision_def Let_def)
qed

text \<open>C2: Nothing an unconsented user says is recorded: for a message that goes to the gate, from a
  user whose consent is not on record as granted (or cannot be read), the handler changes no
  log, no buffer, no memory and no store, and calls no model; only the gate's own nudge
  windows can change. The reply is a nudge, silence, or a refusal when the read failed.\<close>

theorem unconsented_leaves_nothing:
  assumes "to_gate po inb"
    and "\<And>r. acl_get (hp_io hp IoGateGet) (w_acl w) (u_ID (in_User inb)) = Inr r \<Longrightarrow> rec_Consent r \<noteq> ConsentGranted"
    and "handle uc e reg hp po inb w = (res, w')"
  shows "w' = w\<lparr>w_gate := w_gate w'\<rparr> \<and>
    res \<in> {Inr (nudgeReply (po_Nudge po) (po_Texts po)), Inr (empty_reply\<lparr>r_Silent := True\<rparr>),
      Inr (refuse_reply (po_Texts po))}"
  using assms by (rule unconsented_handled)

definition demo_inbound :: inbound where
  "demo_inbound = \<lparr>in_User = \<lparr>u_ID = ''42'', u_Display = ''a''\<rparr>, in_Surface = SurfaceGroup, in_Text = ''hi'',
     in_ReplyTo = ''-100'', in_Directed = True, in_MessageID = ''1'', in_ReplyToMessageID = [],
     in_ReplyToBot = False, in_ReplyToText = [], in_ReplyToSender = [], in_Callback = None\<rparr>"

definition demo_policy :: "(string list) policy" where
  "demo_policy = \<lparr>po_Admins = {''1''}, po_Nudge = \<lparr>nd_Mode = [], nd_Text = [], nd_Emoji = []\<rparr>, po_Inject = 5,
     po_FollowupWindow = hour, po_Texts = (\<lambda>k. k), po_Erase = Some Map.empty, po_MemoryDerive = False,
     po_ConsentAck = ''+'', po_Consent = True\<rparr>"

definition demo_world :: "acl_db \<Rightarrow> (unit, unit, string list) world" where
  "demo_world b = \<lparr>w_gate = new_gate TierDefault, w_acl = b, w_buf = mem_New 10, w_qlog = Some [], w_tlog = Some [],
     w_pend = None, w_lm = None, w_ns = \<lparr>nr_dropped = [], nr_disk = None\<rparr>, w_env = (), w_mem = []\<rparr>"

definition demo_happened :: happened where
  "demo_happened = \<lparr>hp_io = (\<lambda>_. Done), hp_clk = (\<lambda>_. 5), hp_ctx_err = None\<rparr>"

theorem unconsented_leaves_nothing_witness:
  "\<exists>res w'. handle ascii_tables demo_engine None demo_happened demo_policy demo_inbound (demo_world []) = (res, w') \<and>
     w_qlog w' = Some [] \<and> w_tlog w' = Some [] \<and> w_mem w' = []"
proof -
  obtain res w' where h: "handle ascii_tables demo_engine None demo_happened demo_policy demo_inbound (demo_world []) = (res, w')"
    by (metis prod.exhaust)
  have "w' = (demo_world [])\<lparr>w_gate := w_gate w'\<rparr>"
    using unconsented_leaves_nothing [OF _ _ h]
    by (simp add: to_gate_def demo_inbound_def demo_happened_def demo_world_def acl_get_def)
  then obtain g where "w' = (demo_world [])\<lparr>w_gate := g\<rparr>" by blast
  then have "w_qlog w' = Some [] \<and> w_tlog w' = Some [] \<and> w_mem w' = []"
    by (simp add: demo_world_def)
  with h show ?thesis by blast
qed

section \<open>Everything consented\<close>

lemma log_qlog:
  "w_qlog (logServed hp inb w) = (if in_Surface inb = SurfaceGroup
     then log_append (hp_io hp IoQuarantine) (served_entry (hp_clk hp ClkQuarantine) inb) (w_qlog w) else w_qlog w)"
  by (simp add: logServed_def)

lemma act_qlog:
  assumes "act_on_decision uc e hp po inb wd d w = (res, w')"
  shows "w_qlog w' = (if d \<in> {DecideServe, DecideLogOnly, DecideRateLimited} \<and> in_Surface inb = SurfaceGroup
    then log_append (hp_io hp IoQuarantine) (served_entry (hp_clk hp ClkQuarantine) inb) (w_qlog w) else w_qlog w)"
proof (cases "d = DecideServe")
  case True
  let ?w1 = "logTranscriptHuman hp inb (logServed hp inb w)"
  obtain r2 w2 where a: "answerRemembering uc e hp po inb (in_Surface inb = SurfaceGroup) wd ?w1 = (r2, w2)"
    by (metis prod.exhaust)
  have "w_qlog w2 = w_qlog ?w1" by (rule answerRemembering_fields [OF a])
  with assms a True show ?thesis
    by (auto simp: act_on_decision_def Let_def log_qlog split: sum.splits if_splits)
next
  case False
  with assms show ?thesis
    by (cases d) (auto simp: act_on_decision_def Let_def log_qlog)
qed

text \<open>Every group message of a user who consented is recorded in the quarantine log, as the
  entry naming its chat, sender and text, whether it was directed at the bot, ambient, or
  over the rate limit (unless the gate's own write failed, which refuses); and the log gets
  an entry only for a user whose consent is on record as granted.\<close>

theorem consented_is_recorded:
  assumes "to_gate po inb" "in_Surface inb = SurfaceGroup"
    and "gate_check hp inb w = ((d, eo), g', b')"
    and "handle uc e reg hp po inb w = (res, w')"
  shows "(\<forall>r. acl_get (hp_io hp IoGateGet) (w_acl w) (u_ID (in_User inb)) = Inr r \<and>
        rec_Consent r = ConsentGranted \<and> eo = None \<longrightarrow>
        w_qlog w' = log_append (hp_io hp IoQuarantine) (served_entry (hp_clk hp ClkQuarantine) inb) (w_qlog w)) \<and>
    (w_qlog w' \<noteq> w_qlog w \<longrightarrow>
       (\<exists>r. acl_get (hp_io hp IoGateGet) (w_acl w) (u_ID (in_User inb)) = Inr r \<and> rec_Consent r = ConsentGranted))"
proof -
  let ?i = "\<lparr>gi_User = in_User inb, gi_Surface = in_Surface inb, gi_Directed = in_Directed inb\<rparr>"
  have h: "handle uc e reg hp po inb w = (case eo of Some err \<Rightarrow> (Inr (refuse_reply (po_Texts po)), w\<lparr>w_gate := g', w_acl := b'\<rparr>)
     | None \<Rightarrow> act_on_decision uc e hp po inb (admitted_withdrawals po inb w) d (w\<lparr>w_gate := g', w_acl := b'\<rparr>))"
    by (rule handle_gate [OF assms(1,3)])
  have granted: "d \<in> {DecideServe, DecideLogOnly, DecideRateLimited}"
    if "acl_get (hp_io hp IoGateGet) (w_acl w) (u_ID (in_User inb)) = Inr r" "rec_Consent r = ConsentGranted" "eo = None" for r
    using assms(3) that
    by (auto simp: check_def check_decide_def Let_def split: if_splits prod.splits option.splits)
  have "w_qlog w' = log_append (hp_io hp IoQuarantine) (served_entry (hp_clk hp ClkQuarantine) inb) (w_qlog w)"
    if "acl_get (hp_io hp IoGateGet) (w_acl w) (u_ID (in_User inb)) = Inr r" "rec_Consent r = ConsentGranted" "eo = None" for r
    using granted [OF that] h assms(2,4) that(3)
      act_qlog [of uc e hp po inb "admitted_withdrawals po inb w" d "w\<lparr>w_gate := g', w_acl := b'\<rparr>" res w'] by simp
  moreover have "w_qlog w' = w_qlog w"
    if no: "\<And>r. acl_get (hp_io hp IoGateGet) (w_acl w) (u_ID (in_User inb)) = Inr r \<Longrightarrow> rec_Consent r \<noteq> ConsentGranted"
  proof (cases "acl_get (hp_io hp IoGateGet) (w_acl w) (u_ID (in_User inb))")
    case (Inl err)
    then have "eo = Some err" using assms(3) by (simp add: check_fails_closed_raw)
    with h assms(4) show ?thesis by auto
  next
    case (Inr r)
    then have "d \<in> {DecideNudge, DecideSilent} \<and> eo = None"
      using unconsented_raw [of "w_acl w" ?i r] no [OF Inr] assms(3) by (auto simp: acl_get_row)
    with h assms(4) act_qlog [of uc e hp po inb "admitted_withdrawals po inb w" d "w\<lparr>w_gate := g', w_acl := b'\<rparr>" res w']
    show ?thesis by auto
  qed
  ultimately show ?thesis by blast
qed

theorem consented_is_recorded_witness:
  "\<exists>res w'. handle ascii_tables demo_engine None demo_happened demo_policy (demo_inbound\<lparr>in_Directed := False\<rparr>)
      (demo_world [(''42'', Blob ((zero_record ''42'')\<lparr>rec_Consent := ConsentGranted\<rparr>))]) = (res, w') \<and>
     w_qlog w' = Some [served_entry 5 demo_inbound]"
  (is "\<exists>res w'. handle _ _ _ _ _ ?inb ?w = _ \<and> _")
proof -
  obtain res w' where h: "handle ascii_tables demo_engine None demo_happened demo_policy ?inb ?w = (res, w')"
    by (metis prod.exhaust)
  have c: "gate_check demo_happened ?inb ?w = ((DecideLogOnly, None), w_gate ?w, w_acl ?w)"
    by (simp add: check_def acl_get_def demo_happened_def demo_world_def demo_inbound_def check_decide_def)
  have "w_qlog w' = log_append Done (served_entry 5 ?inb) (Some [])"
    using consented_is_recorded [OF _ _ c h]
    by (simp add: to_gate_def demo_inbound_def demo_happened_def demo_world_def acl_get_def)
  moreover have "served_entry 5 ?inb = served_entry 5 demo_inbound" by (simp add: served_entry_def)
  ultimately show ?thesis using h by (simp add: log_append_def)
qed

section \<open>Direct messages\<close>

text \<open>C26: Direct messages are private: with a consent surface, a direct message is never logged
  or transcribed; unless its sender is a configured admin asking a question it never reaches
  the model, and nothing it says is buffered; and an admin's question is answered without
  touching long-term memory or any consent.\<close>

theorem direct_messages_private:
  assumes "in_Callback inb = None" "in_Surface inb = SurfaceDM" "po_Consent po"
    and "handle uc e reg hp po inb w = (res, w')"
  shows "w_qlog w' = w_qlog w \<and> w_tlog w' = w_tlog w \<and>
    (u_ID (in_User inb) \<notin> po_Admins po \<or> isConsentCommand (in_Text inb) \<longrightarrow>
       w_env w' = w_env w \<and>
       (w_buf w' = w_buf w \<or> w_buf w' = mem_PurgeUser (w_buf w) (u_ID (in_User inb)))) \<and>
    (u_ID (in_User inb) \<in> po_Admins po \<and> \<not> isConsentCommand (in_Text inb) \<longrightarrow>
       w_mem w' = w_mem w \<and> w_acl w' = w_acl w)"
proof (cases "u_ID (in_User inb) \<in> po_Admins po \<and> \<not> isConsentCommand (in_Text inb)")
  case True
  then have a: "answerRemembering uc e hp po inb False 0 w = (res, w')"
    using assms by (simp add: handle_def)
  obtain w2 b where an: "answer e hp (po_Texts po) inb
      (selectHistory uc (hp_clk hp ClkSelect) (w_buf w) inb (po_Inject po) (po_FollowupWindow po)) False 0
      (w\<lparr>w_buf := rememberUser (hp_clk hp ClkUserTurn) (w_buf w) inb\<rparr>) = (res, w2)" "w' = w2\<lparr>w_buf := b\<rparr>"
    by (rule answerRemembering_cases [OF a])
  have "w_mem w2 = w_mem w"
    using an(1) by (auto simp: answer_def split: prod.splits sum.splits dest: Answer_unmarked_keeps_nothing)
  with an(2) answerRemembering_fields [OF a] True show ?thesis by auto
next
  case False
  then have "\<exists>rep. dmConsentFlow hp po inb w = (rep, w')"
    using assms by (auto simp: handle_def split: prod.splits)
  then show ?thesis
    using False by (auto simp: dmConsentFlow_def Let_def split: prod.splits option.splits if_splits sum.splits)
qed

theorem direct_messages_private_witness:
  "\<exists>res w'. handle ascii_tables demo_engine None demo_happened demo_policy (demo_inbound\<lparr>in_Surface := SurfaceDM\<rparr>)
      (demo_world []) = (res, w') \<and> w_qlog w' = Some [] \<and> w_tlog w' = Some []"
proof -
  obtain res w' where h: "handle ascii_tables demo_engine None demo_happened demo_policy
      (demo_inbound\<lparr>in_Surface := SurfaceDM\<rparr>) (demo_world []) = (res, w')" by (metis prod.exhaust)
  have "w_qlog w' = w_qlog (demo_world []) \<and> w_tlog w' = w_tlog (demo_world [])"
    using direct_messages_private [OF _ _ _ h] by (simp add: demo_inbound_def demo_policy_def)
  with h show ?thesis by (simp add: demo_world_def)
qed

text \<open>C4: A withdrawal takes effect everywhere at once: when "/consent remove" could record the
  decline, the user's consent reads as declined, no conversation holds a turn of theirs any
  more and everyone else's turns are as they were, every turn of theirs already under way
  has a stale withdrawal count, and the acknowledgement is sent only if every recorded
  namespace was erased.\<close>

theorem withdrawal_takes_effect:
  assumes "TrimSpace (in_Text inb) = ''/consent remove''" and "u_ID (in_User inb) \<noteq> []" "mem_Enabled (w_buf w)"
    and "SetConsent (hp_io hp IoConsentWrite) (w_acl w) (u_ID (in_User inb)) ConsentDeclined = (None, b)"
    and "dmConsentFlow hp po inb w = (rep, w')"
  shows "ConsentOf Done (w_acl w') (u_ID (in_User inb)) = Inr ConsentDeclined \<and>
    (\<forall>c. turns_of (w_buf w') c = filter (\<lambda>t. t_SpeakerID t \<noteq> u_ID (in_User inb)) (turns_of (w_buf w) c)) \<and>
    (\<forall>del m. po_Erase po = Some del \<and> w_lm w = Some m \<longrightarrow>
       Withdrawals (w_lm w') (u_ID (in_User inb)) = Withdrawals (w_lm w) (u_ID (in_User inb)) + 1) \<and>
    (\<forall>del. po_Erase po = Some del \<and> po_ConsentAck po \<noteq> [] \<and> r_Reaction rep = po_ConsentAck po \<longrightarrow>
       Erased (fst (Erase del (u_ID (in_User inb)) (w_ns w) (w_lm w, w_mem w))))"
proof -
  let ?u = "u_ID (in_User inb)"
  have b: "ConsentOf Done b ?u = Inr ConsentDeclined"
    using acl_bolt.update_row [OF assms(4) [unfolded SetConsent_def]] by (auto simp: ConsentOf_def acl_get_Done)
  have w': "w_acl w' = b \<and> w_buf w' = mem_PurgeUser (w_buf w) ?u"
    using assms(1,4,5) by (auto simp: dmConsentFlow_def Let_def split: option.splits prod.splits if_splits)
  have lm: "w_lm w' = Withdraw (w_lm w) ?u" if "po_Erase po = Some del" for del
    using assms(1,4,5) that
    by (auto simp: dmConsentFlow_def Let_def Erase_def split: prod.splits if_splits)
  have ack: "Erased (fst (Erase del ?u (w_ns w) (w_lm w, w_mem w)))"
    if "po_Erase po = Some del" "po_ConsentAck po \<noteq> []" "r_Reaction rep = po_ConsentAck po" for del
    using assms(1,4,5) that
    by (auto simp: dmConsentFlow_def Let_def text_reply_def empty_reply_def split: prod.splits if_splits)
  show ?thesis
    using b w' lm ack assms(2,3)
    by (auto simp: turns_of_PurgeUser Withdraw_def Withdrawals_def withdrawn_count_def)
qed

theorem withdrawal_takes_effect_witness:
  "\<exists>rep w'. dmConsentFlow demo_happened demo_policy
      (demo_inbound\<lparr>in_Surface := SurfaceDM, in_Text := ''/consent remove''\<rparr>) (demo_world []) = (rep, w') \<and>
     ConsentOf Done (w_acl w') ''42'' = Inr ConsentDeclined"
  (is "\<exists>rep w'. dmConsentFlow _ _ ?inb ?w = _ \<and> _")
proof -
  obtain rep w' where d: "dmConsentFlow demo_happened demo_policy ?inb ?w = (rep, w')" by (metis prod.exhaust)
  have t: "TrimSpace (in_Text ?inb) = ''/consent remove''" by (simp add: TrimSpace_ascii is_space_def)
  have s: "SetConsent (hp_io demo_happened IoConsentWrite) (w_acl ?w) (u_ID (in_User ?inb)) ConsentDeclined =
      (None, [(''42'', Blob ((zero_record ''42'')\<lparr>rec_Consent := ConsentDeclined\<rparr>))])"
    by (simp add: SetConsent_def acl_update_def tx_update_def acl_marshal_def demo_happened_def demo_world_def demo_inbound_def)
  have "ConsentOf Done (w_acl w') (u_ID (in_User ?inb)) = Inr ConsentDeclined"
    using withdrawal_takes_effect [OF t _ _ s d]
    by (simp add: demo_inbound_def demo_world_def mem_Enabled_def mem_New_def)
  with d show ?thesis by (auto simp: demo_inbound_def)
qed

section \<open>When a store fails\<close>

lemma check_get_failed:
  "acl_get ig b (u_ID (gi_User inp)) = Inl err \<Longrightarrow> check ig ip now g b inp = ((DecideRefuse, Some err), g, b)"
  by (simp add: check_def)

lemma check_put_failed:
  assumes "check ig (Failed x) now g b inp = ((d, eo), g', b')"
  shows "b' = b" and "eo = None \<Longrightarrow> d \<noteq> DecideServe"
  using assms by (auto simp: check_def check_decide_def gate_nudge_def Let_def acl_put_def tx_update_def
      split: sum.splits if_splits prod.splits option.splits)

lemma not_served_no_model:
  assumes "act_on_decision uc e hp po inb n d w = (r, w')" and "d \<noteq> DecideServe"
  shows "w_env w' = w_env w \<and> w_mem w' = w_mem w \<and> w_acl w' = w_acl w"
proof -
  have "w_acl (purgeIfWithdrawn hp po u v) = w_acl v" for u and v :: "('a, 'b, 'c) world"
    by (subst purge_frame) simp
  then show ?thesis using assms
    by (cases d) (auto simp: act_on_decision_def Let_def logTranscriptSystem_def logServed_def logTranscriptHuman_def)
qed

lemma handle_get_failed:
  assumes "handle uc e reg hp po inb w = (r, w')" and "to_gate po inb" "hp_io hp IoGateGet \<noteq> Done"
  shows "r = Inr (refuse_reply (po_Texts po)) \<and> w' = w"
proof -
  obtain err where "acl_get (hp_io hp IoGateGet) (w_acl w) (u_ID (in_User inb)) = Inl err"
    using assms(3) by (cases "hp_io hp IoGateGet") (auto simp: acl_get_def tx_view_def)
  then have "gate_check hp inb w = ((DecideRefuse, Some err), w_gate w, w_acl w)"
    by (intro check_get_failed) simp
  from handle_gate [OF assms(2) this, of uc e reg] assms(1) show ?thesis by simp
qed

lemma handle_put_failed:
  assumes "handle uc e reg hp po inb w = (r, w')" and "to_gate po inb" "hp_io hp IoGatePut \<noteq> Done"
  shows "w_env w' = w_env w \<and> w_mem w' = w_mem w \<and> w_acl w' = w_acl w"
proof -
  obtain x where x: "hp_io hp IoGatePut = Failed x" using assms(3) by (cases "hp_io hp IoGatePut") auto
  obtain d eo g b where c: "gate_check hp inb w = ((d, eo), g, b)" by (metis prod.exhaust)
  note pf = check_put_failed [OF c [unfolded x]]
  show ?thesis
  proof (cases eo)
    case None
    then have "act_on_decision uc e hp po inb (admitted_withdrawals po inb w) d (w\<lparr>w_gate := g, w_acl := b\<rparr>) = (r, w')"
      using handle_gate [OF assms(2) c, of uc e reg] assms(1) by simp
    from not_served_no_model [OF this pf(2) [OF None]] pf(1) show ?thesis by simp
  next
    case (Some err)
    with handle_gate [OF assms(2) c, of uc e reg] assms(1) pf(1) show ?thesis by auto
  qed
qed

lemma handle_click_failed:
  assumes "handle uc e reg hp po inb w = (r, w')" and "in_Callback inb \<noteq> None"
  shows "hp_io hp IoResolve \<noteq> Done \<Longrightarrow> w' = w" and "hp_io hp IoAuthorize \<noteq> Done \<Longrightarrow> w_acl w' = w_acl w"
proof -
  obtain cb where cb: "in_Callback inb = Some cb" using assms(2) by blast
  show "hp_io hp IoResolve \<noteq> Done \<Longrightarrow> w' = w"
    using assms(1) cb by (cases "hp_io hp IoResolve")
      (auto simp: handle_def resolveCallback_def pbolt_Resolve_def split: option.splits sum.splits prod.splits)
  show "hp_io hp IoAuthorize \<noteq> Done \<Longrightarrow> w_acl w' = w_acl w"
    using assms(1) cb by (cases "hp_io hp IoAuthorize")
      (auto simp: handle_def resolveCallback_def executeAction_def Authorize_def acl_get_def tx_view_def
        split: option.splits prod.splits status.splits)
qed

lemma SetConsent_failed: "\<exists>e. SetConsent (Failed x) b u k = (Some e, b)"
  by (auto simp: SetConsent_def acl_update_def tx_update_def split: sum.splits option.splits prod.splits)

lemma handle_consent_failed:
  assumes "handle uc e reg hp po inb w = (r, w')" and "in_Callback inb = None" "in_Surface inb = SurfaceDM" "po_Consent po"
    and "TrimSpace (in_Text inb) \<in> {''/consent'', ''/consent remove''}" "hp_io hp IoConsentWrite \<noteq> Done"
  shows "r = Inr (text_reply (po_Texts po ''consent_error'')) \<and> w' = w"
proof -
  obtain x where x: "hp_io hp IoConsentWrite = Failed x" using assms(6) by (cases "hp_io hp IoConsentWrite") auto
  obtain e1 e2 where s: "SetConsent (Failed x) (w_acl w) (u_ID (in_User inb)) ConsentGranted = (Some e1, w_acl w)"
      "SetConsent (Failed x) (w_acl w) (u_ID (in_User inb)) ConsentDeclined = (Some e2, w_acl w)"
    using SetConsent_failed by metis
  have "dmConsentFlow hp po inb w = (text_reply (po_Texts po ''consent_error''), w)"
    using assms(5) by (auto simp: dmConsentFlow_def Let_def x s)
  with assms(1-5) show ?thesis by (auto simp: handle_def isConsentCommand_def)
qed

text \<open>C9: A store that fails is never taken for a yes. A message whose sender's row cannot be read is refused
  and leaves no trace at all; one whose rate count cannot be written runs no model and keeps nothing;
  a click whose token cannot be resolved changes nothing, and one whose clicker's authority cannot be read
  changes no consent and no tier; and a consent command that cannot be recorded is reported as failed and
  does nothing else - nothing is purged or erased for a withdrawal that is not on record.\<close>

theorem store_failures_fail_closed:
  assumes "handle uc e reg hp po inb w = (r, w')"
  shows "(to_gate po inb \<and> hp_io hp IoGateGet \<noteq> Done \<longrightarrow> r = Inr (refuse_reply (po_Texts po)) \<and> w' = w) \<and>
    (to_gate po inb \<and> hp_io hp IoGatePut \<noteq> Done \<longrightarrow> w_env w' = w_env w \<and> w_mem w' = w_mem w \<and> w_acl w' = w_acl w) \<and>
    (in_Callback inb \<noteq> None \<and> hp_io hp IoResolve \<noteq> Done \<longrightarrow> w' = w) \<and>
    (in_Callback inb \<noteq> None \<and> hp_io hp IoAuthorize \<noteq> Done \<longrightarrow> w_acl w' = w_acl w) \<and>
    (in_Callback inb = None \<and> in_Surface inb = SurfaceDM \<and> po_Consent po \<and>
       TrimSpace (in_Text inb) \<in> {''/consent'', ''/consent remove''} \<and> hp_io hp IoConsentWrite \<noteq> Done \<longrightarrow>
       r = Inr (text_reply (po_Texts po ''consent_error'')) \<and> w' = w)"
  using handle_get_failed [OF assms] handle_put_failed [OF assms] handle_click_failed [OF assms] handle_consent_failed [OF assms]
  by blast

text \<open>A withdrawal that cannot be recorded: the erase is not run.\<close>

theorem store_failures_fail_closed_witness:
  "\<exists>r w'. handle ascii_tables demo_engine None (demo_happened\<lparr>hp_io := (\<lambda>_. Failed (ErrMsg ''disk''))\<rparr>) demo_policy
      (demo_inbound\<lparr>in_Surface := SurfaceDM, in_Text := ''/consent remove''\<rparr>) (demo_world []) = (r, w') \<and>
     r = Inr (text_reply ''consent_error'') \<and> w' = demo_world []"
proof -
  let ?inb = "demo_inbound\<lparr>in_Surface := SurfaceDM, in_Text := ''/consent remove''\<rparr>"
  let ?hp = "demo_happened\<lparr>hp_io := (\<lambda>_. Failed (ErrMsg ''disk''))\<rparr>"
  obtain r w' where h: "handle ascii_tables demo_engine None ?hp demo_policy ?inb (demo_world []) = (r, w')"
    by (metis prod.exhaust)
  have t: "TrimSpace (in_Text ?inb) = ''/consent remove''" by (simp add: TrimSpace_ascii is_space_def)
  have "r = Inr (text_reply (po_Texts demo_policy ''consent_error'')) \<and> w' = demo_world []"
    using store_failures_fail_closed [OF h] t by (simp add: demo_inbound_def demo_policy_def)
  with h show ?thesis by (simp add: demo_policy_def)
qed

end
