(* ===== verification/Withdrawal.thy ===== *)
theory Withdrawal
  imports Handler_Props
begin

text \<open>
  Turns and withdrawals at the same time. The handler of \<^verbatim>\<open>internal/runtime/handler.go\<close> runs for
  many messages at once; a store call, a buffer call and a \<^verbatim>\<open>Memory\<close> call are atomic (each has
  its transaction or lock), and anything can happen between two of them. A turn is the sequence
  count, read, write, remember, use, keep, recheck; a withdrawal is the sequence of
  \<^verbatim>\<open>dmConsentFlow\<close> and \<^verbatim>\<open>Eraser.Erase\<close>: decline, purge the buffer, withdraw, delete in each
  namespace. The state is what they share, and where each turn under way stands.
\<close>

section \<open>Steps\<close>

datatype phase = Counted | Decided "error + verdict" | Admitted decision | Buffered decision
  | Running "string turn_ref option" | Answered | Over

record flight =
  fl_in :: inbound
  fl_count :: "64 word"
  fl_phase :: phase

record 'm live =
  lv_gate :: gate
  lv_acl :: acl_db
  lv_buf :: buffer
  lv_lm :: "string long_memory"
  lv_mem :: 'm
  lv_turns :: "nat \<rightharpoonup> flight"

text \<open>What each step is: \<open>Deleting ns u e\<close> is a \<^verbatim>\<open>DeleteSubject\<close> that returned \<open>e\<close>.\<close>

datatype event = Count nat inbound | Read nat io time | Writing nat io | Remember nat time
  | Use nat time | Keep nat string string | Drop nat | RememberBot nat time string | Recheck nat io
  | Consenting io string consent | Tiering io string tier | PurgeBuf string
  | Withdrawing string | Deleting string string "error option"

abbreviation fl_user :: "flight \<Rightarrow> string" where
  "fl_user f \<equiv> u_ID (in_User (fl_in f))"

definition gate_in :: "inbound \<Rightarrow> gate_input" where
  "gate_in inb = \<lparr>gi_User = in_User inb, gi_Surface = in_Surface inb, gi_Directed = in_Directed inb\<rparr>"

text \<open>What \<^verbatim>\<open>use\<close> looks at of the query the handler builds.\<close>

definition turn_query :: "inbound \<Rightarrow> 64 word \<Rightarrow> query" where
  "turn_query inb n = \<lparr>q_User = in_User inb, q_Surface = in_Surface inb, q_Text = in_Text inb, q_History = [],
     q_ReplyContext = replyContextOf inb, q_Chat = in_ReplyTo inb,
     q_Remember = (in_Surface inb = SurfaceGroup), q_Withdrawals = n\<rparr>"

definition recheck :: "io \<Rightarrow> acl_db \<Rightarrow> string \<Rightarrow> buffer \<Rightarrow> buffer" where
  "recheck io b u buf = (case ConsentOf io b u of Inl e \<Rightarrow> buf
     | Inr c \<Rightarrow> if c \<noteq> ConsentGranted then mem_PurgeUser buf u else buf)"

definition set_phase :: "nat \<Rightarrow> flight \<Rightarrow> phase \<Rightarrow> 'm live \<Rightarrow> 'm live" where
  "set_phase i f p s = s\<lparr>lv_turns := (lv_turns s)(i \<mapsto> f\<lparr>fl_phase := p\<rparr>)\<rparr>"

definition after_write :: "decision \<times> error option \<Rightarrow> phase" where
  "after_write de = (case de of (d, e) \<Rightarrow>
     if e = None \<and> d \<in> {DecideServe, DecideLogOnly, DecideRateLimited} then Admitted d else Over)"

type_synonym 'm appender = "string \<Rightarrow> string \<Rightarrow> string \<Rightarrow> provenance \<Rightarrow> string \<Rightarrow> 'm \<Rightarrow> error option \<times> 'm"
type_synonym 'm deleter = "string \<rightharpoonup> (string \<Rightarrow> 'm \<Rightarrow> error option \<times> 'm)"

inductive live_step :: "'m appender \<Rightarrow> 'm deleter \<Rightarrow> 'm live \<Rightarrow> event \<Rightarrow> 'm live \<Rightarrow> bool"
  for app :: "'m appender" and del :: "'m deleter" where
  count: "lv_turns s i = None \<Longrightarrow>
    live_step app del s (Count i inb) (s\<lparr>lv_turns := (lv_turns s)(i \<mapsto>
      \<lparr>fl_in = inb, fl_count = Withdrawals (Some (lv_lm s)) (u_ID (in_User inb)), fl_phase = Counted\<rparr>)\<rparr>)"
| read: "lv_turns s i = Some f \<Longrightarrow> fl_phase f = Counted \<Longrightarrow>
    check_read io now (lv_gate s) (lv_acl s) (gate_in (fl_in f)) = (v, g) \<Longrightarrow>
    live_step app del s (Read i io now) (set_phase i f (Decided v) (s\<lparr>lv_gate := g\<rparr>))"
| writing: "lv_turns s i = Some f \<Longrightarrow> fl_phase f = Decided v \<Longrightarrow>
    check_write io v (lv_acl s) = (de, b) \<Longrightarrow>
    live_step app del s (Writing i io) (set_phase i f (after_write de) (s\<lparr>lv_acl := b\<rparr>))"
| remember: "lv_turns s i = Some f \<Longrightarrow> fl_phase f = Admitted d \<Longrightarrow>
    live_step app del s (Remember i now)
      (set_phase i f (Buffered d) (s\<lparr>lv_buf := rememberUser now (lv_buf s) (fl_in f)\<rparr>))"
| use: "lv_turns s i = Some f \<Longrightarrow> fl_phase f = Buffered DecideServe \<Longrightarrow>
    live_step app del s (Use i now)
      (set_phase i f (Running (mem_use (Some (lv_lm s)) now (turn_query (fl_in f) (fl_count f)))) s)"
| keep: "lv_turns s i = Some f \<Longrightarrow> fl_phase f = Running t \<Longrightarrow>
    live_step app del s (Keep i msg ans)
      (set_phase i f Answered (s\<lparr>lv_mem := mem_keep app (lv_lm s) t msg ans (lv_mem s)\<rparr>))"
| drop: "lv_turns s i = Some f \<Longrightarrow> fl_phase f = Buffered DecideServe \<or> fl_phase f = Running t \<Longrightarrow>
    live_step app del s (Drop i) (set_phase i f Answered s)"
| remember_bot: "lv_turns s i = Some f \<Longrightarrow> fl_phase f = Answered \<Longrightarrow>
    live_step app del s (RememberBot i now x)
      (s\<lparr>lv_buf := rememberBot now (lv_buf s) (in_ReplyTo (fl_in f)) x\<rparr>)"
| recheck: "lv_turns s i = Some f \<Longrightarrow>
    fl_phase f = Answered \<or> fl_phase f = Buffered DecideLogOnly \<or> fl_phase f = Buffered DecideRateLimited \<Longrightarrow>
    live_step app del s (Recheck i io)
      (set_phase i f Over (s\<lparr>lv_buf := recheck io (lv_acl s) (fl_user f) (lv_buf s)\<rparr>))"
| consenting: "SetConsent io (lv_acl s) u c = (e, b) \<Longrightarrow>
    live_step app del s (Consenting io u c) (s\<lparr>lv_acl := b\<rparr>)"
| tiering: "SetTier io (lv_acl s) u t = (e, b) \<Longrightarrow>
    live_step app del s (Tiering io u t) (s\<lparr>lv_acl := b\<rparr>)"
| purge_buf: "live_step app del s (PurgeBuf u) (s\<lparr>lv_buf := mem_PurgeUser (lv_buf s) u\<rparr>)"
| withdrawing: "Withdraw (Some (lv_lm s)) u = Some lm \<Longrightarrow>
    live_step app del s (Withdrawing u) (s\<lparr>lv_lm := lm\<rparr>)"
| deleting: "del ns = Some d \<Longrightarrow> d u (lv_mem s) = (e, m) \<Longrightarrow>
    live_step app del s (Deleting ns u e) (s\<lparr>lv_mem := m\<rparr>)"

inductive live_run :: "'m appender \<Rightarrow> 'm deleter \<Rightarrow> 'm live \<Rightarrow> event list \<Rightarrow> 'm live \<Rightarrow> bool"
  for app :: "'m appender" and del :: "'m deleter" where
  run_nil: "live_run app del s [] s"
| run_cons: "live_step app del s e s1 \<Longrightarrow> live_run app del s1 es s2 \<Longrightarrow> live_run app del s (e # es) s2"

inductive_cases live_stepE: "live_step app del s e s'"
inductive_simps live_run_Nil [simp]: "live_run app del s [] s'"
inductive_simps live_run_Cons: "live_run app del s (e # es) s'"

inductive_simps step_count: "live_step app del s (Count i inb) s'"
inductive_simps step_read: "live_step app del s (Read i io now) s'"
inductive_simps step_writing: "live_step app del s (Writing i io) s'"
inductive_simps step_remember: "live_step app del s (Remember i now) s'"
inductive_simps step_use: "live_step app del s (Use i now) s'"
inductive_simps step_drop: "live_step app del s (Drop i) s'"
inductive_simps step_remember_bot: "live_step app del s (RememberBot i now x) s'"
inductive_simps step_keep: "live_step app del s (Keep i msg ans) s'"
inductive_simps step_recheck: "live_step app del s (Recheck i io) s'"
inductive_simps step_withdrawing: "live_step app del s (Withdrawing u) s'"
inductive_simps step_consenting: "live_step app del s (Consenting io u c) s'"
inductive_simps step_purge_buf: "live_step app del s (PurgeBuf u) s'"
inductive_simps step_deleting: "live_step app del s (Deleting ns u e) s'"

lemmas step_simps = live_run_Cons step_count step_read step_writing step_remember step_use step_keep
  step_recheck step_withdrawing step_consenting step_purge_buf step_deleting

lemma live_run_append:
  "live_run app del s (es @ es') s' \<longleftrightarrow> (\<exists>s1. live_run app del s es s1 \<and> live_run app del s1 es' s')"
  by (induction es arbitrary: s) (auto simp: live_run_Cons)

text \<open>An invariant kept by every step allowed is kept by a run of allowed steps.\<close>

lemma live_run_invariant:
  assumes "live_run app del s es s'" and "P s" and "list_all A es"
    and "\<And>s e s'. P s \<Longrightarrow> A e \<Longrightarrow> live_step app del s e s' \<Longrightarrow> P s'"
  shows "P s'"
  using assms(1-3) by (induction rule: live_run.induct) (auto intro: assms(4))

lemma set_phase_fields [simp]:
  "lv_gate (set_phase i f p s) = lv_gate s" "lv_acl (set_phase i f p s) = lv_acl s"
  "lv_buf (set_phase i f p s) = lv_buf s" "lv_lm (set_phase i f p s) = lv_lm s"
  "lv_mem (set_phase i f p s) = lv_mem s"
  "lv_turns (set_phase i f p s) = (lv_turns s)(i \<mapsto> f\<lparr>fl_phase := p\<rparr>)"
  by (simp_all add: set_phase_def)

section \<open>The handler is a run\<close>

lemma Answer_mem:
  assumes "Answer e mo mo now ctx q (env, mem) = (r, env', mem')"
  shows "mem' = mem \<or> (\<exists>m msg ans. mo = Some m \<and> mem' = mem_keep (e_append e) m (mem_use mo now q) msg ans mem)"
  using assms by (auto simp: Answer_def Let_def split: prod.splits sum.splits run_outcome.splits if_splits option.splits)

definition shared :: "string long_memory \<Rightarrow> ('e, string, 'm) world \<Rightarrow> (nat \<rightharpoonup> flight) \<Rightarrow> 'm live" where
  "shared lm w ts = \<lparr>lv_gate = w_gate w, lv_acl = w_acl w, lv_buf = w_buf w, lv_lm = lm, lv_mem = w_mem w, lv_turns = ts\<rparr>"

lemma shared_fields [simp]:
  "lv_gate (shared lm w ts) = w_gate w" "lv_acl (shared lm w ts) = w_acl w" "lv_buf (shared lm w ts) = w_buf w"
  "lv_lm (shared lm w ts) = lm" "lv_mem (shared lm w ts) = w_mem w" "lv_turns (shared lm w ts) = ts"
  by (simp_all add: shared_def)

lemma gate_run:
  assumes "gate_check hp inb w = ((d, eo), g, b)" and "w_lm w = Some lm"
  shows "live_run app del (shared lm w Map.empty)
    [Count 0 inb, Read 0 (hp_io hp IoGateGet) (hp_clk hp ClkGate), Writing 0 (hp_io hp IoGatePut)]
    (shared lm (w\<lparr>w_gate := g, w_acl := b\<rparr>)
       [0 \<mapsto> \<lparr>fl_in = inb, fl_count = Withdrawals (Some lm) (u_ID (in_User inb)), fl_phase = after_write (d, eo)\<rparr>])"
proof -
  obtain v where v: "check_read (hp_io hp IoGateGet) (hp_clk hp ClkGate) (w_gate w) (w_acl w) (gate_in inb) = (v, g)"
      "check_write (hp_io hp IoGatePut) v (w_acl w) = ((d, eo), b)"
    using assms(1) by (auto simp: check_split gate_in_def split: prod.splits)
  then show ?thesis by (simp add: step_simps set_phase_def shared_def)
qed

lemma answer_mem:
  assumes "answer e hp strs inb h True n w = (res, w2)" and "w_lm w = Some lm" "in_Surface inb = SurfaceGroup"
  shows "w_mem w2 = w_mem w \<or> (\<exists>now msg ans. w_mem w2 = mem_keep (e_append e) lm
      (mem_use (Some lm) now (turn_query inb n)) msg ans (w_mem w))"
proof -
  let ?q = "\<lparr>q_User = in_User inb, q_Surface = in_Surface inb, q_Text = in_Text inb, q_History = h,
      q_ReplyContext = replyContextOf inb, q_Chat = in_ReplyTo inb, q_Remember = True, q_Withdrawals = n\<rparr>"
  obtain r env mem where a: "Answer e (Some lm) (Some lm) (hp_clk hp ClkMemory) (hp_ctx_err hp) ?q (w_env w, w_mem w) = (r, env, mem)"
    by (rule prod_cases3)
  have u: "mem_use (Some lm) now ?q = mem_use (Some lm) now (turn_query inb n)" for now
    using assms(3) by (simp add: mem_use_def turn_query_def)
  have "w_mem w2 = mem" using assms a by (auto simp: answer_def split: sum.splits)
  with Answer_mem [OF a] show ?thesis unfolding u by auto
qed

lemma answer_run:
  assumes "answer e hp strs inb h True n w = (r, w')" and "w_lm w = Some lm" "in_Surface inb = SurfaceGroup"
  shows "\<exists>evs. live_run (e_append e) del (shared lm w [0 \<mapsto> \<lparr>fl_in = inb, fl_count = n, fl_phase = Buffered DecideServe\<rparr>])
    evs (shared lm w' [0 \<mapsto> \<lparr>fl_in = inb, fl_count = n, fl_phase = Answered\<rparr>])"
proof -
  let ?ts = "\<lambda>p. [0 \<mapsto> \<lparr>fl_in = inb, fl_count = n, fl_phase = p\<rparr>]"
  note same = answer_fields [OF assms(1)]
  from answer_mem [OF assms] show ?thesis
  proof (elim disjE exE)
    assume "w_mem w' = w_mem w"
    then have "live_run (e_append e) del (shared lm w (?ts (Buffered DecideServe))) [Drop 0] (shared lm w' (?ts Answered))"
      by (auto simp: step_simps step_drop set_phase_def shared_def same)
    then show ?thesis by blast
  next
    fix now msg ans
    assume "w_mem w' = mem_keep (e_append e) lm (mem_use (Some lm) now (turn_query inb n)) msg ans (w_mem w)"
    then have "live_run (e_append e) del (shared lm w (?ts (Buffered DecideServe))) [Use 0 now, Keep 0 msg ans]
        (shared lm w' (?ts Answered))"
      by (simp add: step_simps set_phase_def shared_def same)
    then show ?thesis by blast
  qed
qed

lemma serve_run:
  assumes "answerRemembering uc e hp po inb True n w = (res, w2)" and "w_lm w = Some lm"
    and "in_Surface inb = SurfaceGroup"
  shows "\<exists>evs. live_run (e_append e) del (shared lm w [0 \<mapsto> \<lparr>fl_in = inb, fl_count = n, fl_phase = Admitted DecideServe\<rparr>])
    evs (shared lm w2 [0 \<mapsto> \<lparr>fl_in = inb, fl_count = n, fl_phase = Answered\<rparr>])"
proof -
  let ?h = "selectHistory uc (hp_clk hp ClkSelect) (w_buf w) inb (po_Inject po) (po_FollowupWindow po)"
  let ?w1 = "w\<lparr>w_buf := rememberUser (hp_clk hp ClkUserTurn) (w_buf w) inb\<rparr>"
  let ?ts = "\<lambda>p. [0 \<mapsto> \<lparr>fl_in = inb, fl_count = n, fl_phase = p\<rparr>]"
  let ?run = "live_run (e_append e) del"
  obtain r w3 where a: "answer e hp (po_Texts po) inb ?h True n ?w1 = (r, w3)" by (metis prod.exhaust)
  have bot: "w2 = w3 \<or> (\<exists>x. w2 = w3\<lparr>w_buf := rememberBot (hp_clk hp ClkBotTurn) (w_buf w3) (in_ReplyTo inb) x\<rparr>)"
    using assms(1) a by (auto simp: answerRemembering_def Let_def split: sum.splits if_splits)
  have "?run (shared lm w (?ts (Admitted DecideServe))) [Remember 0 (hp_clk hp ClkUserTurn)]
      (shared lm ?w1 (?ts (Buffered DecideServe)))"
    by (auto simp: live_run_Cons step_remember set_phase_def shared_def)
  moreover have "\<exists>evs. ?run (shared lm ?w1 (?ts (Buffered DecideServe))) evs (shared lm w3 (?ts Answered))"
    using assms(2) by (intro answer_run [OF a _ assms(3)]) simp
  moreover from bot have "\<exists>evs. ?run (shared lm w3 (?ts Answered)) evs (shared lm w2 (?ts Answered))"
  proof (elim disjE exE)
    fix x
    assume "w2 = w3\<lparr>w_buf := rememberBot (hp_clk hp ClkBotTurn) (w_buf w3) (in_ReplyTo inb) x\<rparr>"
    then have "?run (shared lm w3 (?ts Answered)) [RememberBot 0 (hp_clk hp ClkBotTurn) x] (shared lm w2 (?ts Answered))"
      by (auto simp: live_run_Cons step_remember_bot shared_def)
    then show ?thesis by blast
  qed (auto intro: live_run.run_nil)
  ultimately show ?thesis by (meson live_run_append)
qed

lemma purge_recheck:
  "po_Consent po \<Longrightarrow> purgeIfWithdrawn hp po u w = w\<lparr>w_buf := recheck (hp_io hp IoConsentRead) (w_acl w) u (w_buf w)\<rparr>"
  by (simp add: purgeIfWithdrawn_def recheck_def split: sum.splits)

lemma recheck_run:
  assumes "p = Answered \<or> p = Buffered DecideLogOnly \<or> p = Buffered DecideRateLimited" and "po_Consent po"
  shows "live_run app del (shared lm w [0 \<mapsto> \<lparr>fl_in = inb, fl_count = n, fl_phase = p\<rparr>])
    [Recheck 0 (hp_io hp IoConsentRead)]
    (shared lm (purgeIfWithdrawn hp po (u_ID (in_User inb)) w) [0 \<mapsto> \<lparr>fl_in = inb, fl_count = n, fl_phase = Over\<rparr>])"
  using assms by (auto simp: live_run_Cons step_recheck set_phase_def shared_def purge_recheck)

text \<open>Logging is not part of the shared state.\<close>

lemma shared_logs [simp]:
  "shared lm (logServed hp inb w) ts = shared lm w ts" "shared lm (logTranscriptHuman hp inb w) ts = shared lm w ts"
  "shared lm (logTranscriptBot hp inb x w) ts = shared lm w ts" "shared lm (logTranscriptSystem hp inb x w) ts = shared lm w ts"
  by (simp_all add: shared_def logServed_def logTranscriptHuman_def logTranscriptBot_def logTranscriptSystem_def)

lemma w_lm_logs [simp]: "w_lm (logTranscriptHuman hp inb w) = w_lm w"
  by (simp add: logTranscriptHuman_def)

lemma buffered_run:
  assumes "d = DecideLogOnly \<or> d = DecideRateLimited" and "po_Consent po"
  shows "\<exists>evs. live_run app del (shared lm w [0 \<mapsto> \<lparr>fl_in = inb, fl_count = n, fl_phase = Admitted d\<rparr>]) evs
    (shared lm (purgeIfWithdrawn hp po (u_ID (in_User inb)) (w\<lparr>w_buf := rememberUser now (w_buf w) inb\<rparr>))
      [0 \<mapsto> \<lparr>fl_in = inb, fl_count = n, fl_phase = Over\<rparr>])"
proof -
  let ?w2 = "w\<lparr>w_buf := rememberUser now (w_buf w) inb\<rparr>"
  have "live_run app del (shared lm w [0 \<mapsto> \<lparr>fl_in = inb, fl_count = n, fl_phase = Admitted d\<rparr>]) [Remember 0 now]
      (shared lm ?w2 [0 \<mapsto> \<lparr>fl_in = inb, fl_count = n, fl_phase = Buffered d\<rparr>])"
    by (auto simp: live_run_Cons step_remember set_phase_def shared_def)
  with recheck_run [where p = "Buffered d" and w = ?w2 and inb = inb and n = n and hp = hp, OF _ assms(2)] assms(1)
  show ?thesis by (meson live_run_append)
qed

lemma decision_run:
  assumes "act_on_decision uc e hp po inb n d w = (res, w')" and "w_lm w = Some lm"
    and "in_Surface inb = SurfaceGroup" "po_Consent po"
  shows "\<exists>evs. live_run (e_append e) del (shared lm w [0 \<mapsto> \<lparr>fl_in = inb, fl_count = n, fl_phase = after_write (d, None)\<rparr>])
    evs (shared lm w' [0 \<mapsto> \<lparr>fl_in = inb, fl_count = n, fl_phase = Over\<rparr>])"
proof -
  let ?u = "u_ID (in_User inb)"
  let ?ts = "\<lambda>p. [0 \<mapsto> \<lparr>fl_in = inb, fl_count = n, fl_phase = p\<rparr>]"
  let ?w1 = "logTranscriptHuman hp inb (logServed hp inb w)"
  consider "d = DecideServe" | "d = DecideLogOnly" | "d = DecideRateLimited"
    | "d \<in> {DecideNudge, DecideSilent, DecideRefuse}" by (cases d) auto
  then show ?thesis
  proof cases
    case 1
    obtain r w2 where a: "answerRemembering uc e hp po inb True n ?w1 = (r, w2)" by (metis prod.exhaust)
    have w': "shared lm w' ts = shared lm (purgeIfWithdrawn hp po ?u w2) ts" for ts
      using assms(1,3) 1 a by (auto simp: act_on_decision_def Let_def split: sum.splits if_splits)
    obtain evs where "live_run (e_append e) del (shared lm ?w1 (?ts (Admitted DecideServe))) evs (shared lm w2 (?ts Answered))"
      using serve_run [OF a _ assms(3)] assms(2) by auto
    with recheck_run [where p = Answered and w = w2 and inb = inb and n = n and hp = hp, OF _ assms(4)]
    have "live_run (e_append e) del (shared lm ?w1 (?ts (Admitted DecideServe))) (evs @ [Recheck 0 (hp_io hp IoConsentRead)])
        (shared lm w' (?ts Over))" unfolding w' live_run_append by blast
    with 1 show ?thesis by (auto simp: after_write_def)
  next
    case 2
    with assms(1) buffered_run [of d, OF _ assms(4), where w = ?w1] show ?thesis
      by (auto simp: act_on_decision_def Let_def after_write_def)
  next
    case 3
    with assms(1) buffered_run [of d, OF _ assms(4), where w = ?w1] show ?thesis
      by (auto simp: act_on_decision_def Let_def after_write_def)
  next
    case 4
    then have "w' = w" using assms(1) by (auto simp: act_on_decision_def Let_def)
    with 4 show ?thesis by (auto simp: after_write_def intro: live_run.run_nil)
  qed
qed


section \<open>Counts\<close>

text \<open>
  After \<open>n\<close> withdrawals of \<open>u\<close> the count is \<open>n\<close>, wrapped, and a turn under way carries a count
  from some moment up to now. A row waiting to be written is the user's own.
\<close>

fun under_way :: "flight \<Rightarrow> bool" where
  "under_way f = (case fl_phase f of Admitted d \<Rightarrow> d = DecideServe | Buffered d \<Rightarrow> d = DecideServe
     | Running t \<Rightarrow> True | _ \<Rightarrow> False)"

definition counted :: "string \<Rightarrow> nat \<Rightarrow> 'm live \<Rightarrow> bool" where
  "counted u n s \<longleftrightarrow> withdrawn_count (lv_lm s) u = of_nat n \<and>
     (\<forall>i f. lv_turns s i = Some f \<and> fl_user f = u \<longrightarrow> (\<exists>k \<le> n. fl_count f = of_nat k))"

definition own_rows :: "'m live \<Rightarrow> bool" where
  "own_rows s \<longleftrightarrow> acl_wf (lv_acl s) \<and>
     (\<forall>i f. lv_turns s i = Some f \<longrightarrow>
        (\<forall>r. fl_phase f = Decided (Inr (Write r)) \<longrightarrow> rec_UserID r = fl_user f) \<and>
        (\<forall>d. fl_phase f = Decided (Inr (Settled d)) \<longrightarrow> d \<noteq> DecideServe) \<and>
        (\<forall>t. fl_phase f = Running (Some t) \<longrightarrow> tr_subject t = fl_user f \<and> tr_withdrawn t = fl_count f))"

definition fresh :: "'m live \<Rightarrow> bool" where
  "fresh s \<longleftrightarrow> lv_turns s = Map.empty \<and> lm_withdrawn (lv_lm s) = Map.empty \<and> acl_wf (lv_acl s)"

fun withdrawals_of :: "string \<Rightarrow> event list \<Rightarrow> nat" where
  "withdrawals_of u [] = 0"
| "withdrawals_of u (Withdrawing v # es) = (if v = u then 1 else 0) + withdrawals_of u es"
| "withdrawals_of u (_ # es) = withdrawals_of u es"

lemma withdrawals_of_append [simp]: "withdrawals_of u (es @ es') = withdrawals_of u es + withdrawals_of u es'"
  by (induction u es rule: withdrawals_of.induct) auto

lemma fresh_counted: "fresh s \<Longrightarrow> counted u 0 s"
  by (simp add: fresh_def counted_def withdrawn_count_def)

lemma fresh_own_rows: "fresh s \<Longrightarrow> own_rows s"
  by (simp add: fresh_def own_rows_def)

lemma Withdraw_eq: "Withdraw (Some lm) u = Some lm' \<longleftrightarrow>
    lm' = lm\<lparr>lm_withdrawn := (lm_withdrawn lm)(u \<mapsto> withdrawn_count lm u + 1)\<rparr>"
  by (auto simp: Withdraw_def)

lemma counted_step:
  assumes "counted u n s" and "live_step app del s e s'"
  shows "counted u (withdrawals_of u [e] + n) s'"
  using assms(2)
proof (cases rule: live_step.cases)
  case (withdrawing u' lm)
  have "\<exists>k \<le> Suc n. w = of_nat k" if "\<exists>k \<le> n. w = of_nat k" for w :: "64 word"
    using that le_SucI by blast
  with withdrawing assms(1) show ?thesis
    by (auto simp: counted_def Withdraw_eq withdrawn_count_def add.commute)
next
  case (count i inb)
  with assms(1) show ?thesis by (auto simp: counted_def Withdrawals_def)
qed (use assms(1) in \<open>auto simp: counted_def split: if_splits\<close>)

lemma counted_run: "counted u n s \<Longrightarrow> live_run app del s es s' \<Longrightarrow> counted u (withdrawals_of u es + n) s'"
proof (induction es arbitrary: s n)
  case (Cons e es)
  then obtain s1 where s1: "live_step app del s e s1" "live_run app del s1 es s'"
    by (auto simp: live_run_Cons)
  from Cons.IH [OF counted_step [OF Cons.prems(1) s1(1)] s1(2)]
  have "counted u (withdrawals_of u es + (withdrawals_of u [e] + n)) s'" .
  moreover have "withdrawals_of u (e # es) = withdrawals_of u [e] + withdrawals_of u es"
    using withdrawals_of_append [of u "[e]" es] by simp
  ultimately show ?case by (simp add: ac_simps)
qed simp

lemma check_read_rows:
  assumes "check_read io now g b inp = (Inr (Write r), g')" and "acl_wf b"
  shows "rec_UserID r = u_ID (gi_User inp)"
  using assms by (auto simp: check_read_def acl_get_row check_decide_Write acl_row_UserID
      split: sum.splits prod.splits)

lemma check_read_settled: "check_read io now g b inp = (Inr (Settled d), g') \<Longrightarrow> d \<noteq> DecideServe"
  by (auto simp: check_read_def dest: check_decide_Settled split: sum.splits prod.splits)

lemma check_write_wf: "acl_wf b \<Longrightarrow> check_write io v b = (de, b') \<Longrightarrow> acl_wf b'"
  by (auto simp: check_write_def split: sum.splits verdict.splits prod.splits option.splits
      dest: acl_bolt.keyed_put)

lemma SetConsent_wf: "acl_wf b \<Longrightarrow> SetConsent io b u c = (e, b') \<Longrightarrow> acl_wf b'"
  unfolding SetConsent_def by (erule acl_bolt.keyed_update [rotated 2]) auto

lemma SetTier_wf: "acl_wf b \<Longrightarrow> SetTier io b u t = (e, b') \<Longrightarrow> acl_wf b'"
  unfolding SetTier_def by (auto split: if_splits elim!: acl_bolt.keyed_update [rotated 2])

lemma mem_use_turn:
  "mem_use (Some m) now (turn_query inb n) = Some t \<Longrightarrow> tr_subject t = u_ID (in_User inb) \<and> tr_withdrawn t = n"
  by (auto simp: mem_use_def turn_query_def split: if_splits)

lemma own_rows_step:
  assumes "own_rows s" and "live_step app del s e s'"
  shows "own_rows s'"
  using assms(2)
proof (cases rule: live_step.cases)
  case (read i f io now v g)
  with assms(1) show ?thesis
    by (auto simp: own_rows_def gate_in_def dest: check_read_rows check_read_settled)
next
  case (writing i f v io de b)
  with assms(1) show ?thesis
    by (auto simp: own_rows_def after_write_def check_write_wf split: prod.splits if_splits)
next
  case (use i f now)
  with assms(1) show ?thesis by (auto simp: own_rows_def dest: mem_use_turn)
next
  case (consenting io u c e b)
  with assms(1) show ?thesis by (auto simp: own_rows_def SetConsent_wf)
next
  case (tiering io u t e b)
  with assms(1) show ?thesis by (auto simp: own_rows_def SetTier_wf)
qed (use assms(1) in \<open>auto simp: own_rows_def split: if_splits\<close>)

lemma own_rows_run: "own_rows s \<Longrightarrow> live_run app del s es s' \<Longrightarrow> own_rows s'"
  by (erule live_run_invariant [where A = "\<lambda>_. True"]) (auto simp: list_all_iff own_rows_step)

section \<open>A user who declined\<close>

text \<open>
  Consent is on record as not granted, and no turn is about to write a row it read before.
  Only a grant changes that.
\<close>

definition closed :: "string \<Rightarrow> 'm live \<Rightarrow> bool" where
  "closed u s \<longleftrightarrow> own_rows s \<and> (\<exists>r. acl_row (lv_acl s) u = Some r \<and> rec_Consent r \<noteq> ConsentGranted) \<and>
     (\<forall>i f r. lv_turns s i = Some f \<and> fl_user f = u \<longrightarrow> fl_phase f \<noteq> Decided (Inr (Write r)))"

fun grants :: "string \<Rightarrow> event \<Rightarrow> bool" where
  "grants u (Consenting io v c) \<longleftrightarrow> v = u \<and> c = ConsentGranted"
| "grants u _ \<longleftrightarrow> False"

lemma SetConsent_at:
  assumes "SetConsent io b v c = (e, b')"
  shows "acl_row b' u = acl_row b u \<or> u = v \<and> (\<exists>r. acl_row b u = Some r \<and> acl_row b' u = Some (r\<lparr>rec_Consent := c\<rparr>))"
  using assms unfolding SetConsent_def
  by (cases e) (auto split: if_splits dest!: acl_bolt.update_row acl_bolt.update_err)

lemma SetTier_at:
  assumes "SetTier io b v t = (e, b')" and "acl_row b u = Some r"
  shows "\<exists>r'. acl_row b' u = Some r' \<and> rec_Consent r' = rec_Consent r"
  using assms unfolding SetTier_def
  by (cases e) (auto split: if_splits dest!: acl_bolt.update_row acl_bolt.update_err)

lemma check_write_row:
  assumes "check_write io v b = (de, b')" and "\<And>r. v = Inr (Write r) \<Longrightarrow> rec_UserID r \<noteq> u"
  shows "acl_row b' u = acl_row b u"
  using assms by (auto simp: check_write_def split: sum.splits verdict.splits prod.splits option.splits
      dest!: acl_bolt.put_row acl_bolt.put_err)

lemma check_read_closed:
  assumes "check_read io now g b inp = (Inr (Write r'), g')" and "acl_row b (u_ID (gi_User inp)) = Some r"
  shows "rec_Consent r = ConsentGranted"
  using assms by (auto simp: check_read_def acl_get_row check_decide_Write split: sum.splits prod.splits)

lemma closed_step:
  assumes "closed u s" and "\<not> grants u e" and "live_step app del s e s'"
  shows "closed u s'"
proof -
  have own: "own_rows s'" using assms(1,3) by (auto simp: closed_def intro: own_rows_step)
  obtain r where r: "acl_row (lv_acl s) u = Some r" "rec_Consent r \<noteq> ConsentGranted"
    using assms(1) by (auto simp: closed_def)
  have idle: "fl_phase f \<noteq> Decided (Inr (Write r))" if "lv_turns s i = Some f" "fl_user f = u" for i f r
    using assms(1) that by (simp add: closed_def)
  from assms(3) have "(\<exists>r. acl_row (lv_acl s') u = Some r \<and> rec_Consent r \<noteq> ConsentGranted) \<and>
     (\<forall>i f r. lv_turns s' i = Some f \<and> fl_user f = u \<longrightarrow> fl_phase f \<noteq> Decided (Inr (Write r)))"
  proof (cases rule: live_step.cases)
    case (read i f io now v g)
    then show ?thesis using r idle
      by (auto simp: gate_in_def dest: check_read_closed)
  next
    case (writing i f v io de b)
    have "rec_UserID r' \<noteq> u" if "v = Inr (Write r')" for r'
      using writing that idle [of i f] assms(1) by (auto simp: closed_def own_rows_def)
    then have "acl_row b u = acl_row (lv_acl s) u" by (rule check_write_row [OF writing(5)])
    with writing r idle show ?thesis by (auto simp: after_write_def split: prod.splits)
  next
    case (consenting io v c e b)
    then have "acl_row b u = acl_row (lv_acl s) u \<or> (\<exists>r. c \<noteq> ConsentGranted \<and> acl_row b u = Some (r\<lparr>rec_Consent := c\<rparr>))"
      using SetConsent_at [OF consenting(3), of u] assms(2) by auto
    with consenting r idle show ?thesis by auto
  next
    case (tiering io v t e b)
    with SetTier_at [OF tiering(3) r(1)] r idle show ?thesis by auto
  qed (use r idle in \<open>auto split: if_splits\<close>)
  with own show ?thesis unfolding closed_def by blast
qed

lemma closed_run:
  "closed u s \<Longrightarrow> list_all (\<lambda>e. \<not> grants u e) es \<Longrightarrow> live_run app del s es s' \<Longrightarrow> closed u s'"
  by (erule live_run_invariant [where A = "\<lambda>e. \<not> grants u e" and P = "closed u", rotated])
    (auto intro: closed_step)

lemma closed_declined:
  assumes "own_rows s" and "SetConsent io (lv_acl s) u ConsentDeclined = (None, b)"
    and "\<And>i f r. lv_turns s i = Some f \<Longrightarrow> fl_user f = u \<Longrightarrow> fl_phase f \<noteq> Decided (Inr (Write r))"
  shows "closed u (s\<lparr>lv_acl := b\<rparr>)"
proof -
  have "\<exists>r. acl_row b u = Some r \<and> rec_Consent r = ConsentDeclined"
    using acl_bolt.update_row [OF assms(2) [unfolded SetConsent_def]] by auto
  with assms show ?thesis by (auto simp: closed_def own_rows_def SetConsent_wf)
qed

section \<open>Long-term memory\<close>

text \<open>
  What bonyan's memory documents of \<^verbatim>\<open>Append\<close> and \<^verbatim>\<open>DeleteSubject\<close>, for \<open>holds m ns u\<close> (the
  namespace holds something of the user): an append adds for its subject in its namespace at
  most, a delete adds nothing, and one that succeeded leaves nothing of its subject.
\<close>

definition subject_store :: "'m appender \<Rightarrow> 'm deleter \<Rightarrow> ('m \<Rightarrow> string \<Rightarrow> string \<Rightarrow> bool) \<Rightarrow> bool" where
  "subject_store app del holds \<longleftrightarrow>
     (\<forall>st v sess k x m ns u. holds (snd (app st v sess k x m)) ns u \<longrightarrow> holds m ns u \<or> ns = st \<and> u = v) \<and>
     (\<forall>ns' d v m ns u. del ns' = Some d \<longrightarrow> holds (snd (d v m)) ns u \<longrightarrow> holds m ns u) \<and>
     (\<forall>ns d u m m'. del ns = Some d \<longrightarrow> d u m = (None, m') \<longrightarrow> \<not> holds m' ns u)"

lemma mem_keep_holds:
  assumes "subject_store app del holds" and "holds (mem_keep app m t msg ans e) ns u"
  shows "holds e ns u \<or> (\<exists>tr. t = Some tr \<and> tr_subject tr = u \<and> tr_withdrawn tr = withdrawn_count m u)"
proof (cases t)
  case (Some tr)
  let ?app = "app (tr_store tr) (tr_subject tr) (tr_session tr)"
  have app: "holds e1 ns u" if "tr_subject tr \<noteq> u" "?app k x e1 = (err, e2)" "holds e2 ns u" for k x e1 err e2
    using assms(1) that unfolding subject_store_def by (metis snd_conv)
  define f where "f = (case tr_scrubber tr of None \<Rightarrow> (\<lambda>s. s) | Some f \<Rightarrow> f)"
  obtain err e1 where a1: "?app KindUser (f msg) e = (err, e1)" by (cases "?app KindUser (f msg) e")
  obtain err2 e2 where a2: "?app KindModel (f ans) e1 = (err2, e2)" by (cases "?app KindModel (f ans) e1")
  have m: "mem_keep app m t msg ans e =
      (if withdrawn_count m (tr_subject tr) \<noteq> tr_withdrawn tr then e else if err = None then e2 else e1)"
    using a1 a2 by (cases err) (simp_all add: Some mem_keep_def Let_def flip: f_def)
  show ?thesis
  proof (cases "tr_subject tr = u")
    case True
    then show ?thesis using assms(2) Some m by (auto split: if_splits)
  next
    case False
    then show ?thesis using assms(2) m app [OF False a1] app [OF False a2] by (auto split: if_splits)
  qed
qed (use assms(2) in \<open>simp add: mem_keep_def\<close>)

text \<open>After \<open>n\<close> withdrawals, every turn of \<open>u\<close> that could still keep counted fewer.\<close>

definition stale :: "string \<Rightarrow> nat \<Rightarrow> 'm live \<Rightarrow> bool" where
  "stale u n s \<longleftrightarrow> closed u s \<and> withdrawn_count (lv_lm s) u = of_nat n \<and>
     (\<forall>i f. lv_turns s i = Some f \<and> fl_user f = u \<and> under_way f \<longrightarrow> (\<exists>k < n. fl_count f = of_nat k))"

lemma stale_withdrawn:
  assumes "closed u s" "counted u n s" "Withdraw (Some (lv_lm s)) u = Some lm"
  shows "stale u (Suc n) (s\<lparr>lv_lm := lm\<rparr>)"
proof -
  have "closed u (s\<lparr>lv_lm := lm\<rparr>) = closed u s" by (simp add: closed_def own_rows_def)
  with assms show ?thesis
    by (auto simp: stale_def counted_def Withdraw_eq withdrawn_count_def less_Suc_eq_le)
qed

lemma stale_step:
  assumes "stale u n s" and "\<not> grants u e" and "live_step app del s e s'"
  shows "stale u (withdrawals_of u [e] + n) s'"
proof -
  have c: "closed u s'" using assms by (auto simp: stale_def intro: closed_step)
  have old: "\<exists>k < n. fl_count f = of_nat k" if "lv_turns s i = Some f" "fl_user f = u" "under_way f" for i f
    using assms(1) that by (simp add: stale_def)
  have w: "withdrawn_count (lv_lm s) u = of_nat n" using assms(1) by (simp add: stale_def)
  have nw: "fl_phase f \<noteq> Decided (Inr (Write r))" if "lv_turns s i = Some f" "fl_user f = u" for i f r
    using assms(1) that by (simp add: stale_def closed_def)
  have ns: "fl_phase f \<noteq> Decided (Inr (Settled DecideServe))" if "lv_turns s i = Some f" for i f
    using assms(1) that by (auto simp: stale_def closed_def own_rows_def)
  from assms(3) show ?thesis
  proof (cases rule: live_step.cases)
    case (writing i f v io de b)
    have "after_write de \<noteq> Admitted DecideServe" if "fl_user f = u"
      using writing nw [of i f] ns [of i f] that
      by (auto simp: check_write_def after_write_def split: sum.splits verdict.splits prod.splits if_splits)
    with writing c w old show ?thesis
      by (auto simp: stale_def after_write_def split: prod.splits if_splits)
  next
    case (withdrawing v lm)
    with c w old show ?thesis
      by (auto simp: stale_def Withdraw_eq withdrawn_count_def less_Suc_eq add.commute)
  next
    case (use i f now)
    with c w old [of i f] old show ?thesis by (auto simp: stale_def)
  next
    case (remember i f d now)
    with c w old [of i f] old show ?thesis by (auto simp: stale_def)
  qed (use c w old in \<open>auto simp: stale_def split: if_splits\<close>)
qed

lemma count_distinct:
  assumes "k < n" and "n < 2 ^ 64"
  shows "(of_nat k :: 64 word) \<noteq> of_nat n"
proof
  assume "(of_nat k :: 64 word) = of_nat n"
  then have "unat (of_nat k :: 64 word) = unat (of_nat n :: 64 word)" by simp
  with assms show False by (simp add: unat_of_nat)
qed

lemma stale_holds_step:
  assumes "subject_store app del holds" and "stale u n s" "n < 2 ^ 64" and "live_step app del s e s'"
  shows "(holds (lv_mem s') ns u \<longrightarrow> holds (lv_mem s) ns u) \<and>
    (e = Deleting ns u None \<longrightarrow> \<not> holds (lv_mem s') ns u)"
  using assms(4)
proof (cases rule: live_step.cases)
  case (keep i f t msg ans)
  have "\<not> (tr_subject tr = u \<and> tr_withdrawn tr = withdrawn_count (lv_lm s) u)" if "t = Some tr" for tr
  proof
    assume tr: "tr_subject tr = u \<and> tr_withdrawn tr = withdrawn_count (lv_lm s) u"
    have "tr_subject tr = fl_user f" "tr_withdrawn tr = fl_count f"
      using assms(2) keep that by (auto simp: stale_def closed_def own_rows_def)
    moreover have "\<exists>k < n. fl_count f = of_nat k" if "fl_user f = u"
      using assms(2) keep that by (auto simp: stale_def)
    ultimately show False
      using tr assms(2,3) by (auto simp: stale_def dest: count_distinct)
  qed
  then show ?thesis using keep mem_keep_holds [OF assms(1), of "lv_lm s" t msg ans "lv_mem s" ns u] by auto
next
  case (deleting ns' d v e' m)
  then have "holds m ns u \<longrightarrow> holds (lv_mem s) ns u"
    using assms(1) unfolding subject_store_def by (metis snd_conv)
  moreover have "\<not> holds m ns u" if "ns' = ns" "v = u" "e' = None"
    using assms(1) deleting that unfolding subject_store_def by blast
  ultimately show ?thesis using deleting by auto
qed auto

lemma stale_holds_run:
  assumes "subject_store app del holds"
  shows "stale u n s \<Longrightarrow> list_all (\<lambda>e. \<not> grants u e) es \<Longrightarrow> n + withdrawals_of u es < 2 ^ 64 \<Longrightarrow>
    live_run app del s es s' \<Longrightarrow>
    (holds (lv_mem s') ns u \<longrightarrow> holds (lv_mem s) ns u) \<and>
    (Deleting ns u None \<in> set es \<longrightarrow> \<not> holds (lv_mem s') ns u)"
proof (induction es arbitrary: s n)
  case (Cons e es)
  then obtain s1 where s1: "live_step app del s e s1" "live_run app del s1 es s'"
    by (auto simp: live_run_Cons)
  have w: "withdrawals_of u (e # es) = withdrawals_of u [e] + withdrawals_of u es"
    using withdrawals_of_append [of u "[e]" es] by simp
  have "stale u (withdrawals_of u [e] + n) s1" using Cons.prems s1(1) by (auto intro: stale_step)
  from Cons.IH [OF this _ _ s1(2)] Cons.prems w
  have "(holds (lv_mem s') ns u \<longrightarrow> holds (lv_mem s1) ns u) \<and>
      (Deleting ns u None \<in> set es \<longrightarrow> \<not> holds (lv_mem s') ns u)" by simp
  with stale_holds_step [OF assms Cons.prems(1) _ s1(1), of ns] Cons.prems(3) show ?case by auto
qed simp

text \<open>A withdrawal as the trace it is: the decline, then the new count, with anything between.\<close>

definition withdraws :: "'m appender \<Rightarrow> 'm deleter \<Rightarrow> string \<Rightarrow> 'm live \<Rightarrow> event list \<Rightarrow> event list \<Rightarrow> 'm live \<Rightarrow> bool" where
  "withdraws app del u s mid rest s' \<longleftrightarrow>
     (\<exists>b. SetConsent Done (lv_acl s) u ConsentDeclined = (None, b) \<and>
        live_run app del (s\<lparr>lv_acl := b\<rparr>) (mid @ Withdrawing u # rest) s') \<and>
     list_all (\<lambda>e. \<not> grants u e) (mid @ rest)"

definition no_check_pending :: "string \<Rightarrow> 'm live \<Rightarrow> bool" where
  "no_check_pending u s \<longleftrightarrow>
     (\<forall>i f r. lv_turns s i = Some f \<and> fl_user f = u \<longrightarrow> fl_phase f \<noteq> Decided (Inr (Write r)))"

text \<open>C6: A withdrawal is final for long-term memory, whatever runs at the same time: from a fresh
  process, through any interleaving of any number of turns, withdrawals and consent changes,
  once a user declined, the withdrawal was counted, and a namespace's delete succeeded after
  that, the namespace holds nothing of the user, and keeps holding nothing, until the user
  consents again - no turn already under way can put something back. The condition is that
  no gate check of the user stood between its read and its write when the decline was
  recorded.\<close>

theorem withdrawal_is_final:
  assumes "subject_store app del holds" and "fresh s0" and "live_run app del s0 pre s1"
    and "no_check_pending u s1" and "withdraws app del u s1 mid rest s2"
    and "withdrawals_of u (pre @ mid @ rest) + 1 < 2 ^ 64"
  shows "(Deleting ns u None \<in> set rest \<longrightarrow> \<not> holds (lv_mem s2) ns u) \<and>
    (\<exists>r. acl_row (lv_acl s2) u = Some r \<and> rec_Consent r \<noteq> ConsentGranted)"
proof -
  obtain b sc sw where b: "SetConsent Done (lv_acl s1) u ConsentDeclined = (None, b)"
    and mid: "live_run app del (s1\<lparr>lv_acl := b\<rparr>) mid sc" and w: "live_step app del sc (Withdrawing u) sw"
    and rest: "live_run app del sw rest s2" and ng: "list_all (\<lambda>e. \<not> grants u e) (mid @ rest)"
    using assms(5) by (auto simp: withdraws_def live_run_append live_run_Cons)
  have own: "own_rows s1" using assms(2,3) by (auto intro: own_rows_run fresh_own_rows)
  have c1: "closed u (s1\<lparr>lv_acl := b\<rparr>)"
    using assms(4) by (intro closed_declined [OF own b]) (auto simp: no_check_pending_def)
  have "counted u (withdrawals_of u pre) s1" using counted_run [OF fresh_counted [OF assms(2)] assms(3)] by simp
  moreover have "counted u n (s1\<lparr>lv_acl := b\<rparr>) = counted u n s1" for n by (simp add: counted_def)
  ultimately have "counted u (withdrawals_of u pre) (s1\<lparr>lv_acl := b\<rparr>)" by simp
  from counted_run [OF this mid] have cnt: "counted u (withdrawals_of u mid + withdrawals_of u pre) sc" .
  have csc: "closed u sc" using closed_run [OF c1 _ mid] ng by simp
  obtain lm where lm: "Withdraw (Some (lv_lm sc)) u = Some lm" "sw = sc\<lparr>lv_lm := lm\<rparr>"
    using w by (auto simp: step_withdrawing)
  have st: "stale u (Suc (withdrawals_of u mid + withdrawals_of u pre)) sw"
    unfolding lm(2) by (rule stale_withdrawn [OF csc cnt lm(1)])
  have "Deleting ns u None \<in> set rest \<longrightarrow> \<not> holds (lv_mem s2) ns u"
    using stale_holds_run [OF assms(1) st _ _ rest, of ns] ng assms(6) by simp
  moreover have "closed u s2"
    by (rule closed_run [OF _ _ rest]) (use st ng in \<open>simp_all add: stale_def\<close>)
  ultimately show ?thesis by (simp add: closed_def)
qed

section \<open>The conversation buffer\<close>

text \<open>A turn that stands after its append to the buffer and before its recheck.\<close>

fun buffering :: "flight \<Rightarrow> bool" where
  "buffering f = (case fl_phase f of Buffered d \<Rightarrow> True | Running t \<Rightarrow> True | Answered \<Rightarrow> True | _ \<Rightarrow> False)"

definition speaks :: "string \<Rightarrow> buffer \<Rightarrow> bool" where
  "speaks u b \<longleftrightarrow> (\<exists>c. \<exists>t \<in> set (turns_of b c). t_SpeakerID t = u)"

definition pending_turn :: "string \<Rightarrow> 'm live \<Rightarrow> bool" where
  "pending_turn u s \<longleftrightarrow> (\<exists>i f. lv_turns s i = Some f \<and> fl_user f = u \<and> buffering f)"

definition cleared :: "string \<Rightarrow> 'm live \<Rightarrow> bool" where
  "cleared u s \<longleftrightarrow> closed u s \<and> mem_Enabled (lv_buf s) \<and> (speaks u (lv_buf s) \<longrightarrow> pending_turn u s)"

lemma purge_speaks: "mem_Enabled b \<Longrightarrow> v \<noteq> [] \<Longrightarrow> speaks u (mem_PurgeUser b v) \<longleftrightarrow> speaks u b \<and> u \<noteq> v"
  unfolding speaks_def Bex_def by (subst purge_forgets) blast+

lemma append_speaks:
  "mem_Enabled b \<Longrightarrow> speaks u (mem_Append b c t) \<Longrightarrow> speaks u b \<or> t_SpeakerID t = u"
  by (auto simp: speaks_def turns_of_Append last_n_def split: if_splits dest!: in_set_dropD)

lemma buf_ops_enabled [simp]:
  "mem_Enabled (mem_Append b c t) = mem_Enabled b" "mem_Enabled (mem_PurgeUser b u) = mem_Enabled b"
  by (simp_all add: mem_Enabled_def mem_Append_def mem_PurgeUser_def Let_def)

lemma rememberUser_speaks:
  "mem_Enabled b \<Longrightarrow> speaks u (rememberUser now b inb) \<Longrightarrow> speaks u b \<or> u = u_ID (in_User inb)"
  unfolding rememberUser_def by (drule (1) append_speaks) auto

lemma rememberBot_speaks:
  "mem_Enabled b \<Longrightarrow> u \<noteq> [] \<Longrightarrow> speaks u (rememberBot now b c x) \<Longrightarrow> speaks u b"
  unfolding rememberBot_def by (auto split: if_splits dest: append_speaks)

lemma recheck_speaks:
  assumes "mem_Enabled b" "u \<noteq> []"
  shows "mem_Enabled (recheck io a v b)" and "speaks u (recheck io a v b) \<Longrightarrow> speaks u b"
    and "io = Done \<Longrightarrow> acl_row a u = Some r \<Longrightarrow> rec_Consent r \<noteq> ConsentGranted \<Longrightarrow> \<not> speaks u (recheck io a u b)"
proof -
  show "mem_Enabled (recheck io a v b)" using assms(1) by (simp add: recheck_def split: sum.splits)
  have "mem_PurgeUser b [] = b" by (simp add: mem_PurgeUser_def)
  then show "speaks u (recheck io a v b) \<Longrightarrow> speaks u b"
    using assms by (cases "v = []") (auto simp: recheck_def purge_speaks split: sum.splits if_splits)
  show "io = Done \<Longrightarrow> acl_row a u = Some r \<Longrightarrow> rec_Consent r \<noteq> ConsentGranted \<Longrightarrow> \<not> speaks u (recheck io a u b)"
    using assms by (simp add: recheck_def ConsentOf_def acl_get_Done purge_speaks)
qed

fun quiet_event :: "string \<Rightarrow> event \<Rightarrow> bool" where
  "quiet_event u (Recheck i io) \<longleftrightarrow> io = Done"
| "quiet_event u e \<longleftrightarrow> \<not> grants u e"

lemma quiet_no_grant: "quiet_event u e \<Longrightarrow> \<not> grants u e"
  by (cases e) auto

text \<open>What a step does to the buffer, and to the turns that stand before their recheck.\<close>

lemma buf_step_enabled: "live_step app del s e s' \<Longrightarrow> mem_Enabled (lv_buf s') = mem_Enabled (lv_buf s)"
  by (auto elim!: live_step.cases simp: rememberUser_def rememberBot_def recheck_def split: sum.splits if_splits)

lemma buf_step_speaks:
  assumes "live_step app del s e s'" and "mem_Enabled (lv_buf s)" and "u \<noteq> []" and "speaks u (lv_buf s')"
  shows "speaks u (lv_buf s) \<or> (\<exists>i now f. e = Remember i now \<and> lv_turns s i = Some f \<and> fl_user f = u)"
  using assms(1)
proof (cases rule: live_step.cases)
  case (remember i f d now)
  with assms(4) rememberUser_speaks [OF assms(2)] show ?thesis by auto
next
  case (remember_bot i f now x)
  with assms(4) rememberBot_speaks [OF assms(2,3)] show ?thesis by auto
next
  case (recheck i f io)
  with assms(4) recheck_speaks(2) [OF assms(2,3)] show ?thesis by auto
next
  case (purge_buf v)
  have "mem_PurgeUser (lv_buf s) [] = lv_buf s" by (simp add: mem_PurgeUser_def)
  with purge_buf assms(2,4) show ?thesis by (cases "v = []") (simp_all add: purge_speaks)
qed (use assms(4) in simp_all)

lemma pending_phase:
  assumes "pending_turn u s" and "lv_turns s i = Some f"
    and "fl_user f = u \<Longrightarrow> buffering f \<Longrightarrow> buffering (f\<lparr>fl_phase := p\<rparr>)"
    and "lv_turns s' = (lv_turns s)(i \<mapsto> f\<lparr>fl_phase := p\<rparr>)"
  shows "pending_turn u s'"
proof -
  obtain j g where g: "lv_turns s j = Some g" "fl_user g = u" "buffering g"
    using assms(1) by (auto simp: pending_turn_def)
  show ?thesis
  proof (cases "j = i")
    case True
    with g assms show ?thesis
      unfolding pending_turn_def by (intro exI [of _ i] exI [of _ "f\<lparr>fl_phase := p\<rparr>"]) auto
  next
    case False
    with g assms(4) show ?thesis unfolding pending_turn_def by (intro exI [of _ j] exI [of _ g]) auto
  qed
qed

lemma pending_step:
  assumes "live_step app del s e s'" and "pending_turn u s"
  shows "pending_turn u s' \<or> (\<exists>i io f. e = Recheck i io \<and> lv_turns s i = Some f \<and> fl_user f = u)"
  using assms(1)
proof (cases rule: live_step.cases)
  case (count i inb)
  obtain j g where g: "lv_turns s j = Some g" "fl_user g = u" "buffering g"
    using assms(2) by (auto simp: pending_turn_def)
  with count have "lv_turns s' j = Some g" by auto
  with g show ?thesis by (auto simp only: pending_turn_def)
next
  case (read i f io now v g)
  then show ?thesis by (intro disjI1 pending_phase [OF assms(2), of i f "Decided v"]) simp_all
next
  case (writing i f v io de b)
  then show ?thesis by (intro disjI1 pending_phase [OF assms(2), of i f "after_write de"]) simp_all
next
  case (remember i f d now)
  then show ?thesis by (intro disjI1 pending_phase [OF assms(2), of i f "Buffered d"]) simp_all
next
  case (use i f now)
  then show ?thesis by (intro disjI1 pending_phase [OF assms(2) use(3)]) auto
next
  case (keep i f t msg ans)
  then show ?thesis by (intro disjI1 pending_phase [OF assms(2), of i f Answered]) simp_all
next
  case (drop i f)
  then show ?thesis by (intro disjI1 pending_phase [OF assms(2), of i f Answered]) simp_all
next
  case (recheck i f io)
  then show ?thesis
    by (cases "fl_user f = u") (auto intro: pending_phase [OF assms(2), of i f Over])
qed (use assms(2) in \<open>simp_all add: pending_turn_def\<close>)

lemma cleared_step:
  assumes "cleared u s" and "u \<noteq> []" and "quiet_event u e" and "live_step app del s e s'"
  shows "cleared u s'"
proof -
  have s: "closed u s" "mem_Enabled (lv_buf s)" "speaks u (lv_buf s) \<Longrightarrow> pending_turn u s"
    using assms(1) by (simp_all add: cleared_def)
  have "pending_turn u s'" if sp: "speaks u (lv_buf s')"
    using buf_step_speaks [OF assms(4) s(2) assms(2) sp]
  proof (elim disjE exE conjE)
    fix i now f
    assume "e = Remember i now" "lv_turns s i = Some f" "fl_user f = u"
    with assms(4) show ?thesis by (auto simp: step_remember pending_turn_def)
  next
    assume "speaks u (lv_buf s)"
    from pending_step [OF assms(4) s(3) [OF this]] show ?thesis
    proof (elim disjE exE conjE)
      fix i io f
      assume e: "e = Recheck i io" "lv_turns s i = Some f" "fl_user f = u"
      obtain r where r: "acl_row (lv_acl s) u = Some r" "rec_Consent r \<noteq> ConsentGranted"
        using s(1) by (auto simp: closed_def)
      have "\<not> speaks u (lv_buf s')"
        using e assms(3,4) recheck_speaks(3) [OF s(2) assms(2) _ r] by (auto simp: step_recheck)
      with sp show ?thesis by simp
    qed
  qed
  with closed_step [OF s(1) quiet_no_grant [OF assms(3)] assms(4)] s(2) buf_step_enabled [OF assms(4)]
  show ?thesis by (simp add: cleared_def)
qed

lemma cleared_run:
  assumes "live_run app del s es s'" and "cleared u s" and "u \<noteq> []" and "list_all (quiet_event u) es"
  shows "cleared u s'"
  by (rule live_run_invariant [where P = "cleared u", OF assms(1,2,4)]) (rule cleared_step [OF _ assms(3)])

text \<open>A withdrawal is final for the conversation buffer too: once a user declined and the
  buffer was purged, then whatever ran in between and runs after (no new consent, no failed
  recheck), as soon as no turn of the user stands between its buffering and its recheck, no
  conversation holds a turn of the user - neither one buffered before the purge nor one
  whose message was admitted before the decline and buffered after the purge. Same
  condition on the gate's checks.\<close>

theorem withdrawal_clears_buffer:
  assumes "fresh s0" and "live_run app del s0 pre s1" and "no_check_pending u s1"
    and "SetConsent Done (lv_acl s1) u ConsentDeclined = (None, b)"
    and "live_run app del (s1\<lparr>lv_acl := b\<rparr>) (mid @ PurgeBuf u # rest) s2"
    and "u \<noteq> []" and "list_all (quiet_event u) (mid @ rest)" and "mem_Enabled (lv_buf s0)"
    and "\<And>i f. lv_turns s2 i = Some f \<Longrightarrow> fl_user f = u \<Longrightarrow> \<not> buffering f"
    and "t \<in> set (turns_of (lv_buf s2) c)"
  shows "t_SpeakerID t \<noteq> u"
proof -
  obtain sc where mid: "live_run app del (s1\<lparr>lv_acl := b\<rparr>) mid sc"
    and rest: "live_run app del (sc\<lparr>lv_buf := mem_PurgeUser (lv_buf sc) u\<rparr>) rest s2"
    using assms(5) by (auto simp: live_run_append live_run_Cons step_purge_buf)
  have en: "mem_Enabled (lv_buf s')" if "live_run app del s es s'" "mem_Enabled (lv_buf s)" for s es s'
    by (rule live_run_invariant [where P = "\<lambda>s. mem_Enabled (lv_buf s)" and A = "\<lambda>_. True", OF that])
      (simp_all add: buf_step_enabled list_all_iff)
  have own: "own_rows s1" using assms(1,2) by (auto intro: own_rows_run fresh_own_rows)
  have c1: "closed u (s1\<lparr>lv_acl := b\<rparr>)"
    using assms(3) by (intro closed_declined [OF own assms(4)]) (auto simp: no_check_pending_def)
  have ng: "list_all (\<lambda>e. \<not> grants u e) mid"
    using assms(7) by (auto simp: list_all_iff dest: quiet_no_grant)
  have csc: "closed u sc" by (rule closed_run [OF c1 ng mid])
  have esc: "mem_Enabled (lv_buf sc)" using en [OF mid] en [OF assms(2,8)] by simp
  have "closed u (sc\<lparr>lv_buf := b'\<rparr>) = closed u sc" for b' by (simp add: closed_def own_rows_def)
  then have "cleared u (sc\<lparr>lv_buf := mem_PurgeUser (lv_buf sc) u\<rparr>)"
    using csc esc assms(6) by (simp add: cleared_def purge_speaks)
  from cleared_run [OF rest this assms(6)] assms(7) have "cleared u s2" by simp
  with assms(9) have "\<not> speaks u (lv_buf s2)" by (auto simp only: cleared_def pending_turn_def)
  with assms(10) show ?thesis by (auto simp: speaks_def)
qed

section \<open>Witnesses\<close>

definition demo_app :: "(string \<times> string) list appender" where
  "demo_app st u sess k x m = (None, (st, u) # m)"

definition demo_del :: "(string \<times> string) list deleter" where
  "demo_del = (\<lambda>ns. Some (\<lambda>u m. (None, filter (\<lambda>r. r \<noteq> (ns, u)) m)))"

definition demo_holds :: "(string \<times> string) list \<Rightarrow> string \<Rightarrow> string \<Rightarrow> bool" where
  "demo_holds m ns u \<longleftrightarrow> (ns, u) \<in> set m"

lemma demo_subject_store: "subject_store demo_app demo_del demo_holds"
  by (auto simp: subject_store_def demo_app_def demo_del_def demo_holds_def)

definition demo_granted :: acl_record where
  "demo_granted = (zero_record ''42'')\<lparr>rec_Consent := ConsentGranted\<rparr>"

definition demo_live :: "(string \<times> string) list live" where
  "demo_live = \<lparr>lv_gate = new_gate TierDefault, lv_acl = [(''42'', Blob demo_granted)], lv_buf = mem_New 9,
     lv_lm = \<lparr>lm_Store = ''ns'', lm_Groups = Map.empty, lm_Window = hour, lm_Scrubber = None,
       lm_withdrawn = Map.empty\<rparr>,
     lv_mem = [], lv_turns = Map.empty\<rparr>"

lemma demo_fresh: "fresh demo_live"
  by (simp add: fresh_def demo_live_def acl_wf_def bk_wf_def demo_granted_def)

text \<open>A turn of user 42 is admitted and running when 42 withdraws; it ends after the erase.\<close>

definition demo_running :: "(string \<times> string) list live" where
  "demo_running = demo_live\<lparr>lv_acl := [(''42'', Blob (demo_granted\<lparr>rec_RateWindowStart := 7, rec_RateCount := 1\<rparr>))],
     lv_buf := rememberUser 8 (mem_New 9) demo_inbound,
     lv_turns := [0 \<mapsto> \<lparr>fl_in = demo_inbound, fl_count = 0,
       fl_phase = Running (mem_use (Some (lv_lm demo_live)) 9 (turn_query demo_inbound 0))\<rparr>]\<rparr>"

lemma demo_read: "check_read Done 7 (new_gate TierDefault) [(''42'', Blob demo_granted)] (gate_in demo_inbound) =
    (Inr (Write (demo_granted\<lparr>rec_RateWindowStart := 7, rec_RateCount := 1\<rparr>)), new_gate TierDefault)"
  by (simp add: check_read_def acl_get_def demo_inbound_def gate_in_def check_decide_def resolveTier_def
      new_gate_def allowanceFor_def tierAllowance_def tier_defs unlimitedRate_def roll_window_def is_zero_def
      Let_def demo_granted_def)

lemma demo_write: "check_write Done (Inr (Write (demo_granted\<lparr>rec_RateWindowStart := 7, rec_RateCount := 1\<rparr>)))
    [(''42'', Blob demo_granted)] =
    ((DecideServe, None), [(''42'', Blob (demo_granted\<lparr>rec_RateWindowStart := 7, rec_RateCount := 1\<rparr>))])"
  by (simp add: check_write_def acl_put_def tx_update_def acl_marshal_def demo_granted_def
      json_time_ok_def duration_defs)

lemma demo_pre: "live_run demo_app demo_del demo_live
    [Count 0 demo_inbound, Read 0 Done 7, Writing 0 Done, Remember 0 8, Use 0 9] demo_running"
  by (simp add: step_simps demo_read demo_write demo_live_def demo_running_def set_phase_def after_write_def
      Withdrawals_def withdrawn_count_def)

definition demo_declined :: acl_record where
  "demo_declined = demo_granted\<lparr>rec_RateWindowStart := 7, rec_RateCount := 1, rec_Consent := ConsentDeclined\<rparr>"

lemma demo_decline: "SetConsent Done (lv_acl demo_running) ''42'' ConsentDeclined = (None, [(''42'', Blob demo_declined)])"
  by (simp add: SetConsent_def acl_update_def tx_update_def acl_marshal_def demo_running_def demo_live_def
      demo_granted_def demo_declined_def json_time_ok_def duration_defs)

lemma demo_no_check: "no_check_pending ''42'' demo_running"
  by (simp add: no_check_pending_def demo_running_def)

definition demo_rest :: "event list" where
  "demo_rest = [Deleting ''ns'' ''42'' None, Keep 0 ''hi'' ''answer'']"

lemma demo_withdraws: "\<exists>s2. withdraws demo_app demo_del ''42'' demo_running [] demo_rest s2"
proof -
  have "lv_turns demo_running = [0 \<mapsto> \<lparr>fl_in = demo_inbound, fl_count = 0,
      fl_phase = Running (mem_use (Some (lv_lm demo_live)) 9 (turn_query demo_inbound 0))\<rparr>]"
    by (simp add: demo_running_def)
  then show ?thesis
    unfolding withdraws_def by (simp add: demo_decline demo_rest_def step_simps Withdraw_eq demo_del_def)
qed

theorem withdrawal_is_final_witness:
  "\<exists>s2. withdraws demo_app demo_del ''42'' demo_running [] demo_rest s2 \<and> \<not> demo_holds (lv_mem s2) ''ns'' ''42''"
proof -
  obtain s2 where w: "withdraws demo_app demo_del ''42'' demo_running [] demo_rest s2" using demo_withdraws by blast
  from withdrawal_is_final [OF demo_subject_store demo_fresh demo_pre demo_no_check w, of "''ns''"] w
  show ?thesis by (auto simp: demo_rest_def)
qed

theorem withdrawal_clears_buffer_witness:
  "\<exists>s2. live_run demo_app demo_del (demo_running\<lparr>lv_acl := [(''42'', Blob demo_declined)]\<rparr>)
      ([] @ PurgeBuf ''42'' # [Keep 0 ''hi'' ''answer'', Recheck 0 Done]) s2 \<and>
     (\<forall>t \<in> set (turns_of (lv_buf s2) ''-100''). t_SpeakerID t \<noteq> ''42'')"
proof -
  obtain s2 where r: "live_run demo_app demo_del (demo_running\<lparr>lv_acl := [(''42'', Blob demo_declined)]\<rparr>)
      ([] @ PurgeBuf ''42'' # [Keep 0 ''hi'' ''answer'', Recheck 0 Done]) s2"
    and i: "lv_turns s2 = [0 \<mapsto> \<lparr>fl_in = demo_inbound, fl_count = 0, fl_phase = Over\<rparr>]"
    by (simp add: step_simps demo_running_def demo_live_def set_phase_def)
  have idle: "\<not> buffering f" if "lv_turns s2 j = Some f" for j f
    using that i by (auto split: if_splits)
  have "\<forall>t \<in> set (turns_of (lv_buf s2) ''-100''). t_SpeakerID t \<noteq> ''42''"
    using withdrawal_clears_buffer [OF demo_fresh demo_pre demo_no_check demo_decline r _ _ _ idle]
    by (simp add: demo_live_def mem_Enabled_def mem_New_def)
  with r show ?thesis by blast
qed

text \<open>The condition on the gate's checks is needed: there is a run in which a user withdraws,
  every step of the withdrawal succeeds (decline, count, delete), and the user never consents
  again, and yet a message the user sends afterwards is admitted, answered and kept in
  long-term memory - because a check that had read the row before the decline wrote it back
  after.\<close>

theorem withdrawal_undone:
  "\<exists>s2. live_run demo_app demo_del demo_live
     [Count 0 demo_inbound, Read 0 Done 7,
      Consenting Done ''42'' ConsentDeclined, Withdrawing ''42'', Deleting ''ns'' ''42'' None,
      Writing 0 Done,
      Count 1 demo_inbound, Read 1 Done 8, Writing 1 Done, Remember 1 9, Use 1 9, Keep 1 ''hi'' ''answer''] s2 \<and>
     demo_holds (lv_mem s2) ''ns'' ''42''"
proof -
  let ?r1 = "demo_granted\<lparr>rec_RateWindowStart := 7, rec_RateCount := 1\<rparr>"
  let ?r2 = "demo_granted\<lparr>rec_RateWindowStart := 7, rec_RateCount := 2\<rparr>"
  let ?d = "demo_granted\<lparr>rec_Consent := ConsentDeclined\<rparr>"
  have c: "SetConsent Done [(''42'', Blob demo_granted)] ''42'' ConsentDeclined = (None, [(''42'', Blob ?d)])"
    by (simp add: SetConsent_def acl_update_def tx_update_def acl_marshal_def demo_granted_def
        json_time_ok_def duration_defs)
  have w1: "check_write Done (Inr (Write ?r1)) [(''42'', Blob ?d)] = ((DecideServe, None), [(''42'', Blob ?r1)])"
    by (simp add: check_write_def acl_put_def tx_update_def acl_marshal_def demo_granted_def
        json_time_ok_def duration_defs)
  have r2: "check_read Done 8 (new_gate TierDefault) [(''42'', Blob ?r1)] (gate_in demo_inbound) =
      (Inr (Write ?r2), new_gate TierDefault)"
    by (simp add: check_read_def acl_get_def demo_inbound_def gate_in_def check_decide_def resolveTier_def
        new_gate_def allowanceFor_def tierAllowance_def tier_defs unlimitedRate_def roll_window_def is_zero_def
        Let_def demo_granted_def time_sub_def duration_bounds duration_defs rateWindow_def)
  have w2: "check_write Done (Inr (Write ?r2)) [(''42'', Blob ?r1)] = ((DecideServe, None), [(''42'', Blob ?r2)])"
    by (simp add: check_write_def acl_put_def tx_update_def acl_marshal_def demo_granted_def
        json_time_ok_def duration_defs)
  have f: "u_ID (in_User demo_inbound) = ''42''" "in_Surface demo_inbound = SurfaceGroup" "in_ReplyTo demo_inbound = ''-100''"
    by (simp_all add: demo_inbound_def)
  show ?thesis
    by (simp add: step_simps demo_read demo_live_def c w1 r2 w2 set_phase_def after_write_def Withdraw_eq
        Withdrawals_def withdrawn_count_def demo_del_def mem_use_def turn_query_def f
        storeFor_def mem_keep_def demo_app_def demo_holds_def)
qed

definition demo_lm :: "string long_memory" where
  "demo_lm = \<lparr>lm_Store = ''ns'', lm_Groups = Map.empty, lm_Window = hour, lm_Scrubber = None, lm_withdrawn = Map.empty\<rparr>"

definition demo_ns_engine :: "(unit, string, string list) engine" where
  "demo_ns_engine = \<lparr>e_retriever = (\<lambda>_ e. (Inr [], e)), e_run = (\<lambda>_ e. (RunAnswer ''hello'', e)),
     e_render = (\<lambda>_. []), e_clock = (\<lambda>_. ''12:00''), e_modelName = ''m'', e_tools = Some 1, e_scope = [], e_persona = [],
     e_prompt = None, e_language = [], e_contextTokens = 0, e_maxOutputTokens = 4096, e_temperature = None,
     e_append = (\<lambda>st u s k x m. (None, x # m))\<rparr>"

definition demo_memory_world :: "(unit, string, string list) world" where
  "demo_memory_world = \<lparr>w_gate = new_gate TierDefault, w_acl = [(''42'', Blob demo_granted)], w_buf = mem_New 10,
     w_qlog = Some [], w_tlog = Some [], w_pend = None, w_lm = Some demo_lm, w_ns = \<lparr>nr_dropped = [], nr_disk = None\<rparr>,
     w_env = (), w_mem = []\<rparr>"


end
