(* ===== verification/Normalize.thy ===== *)
theory Normalize
  imports Utf8
begin

text \<open>
  The lookup keys of \<^verbatim>\<open>internal/store/normalize.go\<close>. NFKC (golang.org/x/text, not under
  \<^verbatim>\<open>src/\<close>) is the parameter \<open>nfkc\<close>; the tables of \<^verbatim>\<open>unicode\<close> that are consulted here beside those
  of theory \<open>GoText\<close> extend its record: numbers (category N), and punctuation or symbols
  (categories P and S).
\<close>

record tables = unicode +
  uc_number :: "rune \<Rightarrow> bool"
  uc_punct :: "rune \<Rightarrow> bool"

definition ascii_full :: tables where
  "ascii_full = unicode.extend ascii_tables
     \<lparr>uc_number = (\<lambda>r. 48 \<le> r \<and> r \<le> 57),
      uc_punct = (\<lambda>r. 33 \<le> r \<and> r \<le> 47 \<or> 58 \<le> r \<and> r \<le> 64 \<or> 91 \<le> r \<and> r \<le> 96 \<or> 123 \<le> r \<and> r \<le> 126)\<rparr>"

definition persianFold :: "rune \<rightharpoonup> rune" where
  "persianFold = [1610 \<mapsto> 1740, 1609 \<mapsto> 1740, 1603 \<mapsto> 1705, 1577 \<mapsto> 1607, 1728 \<mapsto> 1607, 1729 \<mapsto> 1607]"

definition removed :: "rune \<Rightarrow> bool" where
  "removed r \<longleftrightarrow> r = 8204 \<or> r = 8205 \<or> 1611 \<le> r \<and> r \<le> 1618 \<or> r = 1648 \<or> r = 1600"

definition foldDigit :: "rune \<Rightarrow> rune" where
  "foldDigit r =
     (if 1632 \<le> r \<and> r \<le> 1641 then 48 + (r - 1632)
      else if 1776 \<le> r \<and> r \<le> 1785 then 48 + (r - 1776) else r)"

definition separator :: "('a :: type) tables_scheme \<Rightarrow> rune \<Rightarrow> bool" where
  "separator uc r \<longleftrightarrow> is_space r \<or> r = 45 \<or> uc_punct uc r"

text \<open>The loop's state is \<^verbatim>\<open>inSep\<close> and the builder.\<close>

fun collapse_from :: "'a tables_scheme \<Rightarrow> rune list \<Rightarrow> bool \<Rightarrow> string \<Rightarrow> string" where
  "collapse_from uc [] inSep b = b"
| "collapse_from uc (r # rs) inSep b =
     (if separator uc r then collapse_from uc rs True b
      else collapse_from uc rs False ((if inSep \<and> b \<noteq> [] then b @ '' '' else b) @ encode_rune r))"

definition collapseSeparators :: "'a tables_scheme \<Rightarrow> string \<Rightarrow> string" where
  "collapseSeparators uc s = collapse_from uc (runes s) False []"

definition fold_rune :: "'a tables_scheme \<Rightarrow> rune \<Rightarrow> rune" where
  "fold_rune uc r =
     (let r1 = (case persianFold r of Some f \<Rightarrow> f | None \<Rightarrow> r) in uc_lower uc (foldDigit r1))"

definition normalizeKey :: "(string \<Rightarrow> string) \<Rightarrow> 'a tables_scheme \<Rightarrow> string \<Rightarrow> string" where
  "normalizeKey nfkc uc s =
     collapseSeparators uc (TrimSpace (of_runes (map (fold_rune uc) (filter (\<lambda>r. \<not> removed r) (runes (nfkc s))))))"

section \<open>The reference\<close>

text \<open>Collapsing is splitting at separators and joining the words with single spaces.\<close>

lemma split_runes_acc:
  "acc \<noteq> [] \<Longrightarrow> split_runes f rs acc =
     (acc @ takeWhile (\<lambda>r. \<not> f r) rs) # split_runes f (dropWhile (\<lambda>r. \<not> f r) rs) []"
proof (induction f rs acc rule: split_runes.induct)
  case (2 f r rs acc)
  show ?case
  proof (cases "f r")
    case True
    with 2(3) show ?thesis by simp
  next
    case False
    with 2(2) show ?thesis by simp
  qed
qed simp

lemma split_runes_space: "f r \<Longrightarrow> split_runes f (r # rs) [] = split_runes f rs []"
  by simp

lemma join_snoc: "ws \<noteq> [] \<Longrightarrow> join sep (ws @ [w]) = join sep ws @ sep @ w"
  by (cases ws) (simp_all add: join_def)

lemma join_last: "join sep (ws @ [w @ v]) = join sep (ws @ [w]) @ v"
  by (cases ws) (simp_all add: join_def)

lemma join_eq_Nil: "(\<And>w. w \<in> set ws \<Longrightarrow> w \<noteq> []) \<Longrightarrow> join sep ws = [] \<longleftrightarrow> ws = []"
  by (cases ws) (auto simp: join_def)

lemma collapse_from_eq:
  assumes "\<And>w. w \<in> set ws \<Longrightarrow> w \<noteq> []"
  shows "collapse_from uc rs True (join '' '' (map of_runes ws)) =
      join '' '' (map of_runes (ws @ split_runes (separator uc) rs []))"
    and "w \<noteq> [] \<Longrightarrow> collapse_from uc rs False (join '' '' (map of_runes (ws @ [w]))) =
      join '' '' (map of_runes (ws @ split_runes (separator uc) rs w))"
  using assms
proof (induction rs arbitrary: ws w)
  case Nil
  { case 1 then show ?case by simp }
  { case 2 then show ?case by simp }
next
  case (Cons r rs)
  { case 1
    show ?case
    proof (cases "separator uc r")
      case True
      with Cons(1) 1 show ?thesis by simp
    next
      case False
      have ne: "join '' '' (map of_runes ws) = [] \<longleftrightarrow> ws = []"
        using 1 by (subst join_eq_Nil) auto
      have "(if join '' '' (map of_runes ws) \<noteq> [] then join '' '' (map of_runes ws) @ '' '' else join '' '' (map of_runes ws))
          @ encode_rune r = join '' '' (map of_runes (ws @ [[r]]))"
        unfolding ne using join_snoc [of "map of_runes ws" "'' ''" "encode_rune r"]
        by (cases "ws = []") (simp_all add: join_def [of _ "[]"] join_def [of _ "[_]"])
      with False Cons(2) [of "[r]" ws] 1 show ?thesis by simp
    qed }
  { case 2
    show ?case
    proof (cases "separator uc r")
      case True
      have "collapse_from uc rs True (join '' '' (map of_runes (ws @ [w]))) =
          join '' '' (map of_runes ((ws @ [w]) @ split_runes (separator uc) rs []))"
        using 2 by (intro Cons(1)) auto
      with True 2 show ?thesis by simp
    next
      case False
      have "join '' '' (map of_runes (ws @ [w])) @ encode_rune r = join '' '' (map of_runes (ws @ [w @ [r]]))"
        using join_last [of "'' ''" "map of_runes ws" "of_runes w" "encode_rune r"] by simp
      with False Cons(2) [of "w @ [r]" ws] 2 show ?thesis by simp
    qed }
qed

lemma collapseSeparators_eq:
  "collapseSeparators uc s = join '' '' (map of_runes (split_runes (separator uc) (runes s) []))"
proof -
  have "collapse_from uc rs False [] = join '' '' (map of_runes (split_runes (separator uc) rs []))" for rs
  proof (induction rs)
    case Nil
    then show ?case by (simp add: join_def)
  next
    case (Cons r rs)
    show ?case
    proof (cases "separator uc r")
      case True
      then show ?thesis using collapse_from_eq(1) [of "[]" uc rs] by (simp add: join_def)
    next
      case False
      then show ?thesis using collapse_from_eq(2) [of "[]" "[r]" uc rs] by (simp add: join_def)
    qed
  qed
  then show ?thesis by (simp add: collapseSeparators_def)
qed

lemma split_runes_dropWhile: "(\<And>r. g r \<Longrightarrow> f r) \<Longrightarrow> split_runes f (dropWhile g rs) [] = split_runes f rs []"
  by (induction rs) auto

lemma split_runes_tail: "list_all f ss \<Longrightarrow> split_runes f (rs @ ss) acc = split_runes f rs acc"
proof (induction f rs acc rule: split_runes.induct)
  case (1 f acc)
  have "split_runes f ss [] = []" if "list_all f ss" for ss using that by (induction ss) auto
  with 1 show ?case by (cases ss) auto
qed auto

lemma split_runes_trim:
  assumes "\<And>r. g r \<Longrightarrow> f r"
  shows "split_runes f (rev (dropWhile g (rev (dropWhile g rs)))) [] = split_runes f rs []"
proof -
  have d: "xs = rev (dropWhile g (rev xs)) @ rev (takeWhile g (rev xs))" for xs
    by (metis rev_append rev_rev_ident takeWhile_dropWhile_id)
  have "list_all f (rev (takeWhile g (rev xs)))" for xs
    using assms by (auto simp: list_all_iff dest: set_takeWhileD)
  then have "split_runes f (rev (dropWhile g (rev xs))) [] = split_runes f xs []" for xs
    using split_runes_tail d [of xs] by metis
  then show ?thesis using split_runes_dropWhile [OF assms] by simp
qed

lemma drop_spaces_enc:
  "drop_spaces (map (\<lambda>r. (r, encode_rune r)) rs) = map (\<lambda>r. (r, encode_rune r)) (dropWhile is_space rs)"
  by (induction rs) auto

lemma TrimSpace_of_runes:
  assumes "list_all valid_rune rs"
  shows "TrimSpace (of_runes rs) = of_runes (rev (dropWhile is_space (rev (dropWhile is_space rs))))"
  by (simp only: TrimSpace_def segs_of_runes [OF assms] drop_spaces_enc rev_map)
    (simp add: of_runes_def comp_def)

text \<open>The words a key is made of.\<close>

definition key_words :: "'a tables_scheme \<Rightarrow> rune list \<Rightarrow> rune list list" where
  "key_words uc rs = split_runes (separator uc) (map (fold_rune uc) (filter (\<lambda>r. \<not> removed r) rs)) []"

definition lower_valid :: "'a unicode_scheme \<Rightarrow> bool" where
  "lower_valid uc \<longleftrightarrow> (\<forall>r. valid_rune r \<longrightarrow> valid_rune (uc_lower uc r))"

lemma fold_rune_valid: "lower_valid uc \<Longrightarrow> valid_rune r \<Longrightarrow> valid_rune (fold_rune uc r)"
proof -
  assume l: "lower_valid uc" and v: "valid_rune r"
  have "valid_rune f" if "persianFold r = Some f" for f
  proof -
    from that have "f \<in> {1740, 1705, 1607}" by (simp add: persianFold_def split: if_splits)
    then show ?thesis by (auto simp: valid_rune_def)
  qed
  moreover have "valid_rune (foldDigit x)" if "valid_rune x" for x
    using that by (auto simp: foldDigit_def valid_rune_def)
  ultimately show ?thesis using l v by (simp add: fold_rune_def Let_def lower_valid_def split: option.split)
qed

lemma normalizeKey_words:
  assumes "lower_valid uc"
  shows "normalizeKey nfkc uc s = join '' '' (map of_runes (key_words uc (runes (nfkc s))))"
proof -
  let ?rs = "map (fold_rune uc) (filter (\<lambda>r. \<not> removed r) (runes (nfkc s)))"
  let ?tr = "rev (dropWhile is_space (rev (dropWhile is_space ?rs)))"
  have v: "list_all valid_rune ?rs"
    using runes_valid [of "nfkc s"] fold_rune_valid [OF assms] by (auto simp: list_all_iff)
  have tv: "list_all valid_rune ?tr"
    using v by (auto simp: list_all_iff dest!: set_dropWhileD)
  have "normalizeKey nfkc uc s = collapseSeparators uc (of_runes ?tr)"
    by (simp only: normalizeKey_def TrimSpace_of_runes [OF v])
  also have "\<dots> = join '' '' (map of_runes (split_runes (separator uc) ?tr []))"
    by (simp only: collapseSeparators_eq runes_of_runes [OF tv])
  also have "split_runes (separator uc) ?tr [] = split_runes (separator uc) ?rs []"
    by (rule split_runes_trim) (simp add: separator_def)
  finally show ?thesis by (simp add: key_words_def)
qed

lemma split_join_space:
  "(\<And>w. w \<in> set ws \<Longrightarrow> w \<noteq> [] \<and> 32 \<notin> set w) \<Longrightarrow> split_runes (\<lambda>r. r = 32) (join [32] ws) [] = ws"
proof (induction ws)
  case (Cons w ws)
  have w: "takeWhile (\<lambda>r. r \<noteq> 32) w = w" "dropWhile (\<lambda>r. r \<noteq> 32) w = []" and ne: "w \<noteq> []"
    using Cons.prems [of w] by (auto simp: takeWhile_eq_all_conv dropWhile_eq_Nil_conv)
  obtain r w' where rw: "w = r # w'" using ne by (cases w) auto
  have j: "join [32] (w # ws) = w @ (if ws = [] then [] else 32 # join [32] ws)"
    by (cases ws) (simp_all add: join_def)
  have first: "split_runes (\<lambda>r. r = 32) (w @ rest) [] = split_runes (\<lambda>r. r = 32) rest w" for rest
  proof -
    have "split_runes (\<lambda>r. r = 32) (u @ rest) acc = split_runes (\<lambda>r. r = 32) rest (acc @ u)"
      if "32 \<notin> set u" for u acc using that by (induction u arbitrary: acc) auto
    then show ?thesis using Cons.prems [of w] by simp
  qed
  show ?case using Cons ne by (simp add: j first)
qed (simp add: join_def)

text \<open>Lookup keys ignore spelling and nothing else: two names have the same key exactly when,
  after NFKC, dropping joiners and diacritics, folding Persian letters and digits and case,
  they are the same words; how the words are separated (spaces, hyphens, punctuation, any
  run of them) does not matter.\<close>

theorem normalizeKey_iff:
  assumes "lower_valid uc"
  shows "normalizeKey nfkc uc s = normalizeKey nfkc uc t \<longleftrightarrow>
    key_words uc (runes (nfkc s)) = key_words uc (runes (nfkc t))"
proof
  assume eq: "normalizeKey nfkc uc s = normalizeKey nfkc uc t"
  have w: "normalizeKey nfkc uc x = of_runes (join [32] (key_words uc (runes (nfkc x)))) \<and>
      list_all valid_rune (join [32] (key_words uc (runes (nfkc x)))) \<and>
      (\<forall>w \<in> set (key_words uc (runes (nfkc x))). w \<noteq> [] \<and> 32 \<notin> set w)" for x
  proof -
    let ?rs = "map (fold_rune uc) (filter (\<lambda>r. \<not> removed r) (runes (nfkc x)))"
    have "char_of (of_char (CHR '' '') :: nat) = CHR '' ''" by (rule char_of_char)
    then have e: "of_runes [32] = '' ''" by (simp add: encode_rune_def)
    have ws: "w \<noteq> [] \<and> set w \<subseteq> {r \<in> set ?rs. \<not> separator uc r}" if "w \<in> set (key_words uc (runes (nfkc x)))" for w
      using split_runes_sets that by (fastforce simp: key_words_def)
    have sp: "separator uc 32" by (simp add: separator_def is_space_def)
    have v: "list_all valid_rune ?rs"
      using runes_valid [of "nfkc x"] fold_rune_valid [OF assms] by (auto simp: list_all_iff)
    have "set (join [32] (key_words uc (runes (nfkc x)))) \<subseteq> {32} \<union> set ?rs"
      using set_join [of "[32]" "key_words uc (runes (nfkc x))"] ws by fastforce
    then have "list_all valid_rune (join [32] (key_words uc (runes (nfkc x))))"
      using v by (auto simp: list_all_iff valid_rune_def)
    moreover have "normalizeKey nfkc uc x = of_runes (join [32] (key_words uc (runes (nfkc x))))"
      by (simp only: normalizeKey_words [OF assms] of_runes_join e)
    moreover have "\<forall>w \<in> set (key_words uc (runes (nfkc x))). w \<noteq> [] \<and> 32 \<notin> set w"
      using ws sp by fastforce
    ultimately show ?thesis by simp
  qed
  have "join [32] (key_words uc (runes (nfkc s))) = join [32] (key_words uc (runes (nfkc t)))"
    using eq w [of s] w [of t] by (metis runes_of_runes)
  then show "key_words uc (runes (nfkc s)) = key_words uc (runes (nfkc t))"
    using w [of s] w [of t] by (metis split_join_space)
qed (simp add: normalizeKey_words [OF assms])

theorem normalizeKey_iff_witness:
  "normalizeKey id ascii_full ''Acme--Rail'' = normalizeKey id ascii_full '' acme  (rail)''"
proof -
  have l: "lower_valid ascii_full"
    by (auto simp: lower_valid_def ascii_full_def ascii_tables_def unicode.defs valid_rune_def)
  have "runes ''Acme--Rail'' = map of_char ''Acme--Rail''" "runes '' acme  (rail)'' = map of_char '' acme  (rail)''"
    by (rule runes_ascii; simp)+
  then show ?thesis
    by (subst normalizeKey_iff [OF l])
      (simp add: key_words_def removed_def fold_rune_def persianFold_def foldDigit_def separator_def
        is_space_def ascii_full_def ascii_tables_def unicode.defs)
qed

end
