(* ===== verification/Planner.thy ===== *)
theory Planner
  imports Complex_Main Core GoText "HOL-Library.Multiset"
begin

text \<open>
  The query step of retrieval, \<^verbatim>\<open>internal/retrieval/planner.go\<close>: the modes, their fallbacks, and
  the rank fusion. A store and an embedder are functions from their arguments to outcomes;
  what the planner relies on of a store is the locale \<open>retrieval_store\<close>, which the in-memory
  backend of theory \<open>StoreMem\<close> interprets. Scores are float64 in the code: here they are
  rationals with the rounding \<open>rnd\<close> of every operation written out, and what the results need
  of \<open>rnd\<close> is that it is monotone, idempotent and keeps zero, as IEEE rounding is.
\<close>

section \<open>Configuration\<close>

definition ModeKeyword :: string where "ModeKeyword = ''keyword''"
definition ModeSemantic :: string where "ModeSemantic = ''semantic''"
definition ModeHybrid :: string where "ModeHybrid = ''hybrid''"

lemmas mode_defs = ModeKeyword_def ModeSemantic_def ModeHybrid_def

definition defaultMaxChunks :: int where "defaultMaxChunks = 8"
definition rrfK :: nat where "rrfK = 60"
definition DefaultFusionDepth :: int where "DefaultFusionDepth = 30"

record planner =
  pl_mode :: string
  pl_maxChunks :: int
  pl_fusionDepth :: int

definition WithFusionDepth :: "int \<Rightarrow> planner \<Rightarrow> planner" where
  "WithFusionDepth n p = p\<lparr>pl_fusionDepth := n\<rparr>"

definition NewPlanner :: "string \<Rightarrow> int \<Rightarrow> (planner \<Rightarrow> planner) list \<Rightarrow> planner" where
  "NewPlanner mode maxChunks opts =
     (let m = (if maxChunks \<le> 0 then defaultMaxChunks else maxChunks);
          p = foldl (\<lambda>p opt. opt p) \<lparr>pl_mode = mode, pl_maxChunks = m, pl_fusionDepth = DefaultFusionDepth\<rparr> opts
      in if pl_fusionDepth p < pl_maxChunks p then p\<lparr>pl_fusionDepth := pl_maxChunks p\<rparr> else p)"

section \<open>Rank fusion\<close>

definition rrf_key :: "chunk \<Rightarrow> string" where
  "rrf_key c = c_Source c @ [char_of (0 :: nat)] @ c_Text c"

text \<open>The table of \<^verbatim>\<open>rrfFuse\<close>, its rows in first-seen order.\<close>

record agg =
  ag_chunk :: chunk
  ag_score :: rat

definition rrf_weight :: "(rat \<Rightarrow> rat) \<Rightarrow> nat \<Rightarrow> rat" where
  "rrf_weight rnd rank = rnd (1 / of_nat (rrfK + rank))"

fun rrf_add :: "(rat \<Rightarrow> rat) \<Rightarrow> agg list \<Rightarrow> nat \<times> chunk \<Rightarrow> agg list" where
  "rrf_add rnd [] (rank, c) = [\<lparr>ag_chunk = c, ag_score = rnd (0 + rrf_weight rnd rank)\<rparr>]"
| "rrf_add rnd (a # as) (rank, c) =
     (if rrf_key (ag_chunk a) = rrf_key c
      then a\<lparr>ag_score := rnd (ag_score a + rrf_weight rnd rank)\<rparr> # as
      else a # rrf_add rnd as (rank, c))"

definition rrf_leg :: "(rat \<Rightarrow> rat) \<Rightarrow> agg list \<Rightarrow> chunk list \<Rightarrow> agg list" where
  "rrf_leg rnd as chunks = foldl (rrf_add rnd) as (enumerate 0 chunks)"

definition rrfFuse :: "(rat \<Rightarrow> rat) \<Rightarrow> chunk list list \<Rightarrow> int \<Rightarrow> chunk list" where
  "rrfFuse rnd legs k =
     (let fused = sort_key (\<lambda>a. - ag_score a) (foldl (rrf_leg rnd) [] legs);
          capped = (if 0 < k \<and> int (length fused) > k then take (nat k) fused else fused)
      in map ag_chunk capped)"

section \<open>Retrieval\<close>

text \<open>\<open>kw\<close>, \<open>sem\<close> and \<open>emb\<close> are \<^verbatim>\<open>Store.Keyword\<close>, \<^verbatim>\<open>Store.Semantic\<close> and \<^verbatim>\<open>Embedder.Embed\<close>.\<close>

definition semanticLeg ::
    "('v \<Rightarrow> int \<Rightarrow> chunk list result) \<Rightarrow> (string list \<Rightarrow> 'v list result) \<Rightarrow> string \<Rightarrow> int \<Rightarrow> chunk list result" where
  "semanticLeg sem emb query k =
     (if TrimSpace query = [] then Inr []
      else (case emb [query] of
          Inl e \<Rightarrow> Inl e
        | Inr qv \<Rightarrow> (case qv of [v] \<Rightarrow> sem v k
            | _ \<Rightarrow> Inl (ErrMsg ''retrieval: query embed returned vectors''))))"

definition semanticWithFallback ::
    "(string \<Rightarrow> int \<Rightarrow> chunk list result) \<Rightarrow> ('v \<Rightarrow> int \<Rightarrow> chunk list result) \<Rightarrow> (string list \<Rightarrow> 'v list result)
     \<Rightarrow> planner \<Rightarrow> string \<Rightarrow> chunk list result" where
  "semanticWithFallback kw sem emb p query =
     (case semanticLeg sem emb query (pl_maxChunks p) of
        Inl e \<Rightarrow> kw query (pl_maxChunks p)
      | Inr chunks \<Rightarrow> Inr chunks)"

definition hybrid ::
    "(rat \<Rightarrow> rat) \<Rightarrow> (string \<Rightarrow> int \<Rightarrow> chunk list result) \<Rightarrow> ('v \<Rightarrow> int \<Rightarrow> chunk list result)
     \<Rightarrow> (string list \<Rightarrow> 'v list result) \<Rightarrow> planner \<Rightarrow> string \<Rightarrow> chunk list result" where
  "hybrid rnd kw sem emb p query =
     (let k = kw query (pl_fusionDepth p); s = semanticLeg sem emb query (pl_fusionDepth p);
          legs = (case k of Inl _ \<Rightarrow> [] | Inr cs \<Rightarrow> [cs]) @ (case s of Inl _ \<Rightarrow> [] | Inr cs \<Rightarrow> [cs])
      in (case (k, s) of
            (Inl _, Inl e) \<Rightarrow> Inl e
          | _ \<Rightarrow> Inr (rrfFuse rnd legs (pl_maxChunks p))))"

definition Retrieve ::
    "(rat \<Rightarrow> rat) \<Rightarrow> (string \<Rightarrow> int \<Rightarrow> chunk list result) \<Rightarrow> ('v \<Rightarrow> int \<Rightarrow> chunk list result)
     \<Rightarrow> (string list \<Rightarrow> 'v list result) \<Rightarrow> planner \<Rightarrow> string \<Rightarrow> chunk list result" where
  "Retrieve rnd kw sem emb p query =
     (if pl_mode p = ModeKeyword then kw query (pl_maxChunks p)
      else if pl_mode p = ModeSemantic then semanticWithFallback kw sem emb p query
      else if pl_mode p = ModeHybrid then hybrid rnd kw sem emb p query
      else Inl (ErrMsg ''retrieval: unknown mode''))"

section \<open>The table\<close>

definition tkeys :: "agg list \<Rightarrow> string list" where
  "tkeys as = map (\<lambda>a. rrf_key (ag_chunk a)) as"

definition tchunks :: "agg list \<Rightarrow> chunk set" where
  "tchunks as = ag_chunk ` set as"

lemma tkeys_simps [simp]: "tkeys [] = []" "tkeys (a # as) = rrf_key (ag_chunk a) # tkeys as"
  by (simp_all add: tkeys_def)

lemma tchunks_simps [simp]: "tchunks [] = {}" "tchunks (a # as) = insert (ag_chunk a) (tchunks as)"
  by (simp_all add: tchunks_def)

lemma rrf_add_keys: "tkeys (rrf_add rnd as (r, c)) = (if rrf_key c \<in> set (tkeys as) then tkeys as else tkeys as @ [rrf_key c])"
  by (induction as) auto

lemma rrf_add_chunks: "tchunks (rrf_add rnd as (r, c)) \<subseteq> insert c (tchunks as)"
  by (induction as) auto

lemma rrf_leg_Nil [simp]: "rrf_leg rnd as [] = as"
  by (simp add: rrf_leg_def)

lemma rrf_leg_snoc: "rrf_leg rnd as (cs @ [c]) = rrf_add rnd (rrf_leg rnd as cs) (length cs, c)"
  by (simp add: rrf_leg_def enumerate_append_eq)

lemma rrf_leg_keys: "set (tkeys (rrf_leg rnd as cs)) = set (tkeys as) \<union> rrf_key ` set cs"
  by (induction cs rule: rev_induct) (auto simp: rrf_leg_snoc rrf_add_keys)

lemma rrf_leg_distinct: "distinct (tkeys as) \<Longrightarrow> distinct (tkeys (rrf_leg rnd as cs))"
  by (induction cs rule: rev_induct) (auto simp: rrf_leg_snoc rrf_add_keys)

lemma rrf_leg_chunks: "tchunks (rrf_leg rnd as cs) \<subseteq> tchunks as \<union> set cs"
  by (induction cs rule: rev_induct) (use rrf_add_chunks in \<open>force simp: rrf_leg_snoc\<close>)+

abbreviation table :: "(rat \<Rightarrow> rat) \<Rightarrow> chunk list list \<Rightarrow> agg list" where
  "table rnd legs \<equiv> foldl (rrf_leg rnd) [] legs"

lemma table_keys: "set (tkeys (table rnd legs)) = rrf_key ` (\<Union>(set ` set legs))"
  by (induction legs rule: rev_induct) (auto simp: rrf_leg_keys)

lemma table_distinct: "distinct (tkeys (table rnd legs))"
  by (induction legs rule: rev_induct) (auto simp: rrf_leg_distinct)

lemma table_chunks: "tchunks (table rnd legs) \<subseteq> \<Union>(set ` set legs)"
proof (induction legs rule: rev_induct)
  case (snoc cs legs)
  then show ?case using rrf_leg_chunks [of rnd "table rnd legs" cs] by auto
qed simp

abbreviation ranked :: "(rat \<Rightarrow> rat) \<Rightarrow> chunk list list \<Rightarrow> agg list" where
  "ranked rnd legs \<equiv> sort_key (\<lambda>a. - ag_score a) (table rnd legs)"

lemma ranked_distinct: "distinct (tkeys (ranked rnd legs))"
proof -
  have "mset (tkeys (ranked rnd legs)) = mset (tkeys (table rnd legs))" by (simp add: tkeys_def)
  then show ?thesis using table_distinct mset_eq_imp_distinct_iff by blast
qed

lemma length_ranked: "length (ranked rnd legs) = card (rrf_key ` (\<Union>(set ` set legs)))"
  using distinct_card [OF table_distinct, of rnd legs] unfolding table_keys by (simp add: tkeys_def)

lemma rrfFuse_take: "rrfFuse rnd legs k =
    map ag_chunk (if 0 < k then take (nat k) (ranked rnd legs) else ranked rnd legs)"
  by (simp add: rrfFuse_def Let_def)

lemma map_key_chunks: "map rrf_key (map ag_chunk as) = tkeys as"
  by (simp add: tkeys_def)

lemma rrfFuse_keys: "map rrf_key (rrfFuse rnd legs k) =
    (if 0 < k then take (nat k) (tkeys (ranked rnd legs)) else tkeys (ranked rnd legs))"
  by (simp add: rrfFuse_take tkeys_def take_map)

lemma rrfFuse_distinct: "distinct (map rrf_key (rrfFuse rnd legs k))"
  unfolding rrfFuse_keys using ranked_distinct by simp

lemma rrfFuse_from_legs: "set (rrfFuse rnd legs k) \<subseteq> \<Union>(set ` set legs)"
  using table_chunks [of rnd legs] by (auto simp: rrfFuse_take tchunks_def dest!: in_set_takeD)

lemma rrfFuse_cap: "0 < k \<Longrightarrow> length (rrfFuse rnd legs k) \<le> nat k"
  by (simp add: rrfFuse_take)

lemma rrfFuse_all:
  assumes "k \<le> 0 \<or> int (card (rrf_key ` (\<Union>(set ` set legs)))) \<le> k"
  shows "rrf_key ` set (rrfFuse rnd legs k) = rrf_key ` (\<Union>(set ` set legs))"
proof -
  have "map rrf_key (rrfFuse rnd legs k) = tkeys (ranked rnd legs)"
    unfolding rrfFuse_keys using assms length_ranked [of rnd legs] by (auto simp: tkeys_def)
  then have "set (map rrf_key (rrfFuse rnd legs k)) = set (tkeys (table rnd legs))" by (simp add: tkeys_def)
  then show ?thesis by (simp add: table_keys)
qed

section \<open>Order\<close>

text \<open>Every occurrence of \<open>y\<close> has an \<open>x\<close> before it.\<close>

definition precedes :: "'a list \<Rightarrow> 'a \<Rightarrow> 'a \<Rightarrow> bool" where
  "precedes xs x y \<longleftrightarrow> (\<forall>ys zs. xs = ys @ y # zs \<longrightarrow> x \<in> set ys)"

lemma precedes_Nil [simp]: "precedes [] x y"
  by (simp add: precedes_def)

lemma precedes_in: "precedes xs x y \<Longrightarrow> y \<in> set xs \<Longrightarrow> x \<in> set xs"
  unfolding precedes_def by (drule split_list) auto

lemma precedes_absent: "y \<notin> set xs \<Longrightarrow> precedes xs x y"
  unfolding precedes_def by auto

lemma precedes_snoc: "precedes (xs @ [z]) x y \<longleftrightarrow> precedes xs x y \<and> (z = y \<longrightarrow> x \<in> set xs)"
proof
  assume p: "precedes (xs @ [z]) x y"
  have "x \<in> set ys" if "xs = ys @ y # zs" for ys zs
    using p that by (auto simp: precedes_def dest: spec [of _ ys] spec [of _ "zs @ [z]"])
  moreover have "x \<in> set xs" if "z = y" using p that by (auto simp: precedes_def)
  ultimately show "precedes xs x y \<and> (z = y \<longrightarrow> x \<in> set xs)" by (auto simp: precedes_def)
next
  assume p: "precedes xs x y \<and> (z = y \<longrightarrow> x \<in> set xs)"
  show "precedes (xs @ [z]) x y"
    unfolding precedes_def
  proof (intro allI impI)
    fix ys zs assume e: "xs @ [z] = ys @ y # zs"
    show "x \<in> set ys"
    proof (cases zs rule: rev_cases)
      case Nil
      with e p show ?thesis by simp
    next
      case (snoc zs' z')
      with e have "xs = ys @ y # zs'" by (metis append_Cons append_assoc butlast_snoc)
      with p show ?thesis by (auto simp: precedes_def)
    qed
  qed
qed

lemma precedes_take: "precedes xs x y \<Longrightarrow> precedes (take n xs) x y"
  unfolding precedes_def
proof (intro allI impI)
  fix ys zs assume p: "\<forall>ys zs. xs = ys @ y # zs \<longrightarrow> x \<in> set ys" and "take n xs = ys @ y # zs"
  then have "xs = ys @ y # zs @ drop n xs" by (metis append_Cons append_assoc append_take_drop_id)
  with p show "x \<in> set ys" by blast
qed

lemma filter_split:
  "filter P xs = ys @ y # zs \<Longrightarrow> \<exists>us vs. xs = us @ y # vs \<and> filter P us = ys"
proof (induction xs arbitrary: ys)
  case (Cons x xs)
  show ?case
  proof (cases "P x \<and> ys = []")
    case True
    with Cons.prems have "x # xs = [] @ y # xs \<and> filter P [] = ys" by simp
    then show ?thesis by blast
  next
    case False
    obtain ys' where ys': "filter P xs = ys' @ y # zs" "ys = (if P x then x # ys' else ys')"
      using Cons.prems False by (cases "P x"; cases ys) auto
    from Cons.IH [OF ys'(1)] obtain us vs where "xs = us @ y # vs" "filter P us = ys'" by blast
    with ys'(2) show ?thesis by (intro exI [of _ "x # us"] exI [of _ vs]) auto
  qed
qed simp

lemma precedes_filter:
  assumes "precedes xs x y" and "P x"
  shows "precedes (filter P xs) x y"
  unfolding precedes_def
proof (intro allI impI)
  fix ys zs assume "filter P xs = ys @ y # zs"
  then obtain us vs where v: "xs = us @ y # vs" "filter P us = ys"
    using filter_split [of P xs ys y zs] by blast
  then have "x \<in> set us" using assms(1) unfolding precedes_def by blast
  with v assms(2) show "x \<in> set ys" by auto
qed

text \<open>A stable sort keeps an order the keys agree with.\<close>

lemma precedes_sort_key:
  assumes "precedes xs x y" and "f x \<le> f y"
  shows "precedes (sort_key f xs) x y"
  unfolding precedes_def
proof (intro allI impI)
  fix ys zs assume e: "sort_key f xs = ys @ y # zs"
  have "y \<in> set (sort_key f xs)" unfolding e by simp
  then have "y \<in> set xs" by simp
  then have xin: "x \<in> set xs" by (rule precedes_in [OF assms(1)])
  show "x \<in> set ys"
  proof (cases "f x = f y")
    case True
    have "precedes (filter (\<lambda>z. f z = f y) xs) x y" using assms(1) True by (intro precedes_filter) auto
    then have "precedes (filter (\<lambda>z. f z = f y) (sort_key f xs)) x y" by (simp add: sort_key_stable)
    then show ?thesis unfolding e by (auto simp: precedes_def)
  next
    case False
    have "sorted (map f (sort_key f xs))" by simp
    then have "\<forall>z \<in> set zs. f y \<le> f z" unfolding e by (simp add: sorted_append)
    moreover have "x \<in> set ys \<union> {y} \<union> set zs" using xin e by (metis Un_insert_right insert_is_Un list.set(2) set_append set_sort sup_assoc)
    ultimately show ?thesis using assms(2) False by force
  qed
qed

section \<open>Scores\<close>

definition rounding :: "(rat \<Rightarrow> rat) \<Rightarrow> bool" where
  "rounding rnd \<longleftrightarrow> mono rnd \<and> (\<forall>x. rnd (rnd x) = rnd x) \<and> rnd 0 = 0"

definition tscore :: "agg list \<Rightarrow> string \<Rightarrow> rat" where
  "tscore as k = (case find (\<lambda>a. rrf_key (ag_chunk a) = k) as of None \<Rightarrow> 0 | Some a \<Rightarrow> ag_score a)"

lemma tscore_Nil [simp]: "tscore [] k = 0"
  by (simp add: tscore_def)

lemma tscore_Cons: "tscore (a # as) k = (if rrf_key (ag_chunk a) = k then ag_score a else tscore as k)"
  by (simp add: tscore_def)

lemma tscore_add:
  "tscore (rrf_add rnd as (r, c)) k = (if k = rrf_key c then rnd (tscore as k + rrf_weight rnd r) else tscore as k)"
  by (induction as) (auto simp: tscore_Cons)

lemma tscore_mem: "distinct (tkeys as) \<Longrightarrow> a \<in> set as \<Longrightarrow> tscore as (rrf_key (ag_chunk a)) = ag_score a"
  by (induction as) (auto simp: tscore_Cons tkeys_def rev_image_eqI)

lemma tscore_leg_absent: "k \<notin> rrf_key ` set cs \<Longrightarrow> tscore (rrf_leg rnd as cs) k = tscore as k"
  by (induction cs rule: rev_induct) (auto simp: rrf_leg_snoc tscore_add)

lemma tscore_leg_present:
  "distinct (map rrf_key cs) \<Longrightarrow> i < length cs \<Longrightarrow> rrf_key (cs ! i) = k \<Longrightarrow>
     tscore (rrf_leg rnd as cs) k = rnd (tscore as k + rrf_weight rnd i)"
proof (induction cs arbitrary: i rule: rev_induct)
  case (snoc c cs)
  show ?case
  proof (cases "i = length cs")
    case True
    with snoc.prems have "k = rrf_key c" "k \<notin> rrf_key ` set cs" by (auto simp: nth_append)
    with True show ?thesis by (simp add: rrf_leg_snoc tscore_add tscore_leg_absent)
  next
    case False
    with snoc.prems have i: "i < length cs" "rrf_key (cs ! i) = k" by (auto simp: nth_append)
    then have "k \<in> rrf_key ` set cs" by auto
    moreover have "rrf_key c \<notin> rrf_key ` set cs" using snoc.prems(1) by simp
    ultimately have "k \<noteq> rrf_key c" by metis
    with i snoc show ?thesis by (simp add: rrf_leg_snoc tscore_add)
  qed
qed simp

lemma weight_mono: "rounding rnd \<Longrightarrow> i \<le> j \<Longrightarrow> rrf_weight rnd j \<le> rrf_weight rnd i"
  unfolding rrf_weight_def rounding_def by (elim conjE, erule monoD) (simp add: rrfK_def frac_le)

lemma weight_nonneg: "rounding rnd \<Longrightarrow> 0 \<le> rrf_weight rnd i"
  unfolding rrf_weight_def rounding_def by (metis mono_def of_nat_0_le_iff zero_le_divide_1_iff)

lemma tscore_fixed: "rounding rnd \<Longrightarrow> rnd (tscore (table rnd legs) k) = tscore (table rnd legs) k"
proof (induction legs rule: rev_induct)
  case (snoc cs legs)
  have "rnd (tscore (rrf_leg rnd as cs) k) = tscore (rrf_leg rnd as cs) k"
    if "rnd (tscore as k) = tscore as k" for as
    by (induction cs rule: rev_induct) (use that snoc.prems in \<open>auto simp: rrf_leg_snoc tscore_add rounding_def\<close>)
  with snoc show ?case by simp
qed (simp add: rounding_def)

definition ahead :: "chunk list list \<Rightarrow> string \<Rightarrow> string \<Rightarrow> bool" where
  "ahead legs a b \<longleftrightarrow> (\<forall>cs \<in> set legs. precedes (map rrf_key cs) a b)"

lemma precedes_nth:
  assumes "precedes xs a b" "j < length xs" "xs ! j = b"
  shows "\<exists>i < j. xs ! i = a"
proof -
  have "xs = take j xs @ b # drop (Suc j) xs" using id_take_nth_drop [OF assms(2)] assms(3) by simp
  then have "a \<in> set (take j xs)" using assms(1) unfolding precedes_def by blast
  then show ?thesis using assms(2) by (auto simp: in_set_conv_nth)
qed

lemma ahead_score:
  assumes "rounding rnd"
  shows "\<forall>cs \<in> set legs. distinct (map rrf_key cs) \<Longrightarrow> ahead legs a b \<Longrightarrow>
    tscore (table rnd legs) b \<le> tscore (table rnd legs) a"
proof (induction legs rule: rev_induct)
  case (snoc cs legs)
  let ?t = "table rnd legs"
  have le: "tscore ?t b \<le> tscore ?t a" using snoc by (simp add: ahead_def)
  have d: "distinct (map rrf_key cs)" and p: "precedes (map rrf_key cs) a b"
    using snoc.prems by (simp_all add: ahead_def)
  have m: "mono rnd" using assms by (simp add: rounding_def)
  show ?case
  proof (cases "b \<in> rrf_key ` set cs")
    case True
    then obtain j where j: "j < length cs" "rrf_key (cs ! j) = b" by (metis imageE in_set_conv_nth)
    with precedes_nth [OF p, of j] obtain i where i: "i < j" "rrf_key (cs ! i) = a" by auto
    have "tscore ?t b + rrf_weight rnd j \<le> tscore ?t a + rrf_weight rnd i"
      using le weight_mono [OF assms, of i j] i by (intro add_mono) auto
    then show ?thesis using i j by (simp add: tscore_leg_present [OF d _ i(2)] tscore_leg_present [OF d _ j(2)] monoD [OF m])
  next
    case False
    have "tscore ?t a \<le> tscore (rrf_leg rnd ?t cs) a"
    proof (cases "a \<in> rrf_key ` set cs")
      case True
      then obtain i where i: "i < length cs" "rrf_key (cs ! i) = a" by (metis imageE in_set_conv_nth)
      have "rnd (tscore ?t a) \<le> rnd (tscore ?t a + rrf_weight rnd i)"
        using weight_nonneg [OF assms] by (intro monoD [OF m]) simp
      then show ?thesis using i by (simp add: tscore_leg_present [OF d i] tscore_fixed [OF assms])
    qed (simp add: tscore_leg_absent)
    with False le show ?thesis by (simp add: tscore_leg_absent)
  qed
qed simp

lemma leg_precedes:
  "precedes (tkeys as) a b \<Longrightarrow> precedes (map rrf_key cs) a b \<Longrightarrow> precedes (tkeys (rrf_leg rnd as cs)) a b"
proof (induction cs rule: rev_induct)
  case (snoc c cs)
  have "a \<in> rrf_key ` set cs" if "rrf_key c = b" using snoc.prems(2) that by (simp add: precedes_snoc)
  with snoc show ?case by (auto simp: rrf_leg_snoc rrf_add_keys precedes_snoc rrf_leg_keys)
qed simp

lemma table_precedes: "ahead legs a b \<Longrightarrow> precedes (tkeys (table rnd legs)) a b"
  by (induction legs rule: rev_induct) (auto simp: ahead_def leg_precedes)

lemma row_of_key:
  assumes "distinct (tkeys as)" and "a \<in> set as" "b \<in> set as" "rrf_key (ag_chunk a) = rrf_key (ag_chunk b)"
  shows "a = b"
  using assms unfolding tkeys_def by (auto simp: distinct_map inj_on_def)

lemma precedes_rows:
  assumes "distinct (tkeys as)" and "a \<in> set as" "b \<in> set as"
  shows "precedes (tkeys as) (rrf_key (ag_chunk a)) (rrf_key (ag_chunk b)) \<longleftrightarrow> precedes as a b"
proof
  assume p: "precedes (tkeys as) (rrf_key (ag_chunk a)) (rrf_key (ag_chunk b))"
  show "precedes as a b"
    unfolding precedes_def
  proof (intro allI impI)
    fix ys zs assume e: "as = ys @ b # zs"
    then have "tkeys as = tkeys ys @ rrf_key (ag_chunk b) # tkeys zs" by (simp add: tkeys_def)
    then have "rrf_key (ag_chunk a) \<in> set (tkeys ys)" using p unfolding precedes_def by blast
    then obtain a' where "a' \<in> set ys" "rrf_key (ag_chunk a') = rrf_key (ag_chunk a)" by (auto simp: tkeys_def)
    moreover from this have "a' = a" using row_of_key [OF assms(1), of a' a] assms(2) e by auto
    ultimately show "a \<in> set ys" by simp
  qed
next
  assume p: "precedes as a b"
  show "precedes (tkeys as) (rrf_key (ag_chunk a)) (rrf_key (ag_chunk b))"
    unfolding precedes_def
  proof (intro allI impI)
    fix ks ls assume "tkeys as = ks @ rrf_key (ag_chunk b) # ls"
    then obtain ys b' zs where e: "as = ys @ b' # zs" "tkeys ys = ks" "rrf_key (ag_chunk b') = rrf_key (ag_chunk b)"
      unfolding tkeys_def by (auto simp: map_eq_append_conv map_eq_Cons_conv)
    then have "b' = b" using row_of_key [OF assms(1), of b' b] assms(3) by auto
    with e p have "a \<in> set ys" unfolding precedes_def by blast
    with e(2) show "rrf_key (ag_chunk a) \<in> set ks" by (auto simp: tkeys_def)
  qed
qed

lemma ranked_precedes:
  assumes "rounding rnd" and "\<forall>cs \<in> set legs. distinct (map rrf_key cs)" and "ahead legs a b"
  shows "precedes (tkeys (ranked rnd legs)) a b"
proof (cases "b \<in> set (tkeys (table rnd legs))")
  case True
  then obtain rb where rb: "rb \<in> set (table rnd legs)" "rrf_key (ag_chunk rb) = b" by (auto simp: tkeys_def)
  have p: "precedes (tkeys (table rnd legs)) a b" by (rule table_precedes [OF assms(3)])
  with True have "a \<in> set (tkeys (table rnd legs))" by (blast intro: precedes_in)
  then obtain ra where ra: "ra \<in> set (table rnd legs)" "rrf_key (ag_chunk ra) = a" by (auto simp: tkeys_def)
  have "precedes (table rnd legs) ra rb"
    using precedes_rows [OF table_distinct ra(1) rb(1)] p ra(2) rb(2) by simp
  moreover have "- ag_score ra \<le> - ag_score rb"
    using ahead_score [OF assms] tscore_mem [OF table_distinct ra(1)] tscore_mem [OF table_distinct rb(1)] ra(2) rb(2) by simp
  ultimately have "precedes (ranked rnd legs) ra rb" by (rule precedes_sort_key)
  then show ?thesis
    using precedes_rows [OF ranked_distinct, of ra rnd legs rb] ra rb by simp
next
  case False
  then have "b \<notin> set (tkeys (ranked rnd legs))" by (simp add: tkeys_def)
  then show ?thesis by (rule precedes_absent)
qed

section \<open>What fusion promises\<close>

text \<open>Rank fusion returns each chunk once, only chunks a leg returned, at most the cap (and with
  room for all of them, all of them); and it respects the legs: when one chunk is ahead of
  another in every leg that has the other, it is ahead of it in the result - however the
  float additions round, ties included.\<close>

theorem rrfFuse_respects_legs:
  assumes "rounding rnd" and "\<forall>cs \<in> set legs. distinct (map rrf_key cs)"
  shows "distinct (map rrf_key (rrfFuse rnd legs k)) \<and>
    set (rrfFuse rnd legs k) \<subseteq> \<Union>(set ` set legs) \<and>
    (0 < k \<longrightarrow> length (rrfFuse rnd legs k) \<le> nat k) \<and>
    (k \<le> 0 \<or> int (card (rrf_key ` (\<Union>(set ` set legs)))) \<le> k \<longrightarrow>
       rrf_key ` set (rrfFuse rnd legs k) = rrf_key ` (\<Union>(set ` set legs))) \<and>
    (\<forall>a b. ahead legs a b \<longrightarrow> precedes (map rrf_key (rrfFuse rnd legs k)) a b)"
proof (intro conjI allI impI)
  fix a b assume "ahead legs a b"
  then show "precedes (map rrf_key (rrfFuse rnd legs k)) a b"
    unfolding rrfFuse_keys using ranked_precedes [OF assms] by (auto intro: precedes_take)
next
  assume "0 < k"
  then show "length (rrfFuse rnd legs k) \<le> nat k" by (rule rrfFuse_cap)
qed (rule rrfFuse_distinct rrfFuse_from_legs rrfFuse_all; assumption)+

theorem rrfFuse_respects_legs_witness:
  "let c = \<lparr>c_Source = ''a.md'', c_Text = ''x''\<rparr>; d = \<lparr>c_Source = ''b.md'', c_Text = ''y''\<rparr>
   in precedes (map rrf_key (rrfFuse id [[c, d], [c]] 8)) (rrf_key c) (rrf_key d)"
proof -
  define c where "c = \<lparr>c_Source = ''a.md'', c_Text = ''x''\<rparr>"
  define d where "d = \<lparr>c_Source = ''b.md'', c_Text = ''y''\<rparr>"
  have ne: "rrf_key c \<noteq> rrf_key d" by (simp add: c_def d_def rrf_key_def)
  have r: "rounding id" by (simp add: rounding_def mono_def)
  have p: "precedes [rrf_key c] (rrf_key c) (rrf_key d)" using ne by (intro precedes_absent) simp
  then have "ahead [[c, d], [c]] (rrf_key c) (rrf_key d)"
    using precedes_snoc [of "[rrf_key c]" "rrf_key d"] by (simp add: ahead_def)
  with rrfFuse_respects_legs [OF r, of "[[c, d], [c]]" 8] ne show ?thesis
    by (simp add: Let_def flip: c_def d_def)
qed

section \<open>What the planner relies on of a store\<close>

text \<open>
  Of \<^verbatim>\<open>Store.Keyword\<close> and \<^verbatim>\<open>Store.Semantic\<close> (the interface in \<^verbatim>\<open>internal/store/store.go\<close>): what
  they return was indexed, and with a positive cap is not longer than it.
\<close>

locale retrieval_store =
  fixes wf :: "'s \<Rightarrow> bool"
    and indexed :: "'s \<Rightarrow> chunk set"
    and keyword :: "'s \<Rightarrow> string \<Rightarrow> int \<Rightarrow> chunk list result"
    and semantic :: "'s \<Rightarrow> 'v \<Rightarrow> int \<Rightarrow> chunk list result"
  assumes keyword_indexed: "wf s \<Longrightarrow> keyword s q k = Inr cs \<Longrightarrow> set cs \<subseteq> indexed s"
    and semantic_indexed: "wf s \<Longrightarrow> semantic s v k = Inr cs \<Longrightarrow> set cs \<subseteq> indexed s"
    and keyword_cap: "wf s \<Longrightarrow> keyword s q k = Inr cs \<Longrightarrow> 0 < k \<Longrightarrow> length cs \<le> nat k"
    and semantic_cap: "wf s \<Longrightarrow> semantic s v k = Inr cs \<Longrightarrow> 0 < k \<Longrightarrow> length cs \<le> nat k"
begin

lemma leg_indexed: "wf s \<Longrightarrow> semanticLeg (semantic s) emb q k = Inr cs \<Longrightarrow> set cs \<subseteq> indexed s"
  by (auto simp: semanticLeg_def split: if_splits sum.splits list.splits dest: semantic_indexed)

lemma leg_cap: "wf s \<Longrightarrow> semanticLeg (semantic s) emb q k = Inr cs \<Longrightarrow> 0 < k \<Longrightarrow> length cs \<le> nat k"
  by (auto simp: semanticLeg_def split: if_splits sum.splits list.splits dest: semantic_cap)

lemma hybrid_indexed:
  assumes "wf s" and "hybrid rnd (keyword s) (semantic s) emb p q = Inr cs"
  shows "set cs \<subseteq> indexed s"
proof -
  let ?k = "keyword s q (pl_fusionDepth p)" and ?s = "semanticLeg (semantic s) emb q (pl_fusionDepth p)"
  define legs where "legs = (case ?k of Inl _ \<Rightarrow> [] | Inr cs \<Rightarrow> [cs]) @ (case ?s of Inl _ \<Rightarrow> [] | Inr cs \<Rightarrow> [cs])"
  have "cs = rrfFuse rnd legs (pl_maxChunks p)"
    using assms by (auto simp: hybrid_def Let_def legs_def split: sum.splits)
  moreover have "\<Union>(set ` set legs) \<subseteq> indexed s"
    unfolding legs_def
    using keyword_indexed [OF assms(1), of q "pl_fusionDepth p"] leg_indexed [OF assms(1), of emb q "pl_fusionDepth p"]
    by (cases ?k; cases ?s) auto
  ultimately show ?thesis using rrfFuse_from_legs [of rnd legs "pl_maxChunks p"] by blast
qed

lemma hybrid_cap: "wf s \<Longrightarrow> hybrid rnd (keyword s) (semantic s) emb p q = Inr cs \<Longrightarrow> 0 < pl_maxChunks p \<Longrightarrow>
    length cs \<le> nat (pl_maxChunks p)"
  by (auto simp: hybrid_def Let_def split: sum.splits intro: rrfFuse_cap)

lemma Retrieve_indexed:
  assumes "wf s" and "Retrieve rnd (keyword s) (semantic s) emb p q = Inr cs"
  shows "set cs \<subseteq> indexed s"
  using assms(2)
  by (auto simp: Retrieve_def semanticWithFallback_def split: if_splits sum.splits
      dest!: keyword_indexed [OF assms(1)] leg_indexed [OF assms(1)] hybrid_indexed [OF assms(1)])

lemma Retrieve_cap:
  assumes "wf s" and "Retrieve rnd (keyword s) (semantic s) emb p q = Inr cs" and "0 < pl_maxChunks p"
  shows "length cs \<le> nat (pl_maxChunks p)"
  using assms(2,3)
  by (auto simp: Retrieve_def semanticWithFallback_def split: if_splits sum.splits
      dest!: keyword_cap [OF assms(1)] leg_cap [OF assms(1)] hybrid_cap [OF assms(1)])

end

section \<open>Modes and failures\<close>

lemma NewPlanner_bounds:
  assumes "\<forall>opt \<in> set opts. \<forall>p. pl_maxChunks (opt p) = pl_maxChunks p \<and> pl_mode (opt p) = pl_mode p"
  shows "0 < pl_maxChunks (NewPlanner mode n opts)" and "pl_mode (NewPlanner mode n opts) = mode"
    and "pl_maxChunks (NewPlanner mode n opts) \<le> pl_fusionDepth (NewPlanner mode n opts)"
proof -
  have "pl_maxChunks (foldl (\<lambda>p opt. opt p) p opts) = pl_maxChunks p \<and> pl_mode (foldl (\<lambda>p opt. opt p) p opts) = pl_mode p" for p
    using assms by (induction opts arbitrary: p) auto
  then show "0 < pl_maxChunks (NewPlanner mode n opts)" "pl_mode (NewPlanner mode n opts) = mode"
    "pl_maxChunks (NewPlanner mode n opts) \<le> pl_fusionDepth (NewPlanner mode n opts)"
    by (auto simp: NewPlanner_def Let_def defaultMaxChunks_def)
qed

text \<open>How retrieval degrades: keyword mode never embeds; semantic mode falls back to the keyword
  search exactly when its leg fails, and an empty semantic result stays empty; hybrid mode
  fails only when both legs fail, and with one leg down returns what the other found; any
  other mode is an error.\<close>

theorem Retrieve_degrades:
  fixes kw sem emb p q
  defines "leg \<equiv> semanticLeg sem emb q"
  shows "(pl_mode p = ModeKeyword \<longrightarrow> Retrieve rnd kw sem emb p q = kw q (pl_maxChunks p)) \<and>
    (pl_mode p = ModeSemantic \<longrightarrow> Retrieve rnd kw sem emb p q =
       (case leg (pl_maxChunks p) of Inl e \<Rightarrow> kw q (pl_maxChunks p) | Inr cs \<Rightarrow> Inr cs)) \<and>
    (pl_mode p = ModeHybrid \<longrightarrow>
       ((\<exists>e. Retrieve rnd kw sem emb p q = Inl e) \<longleftrightarrow>
          (\<exists>e1 e2. kw q (pl_fusionDepth p) = Inl e1 \<and> leg (pl_fusionDepth p) = Inl e2)) \<and>
       (\<forall>e cs. kw q (pl_fusionDepth p) = Inl e \<and> leg (pl_fusionDepth p) = Inr cs \<longrightarrow>
          Retrieve rnd kw sem emb p q = Inr (rrfFuse rnd [cs] (pl_maxChunks p))) \<and>
       (\<forall>e cs. kw q (pl_fusionDepth p) = Inr cs \<and> leg (pl_fusionDepth p) = Inl e \<longrightarrow>
          Retrieve rnd kw sem emb p q = Inr (rrfFuse rnd [cs] (pl_maxChunks p)))) \<and>
    (pl_mode p \<notin> {ModeKeyword, ModeSemantic, ModeHybrid} \<longrightarrow> (\<exists>e. Retrieve rnd kw sem emb p q = Inl e))"
  unfolding leg_def
  by (auto simp: Retrieve_def semanticWithFallback_def hybrid_def mode_defs Let_def split: sum.splits)

theorem Retrieve_degrades_witness:
  "Retrieve id (\<lambda>q k. Inr [\<lparr>c_Source = ''a.md'', c_Text = ''x''\<rparr>]) (\<lambda>(v :: nat) k. Inr []) (\<lambda>ts. Inl ErrNoStore)
     \<lparr>pl_mode = ModeSemantic, pl_maxChunks = 8, pl_fusionDepth = 30\<rparr> ''hi'' =
   Inr [\<lparr>c_Source = ''a.md'', c_Text = ''x''\<rparr>]"
proof -
  have "TrimSpace ''hi'' \<noteq> []" by (subst TrimSpace_ascii) (simp_all add: is_space_def)
  with Retrieve_degrades [of "\<lparr>pl_mode = ModeSemantic, pl_maxChunks = 8, pl_fusionDepth = 30\<rparr>" id
      "\<lambda>q k. Inr [\<lparr>c_Source = ''a.md'', c_Text = ''x''\<rparr>]" "\<lambda>(v :: nat) k. Inr []" "\<lambda>ts. Inl ErrNoStore" "''hi''"]
  show ?thesis by (simp add: semanticLeg_def)
qed

end
