(* ===== verification/StoreMem.thy ===== *)
theory StoreMem
  imports Normalize Planner GoFloat "HOL-Library.List_Lexorder" "HOL-Library.Char_ord" "HOL-Library.Product_Lexorder"
begin

text \<open>
  The in-memory backend of the retrieval port: \<^verbatim>\<open>internal/store/store.go\<close> (the values the port
  speaks in, and how an orderable value is read) and \<^verbatim>\<open>internal/store/memory.go\<close> (the index and
  its queries). Go's string order is the order of byte lists. The embedder, NFKC and the number and date parsers of the standard library are parameters. A
  snapshot is immutable, so an operation reads one \<open>mem_index\<close>.
\<close>

section \<open>Sort keys (store.go)\<close>

datatype order_kind = OrderNone | OrderNumber | OrderDate

text \<open>
  A decoded frontmatter value: what YAML gives for a scalar, a list or a map. A \<open>YInt\<close> is an int or
  an int64, a \<open>YUint\<close> a number only an uint64 holds.
\<close>

datatype yval = YNull | YBool bool | YInt int | YUint int | YFloat f64 | YString string | YTime time
  | YList "yval list" | YMap "(string \<times> yval) list"

definition unix_second :: "time \<Rightarrow> f64" where
  "unix_second t = Fin (of_int ((t - unix_epoch) div second))"

text \<open>
  \<open>parse_float\<close> is \<^verbatim>\<open>strconv.ParseFloat\<close>, \<open>parse_time layout\<close> is \<^verbatim>\<open>time.Parse\<close>. An integer above
  2^53 is rounded by the conversion: \<open>rnd\<close>.
\<close>

definition orderedDateLayouts :: "string list" where
  "orderedDateLayouts = [''2006-01-02T15:04:05Z07:00'', ''2006-01-02T15:04:05'', ''2006-01-02 15:04:05'',
     ''2006-01-02'', ''2006/01/02'']"

fun first_date :: "(string \<Rightarrow> string \<Rightarrow> time option) \<Rightarrow> string \<Rightarrow> string list \<Rightarrow> time option" where
  "first_date parse_time s [] = None"
| "first_date parse_time s (l # ls) =
     (case parse_time l s of Some t \<Rightarrow> Some t | None \<Rightarrow> first_date parse_time s ls)"

definition ParseOrderedValue ::
    "(rat \<Rightarrow> rat) \<Rightarrow> (string \<Rightarrow> f64 option) \<Rightarrow> (string \<Rightarrow> string \<Rightarrow> time option) \<Rightarrow> yval \<Rightarrow> (f64 \<times> order_kind) option" where
  "ParseOrderedValue rnd parse_float parse_time v =
     (case v of
        YNull \<Rightarrow> None
      | YTime t \<Rightarrow> Some (unix_second t, OrderDate)
      | YInt i \<Rightarrow> Some (Fin (rnd (of_int i)), OrderNumber)
      | YFloat f \<Rightarrow> Some (f, OrderNumber)
      | YString t \<Rightarrow>
          (let s = TrimSpace t in
           if s = [] then None
           else (case parse_float s of
               Some n \<Rightarrow> if n \<in> {NaN, PInf, NInf} then None else Some (n, OrderNumber)
             | None \<Rightarrow> map_option (\<lambda>d. (unix_second d, OrderDate)) (first_date parse_time s orderedDateLayouts)))
      | _ \<Rightarrow> None)"

section \<open>Documents\<close>

record doc_ref =
  dr_Path :: string
  dr_Title :: string

text \<open>A Go map is a partial function; no operation depends on the order of its keys.\<close>

record doc =
  d_Ref :: doc_ref
  d_Chunks :: "chunk list"
  d_Dimensions :: "string \<rightharpoonup> string list"
  d_Aliases :: "string list"
  d_Ordered :: "string \<rightharpoonup> f64"
  d_OrderedSkipped :: "string list"

section \<open>The index (memory.go)\<close>

record ordered_entry =
  oe_ref :: doc_ref
  oe_key :: f64

text \<open>The inner maps are kept as association lists in insertion order.\<close>

record 'v mem_index =
  ix_chunks :: "chunk list"
  ix_vectors :: "'v list"
  ix_dim :: "string \<rightharpoonup> (string \<times> doc_ref list) list"
  ix_disp :: "string \<rightharpoonup> (string \<times> string) list"
  ix_alias :: "string \<rightharpoonup> string"
  ix_ord :: "string \<Rightarrow> ordered_entry list"

definition empty_index :: "'v mem_index" where
  "empty_index = \<lparr>ix_chunks = [], ix_vectors = [], ix_dim = Map.empty, ix_disp = Map.empty,
     ix_alias = Map.empty, ix_ord = (\<lambda>_. [])\<rparr>"

fun al_append :: "string \<Rightarrow> 'r \<Rightarrow> (string \<times> 'r list) list \<Rightarrow> (string \<times> 'r list) list" where
  "al_append k r [] = [(k, [r])]"
| "al_append k r ((k', rs) # m) = (if k' = k then (k', rs @ [r]) # m else (k', rs) # al_append k r m)"

definition al_get :: "string \<Rightarrow> (string \<times> 'r list) list \<Rightarrow> 'r list" where
  "al_get k m = (case map_of m k of None \<Rightarrow> [] | Some rs \<Rightarrow> rs)"

text \<open>One dimension of one document: \<open>key\<close> is \<open>normalizeKey\<close>, \<open>seen\<close> what the document gave already.\<close>

fun add_values ::
    "(string \<Rightarrow> string) \<Rightarrow> doc_ref \<Rightarrow> string list \<Rightarrow> string set
     \<Rightarrow> (string \<times> doc_ref list) list \<times> (string \<times> string) list
     \<Rightarrow> (string \<times> doc_ref list) list \<times> (string \<times> string) list" where
  "add_values key r [] seen m = m"
| "add_values key r (v # vs) seen (byKey, disp) =
     (let vk = key v in
      if vk = [] \<or> vk \<in> seen then add_values key r vs seen (byKey, disp)
      else add_values key r vs (insert vk seen)
             (al_append vk r byKey, if map_of disp vk = None then disp @ [(vk, TrimSpace v)] else disp))"

definition add_dims ::
    "(string \<Rightarrow> string) \<Rightarrow> doc \<Rightarrow> (string \<rightharpoonup> (string \<times> doc_ref list) list) \<times> (string \<rightharpoonup> (string \<times> string) list)
     \<Rightarrow> (string \<rightharpoonup> (string \<times> doc_ref list) list) \<times> (string \<rightharpoonup> (string \<times> string) list)" where
  "add_dims key d st =
     (let new = (\<lambda>dim. map_option (\<lambda>vs. add_values key (d_Ref d) vs {}
          (case fst st dim of None \<Rightarrow> [] | Some m \<Rightarrow> m, case snd st dim of None \<Rightarrow> [] | Some m \<Rightarrow> m)) (d_Dimensions d dim))
      in (\<lambda>dim. case new dim of None \<Rightarrow> fst st dim | Some (b, p) \<Rightarrow> Some b,
          \<lambda>dim. case new dim of None \<Rightarrow> snd st dim | Some (b, p) \<Rightarrow> Some p))"

definition add_aliases :: "(string \<Rightarrow> string) \<Rightarrow> doc \<Rightarrow> (string \<rightharpoonup> string) \<Rightarrow> (string \<rightharpoonup> string)" where
  "add_aliases key d m =
     (let canon = key (dr_Title (d_Ref d)) in
      if canon = [] then m
      else foldl (\<lambda>m a. if key a = [] then m else m(key a \<mapsto> canon)) m (d_Aliases d))"

definition buildStructured ::
    "(string \<Rightarrow> string) \<Rightarrow> doc list
     \<Rightarrow> ((string \<rightharpoonup> (string \<times> doc_ref list) list) \<times> (string \<rightharpoonup> (string \<times> string) list)) \<times> (string \<rightharpoonup> string)" where
  "buildStructured key docs =
     (foldl (\<lambda>st d. add_dims key d st) (Map.empty, Map.empty) docs,
      foldl (\<lambda>m d. add_aliases key d m) Map.empty docs)"

definition entry_order :: "ordered_entry \<Rightarrow> f64 \<times> string" where
  "entry_order e = (oe_key e, dr_Path (oe_ref e))"

definition buildOrdered :: "doc list \<Rightarrow> string \<Rightarrow> ordered_entry list" where
  "buildOrdered docs f = sort_key entry_order
     (map (\<lambda>d. \<lparr>oe_ref = d_Ref d, oe_key = the (d_Ordered d f)\<rparr>) (filter (\<lambda>d. d_Ordered d f \<noteq> None) docs))"

text \<open>\<open>emb\<close> is \<^verbatim>\<open>Embedder.Embed\<close>; no embedder is \<open>None\<close>.\<close>

definition embedChunks :: "(string list \<Rightarrow> 'v list result) option \<Rightarrow> chunk list \<Rightarrow> 'v list result" where
  "embedChunks emb chunks =
     (case emb of None \<Rightarrow> Inr []
      | Some f \<Rightarrow>
          if chunks = [] then Inr []
          else (case f (map c_Text chunks) of
              Inl e \<Rightarrow> Inl (Wrap ''store: embed vault index'' e)
            | Inr vecs \<Rightarrow>
                if length vecs \<noteq> length chunks then Inl (ErrMsg ''store: embedded vault chunks'') else Inr vecs))"

definition store_Index ::
    "(string \<Rightarrow> string) \<Rightarrow> (string list \<Rightarrow> 'v list result) option \<Rightarrow> doc list \<Rightarrow> 'v mem_index
     \<Rightarrow> error option \<times> 'v mem_index" where
  "store_Index key emb docs ix =
     (let chunks = concat (map d_Chunks docs) in
      case embedChunks emb chunks of
        Inl e \<Rightarrow> (Some e, ix)
      | Inr vectors \<Rightarrow> (case buildStructured key docs of ((dims, disp), al) \<Rightarrow>
          (None, \<lparr>ix_chunks = chunks, ix_vectors = vectors, ix_dim = dims, ix_disp = disp,
                  ix_alias = al, ix_ord = buildOrdered docs\<rparr>)))"

section \<open>Queries\<close>

definition cap :: "int \<Rightarrow> 'a list \<Rightarrow> 'a list" where
  "cap k xs = (if 0 < k \<and> int (length xs) > k then take (nat k) xs else xs)"

text \<open>\<open>vlen\<close> is the length of a vector.\<close>

definition SemanticStats :: "('v \<Rightarrow> nat) \<Rightarrow> 'v mem_index \<Rightarrow> nat \<times> nat" where
  "SemanticStats vlen ix = foldl (\<lambda>(d, n) v. if vlen v > 0 then (if d = 0 then vlen v else d, n + 1) else (d, n)) (0, 0) (ix_vectors ix)"

text \<open>Every float64 operation rounds (\<open>rnd\<close>); the result is rounded to a float32 (\<open>rnd32\<close>).\<close>

definition dot :: "(real \<Rightarrow> real) \<Rightarrow> real list \<Rightarrow> real list \<Rightarrow> real" where
  "dot rnd a b = foldl (\<lambda>s (x, y). rnd (s + rnd (x * y))) 0 (zip a b)"

definition cosine :: "(real \<Rightarrow> real) \<Rightarrow> (real \<Rightarrow> real) \<Rightarrow> real list \<Rightarrow> real list \<Rightarrow> real" where
  "cosine rnd32 rnd a b =
     (if length a \<noteq> length b \<or> a = [] then 0
      else let na = dot rnd a a; nb = dot rnd b b in
        if na = 0 \<or> nb = 0 then 0
        else rnd32 (rnd (dot rnd a b / rnd (rnd (sqrt na) * rnd (sqrt nb)))))"

text \<open>\<open>threshold\<close> is the similarity floor, \<open>sim\<close> the similarity of two vectors: \<open>cosine\<close>.\<close>

definition Semantic ::
    "('v \<Rightarrow> 'v \<Rightarrow> 'r::linordered_idom) \<Rightarrow> 'r \<Rightarrow> ('v \<Rightarrow> bool) \<Rightarrow> 'v mem_index \<Rightarrow> 'v \<Rightarrow> int \<Rightarrow> chunk list result" where
  "Semantic sim threshold is_empty ix q k =
     (if is_empty q \<or> ix_vectors ix = [] then Inr []
      else let hits = filter (\<lambda>(i, s). threshold \<le> 0 \<or> s \<ge> threshold)
                 (map (\<lambda>(i, v). (i, sim q v)) (enumerate 0 (ix_vectors ix)));
               best = cap k (sort_key (\<lambda>(i, s). - s) hits)
           in Inr (map (\<lambda>(i, s). ix_chunks ix ! i) best))"

definition tokenize :: "'a tables_scheme \<Rightarrow> string \<Rightarrow> string list" where
  "tokenize uc s = FieldsFunc (\<lambda>r. \<not> uc_letter uc r \<and> \<not> uc_number uc r) (ToLower uc s)"

definition kscore :: "'a tables_scheme \<Rightarrow> string list \<Rightarrow> string \<Rightarrow> nat" where
  "kscore uc queryTerms text =
     (if queryTerms = [] then 0 else sum_list (map (\<lambda>q. count_list (tokenize uc text) q) queryTerms))"

record scored_chunk =
  sc_chunk :: chunk
  sc_score :: nat
  sc_order :: nat

definition scored_order :: "scored_chunk \<Rightarrow> int \<times> string \<times> nat" where
  "scored_order s = (- int (sc_score s), c_Source (sc_chunk s), sc_order s)"

definition Keyword :: "'a tables_scheme \<Rightarrow> 'v mem_index \<Rightarrow> string \<Rightarrow> int \<Rightarrow> chunk list result" where
  "Keyword uc ix query k =
     (let terms = tokenize uc query;
          scored = filter (\<lambda>s. sc_score s > 0) (map (\<lambda>(i, c). \<lparr>sc_chunk = c, sc_score = kscore uc terms (c_Text c), sc_order = i\<rparr>)
            (enumerate 0 (ix_chunks ix)))
      in Inr (map sc_chunk (cap k (sort_key scored_order scored))))"

definition Enumerate :: "(string \<Rightarrow> string) \<Rightarrow> 'v mem_index \<Rightarrow> string \<Rightarrow> string \<Rightarrow> doc_ref list" where
  "Enumerate key ix dimension val =
     (case ix_dim ix dimension of None \<Rightarrow> []
      | Some byKey \<Rightarrow>
          (let k = key val; k' = (case ix_alias ix k of Some canon \<Rightarrow> canon | None \<Rightarrow> k)
           in al_get k' byKey))"

definition Dimensions :: "'v mem_index \<Rightarrow> string \<rightharpoonup> string list" where
  "Dimensions ix = (\<lambda>dim. map_option (\<lambda>m. sort (map snd m)) (ix_disp ix dim))"

datatype direction = Ascending | Descending

text \<open>The walk of \<^verbatim>\<open>Ordered\<close> from the end: the last group of equal keys, forwards, then the rest.\<close>

definition last_group :: "ordered_entry list \<Rightarrow> nat" where
  "last_group es = length (takeWhile (\<lambda>e. go_eq (oe_key e) (oe_key (last es))) (rev (butlast es)))"

function desc_walk :: "ordered_entry list \<Rightarrow> ordered_entry list" where
  "desc_walk es = (if es = [] then []
     else let j = length es - 1 - last_group es in drop j es @ desc_walk (take j es))"
  by auto
termination
  by (relation "measure length") (auto simp: Let_def less_Suc_eq_0_disj Suc_le_eq)

declare desc_walk.simps [simp del]

definition Ordered :: "'v mem_index \<Rightarrow> string \<Rightarrow> direction \<Rightarrow> int \<Rightarrow> doc_ref list" where
  "Ordered ix f dir limit =
     (let es = ix_ord ix f in
      if es = [] then []
      else cap limit (map oe_ref (if dir = Descending then desc_walk es else es)))"

end
