(* ===== verification/StoreMem_Props.thy ===== *)
theory StoreMem_Props
  imports StoreMem
begin

text \<open>
  What the in-memory backend promises: a lookup is the complete set of the documents that carry
  the value, ordered recall is a sort of the documents that carry the field in either direction,
  and keyword search ranks exactly the chunks that share a word with the query. The laws the
  planner relies on are discharged here (\<open>mem\<close>, an interpretation of \<open>retrieval_store\<close>).
\<close>

section \<open>Lookup by value\<close>

lemma al_get_append [simp]: "al_get k (al_append k' r m) = (if k = k' then al_get k m @ [r] else al_get k m)"
  by (induction m) (auto simp: al_get_def)

lemma al_get_Nil [simp]: "al_get k [] = []"
  by (simp add: al_get_def)

text \<open>The normalized values a document carries in a dimension.\<close>

definition carried :: "(string \<Rightarrow> string) \<Rightarrow> doc \<Rightarrow> string \<Rightarrow> string set" where
  "carried key d facet = (case d_Dimensions d facet of None \<Rightarrow> {} | Some vs \<Rightarrow> key ` set vs - {[]})"

definition alias_pairs :: "(string \<Rightarrow> string) \<Rightarrow> doc \<Rightarrow> (string \<times> string) list" where
  "alias_pairs key d = (let canon = key (dr_Title (d_Ref d)) in
     if canon = [] then [] else map (\<lambda>a. (key a, canon)) (filter (\<lambda>a. key a \<noteq> []) (d_Aliases d)))"

text \<open>The entity a spelling names: the last document that lists it as an alias, itself if none does.\<close>

definition resolved :: "(string \<Rightarrow> string) \<Rightarrow> doc list \<Rightarrow> string \<Rightarrow> string" where
  "resolved key docs val =
     (case map_of (rev (concat (map (alias_pairs key) docs))) (key val) of Some canon \<Rightarrow> canon | None \<Rightarrow> key val)"

lemma add_values_get: "al_get k (fst (add_values key r vs seen (b, p))) =
    al_get k b @ (if k \<in> key ` set vs - {[]} - seen then [r] else [])"
  by (induction vs arbitrary: seen b p) (auto simp: Let_def)

abbreviation dim_table :: "(string \<rightharpoonup> 'b list) \<Rightarrow> string \<Rightarrow> 'b list" where
  "dim_table m facet \<equiv> (case m facet of None \<Rightarrow> [] | Some t \<Rightarrow> t)"

lemma add_dims_get: "al_get k (dim_table (fst (add_dims key d st)) facet) =
    al_get k (dim_table (fst st) facet) @ (if k \<in> carried key d facet then [d_Ref d] else [])"
proof (cases "d_Dimensions d facet")
  case None
  then show ?thesis by (simp add: add_dims_def Let_def carried_def)
next
  case (Some vs)
  then have "dim_table (fst (add_dims key d st)) facet =
      fst (add_values key (d_Ref d) vs {} (dim_table (fst st) facet, dim_table (snd st) facet))"
    by (simp add: add_dims_def Let_def split: prod.splits)
  then show ?thesis using Some by (simp add: add_values_get carried_def)
qed

lemma dims_get: "al_get k (dim_table (fst (foldl (\<lambda>st d. add_dims key d st) (Map.empty, Map.empty) docs)) facet) =
    map d_Ref (filter (\<lambda>d. k \<in> carried key d facet) docs)"
  by (induction docs rule: rev_induct) (simp_all add: add_dims_get)

lemma foldl_alias: "foldl (\<lambda>m a. if key a = [] then m else m(key a \<mapsto> canon)) m as =
    m ++ map_of (rev (map (\<lambda>a. (key a, canon)) (filter (\<lambda>a. key a \<noteq> []) as)))"
  by (induction as rule: rev_induct) auto

lemma add_aliases_map: "add_aliases key d m = m ++ map_of (rev (alias_pairs key d))"
  by (simp add: add_aliases_def alias_pairs_def Let_def foldl_alias)

lemma aliases_map: "foldl (\<lambda>m d. add_aliases key d m) Map.empty docs = map_of (rev (concat (map (alias_pairs key) docs)))"
  by (induction docs rule: rev_induct) (simp_all add: add_aliases_map)

lemma store_Index_ok:
  assumes "store_Index key emb docs ix = (None, ix')"
  shows "ix_chunks ix' = concat (map d_Chunks docs)"
    and "ix_dim ix' = fst (foldl (\<lambda>st d. add_dims key d st) (Map.empty, Map.empty) docs)"
    and "ix_alias ix' = map_of (rev (concat (map (alias_pairs key) docs)))"
    and "ix_ord ix' = buildOrdered docs"
    and "embedChunks emb (ix_chunks ix') = Inr (ix_vectors ix')"
  using assms
  by (auto simp: store_Index_def Let_def buildStructured_def aliases_map split: sum.splits prod.splits)

lemma store_Index_failed: "store_Index key emb docs ix = (Some e, ix') \<Longrightarrow> ix' = ix"
  by (auto simp: store_Index_def Let_def split: sum.splits prod.splits)

lemma Enumerate_index:
  assumes "store_Index key emb docs ix = (None, ix')"
  shows "Enumerate key ix' facet val =
    map d_Ref (filter (\<lambda>d. resolved key docs val \<in> carried key d facet) docs)"
proof -
  have "Enumerate key ix' facet val = al_get (resolved key docs val) (dim_table (ix_dim ix') facet)"
    by (auto simp: Enumerate_def Let_def resolved_def store_Index_ok(3) [OF assms] split: option.splits)
  then show ?thesis by (simp add: store_Index_ok(2) [OF assms] dims_get)
qed

text \<open>After an index of the vault, a lookup of a value in a dimension returns exactly the
  documents that carry the value, or the entity the value is an alias of, in that dimension: each
  once, in vault order, none left out.\<close>

theorem Enumerate_complete:
  assumes "store_Index key emb docs ix = (None, ix')"
  shows "Enumerate key ix' facet val =
    map d_Ref (filter (\<lambda>d. resolved key docs val \<in> carried key d facet) docs)"
  by (rule Enumerate_index [OF assms])

definition demo_doc :: "string \<Rightarrow> string \<Rightarrow> string list \<Rightarrow> string list \<Rightarrow> f64 option \<Rightarrow> doc" where
  "demo_doc path title aliases games date =
     \<lparr>d_Ref = \<lparr>dr_Path = path, dr_Title = title\<rparr>, d_Chunks = [\<lparr>c_Source = path, c_Text = title\<rparr>],
      d_Dimensions = [''games'' \<mapsto> games], d_Aliases = aliases,
      d_Ordered = (\<lambda>f. if f = ''date'' then date else None), d_OrderedSkipped = []\<rparr>"

definition demo_docs :: "doc list" where
  "demo_docs =
     [demo_doc ''acme.md'' ''Acme Rail'' [''AR''] [] None,
      demo_doc ''rails.md'' ''Rails 2'' [''Acme Rail''] [] None,
      demo_doc ''night1.md'' ''Night 1'' [] [''Acme Rail''] (Some (Fin 2)),
      demo_doc ''night2.md'' ''Night 2'' [] [''Rails 2'', ''AR''] (Some (Fin 2)),
      demo_doc ''night0.md'' ''Night 0'' [] [''AR'', ''AR''] (Some (Fin 1))]"

definition demo_index :: "(string \<Rightarrow> string) \<Rightarrow> unit mem_index" where
  "demo_index key = snd (store_Index key None demo_docs empty_index)"

lemma demo_index_ok: "store_Index key None demo_docs empty_index = (None, demo_index key)"
  by (simp add: demo_index_def store_Index_def embedChunks_def buildStructured_def split: prod.splits)

theorem Enumerate_complete_witness:
  "map dr_Path (Enumerate id (demo_index id) ''games'' ''AR'') = [''night1.md'']"
  unfolding Enumerate_complete [OF demo_index_ok]
  by (simp add: demo_docs_def demo_doc_def resolved_def alias_pairs_def carried_def Let_def)

text \<open>An alias of one entity that is spelled like the title of another hides the other: the
  documents that name it by its own title are no longer found under it, although the note whose
  title it is is in the vault and every spelling is exact.\<close>

theorem alias_hides_title:
  "\<exists>docs (ix' :: unit mem_index) d.
     store_Index id None docs empty_index = (None, ix') \<and> d \<in> set docs \<and>
     (\<exists>n \<in> set docs. d_Dimensions n ''games'' = Some [dr_Title (d_Ref d)] \<and> dr_Title (d_Ref d) \<noteq> [] \<and>
        d_Ref n \<notin> set (Enumerate id ix' ''games'' (dr_Title (d_Ref d))))"
proof (intro exI conjI)
  let ?acme = "demo_doc ''acme.md'' ''Acme Rail'' [''AR''] [] None"
  let ?night = "demo_doc ''night1.md'' ''Night 1'' [] [''Acme Rail''] (Some (Fin 2))"
  show "store_Index id None demo_docs empty_index = (None, demo_index id)" by (rule demo_index_ok)
  show "?acme \<in> set demo_docs" by (simp add: demo_docs_def)
  have "Enumerate id (demo_index id) ''games'' ''Acme Rail'' = [d_Ref (demo_docs ! 3)]"
    by (simp add: Enumerate_def demo_index_def store_Index_def embedChunks_def buildStructured_def demo_docs_def demo_doc_def
        add_dims_def add_aliases_def al_get_def Let_def)
  then show "\<exists>n \<in> set demo_docs. d_Dimensions n ''games'' = Some [dr_Title (d_Ref ?acme)] \<and> dr_Title (d_Ref ?acme) \<noteq> [] \<and>
        d_Ref n \<notin> set (Enumerate id (demo_index id) ''games'' (dr_Title (d_Ref ?acme)))"
    by (intro bexI [of _ ?night]) (simp_all add: demo_docs_def demo_doc_def)
qed

section \<open>Ordered recall\<close>

fun f64_neg :: "f64 \<Rightarrow> f64" where
  "f64_neg NInf = PInf" | "f64_neg (Fin q) = Fin (- q)" | "f64_neg PInf = NInf" | "f64_neg NaN = NaN"

lemma f64_neg_less: "x \<noteq> NaN \<Longrightarrow> y \<noteq> NaN \<Longrightarrow> f64_neg x < f64_neg y \<longleftrightarrow> y < x"
  by (cases x; cases y) (auto simp: less_f64_def)

lemma f64_neg_eq: "f64_neg x = f64_neg y \<longleftrightarrow> x = y"
  by (cases x; cases y) auto

text \<open>Descending: the larger key first, equal keys still by path.\<close>

definition desc_order :: "ordered_entry \<Rightarrow> f64 \<times> string" where
  "desc_order e = (f64_neg (oe_key e), dr_Path (oe_ref e))"

abbreviation no_nan :: "ordered_entry list \<Rightarrow> bool" where
  "no_nan es \<equiv> (\<forall>e \<in> set es. oe_key e \<noteq> NaN)"

text \<open>The last group is the entries of the largest key, and every other key is smaller.\<close>

lemma last_group_split:
  assumes "es \<noteq> []" and "sorted (map entry_order es)" and "no_nan es"
  obtains xs ys where "es = xs @ ys" and "ys \<noteq> []" and "length es - 1 - last_group es = length xs"
    and "\<forall>y \<in> set ys. oe_key y = oe_key (last es)" and "\<forall>x \<in> set xs. oe_key x < oe_key (last es)"
proof -
  obtain zs l where es: "es = zs @ [l]" using assms(1) by (cases es rule: rev_cases) auto
  let ?P = "\<lambda>e. go_eq (oe_key e) (oe_key l)"
  define xs gs where "xs = rev (dropWhile ?P (rev zs))" and "gs = rev (takeWhile ?P (rev zs))"
  have zs: "zs = xs @ gs"
    unfolding xs_def gs_def rev_append [symmetric] by simp
  have len: "length es - 1 - last_group es = length xs"
  proof -
    have "last_group es = length gs" by (simp add: last_group_def es gs_def)
    then show ?thesis by (simp add: es zs)
  qed
  have grp: "\<forall>y \<in> set (gs @ [l]). oe_key y = oe_key (last es)"
    by (auto simp: gs_def es go_eq_def dest!: set_takeWhileD)
  have le: "\<forall>x \<in> set zs. oe_key x \<le> oe_key l"
    using assms(2) by (auto simp: es sorted_append entry_order_def less_eq_prod_def)
  have "\<forall>x \<in> set xs. oe_key x < oe_key l"
  proof (cases xs rule: rev_cases)
    case (snoc xs' x)
    have "rev (rev (dropWhile ?P (rev zs))) = rev (xs' @ [x])" using snoc unfolding xs_def by (rule arg_cong)
    then have "dropWhile ?P (rev zs) = x # rev xs'" unfolding rev_rev_ident rev_append by simp
    then have "\<not> ?P x" unfolding dropWhile_eq_Cons_conv by blast
    moreover have "oe_key l \<noteq> NaN" "oe_key x \<noteq> NaN" using assms(3) by (auto simp: es zs snoc)
    ultimately have "oe_key x < oe_key l" using le by (auto simp: zs snoc go_eq_def order_less_le)
    moreover have "\<forall>x' \<in> set xs'. oe_key x' \<le> oe_key x"
      using assms(2) by (auto simp: es zs snoc sorted_append entry_order_def less_eq_prod_def)
    ultimately show ?thesis using snoc by auto
  qed simp
  moreover have "last es = l" by (simp add: es)
  ultimately have "\<forall>x \<in> set xs. oe_key x < oe_key (last es)" by (simp only:)
  moreover have "es = xs @ (gs @ [l])" unfolding es zs by (rule append_assoc)
  moreover have "gs @ [l] \<noteq> []" by blast
  ultimately show thesis using len grp by (intro that)
qed

lemma desc_walk_spec:
  assumes "sorted (map entry_order es)" and "no_nan es"
  shows "mset (desc_walk es) = mset es \<and> sorted (map desc_order (desc_walk es))"
  using assms
proof (induction es rule: desc_walk.induct)
  case (1 es)
  show ?case
  proof (cases "es = []")
    case True
    then show ?thesis by (simp add: desc_walk.simps)
  next
    case False
    obtain xs ys where s: "es = xs @ ys" "ys \<noteq> []" "length es - 1 - last_group es = length xs"
      "\<forall>y \<in> set ys. oe_key y = oe_key (last es)" "\<forall>x \<in> set xs. oe_key x < oe_key (last es)"
      by (rule last_group_split [OF False "1.prems"])
    have cut: "drop (length xs) es = ys" "take (length xs) es = xs" using s(1) by simp_all
    have w: "desc_walk es = ys @ desc_walk xs"
      by (subst desc_walk.simps) (simp only: Let_def s(3) cut False if_False)
    have ih: "mset (desc_walk xs) = mset xs" "sorted (map desc_order (desc_walk xs))"
      using "1.IH" [OF False refl, unfolded s(3) cut] "1.prems" s(1) by (simp_all add: sorted_append)
    have "sorted (map entry_order ys)" using "1.prems"(1) s(1) by (simp add: sorted_append)
    then have "sorted (map desc_order ys)"
      unfolding sorted_map
      by (rule sorted_wrt_mono_rel [rotated]) (use s(4) in \<open>auto simp: entry_order_def desc_order_def less_eq_prod_def\<close>)
    moreover have "desc_order y \<le> desc_order x" if "y \<in> set ys" "x \<in> set xs" for x y
    proof -
      have "oe_key x < oe_key y" using that s(4,5) by simp
      then show ?thesis using "1.prems"(2) that s(1) by (simp add: desc_order_def less_eq_prod_def f64_neg_less)
    qed
    moreover have "set (desc_walk xs) = set xs" using ih(1) by (metis set_mset_mset)
    moreover have "mset es = mset xs + mset ys" by (simp add: s(1))
    ultimately show ?thesis using ih by (simp add: w sorted_append)
  qed
qed

definition rank :: "direction \<Rightarrow> string \<Rightarrow> doc \<Rightarrow> f64 \<times> string" where
  "rank dir f d = ((case dir of Ascending \<Rightarrow> the (d_Ordered d f) | Descending \<Rightarrow> f64_neg (the (d_Ordered d f))),
     dr_Path (d_Ref d))"

definition carriers :: "doc list \<Rightarrow> string \<Rightarrow> doc list" where
  "carriers docs f = filter (\<lambda>d. d_Ordered d f \<noteq> None) docs"

abbreviation entry_of :: "string \<Rightarrow> doc \<Rightarrow> ordered_entry" where
  "entry_of f d \<equiv> \<lparr>oe_ref = d_Ref d, oe_key = the (d_Ordered d f)\<rparr>"

lemma sort_unique:
  assumes "mset ys = mset xs" and "inj_on k (set xs)" and "sorted (map k ys)"
  shows "sort_key k xs = ys"
  using assms by (intro sort_key_inj_key_eq) auto

lemma buildOrdered_sort: "buildOrdered docs f = map (entry_of f) (sort_key (rank Ascending f) (carriers docs f))"
proof -
  have ins: "insort_key entry_order (entry_of f d) (map (entry_of f) ds) =
      map (entry_of f) (insort_key (rank Ascending f) d ds)" for d ds
    by (induction ds) (simp_all add: entry_order_def rank_def)
  have "sort_key entry_order (map (entry_of f) ds) = map (entry_of f) (sort_key (rank Ascending f) ds)" for ds
    by (induction ds) (simp_all add: ins)
  then show ?thesis by (simp add: buildOrdered_def carriers_def)
qed

lemma buildOrdered_set: "e \<in> set (buildOrdered docs f) \<longleftrightarrow>
    (\<exists>d \<in> set docs. d_Ordered d f = Some (oe_key e) \<and> oe_ref e = d_Ref d)"
  by (cases e) (auto simp: buildOrdered_def image_iff split: option.splits)

lemma refs_of_entries: "map oe_ref (map (entry_of f) ds) = map d_Ref ds"
  by (induction ds) simp_all

lemma desc_walk_rank:
  assumes "distinct (map (\<lambda>d. dr_Path (d_Ref d)) docs)"
    and "\<forall>d \<in> set docs. d_Ordered d f \<noteq> Some NaN"
  shows "desc_walk (buildOrdered docs f) = map (entry_of f) (sort_key (rank Descending f) (carriers docs f))"
proof -
  let ?es = "buildOrdered docs f" and ?ds = "sort_key (rank Descending f) (carriers docs f)"
  have nn: "no_nan ?es" using assms(2) by (auto simp: buildOrdered_set)
  have spec: "mset (desc_walk ?es) = mset ?es" "sorted (map desc_order (desc_walk ?es))"
    using desc_walk_spec [OF _ nn] by (simp_all add: buildOrdered_def)
  have "inj_on (\<lambda>d. dr_Path (d_Ref d)) (set (carriers docs f))"
    using assms(1) unfolding distinct_map carriers_def by (auto intro: inj_on_subset)
  then have inj: "inj_on desc_order (set (map (entry_of f) ?ds))"
    unfolding inj_on_def desc_order_def by simp metis
  have mset_es: "mset ?es = mset (map (entry_of f) ?ds)" by (simp add: buildOrdered_sort)
  have rank: "map desc_order (map (entry_of f) ?ds) = map (rank Descending f) ?ds"
    by (simp add: desc_order_def rank_def)
  have "sort_key desc_order (map (entry_of f) ?ds) = desc_walk ?es"
    by (rule sort_unique [OF _ inj]) (simp_all add: spec mset_es)
  moreover have "sort_key desc_order (map (entry_of f) ?ds) = map (entry_of f) ?ds"
    by (rule sort_unique [OF refl inj]) (simp only: rank sorted_sort_key)
  ultimately show ?thesis by (rule trans [OF sym])
qed

lemma desc_walk_Nil [simp]: "desc_walk [] = []"
  by (subst desc_walk.simps) simp

lemma Ordered_walk: "ix_ord ix = buildOrdered docs \<Longrightarrow>
    Ordered ix f dir limit = cap limit (map oe_ref
      (case dir of Ascending \<Rightarrow> buildOrdered docs f | Descending \<Rightarrow> desc_walk (buildOrdered docs f)))"
  by (cases dir) (auto simp: Ordered_def Let_def cap_def)

lemma Ordered_index:
  assumes "store_Index key emb docs ix = (None, ix')"
    and "distinct (map (\<lambda>d. dr_Path (d_Ref d)) docs)"
    and "\<forall>d \<in> set docs. d_Ordered d f \<noteq> Some NaN"
  shows "Ordered ix' f dir limit = cap limit (map d_Ref (sort_key (rank dir f) (carriers docs f)))"
proof (cases dir)
  case Ascending
  then show ?thesis
    by (simp only: Ordered_walk [OF store_Index_ok(4) [OF assms(1)]] direction.case buildOrdered_sort refs_of_entries)
next
  case Descending
  then show ?thesis
    by (simp only: Ordered_walk [OF store_Index_ok(4) [OF assms(1)]] direction.case desc_walk_rank [OF assms(2,3)]
        refs_of_entries)
qed

text \<open>Ordered recall over an indexed vault returns exactly the documents that carry the field,
  sorted by it in the direction asked for, ties by path in both directions, cut to the limit last:
  the grouped walk from the end of the ascending index is the same list a fresh descending sort
  would give.\<close>

theorem Ordered_sorts:
  assumes "store_Index key emb docs ix = (None, ix')"
    and "distinct (map (\<lambda>d. dr_Path (d_Ref d)) docs)"
    and "\<forall>d \<in> set docs. d_Ordered d f \<noteq> Some NaN"
  shows "Ordered ix' f dir limit = cap limit (map d_Ref (sort_key (rank dir f) (carriers docs f)))"
  by (rule Ordered_index [OF assms])

lemma Fin_less [simp]: "Fin p < Fin q \<longleftrightarrow> p < q"
  by (auto simp: less_f64_def)

theorem Ordered_sorts_witness:
  "map dr_Path (Ordered (demo_index id) ''date'' Descending 2) = [''night1.md'', ''night2.md'']"
proof -
  have "Ordered (demo_index id) ''date'' Descending 2 =
      cap 2 (map d_Ref (sort_key (rank Descending ''date'') (carriers demo_docs ''date'')))"
    by (rule Ordered_sorts [OF demo_index_ok]) (simp_all add: demo_docs_def demo_doc_def)
  then show ?thesis
    by (simp add: carriers_def demo_docs_def demo_doc_def rank_def less_eq_prod_def cap_def)
qed

section \<open>Keyword search and the planner's laws\<close>

definition shares_word :: "'a tables_scheme \<Rightarrow> string \<Rightarrow> chunk \<Rightarrow> bool" where
  "shares_word uc q c \<longleftrightarrow> set (tokenize uc q) \<inter> set (tokenize uc (c_Text c)) \<noteq> {}"

lemma sum_count_pos: "0 < sum_list (map (\<lambda>q. count_list ts q) qs) \<longleftrightarrow> set qs \<inter> set ts \<noteq> {}"
  by (induction qs) (auto simp: count_list_0_iff [symmetric])

lemma kscore_pos: "0 < kscore uc (tokenize uc q) (c_Text c) \<longleftrightarrow> shares_word uc q c"
  by (simp add: kscore_def shares_word_def sum_count_pos)

lemma cap_take: "cap k xs = (if 0 < k then take (nat k) xs else xs)"
  by (simp add: cap_def)

lemma cap_subset: "set (cap k xs) \<subseteq> set xs"
  by (auto simp: cap_take dest: in_set_takeD)

lemma cap_length: "0 < k \<Longrightarrow> length (cap k xs) \<le> nat k"
  by (simp add: cap_take)

lemma filter_enumerate: "map (\<lambda>p. snd p) (filter (\<lambda>p. P (snd p)) (enumerate n xs)) = filter P xs"
  by (induction xs arbitrary: n) simp_all

lemma Keyword_found:
  "\<exists>found. Keyword uc ix q k = Inr (cap k found) \<and>
     mset found = mset (filter (shares_word uc q) (ix_chunks ix)) \<and>
     sorted (rev (map (\<lambda>c. kscore uc (tokenize uc q) (c_Text c)) found))"
proof -
  let ?row = "\<lambda>(i, c). \<lparr>sc_chunk = c, sc_score = kscore uc (tokenize uc q) (c_Text c), sc_order = i\<rparr>"
  define rows where "rows = sort_key scored_order (filter (\<lambda>s. sc_score s > 0) (map ?row (enumerate 0 (ix_chunks ix))))"
  have "Keyword uc ix q k = Inr (cap k (map sc_chunk rows))"
    by (simp add: Keyword_def Let_def rows_def cap_take take_map)
  moreover have "mset (map sc_chunk rows) = mset (filter (shares_word uc q) (ix_chunks ix))"
  proof -
    let ?hits = "filter (\<lambda>p. shares_word uc q (snd p)) (enumerate 0 (ix_chunks ix))"
    have "filter (\<lambda>s. sc_score s > 0) (map ?row (enumerate 0 (ix_chunks ix))) = map ?row ?hits"
      by (simp add: filter_map comp_def case_prod_beta kscore_pos)
    then have "mset rows = mset (map ?row ?hits)" unfolding rows_def mset_sort by (rule arg_cong)
    then have "mset (map sc_chunk rows) = mset (map sc_chunk (map ?row ?hits))" unfolding mset_map [of sc_chunk] by (rule arg_cong)
    also have "map sc_chunk (map ?row ?hits) = map snd ?hits" by (simp add: comp_def case_prod_beta)
    also have "\<dots> = filter (shares_word uc q) (ix_chunks ix)" by (rule filter_enumerate)
    finally show ?thesis .
  qed
  moreover have "sorted (rev (map (\<lambda>c. kscore uc (tokenize uc q) (c_Text c)) (map sc_chunk rows)))"
  proof -
    have "\<forall>s \<in> set rows. sc_score s = kscore uc (tokenize uc q) (c_Text (sc_chunk s))"
      by (auto simp: rows_def)
    then have "map (\<lambda>c. kscore uc (tokenize uc q) (c_Text c)) (map sc_chunk rows) = map sc_score rows" by simp
    moreover have "sorted (map scored_order rows)" by (simp add: rows_def)
    then have "sorted_wrt (\<lambda>a b. sc_score b \<le> sc_score a) rows"
      unfolding sorted_map by (rule sorted_wrt_mono_rel [rotated]) (auto simp: scored_order_def less_eq_prod_def)
    ultimately show ?thesis by (simp only: sorted_wrt_rev sorted_wrt_map rev_map sorted_map)
  qed
  ultimately show ?thesis by blast
qed

text \<open>Keyword search returns the chunks that share a word with the query, every one of them
  when no limit is given, ordered by how many of the chunk's words are query words, and with a limit
  the best of that order: a chunk left out for the limit never scores above one returned.\<close>

theorem Keyword_ranks:
  "\<exists>found. Keyword uc ix q k = Inr (cap k found) \<and>
     mset found = mset (filter (shares_word uc q) (ix_chunks ix)) \<and>
     sorted (rev (map (\<lambda>c. kscore uc (tokenize uc q) (c_Text c)) found))"
  by (rule Keyword_found)

text \<open>An index is well-formed when it has a vector per chunk, or none: what an index of a vault leaves.\<close>

definition ix_wf :: "'v mem_index \<Rightarrow> bool" where
  "ix_wf ix \<longleftrightarrow> ix_vectors ix = [] \<or> length (ix_vectors ix) = length (ix_chunks ix)"

lemma embedChunks_wf: "embedChunks emb cs = Inr vs \<Longrightarrow> vs = [] \<or> length vs = length cs"
  by (auto simp: embedChunks_def split: option.splits if_splits sum.splits)

lemma ix_wf_empty [simp]: "ix_wf empty_index"
  by (simp add: ix_wf_def empty_index_def)

lemma store_Index_wf:
  assumes "store_Index key emb docs ix = (e, ix')" and "ix_wf ix"
  shows "ix_wf ix'"
proof (cases e)
  case None
  then show ?thesis using store_Index_ok(5) assms(1) embedChunks_wf unfolding ix_wf_def by metis
next
  case (Some _)
  then show ?thesis using store_Index_failed assms by metis
qed

lemma Semantic_subset:
  assumes "ix_wf ix" and "Semantic sim thr is_empty ix q k = Inr cs"
  shows "set cs \<subseteq> set (ix_chunks ix)"
proof (cases "is_empty q \<or> ix_vectors ix = []")
  case False
  then have "length (ix_vectors ix) = length (ix_chunks ix)" using assms(1) by (simp add: ix_wf_def)
  then show ?thesis
    using assms(2) False
    by (auto simp: Semantic_def Let_def in_set_enumerate_eq dest!: cap_subset [THEN subsetD])
qed (use assms(2) in \<open>auto simp: Semantic_def\<close>)

lemma Semantic_length: "Semantic sim thr is_empty ix q k = Inr cs \<Longrightarrow> 0 < k \<Longrightarrow> length cs \<le> nat k"
  by (auto simp: Semantic_def Let_def cap_length split: if_splits)

lemma Keyword_subset:
  assumes "Keyword uc ix q k = Inr cs"
  shows "set cs \<subseteq> set (ix_chunks ix)" and "0 < k \<Longrightarrow> length cs \<le> nat k"
proof -
  obtain found where f: "cs = cap k found" "mset found = mset (filter (shares_word uc q) (ix_chunks ix))"
    using Keyword_found [of uc ix q k] assms by auto
  then show "0 < k \<Longrightarrow> length cs \<le> nat k" by (simp add: cap_length)
  have "set found = set (filter (shares_word uc q) (ix_chunks ix))" using f(2) by (metis set_mset_mset)
  then show "set cs \<subseteq> set (ix_chunks ix)" using f(1) cap_subset by fastforce
qed

interpretation mem: retrieval_store ix_wf "\<lambda>ix. set (ix_chunks ix)" "Keyword uc" "Semantic sim thr is_empty"
  for uc :: "'a tables_scheme" and sim :: "'v \<Rightarrow> 'v \<Rightarrow> 'r::linordered_idom" and thr :: 'r and is_empty :: "'v \<Rightarrow> bool"
proof
  fix s :: "'v mem_index" and q :: string and k :: int and cs and v :: 'v
  show "ix_wf s \<Longrightarrow> Keyword uc s q k = Inr cs \<Longrightarrow> set cs \<subseteq> set (ix_chunks s)"
    and "ix_wf s \<Longrightarrow> Keyword uc s q k = Inr cs \<Longrightarrow> 0 < k \<Longrightarrow> length cs \<le> nat k"
    by (erule Keyword_subset)+
  show "ix_wf s \<Longrightarrow> Semantic sim thr is_empty s v k = Inr cs \<Longrightarrow> set cs \<subseteq> set (ix_chunks s)"
    by (rule Semantic_subset)
  show "ix_wf s \<Longrightarrow> Semantic sim thr is_empty s v k = Inr cs \<Longrightarrow> 0 < k \<Longrightarrow> length cs \<le> nat k"
    by (rule Semantic_length)
qed

text \<open>Whatever the mode and whatever fails, an answer of the planner over an indexed vault is made
  of chunks of the vault's documents, and never of more than the limit the planner was built with.\<close>

theorem Retrieve_grounded:
  assumes "store_Index key emb docs empty_index = (None, ix)"
    and "Retrieve rnd (Keyword uc ix) (Semantic sim thr is_empty ix) emb_q (NewPlanner mode n []) q = Inr cs"
  shows "set cs \<subseteq> \<Union>(set ` d_Chunks ` set docs) \<and>
    length cs \<le> nat (if n \<le> 0 then defaultMaxChunks else n)"
proof
  have wf: "ix_wf ix" using store_Index_wf [OF assms(1)] by simp
  show "set cs \<subseteq> \<Union>(set ` d_Chunks ` set docs)"
    using mem.Retrieve_indexed [OF wf assms(2)] unfolding store_Index_ok(1) [OF assms(1)] by auto
  have "pl_maxChunks (NewPlanner mode n []) = (if n \<le> 0 then defaultMaxChunks else n)"
    by (simp add: NewPlanner_def Let_def)
  then show "length cs \<le> nat (if n \<le> 0 then defaultMaxChunks else n)"
    using mem.Retrieve_cap [OF wf assms(2)] by (simp add: defaultMaxChunks_def split: if_splits)
qed

theorem Retrieve_grounded_witness:
  "\<exists>cs. set cs \<subseteq> \<Union>(set ` d_Chunks ` set demo_docs) \<and> length cs \<le> 8 \<and>
     Retrieve id (Keyword ascii_full (demo_index id)) (Semantic (\<lambda>_ _. 0 :: rat) 0 (\<lambda>_. False) (demo_index id))
       (\<lambda>_. Inl ErrNoStore) (NewPlanner ModeHybrid 0 []) ''rails'' = Inr cs"
proof -
  have "\<exists>cs. Retrieve id (Keyword ascii_full (demo_index id)) (Semantic (\<lambda>_ _. 0 :: rat) 0 (\<lambda>_. False) (demo_index id))
       (\<lambda>_. Inl ErrNoStore) (NewPlanner ModeHybrid 0 []) ''rails'' = Inr cs"
    by (simp add: Retrieve_def NewPlanner_def Let_def mode_defs hybrid_def Keyword_def split: sum.splits)
  then show ?thesis
    using Retrieve_grounded [OF demo_index_ok, where mode = ModeHybrid and n = 0] by (fastforce simp: defaultMaxChunks_def)
qed

end
