(* ===== verification/GoSplit.thy ===== *)
theory GoSplit
  imports GoText
begin

text \<open>
  Cutting strings, as \<^verbatim>\<open>strings\<close> does it: \<^verbatim>\<open>Split\<close> at a one-byte separator, \<^verbatim>\<open>TrimRight\<close> and
  \<^verbatim>\<open>TrimLeft\<close> of a byte, and the extension of a file name.
\<close>

fun SplitOn :: "char \<Rightarrow> string \<Rightarrow> string list" where
  "SplitOn c [] = [[]]"
| "SplitOn c (x # xs) = (if x = c then [] # SplitOn c xs
     else (case SplitOn c xs of [] \<Rightarrow> [[x]] | w # ws \<Rightarrow> (x # w) # ws))"

definition TrimRight :: "char \<Rightarrow> string \<Rightarrow> string" where
  "TrimRight c s = rev (dropWhile (\<lambda>x. x = c) (rev s))"

definition TrimLeft :: "char \<Rightarrow> string \<Rightarrow> string" where
  "TrimLeft c s = dropWhile (\<lambda>x. x = c) s"

definition Ext :: "string \<Rightarrow> string" where
  "Ext name = (if CHR ''.'' \<in> set name then CHR ''.'' # rev (takeWhile (\<lambda>x. x \<noteq> CHR ''.'') (rev name)) else [])"

text \<open>\<^verbatim>\<open>strings.Cut\<close>: what is before and after the first separator, if there is one.\<close>

definition Cut :: "char \<Rightarrow> string \<Rightarrow> (string \<times> string) option" where
  "Cut c s = (if c \<in> set s then Some (takeWhile (\<lambda>x. x \<noteq> c) s, tl (dropWhile (\<lambda>x. x \<noteq> c) s)) else None)"

lemma Cut_append [simp]: "c \<notin> set a \<Longrightarrow> Cut c (a @ c # b) = Some (a, b)"
proof -
  assume "c \<notin> set a"
  then have "takeWhile (\<lambda>x. x \<noteq> c) (a @ c # b) = a \<and> dropWhile (\<lambda>x. x \<noteq> c) (a @ c # b) = c # b"
    by (induction a) auto
  then show ?thesis by (simp add: Cut_def)
qed

lemma SplitOn_not_Nil [simp]: "SplitOn c s \<noteq> []"
  by (cases s) (auto split: list.splits)

lemma join_Cons2 [simp]: "join sep (x # y # xs) = x @ sep @ join sep (y # xs)"
  by (simp add: join_def)

lemma join_single [simp]: "join sep [x] = x" "join sep [] = []"
  by (simp_all add: join_def)

lemma join_Cons: "xs \<noteq> [] \<Longrightarrow> join sep (x # xs) = x @ sep @ join sep xs"
  by (cases xs) simp_all

lemma join_SplitOn [simp]: "join [c] (SplitOn c s) = s"
proof (induction s)
  case (Cons x xs)
  show ?case
  proof (cases "x = c")
    case True
    then show ?thesis using Cons by (simp add: join_Cons)
  next
    case False
    obtain w ws where w: "SplitOn c xs = w # ws" by (cases "SplitOn c xs") auto
    then show ?thesis using False Cons by (cases ws) (simp_all add: w)
  qed
qed simp

lemma SplitOn_no_sep: "w \<in> set (SplitOn c s) \<Longrightarrow> c \<notin> set w"
  by (induction s arbitrary: w) (auto split: list.splits if_splits)

lemma SplitOn_word [simp]: "c \<notin> set w \<Longrightarrow> SplitOn c w = [w]"
  by (induction w) auto

lemma SplitOn_append: "c \<notin> set w \<Longrightarrow> SplitOn c (w @ c # s) = w # SplitOn c s"
  by (induction w) auto

lemma SplitOn_join: "ws \<noteq> [] \<Longrightarrow> \<forall>w \<in> set ws. c \<notin> set w \<Longrightarrow> SplitOn c (join [c] ws) = ws"
proof (induction ws rule: induct_list012)
  case (3 x y zs)
  then show ?case using SplitOn_append [of c x "join [c] (y # zs)"] by simp
qed auto

lemma SplitOn_join_append:
  "\<forall>w \<in> set ws. c \<notin> set w \<Longrightarrow> SplitOn c (concat (map (\<lambda>w. w @ [c]) ws) @ s) = ws @ SplitOn c s"
  by (induction ws) (simp_all add: SplitOn_append)

end
