(* ===== verification/Vault.thy ===== *)
theory Vault
  imports StoreMem_Props GoSplit
begin

text \<open>
  The vault loader, \<^verbatim>\<open>internal/retrieval/vault.go\<close>: a markdown file is split from its frontmatter
  and cut at its headings, the declared fields of the frontmatter become dimensions, orderable keys
  and aliases, and the walk over the vault gives one document per file with text. The YAML parser,
  \<^verbatim>\<open>fmt.Sprintf("%v")\<close> of a value that is not a string and the file system are parameters; the
  frontmatter is the list of its fields, in the order the Go map is walked.
\<close>

section \<open>Markdown\<close>

record md_chunk =
  mc_heading :: string
  mc_text :: string

definition nl :: char where "nl = CHR 0x0A"

definition headingTitle :: "string \<Rightarrow> string option" where
  "headingTitle line =
     (let t = TrimSpace line; n = length (takeWhile (\<lambda>c. c = CHR ''#'') t)
      in if n = 0 \<or> n > 6 \<or> n \<ge> length t \<or> (t ! n \<noteq> CHR '' '' \<and> t ! n \<noteq> CHR 0x09) then None
         else let title = TrimSpace (drop n t) in if title = [] then None else Some title)"

definition md_flush :: "md_chunk \<Rightarrow> md_chunk list \<Rightarrow> md_chunk list" where
  "md_flush cur chunks = (if TrimSpace (mc_text cur) \<noteq> [] then chunks @ [cur] else chunks)"

fun md_lines :: "string list \<Rightarrow> md_chunk \<Rightarrow> md_chunk list \<Rightarrow> md_chunk list" where
  "md_lines [] cur chunks = md_flush cur chunks"
| "md_lines (l # ls) cur chunks =
     (case headingTitle l of
        Some title \<Rightarrow> md_lines ls \<lparr>mc_heading = title, mc_text = l @ [nl]\<rparr> (md_flush cur chunks)
      | None \<Rightarrow> md_lines ls (cur\<lparr>mc_text := mc_text cur @ l @ [nl]\<rparr>) chunks)"

definition chunkMarkdown :: "string \<Rightarrow> md_chunk list" where
  "chunkMarkdown body = md_lines (SplitOn nl body) \<lparr>mc_heading = [], mc_text = []\<rparr> []"

section \<open>Frontmatter\<close>

type_synonym front = "(string \<times> yval) list"

definition fence :: string where "fence = ''---''"

definition is_fence :: "string \<Rightarrow> bool" where
  "is_fence l \<longleftrightarrow> TrimRight (CHR 0x0D) l = fence"

text \<open>A malformed block is the error of the parser.\<close>

definition parseFrontmatter :: "(string \<Rightarrow> front result) \<Rightarrow> string \<Rightarrow> (front \<times> string) result" where
  "parseFrontmatter yaml content =
     (case SplitOn nl content of
        first # rest \<Rightarrow>
          if nl \<notin> set content \<or> \<not> is_fence first then Inr ([], content)
          else (let block = takeWhile (\<lambda>l. \<not> is_fence l) rest in
            if length block = length rest then Inr ([], content)
            else (case yaml (join [nl] block) of
                Inl e \<Rightarrow> Inl e
              | Inr f \<Rightarrow> Inr (f, join [nl] (drop (length block + 1) rest))))
      | [] \<Rightarrow> Inr ([], content))"

text \<open>\<open>sprint\<close> is \<^verbatim>\<open>fmt.Sprintf("%v", v)\<close>.\<close>

definition scalarString :: "(yval \<Rightarrow> string) \<Rightarrow> yval \<Rightarrow> string" where
  "scalarString sprint v =
     (case v of
        YNull \<Rightarrow> [] | YList _ \<Rightarrow> [] | YMap _ \<Rightarrow> []
      | YString s \<Rightarrow> TrimSpace s
      | _ \<Rightarrow> TrimSpace (sprint v))"

definition toStrings :: "(yval \<Rightarrow> string) \<Rightarrow> yval option \<Rightarrow> string list" where
  "toStrings sprint v =
     (case v of
        None \<Rightarrow> []
      | Some (YList vs) \<Rightarrow> filter (\<lambda>s. s \<noteq> []) (map (scalarString sprint) vs)
      | Some w \<Rightarrow> filter (\<lambda>s. s \<noteq> []) [scalarString sprint w])"

definition frontString :: "(yval \<Rightarrow> string) \<Rightarrow> front \<Rightarrow> string \<Rightarrow> string" where
  "frontString sprint f k = (case map_of f k of None \<Rightarrow> [] | Some v \<Rightarrow> scalarString sprint v)"

definition frontDimensions :: "(yval \<Rightarrow> string) \<Rightarrow> front \<Rightarrow> string list \<Rightarrow> (string \<rightharpoonup> string list)" where
  "frontDimensions sprint f dims =
     (\<lambda>d. if d \<in> set dims \<and> toStrings sprint (map_of f d) \<noteq> [] then Some (toStrings sprint (map_of f d)) else None)"

definition frontAliases :: "(yval \<Rightarrow> string) \<Rightarrow> front \<Rightarrow> string list" where
  "frontAliases sprint f = toStrings sprint (map_of f ''aliases'') @
     filter (\<lambda>s. s \<noteq> []) (map (\<lambda>(k, v). scalarString sprint v) (filter (\<lambda>(k, v). prefix ''name_'' k) f))"

type_synonym kinds = "string \<rightharpoonup> order_kind"

text \<open>\<open>parse\<close> is \<open>ParseOrderedValue\<close>.\<close>

fun frontOrdered ::
    "(yval \<Rightarrow> (f64 \<times> order_kind) option) \<Rightarrow> front \<Rightarrow> string list \<Rightarrow> (string \<rightharpoonup> f64) \<times> string list \<times> kinds
     \<Rightarrow> (string \<rightharpoonup> f64) \<times> string list \<times> kinds" where
  "frontOrdered parse front [] st = st"
| "frontOrdered parse front (f # fs) (vals, skipped, kinds) =
     frontOrdered parse front fs
       (case map_of front f of
          None \<Rightarrow> (vals, skipped, kinds)
        | Some YNull \<Rightarrow> (vals, skipped, kinds)
        | Some raw \<Rightarrow> (case parse raw of
              None \<Rightarrow> (vals, skipped @ [f], kinds)
            | Some (k, kind) \<Rightarrow>
                (case kinds f of
                   Some fixed \<Rightarrow> if fixed \<noteq> kind then (vals, skipped @ [f], kinds) else (vals(f \<mapsto> k), skipped, kinds)
                 | None \<Rightarrow> (vals(f \<mapsto> k), skipped, kinds(f \<mapsto> kind)))))"

section \<open>The walk\<close>

text \<open>
  A directory as \<^verbatim>\<open>WalkDir\<close> lists it: files with what reading them gives, directories with the error
  of listing them or their entries in lexical order.
\<close>

datatype vnode = VFile string "string result" | VDir string "error option" "vnode list"

definition is_markdown :: "string \<Rightarrow> bool" where
  "is_markdown name \<longleftrightarrow> Ext name \<in> {''.md'', ''.Md'', ''.mD'', ''.MD''}"

record loader_env =
  le_yaml :: "string \<Rightarrow> front result"
  le_sprint :: "yval \<Rightarrow> string"
  le_parse :: "yval \<Rightarrow> (f64 \<times> order_kind) option"
  le_ctx :: "string \<Rightarrow> error option"
  le_dimensions :: "string list"
  le_orderable :: "string list"

definition file_chunks :: "string \<Rightarrow> string \<Rightarrow> chunk list" where
  "file_chunks rel body = map (\<lambda>c. \<lparr>c_Source = (if mc_heading c \<noteq> [] then rel @ ''#'' @ mc_heading c else rel),
     c_Text = TrimSpace (mc_text c)\<rparr>) (chunkMarkdown body)"

definition visit_file :: "loader_env \<Rightarrow> string \<Rightarrow> string \<Rightarrow> doc list \<times> kinds \<Rightarrow> (doc list \<times> kinds) result" where
  "visit_file env rel content st =
     (case parseFrontmatter (le_yaml env) content of
        Inl e \<Rightarrow> Inl (Wrap ''frontmatter in'' e)
      | Inr (front, body) \<Rightarrow>
          (let chunks = file_chunks rel body in
           if chunks = [] then Inr st
           else (case frontOrdered (le_parse env) front (le_orderable env) (Map.empty, [], snd st) of
               (vals, skipped, kinds) \<Rightarrow>
                 Inr (fst st @ [\<lparr>d_Ref = \<lparr>dr_Path = rel, dr_Title = frontString (le_sprint env) front ''title''\<rparr>,
                        d_Chunks = chunks, d_Dimensions = frontDimensions (le_sprint env) front (le_dimensions env),
                        d_Aliases = frontAliases (le_sprint env) front, d_Ordered = vals, d_OrderedSkipped = skipped\<rparr>],
                      kinds))))"

fun walk :: "loader_env \<Rightarrow> string \<Rightarrow> vnode list \<Rightarrow> doc list \<times> kinds \<Rightarrow> (doc list \<times> kinds) result" where
  "walk env dir [] st = Inr st"
| "walk env dir (VFile name content # ns) st =
     (case le_ctx env (dir @ name) of Some e \<Rightarrow> Inl e
      | None \<Rightarrow>
          if \<not> is_markdown name then walk env dir ns st
          else (case content of Inl e \<Rightarrow> Inl e
              | Inr text \<Rightarrow> (case visit_file env (dir @ name) text st of
                    Inl e \<Rightarrow> Inl e | Inr st' \<Rightarrow> walk env dir ns st')))"
| "walk env dir (VDir name e kids # ns) st =
     (case le_ctx env (dir @ name) of Some e \<Rightarrow> Inl e
      | None \<Rightarrow>
          if prefix ''.'' name then walk env dir ns st
          else (case e of Some e \<Rightarrow> Inl e
              | None \<Rightarrow> (case walk env (dir @ name @ ''/'') kids st of
                    Inl e \<Rightarrow> Inl e | Inr st' \<Rightarrow> walk env dir ns st')))"

text \<open>\<open>vault\<close>: what reading the vault directory itself gives.\<close>

definition VaultDocs :: "loader_env \<Rightarrow> vnode list result \<Rightarrow> doc list result" where
  "VaultDocs env vault =
     (case le_ctx env [] of Some e \<Rightarrow> Inl (Wrap ''retrieval: scan'' e)
      | None \<Rightarrow> (case vault of Inl e \<Rightarrow> Inl (Wrap ''retrieval: scan'' e)
          | Inr ns \<Rightarrow> (case walk env [] ns ([], Map.empty) of
                Inl e \<Rightarrow> Inl (Wrap ''retrieval: scan'' e)
              | Inr (docs, _) \<Rightarrow> Inr docs)))"

section \<open>Cutting at headings\<close>

definition unlines :: "string list \<Rightarrow> string" where
  "unlines ls = concat (map (\<lambda>l. l @ [nl]) ls)"

definition group_chunk :: "string list \<Rightarrow> md_chunk" where
  "group_chunk g = \<lparr>mc_heading = (case g of [] \<Rightarrow> [] | l # _ \<Rightarrow> (case headingTitle l of None \<Rightarrow> [] | Some t \<Rightarrow> t)),
     mc_text = unlines g\<rparr>"

definition blank :: "string list \<Rightarrow> bool" where
  "blank g \<longleftrightarrow> TrimSpace (unlines g) = []"

text \<open>Lines grouped as a heading and what follows it up to the next one.\<close>

fun groups :: "string list \<Rightarrow> string list \<Rightarrow> string list list" where
  "groups [] g = [g]"
| "groups (l # ls) g = (if headingTitle l \<noteq> None then g # groups ls [l] else groups ls (g @ [l]))"

lemma unlines_simps [simp]: "unlines [] = []" "unlines (l # ls) = l @ nl # unlines ls" "unlines (a @ b) = unlines a @ unlines b"
  by (simp_all add: unlines_def)

lemma group_chunk_text [simp]: "mc_text (group_chunk g) = unlines g"
  by (simp add: group_chunk_def)

lemma group_chunk_snoc: "headingTitle l = None \<Longrightarrow>
    (group_chunk g)\<lparr>mc_text := unlines g @ l @ [nl]\<rparr> = group_chunk (g @ [l])"
  by (cases g) (simp_all add: group_chunk_def)

lemma md_lines_groups: "md_lines ls (group_chunk g) chunks =
    chunks @ map group_chunk (filter (\<lambda>g. \<not> blank g) (groups ls g))"
proof (induction ls arbitrary: g chunks)
  case (Cons l ls)
  show ?case
  proof (cases "headingTitle l")
    case None
    then show ?thesis by (simp add: group_chunk_snoc Cons)
  next
    case (Some t)
    then have "\<lparr>mc_heading = t, mc_text = l @ [nl]\<rparr> = group_chunk [l]" by (simp add: group_chunk_def)
    then show ?thesis using Some by (simp add: Cons md_flush_def blank_def)
  qed
qed (simp add: md_flush_def blank_def)

lemma chunkMarkdown_groups: "chunkMarkdown body = map group_chunk (filter (\<lambda>g. \<not> blank g) (groups (SplitOn nl body) []))"
proof -
  have "\<lparr>mc_heading = [], mc_text = []\<rparr> = group_chunk []" by (simp add: group_chunk_def)
  then show ?thesis by (simp add: chunkMarkdown_def md_lines_groups)
qed

lemma groups_concat: "concat (groups ls g) = g @ ls"
  by (induction ls g rule: groups.induct) simp_all

abbreviation no_inner_heading :: "string list \<Rightarrow> bool" where
  "no_inner_heading g \<equiv> list_all (\<lambda>l. headingTitle l = None) (tl g)"

lemma groups_tl: "no_inner_heading g \<Longrightarrow> list_all no_inner_heading (groups ls g)"
proof (induction ls g rule: groups.induct)
  case (2 l ls g)
  show ?case
  proof (cases "headingTitle l")
    case None
    then have "no_inner_heading (g @ [l])" using "2.prems" by (cases g) simp_all
    then show ?thesis using "2.IH"(2) None by simp
  next
    case (Some t)
    then show ?thesis using "2.IH"(1) "2.prems" by simp
  qed
qed simp

lemma groups_Cons: "\<exists>g' gs. groups ls g = g' # gs \<and> prefix g g'"
proof (induction ls g rule: groups.induct)
  case (2 l ls g)
  then show ?case by (cases "headingTitle l") (auto dest: append_prefixD)
qed simp

lemma groups_heads: "\<forall>x \<in> set (tl (groups ls g)). x \<noteq> [] \<and> headingTitle (hd x) \<noteq> None"
proof (induction ls g rule: groups.induct)
  case (2 l ls g)
  show ?case
  proof (cases "headingTitle l")
    case (Some t)
    obtain g' gs where g: "groups ls [l] = g' # gs" "prefix [l] g'" using groups_Cons by blast
    then have "g' \<noteq> [] \<and> hd g' = l" by (auto simp: prefix_def)
    then show ?thesis using 2 Some g(1) by simp
  qed (use 2 in simp)
qed simp

text \<open>Cutting a note into chunks loses nothing and moves nothing: the lines of the note fall, in
  order, into groups of which every one but the first opens with a heading and none has another
  heading inside, and the chunks are these groups, headed by their heading, without the groups that
  are whitespace only.\<close>

theorem chunkMarkdown_partition:
  "\<exists>gs. concat gs = SplitOn nl body \<and>
     chunkMarkdown body = map group_chunk (filter (\<lambda>g. \<not> blank g) gs) \<and>
     list_all no_inner_heading gs \<and>
     list_all (\<lambda>g. g \<noteq> [] \<and> headingTitle (hd g) \<noteq> None) (tl gs)"
  using groups_concat [of "SplitOn nl body" "[]"] chunkMarkdown_groups [of body]
    groups_tl [of "[]" "SplitOn nl body"] groups_heads [of "SplitOn nl body" "[]"]
  by (intro exI [of _ "groups (SplitOn nl body) []"]) (simp add: list_all_iff)

section \<open>Frontmatter\<close>

lemma takeWhile_fence: "\<forall>l \<in> set ls. \<not> P l \<Longrightarrow> P f \<Longrightarrow> takeWhile (\<lambda>l. \<not> P l) (ls @ f # rest) = ls"
  by (induction ls) auto

text \<open>A note written as a frontmatter block between two fences and a body reads back as exactly
  that block, parsed, and that body; the block may hold any lines but a fence, and the fences may end
  in carriage returns. A note that does not open with a fence, or never closes it, is all body.\<close>

theorem frontmatter_roundtrip:
  assumes "is_fence f1" and "is_fence f2" and "\<forall>l \<in> set ls. \<not> is_fence l"
    and "\<forall>l \<in> set (f1 # f2 # ls). nl \<notin> set l"
  shows "parseFrontmatter yaml (join [nl] (f1 # ls @ f2 # SplitOn nl body)) =
      (case yaml (join [nl] ls) of Inl e \<Rightarrow> Inl e | Inr f \<Rightarrow> Inr (f, body)) \<and>
    parseFrontmatter yaml (join [nl] (f1 # ls)) = Inr ([], join [nl] (f1 # ls)) \<and>
    (\<forall>l. \<not> is_fence l \<and> nl \<notin> set l \<longrightarrow> parseFrontmatter yaml (l @ nl # body) = Inr ([], l @ nl # body))"
proof -
  let ?ws = "f1 # ls @ f2 # SplitOn nl body"
  have split: "SplitOn nl (join [nl] ?ws) = ?ws"
    using assms(4) SplitOn_no_sep [of _ nl body] by (intro SplitOn_join) auto
  have "nl \<in> set (join [nl] ?ws)" by (simp add: join_Cons)
  moreover have "takeWhile (\<lambda>l. \<not> is_fence l) (ls @ f2 # SplitOn nl body) = ls"
    by (rule takeWhile_fence) (use assms in auto)
  ultimately have "parseFrontmatter yaml (join [nl] ?ws) =
      (case yaml (join [nl] ls) of Inl e \<Rightarrow> Inl e | Inr f \<Rightarrow> Inr (f, body))"
    unfolding parseFrontmatter_def split using assms(1) by (simp add: Let_def cong: sum.case_cong)
  moreover have "SplitOn nl (join [nl] (f1 # ls)) = f1 # ls"
    using assms(4) by (intro SplitOn_join) auto
  then have "parseFrontmatter yaml (join [nl] (f1 # ls)) = Inr ([], join [nl] (f1 # ls))"
    using assms(3) by (simp add: parseFrontmatter_def Let_def takeWhile_eq_all_conv [THEN iffD2])
  moreover have "parseFrontmatter yaml (l @ nl # body) = Inr ([], l @ nl # body)" if "\<not> is_fence l" "nl \<notin> set l" for l
    using that by (simp add: parseFrontmatter_def SplitOn_append)
  ultimately show ?thesis by auto
qed

section \<open>The scan as a map\<close>

text \<open>
  What one value of a note's frontmatter is worth once the kind of every field is settled (\<open>K\<close>): its
  key, and whether the note carries it without it being usable.
\<close>

definition carried_raw :: "front \<Rightarrow> string \<Rightarrow> yval option" where
  "carried_raw front f = (case map_of front f of None \<Rightarrow> None | Some YNull \<Rightarrow> None | Some raw \<Rightarrow> Some raw)"

definition usable :: "(yval \<Rightarrow> (f64 \<times> order_kind) option) \<Rightarrow> kinds \<Rightarrow> front \<Rightarrow> string \<Rightarrow> f64 option" where
  "usable parse K front f = (case carried_raw front f of None \<Rightarrow> None
     | Some raw \<Rightarrow> (case parse raw of None \<Rightarrow> None | Some (k, kind) \<Rightarrow> if K f = Some kind then Some k else None))"

definition refused :: "(yval \<Rightarrow> (f64 \<times> order_kind) option) \<Rightarrow> kinds \<Rightarrow> front \<Rightarrow> string \<Rightarrow> bool" where
  "refused parse K front f \<longleftrightarrow> carried_raw front f \<noteq> None \<and> usable parse K front f = None"

definition ordered_step ::
    "(yval \<Rightarrow> (f64 \<times> order_kind) option) \<Rightarrow> front \<Rightarrow> string \<Rightarrow> (string \<rightharpoonup> f64) \<times> string list \<times> kinds
     \<Rightarrow> (string \<rightharpoonup> f64) \<times> string list \<times> kinds" where
  "ordered_step parse front f st = frontOrdered parse front [f] st"

lemma frontOrdered_Cons: "frontOrdered parse front (f # fs) st = frontOrdered parse front fs (ordered_step parse front f st)"
  by (cases st) (simp add: ordered_step_def)

lemma ordered_step_spec:
  assumes "ordered_step parse front f (vals, skipped, kinds) = (vals', skipped', kinds')"
  shows "kinds \<subseteq>\<^sub>m kinds'"
    and "kinds' \<subseteq>\<^sub>m K \<Longrightarrow> vals' = (case usable parse K front f of None \<Rightarrow> vals | Some k \<Rightarrow> vals(f \<mapsto> k))"
    and "kinds' \<subseteq>\<^sub>m K \<Longrightarrow> skipped' = skipped @ filter (refused parse K front) [f]"
proof -
  have cases: "(carried_raw front f = None \<and> vals' = vals \<and> skipped' = skipped \<and> kinds' = kinds)
    \<or> (\<exists>raw. carried_raw front f = Some raw \<and>
        ((parse raw = None \<and> vals' = vals \<and> skipped' = skipped @ [f] \<and> kinds' = kinds)
         \<or> (\<exists>k kind fixed. parse raw = Some (k, kind) \<and> kinds f = Some fixed \<and> fixed \<noteq> kind \<and> vals' = vals \<and> skipped' = skipped @ [f] \<and> kinds' = kinds)
         \<or> (\<exists>k kind. parse raw = Some (k, kind) \<and> kinds' f = Some kind \<and> vals' = vals(f \<mapsto> k) \<and> skipped' = skipped \<and>
              (kinds' = kinds \<or> kinds f = None \<and> kinds' = kinds(f \<mapsto> kind)))))"
    using assms by (auto simp: ordered_step_def carried_raw_def split: option.splits yval.splits if_splits)
  then show "kinds \<subseteq>\<^sub>m kinds'" by (auto simp: map_le_def)
  assume "kinds' \<subseteq>\<^sub>m K"
  then have at: "kinds' f = Some kind \<Longrightarrow> K f = Some kind" for kind by (metis domI map_le_def)
  show "vals' = (case usable parse K front f of None \<Rightarrow> vals | Some k \<Rightarrow> vals(f \<mapsto> k))"
    using cases at by (auto simp: usable_def)
  show "skipped' = skipped @ filter (refused parse K front) [f]"
    using cases at by (auto simp: usable_def refused_def)
qed

definition usable_keys :: "(yval \<Rightarrow> (f64 \<times> order_kind) option) \<Rightarrow> kinds \<Rightarrow> front \<Rightarrow> string list \<Rightarrow> (string \<rightharpoonup> f64)" where
  "usable_keys parse K front fs = (\<lambda>f. if f \<in> set fs then usable parse K front f else None)"

lemma frontOrdered_spec:
  assumes "frontOrdered parse front fs (vals, skipped, kinds) = (vals', skipped', kinds')"
  shows "kinds \<subseteq>\<^sub>m kinds' \<and> (\<forall>K. kinds' \<subseteq>\<^sub>m K \<longrightarrow>
    vals' = vals ++ usable_keys parse K front fs \<and> skipped' = skipped @ filter (refused parse K front) fs)"
  using assms
proof (induction fs arbitrary: vals skipped kinds)
  case Nil
  then show ?case by (auto simp: usable_keys_def fun_eq_iff map_add_def)
next
  case (Cons f fs)
  obtain v s k where st: "ordered_step parse front f (vals, skipped, kinds) = (v, s, k)" by (metis prod_cases3)
  have ih: "k \<subseteq>\<^sub>m kinds' \<and> (\<forall>K. kinds' \<subseteq>\<^sub>m K \<longrightarrow>
      vals' = v ++ usable_keys parse K front fs \<and> skipped' = s @ filter (refused parse K front) fs)"
    by (rule Cons.IH) (use Cons.prems in \<open>simp only: frontOrdered_Cons st\<close>)
  show ?case
  proof (intro conjI allI impI)
    show "kinds \<subseteq>\<^sub>m kinds'" using ih ordered_step_spec(1) [OF st] map_le_trans by blast
    fix K
    assume K: "kinds' \<subseteq>\<^sub>m K"
    then have k: "k \<subseteq>\<^sub>m K" using ih map_le_trans by blast
    show "vals' = vals ++ usable_keys parse K front (f # fs)"
      using ih K ordered_step_spec(2) [OF st k]
      by (auto simp: usable_keys_def fun_eq_iff map_add_def split: option.splits)
    show "skipped' = skipped @ filter (refused parse K front) (f # fs)"
      using ih K ordered_step_spec(3) [OF st k] by simp
  qed
qed

text \<open>The markdown files of a vault outside its dot directories, and the document of one of them.\<close>

fun md_files :: "string \<Rightarrow> vnode list \<Rightarrow> (string \<times> string result) list" where
  "md_files dir [] = []"
| "md_files dir (VFile name content # ns) = (if is_markdown name then [(dir @ name, content)] else []) @ md_files dir ns"
| "md_files dir (VDir name e kids # ns) =
     (if prefix ''.'' name then [] else md_files (dir @ name @ ''/'') kids) @ md_files dir ns"

definition doc_at :: "loader_env \<Rightarrow> kinds \<Rightarrow> string \<times> string result \<Rightarrow> doc option" where
  "doc_at env K file =
     (case snd file of Inl _ \<Rightarrow> None | Inr content \<Rightarrow>
       (case parseFrontmatter (le_yaml env) content of Inl _ \<Rightarrow> None | Inr (front, body) \<Rightarrow>
          if file_chunks (fst file) body = [] then None
          else Some \<lparr>d_Ref = \<lparr>dr_Path = fst file, dr_Title = frontString (le_sprint env) front ''title''\<rparr>,
            d_Chunks = file_chunks (fst file) body, d_Dimensions = frontDimensions (le_sprint env) front (le_dimensions env),
            d_Aliases = frontAliases (le_sprint env) front,
            d_Ordered = usable_keys (le_parse env) K front (le_orderable env),
            d_OrderedSkipped = filter (refused (le_parse env) K front) (le_orderable env)\<rparr>))"

definition docs_of :: "loader_env \<Rightarrow> kinds \<Rightarrow> (string \<times> string result) list \<Rightarrow> doc list" where
  "docs_of env K files = List.map_filter (doc_at env K) files"

lemma docs_of_simps [simp]: "docs_of env K [] = []" "docs_of env K (a @ b) = docs_of env K a @ docs_of env K b"
  "docs_of env K (f # fs) = (case doc_at env K f of None \<Rightarrow> [] | Some d \<Rightarrow> [d]) @ docs_of env K fs"
  by (auto simp: docs_of_def List.map_filter_def split: option.splits)

lemma visit_file_map:
  assumes "visit_file env rel content st = Inr st'"
  shows "snd st \<subseteq>\<^sub>m snd st' \<and> (\<forall>K. snd st' \<subseteq>\<^sub>m K \<longrightarrow> fst st' = fst st @ docs_of env K [(rel, Inr content)])"
proof -
  obtain front body where p: "parseFrontmatter (le_yaml env) content = Inr (front, body)"
    using assms by (auto simp: visit_file_def split: sum.splits)
  show ?thesis
  proof (cases "file_chunks rel body = []")
    case True
    then show ?thesis using assms p by (auto simp: visit_file_def doc_at_def)
  next
    case False
    obtain v s k where o: "frontOrdered (le_parse env) front (le_orderable env) (Map.empty, [], snd st) = (v, s, k)"
      by (metis prod_cases3)
    then show ?thesis
      using assms p False frontOrdered_spec [OF o] by (auto simp: visit_file_def doc_at_def Let_def)
  qed
qed

lemma walk_map:
  assumes "walk env dir ns st = Inr st'"
  shows "snd st \<subseteq>\<^sub>m snd st' \<and> (\<forall>K. snd st' \<subseteq>\<^sub>m K \<longrightarrow> fst st' = fst st @ docs_of env K (md_files dir ns))"
  using assms
proof (induction env dir ns st arbitrary: st' rule: walk.induct)
  case (2 env dir name content ns st)
  show ?case
  proof (cases "is_markdown name")
    case True
    obtain src st1 where t: "content = Inr src" and v: "visit_file env (dir @ name) src st = Inr st1"
      and w: "walk env dir ns st1 = Inr st'" and c: "le_ctx env (dir @ name) = None"
      using "2.prems" True by (auto split: option.splits sum.splits)
    have "snd st1 \<subseteq>\<^sub>m snd st' \<and> (\<forall>K. snd st' \<subseteq>\<^sub>m K \<longrightarrow> fst st' = fst st1 @ docs_of env K (md_files dir ns))"
      using "2.IH"(2) [OF c _ t v w] True by simp
    then show ?thesis using visit_file_map [OF v] True t by (auto dest: map_le_trans)
  qed (use 2 in \<open>auto split: option.splits\<close>)
next
  case (3 env dir name e kids ns st)
  show ?case
  proof (cases "prefix ''.'' name")
    case False
    obtain st1 where k: "walk env (dir @ name @ ''/'') kids st = Inr st1" and w: "walk env dir ns st1 = Inr st'"
      and c: "le_ctx env (dir @ name) = None" and e: "e = None"
      using "3.prems" False by (auto split: option.splits sum.splits)
    have "snd st \<subseteq>\<^sub>m snd st1 \<and> (\<forall>K. snd st1 \<subseteq>\<^sub>m K \<longrightarrow> fst st1 = fst st @ docs_of env K (md_files (dir @ name @ ''/'') kids))"
      using "3.IH"(2) [OF c False e k] .
    moreover have "snd st1 \<subseteq>\<^sub>m snd st' \<and> (\<forall>K. snd st' \<subseteq>\<^sub>m K \<longrightarrow> fst st' = fst st1 @ docs_of env K (md_files dir ns))"
      using "3.IH"(3) [OF c False e k w] .
    ultimately show ?thesis using False by (auto dest: map_le_trans)
  qed (use 3 in \<open>auto split: option.splits\<close>)
qed simp

lemma scan_map:
  assumes "VaultDocs env (Inr ns) = Inr docs"
  shows "\<exists>K. docs = docs_of env K (md_files [] ns)"
proof -
  obtain k where "walk env [] ns ([], Map.empty) = Inr (docs, k)"
    using assms by (auto simp: VaultDocs_def split: option.splits sum.splits)
  from walk_map [OF this] have "docs = docs_of env k (md_files [] ns)" by auto
  then show ?thesis by (rule exI [of _ k])
qed

text \<open>Whether everything the walk has to read can be read, and every frontmatter block parsed.\<close>

fun readable :: "loader_env \<Rightarrow> string \<Rightarrow> vnode list \<Rightarrow> bool" where
  "readable env dir [] = True"
| "readable env dir (VFile name content # ns) = (le_ctx env (dir @ name) = None \<and>
     (\<not> is_markdown name \<or> (case content of Inl _ \<Rightarrow> False
        | Inr src \<Rightarrow> (case parseFrontmatter (le_yaml env) src of Inl _ \<Rightarrow> False | Inr _ \<Rightarrow> True))) \<and> readable env dir ns)"
| "readable env dir (VDir name e kids # ns) = (le_ctx env (dir @ name) = None \<and>
     (prefix ''.'' name \<or> e = None \<and> readable env (dir @ name @ ''/'') kids) \<and> readable env dir ns)"

lemma visit_file_total: "(\<exists>st'. visit_file env rel src st = Inr st') \<longleftrightarrow>
    (case parseFrontmatter (le_yaml env) src of Inl _ \<Rightarrow> False | Inr _ \<Rightarrow> True)"
  by (auto simp: visit_file_def Let_def split: sum.splits prod.splits)

lemma walk_total: "(\<exists>st'. walk env dir ns st = Inr st') \<longleftrightarrow> readable env dir ns"
proof (induction env dir ns st rule: walk.induct)
  case (2 env dir name content ns st)
  show ?case
  proof (cases "le_ctx env (dir @ name) = None \<and> is_markdown name")
    case True
    then show ?thesis
    proof (cases content)
      case (Inr src)
      then show ?thesis
        using "2.IH"(2) True visit_file_total [of env "dir @ name" src st]
        by (auto split: sum.splits)
    qed simp
  qed (use 2 in \<open>auto split: option.splits\<close>)
next
  case (3 env dir name e kids ns st)
  show ?case
  proof (cases "le_ctx env (dir @ name) = None \<and> \<not> prefix ''.'' name \<and> e = None")
    case True
    then show ?thesis using "3.IH"(2,3) by (auto split: sum.splits)
  qed (use 3 in \<open>auto split: option.splits\<close>)
qed simp

text \<open>A scan fails exactly when something it has to read fails: a listing, a markdown file outside
  the dot directories, a frontmatter block, or the context. A scan that succeeds returns one document
  per markdown file with text, in the order of the walk, and the kind of every orderable field is the
  same in all of them: there is one kind per field such that every document holds exactly its values
  of that kind, and names exactly the fields it carries a value for that is unreadable or of another
  kind.\<close>

theorem scan_is_map:
  "case VaultDocs env (Inr ns) of
     Inl e \<Rightarrow> \<not> (le_ctx env [] = None \<and> readable env [] ns)
   | Inr docs \<Rightarrow> le_ctx env [] = None \<and> readable env [] ns \<and> (\<exists>K. docs = docs_of env K (md_files [] ns))"
proof (cases "VaultDocs env (Inr ns)")
  case (Inl e)
  then show ?thesis using walk_total [of env "[]" ns "([], Map.empty)"]
    by (auto simp: VaultDocs_def split: option.splits sum.splits)
next
  case (Inr docs)
  then have "le_ctx env [] = None \<and> readable env [] ns" using walk_total [of env "[]" ns "([], Map.empty)"]
    by (auto simp: VaultDocs_def split: option.splits sum.splits)
  then show ?thesis using Inr scan_map [OF Inr] by simp
qed

theorem frontmatter_roundtrip_witness:
  "parseFrontmatter (\<lambda>_. Inr [(''n'', YInt 1)]) (join [nl] [fence @ [CHR 0x0D], ''n: 1'', fence, ''first'']) =
    Inr ([(''n'', YInt 1)], ''first'')"
proof -
  have "SplitOn nl ''first'' = [''first'']" by (simp add: nl_def)
  then show ?thesis
    using frontmatter_roundtrip [of "fence @ [CHR 0x0D]" fence "[''n: 1'']" "\<lambda>_. Inr [(''n'', YInt 1)]" "''first''"]
    by (simp add: is_fence_def fence_def TrimRight_def nl_def)
qed

end
