(* ===== verification/Tools.thy ===== *)
theory Tools
  imports StoreMem_Props GoSplit
begin

text \<open>
  The structured tools of the model, \<^verbatim>\<open>internal/tools/enumerate.go\<close> and
  \<^verbatim>\<open>internal/tools/dimensions.go\<close>: reading the arguments of a call, intersecting and ordering what
  the store returns, and rendering the result. The store is a record of its three lookups, each with
  an error outcome. Lower-casing, \<^verbatim>\<open>%q\<close>, \<^verbatim>\<open>strconv.ParseFloat\<close>, the rounding of an int to a float64
  and the conversion of a float64 to an int are the record \<open>tool_env\<close>: Go leaves the conversion of a
  value outside the range of the int to the machine.
\<close>

section \<open>Arguments\<close>

text \<open>A decoded JSON value; \<open>JInt\<close> is an int a Go caller passes.\<close>

datatype jval = JNull | JBool bool | JNum f64 | JInt int | JStr string | JList "jval list" | JObj "(string \<times> jval) list"

type_synonym args = "(string \<times> jval) list"

record tool_env =
  te_lower :: "string \<Rightarrow> string"
  te_quote :: "string \<Rightarrow> string"
  te_parse_float :: "string \<Rightarrow> f64 option"
  te_rnd :: "rat \<Rightarrow> rat"
  te_to_int :: "f64 \<Rightarrow> int"

record structured =
  st_Enumerate :: "string \<Rightarrow> string \<Rightarrow> doc_ref list result"
  st_Ordered :: "string \<Rightarrow> direction \<Rightarrow> int \<Rightarrow> doc_ref list result"
  st_Dimensions :: "(string \<rightharpoonup> string list) result"

text \<open>What the memory backend gives the tools.\<close>

definition mem_structured :: "(string \<Rightarrow> string) \<Rightarrow> 'v mem_index \<Rightarrow> structured" where
  "mem_structured key ix = \<lparr>st_Enumerate = (\<lambda>d v. Inr (Enumerate key ix d v)),
     st_Ordered = (\<lambda>f dir k. Inr (Ordered ix f dir k)), st_Dimensions = Inr (Dimensions ix)\<rparr>"

definition scalarArg :: "args \<Rightarrow> string \<Rightarrow> string" where
  "scalarArg args k = (case map_of args k of Some (JStr s) \<Rightarrow> TrimSpace s | _ \<Rightarrow> [])"

fun whole_positive :: "f64 \<Rightarrow> bool" where
  "whole_positive (Fin q) = (of_int \<lfloor>q\<rfloor> = q \<and> 1 \<le> q)"
| "whole_positive PInf = True"
| "whole_positive _ = False"

definition positive_int :: "tool_env \<Rightarrow> f64 \<Rightarrow> int result" where
  "positive_int env n =
     (if whole_positive n then Inr (te_to_int env n) else Inl (ErrMsg ''kb_enumerate: must be a positive whole number''))"

definition intArg :: "tool_env \<Rightarrow> args \<Rightarrow> string \<Rightarrow> int result" where
  "intArg env args k =
     (case map_of args k of
        None \<Rightarrow> Inr 0
      | Some JNull \<Rightarrow> Inr 0
      | Some (JNum n) \<Rightarrow> positive_int env n
      | Some (JInt i) \<Rightarrow> positive_int env (Fin (te_rnd env (of_int i)))
      | Some (JStr t) \<Rightarrow>
          (let s = TrimSpace t in
           if s = [] then Inr 0
           else (case te_parse_float env s of
               None \<Rightarrow> Inl (ErrMsg ''kb_enumerate: must be a positive whole number'')
             | Some n \<Rightarrow> positive_int env n))
      | _ \<Rightarrow> Inl (ErrMsg ''kb_enumerate: must be a positive whole number''))"

record predicate =
  p_dimension :: string
  p_value :: string

fun and_filters :: "jval list \<Rightarrow> predicate list result" where
  "and_filters [] = Inr []"
| "and_filters (JObj m # items) =
     (let d = scalarArg m ''dimension''; v = scalarArg m ''value'' in
      if d = [] \<or> v = [] then Inl (ErrMsg ''kb_enumerate: each 'and' filter needs both dimension and value.'')
      else (case and_filters items of Inl e \<Rightarrow> Inl e | Inr ps \<Rightarrow> Inr (\<lparr>p_dimension = d, p_value = v\<rparr> # ps)))"
| "and_filters (_ # items) = Inl (ErrMsg ''kb_enumerate: each 'and' filter must be an object with dimension and value'')"

definition parsePredicates :: "args \<Rightarrow> bool \<Rightarrow> predicate list result" where
  "parsePredicates args sorting =
     (let d = scalarArg args ''dimension''; v = scalarArg args ''value'' in
      if d = [] \<and> v = [] then
        (if sorting then Inr []
         else if map_of args ''and'' \<noteq> None
         then Inl (ErrMsg ''kb_enumerate: both dimension and value are required, also when 'and' is given.'')
         else Inl (ErrMsg ''kb_enumerate: both dimension and value are required.''))
      else if v = [] then Inl (ErrMsg ''kb_enumerate: both dimension and value are required: dimension was given without a value.'')
      else if d = [] then Inl (ErrMsg ''kb_enumerate: both dimension and value are required: value was given without a dimension.'')
      else (case map_of args ''and'' of
          None \<Rightarrow> Inr [\<lparr>p_dimension = d, p_value = v\<rparr>]
        | Some JNull \<Rightarrow> Inr [\<lparr>p_dimension = d, p_value = v\<rparr>]
        | Some (JList items) \<Rightarrow>
            (case and_filters items of Inl e \<Rightarrow> Inl e | Inr ps \<Rightarrow> Inr (\<lparr>p_dimension = d, p_value = v\<rparr> # ps))
        | _ \<Rightarrow> Inl (ErrMsg ''kb_enumerate: 'and' must be a list of {dimension, value} filters'')))"

record enumerate_tool =
  et_dimensions :: "string list"
  et_orderable :: "string list"

record order =
  o_field :: string
  o_dir :: direction
  o_limit :: int

definition no_order :: order where
  "no_order = \<lparr>o_field = [], o_dir = Ascending, o_limit = 0\<rparr>"

definition parseOrder :: "tool_env \<Rightarrow> enumerate_tool \<Rightarrow> args \<Rightarrow> order result" where
  "parseOrder env e args =
     (let field = scalarArg args ''sort'' in
      if field = [] then Inr no_order
      else if field \<notin> set (et_orderable e) then
        (if et_orderable e = [] then Inl (ErrMsg ''kb_enumerate: this knowledge base declares no orderable fields, so results cannot be sorted'')
         else Inl (ErrMsg ''kb_enumerate: unknown sort field''))
      else (let d = te_lower env (scalarArg args ''direction'') in
        if d \<noteq> [] \<and> d \<noteq> ''desc'' \<and> d \<noteq> ''asc'' then Inl (ErrMsg ''kb_enumerate: direction must be desc or asc'')
        else (case intArg env args ''limit'' of Inl err \<Rightarrow> Inl err
            | Inr limit \<Rightarrow> Inr \<lparr>o_field = field, o_dir = (if d = ''asc'' then Ascending else Descending), o_limit = limit\<rparr>)))"

section \<open>Lookup\<close>

definition paths :: "doc_ref list \<Rightarrow> string set" where
  "paths refs = dr_Path ` set refs"

fun intersect_rest ::
    "(string \<Rightarrow> string \<Rightarrow> doc_ref list result) \<Rightarrow> doc_ref list \<Rightarrow> predicate list \<Rightarrow> (doc_ref list \<times> predicate option) result" where
  "intersect_rest enum found [] = Inr (found, None)"
| "intersect_rest enum found (p # ps) =
     (case enum (p_dimension p) (p_value p) of
        Inl e \<Rightarrow> Inl e
      | Inr refs \<Rightarrow> if refs = [] then Inr ([], Some p)
          else intersect_rest enum (filter (\<lambda>r. dr_Path r \<in> paths refs) found) ps)"

text \<open>Without a filter the code would index past the end of the list; no caller passes none.\<close>

fun intersect :: "(string \<Rightarrow> string \<Rightarrow> doc_ref list result) \<Rightarrow> predicate list \<Rightarrow> (doc_ref list \<times> predicate option) result" where
  "intersect enum [] = Inl (ErrMsg ''index out of range'')"
| "intersect enum (p # ps) =
     (case enum (p_dimension p) (p_value p) of
        Inl e \<Rightarrow> Inl e
      | Inr refs \<Rightarrow> if refs = [] then Inr ([], Some p) else intersect_rest enum refs ps)"

definition ordered :: "structured \<Rightarrow> predicate list \<Rightarrow> order \<Rightarrow> (doc_ref list \<times> predicate option) result" where
  "ordered st preds ord =
     (if preds = [] then
        (case st_Ordered st (o_field ord) (o_dir ord) (o_limit ord) of Inl e \<Rightarrow> Inl e | Inr refs \<Rightarrow> Inr (refs, None))
      else (case intersect (st_Enumerate st) preds of
          Inl e \<Rightarrow> Inl e
        | Inr (matching, Some p) \<Rightarrow> Inr ([], Some p)
        | Inr (matching, None) \<Rightarrow>
            if matching = [] then Inr ([], None)
            else (case st_Ordered st (o_field ord) (o_dir ord) 0 of
                Inl e \<Rightarrow> Inl e
              | Inr refs \<Rightarrow> Inr (cap (o_limit ord) (filter (\<lambda>r. dr_Path r \<in> paths matching) refs), None))))"

section \<open>Rendering\<close>

definition ref_line :: "doc_ref \<Rightarrow> string" where
  "ref_line r = (if dr_Title r \<noteq> [] then ''- '' @ dr_Title r @ '' ('' @ dr_Path r @ '')'' else ''- '' @ dr_Path r)"

definition describePredicates :: "(string \<Rightarrow> string) \<Rightarrow> predicate list \<Rightarrow> string" where
  "describePredicates quote preds = join '' AND '' (map (\<lambda>p. p_dimension p @ '' = '' @ quote (p_value p)) preds)"

definition formatRefs :: "(string \<Rightarrow> string) \<Rightarrow> predicate list \<Rightarrow> doc_ref list \<Rightarrow> string" where
  "formatRefs quote preds refs =
     (let desc = describePredicates quote preds in
      if refs = [] then ''No documents found with '' @ desc @ '': each filter matches documents on its own, but none matches them all.''
      else join [CHR 0x0A] ((itoa (int (length refs)) @ '' document(s) with '' @ desc @ '':'') # map ref_line refs))"

definition formatUnmatched :: "(string \<Rightarrow> string) \<Rightarrow> enumerate_tool \<Rightarrow> predicate \<Rightarrow> string" where
  "formatUnmatched quote e p = ''No document has '' @ p_dimension p @ '' = '' @ quote (p_value p) @
     ''. That value matches nothing in '' @ p_dimension p @ '', which does not mean no such documents exist: '' @
     ''call kb_dimensions to see the values '' @ p_dimension p @ '' holds, or use another declared dimension ('' @
     join '', '' (et_dimensions e) @ '').''"

definition formatOrdered :: "(string \<Rightarrow> string) \<Rightarrow> predicate list \<Rightarrow> order \<Rightarrow> doc_ref list \<Rightarrow> string" where
  "formatOrdered quote preds ord refs =
     (let sense = (if o_dir ord = Ascending then ''lowest first'' else ''highest first'');
          scope = (if preds \<noteq> [] then ''documents with '' @ describePredicates quote preds else ''documents'')
      in if refs = [] then ''No '' @ scope @ '' carry a usable '' @ o_field ord @ '' value, so they cannot be ordered by it.''
         else let hd = itoa (int (length refs)) @ '' '' @ scope @ '', by '' @ o_field ord @ '' ('' @ sense @ '')'' @
                  (if 0 < o_limit ord then '', showing the first '' @ itoa (o_limit ord) else [])
              in join [CHR 0x0A] ((hd @ '':'') # map ref_line refs))"

definition enum_call :: "tool_env \<Rightarrow> structured \<Rightarrow> enumerate_tool \<Rightarrow> args \<Rightarrow> string result" where
  "enum_call env st e args =
     (case parseOrder env e args of Inl err \<Rightarrow> Inl err
      | Inr ord \<Rightarrow> (case parsePredicates args (o_field ord \<noteq> []) of Inl err \<Rightarrow> Inl err
          | Inr preds \<Rightarrow>
              if \<exists>p \<in> set preds. p_dimension p \<notin> set (et_dimensions e) then Inl (ErrMsg ''kb_enumerate: unknown dimension'')
              else if o_field ord = [] then
                (case intersect (st_Enumerate st) preds of
                   Inl err \<Rightarrow> Inl err
                 | Inr (_, Some p) \<Rightarrow> Inr (formatUnmatched (te_quote env) e p)
                 | Inr (refs, None) \<Rightarrow> Inr (formatRefs (te_quote env) preds refs))
              else (case ordered st preds ord of
                   Inl err \<Rightarrow> Inl err
                 | Inr (_, Some p) \<Rightarrow> Inr (formatUnmatched (te_quote env) e p)
                 | Inr (refs, None) \<Rightarrow> Inr (formatOrdered (te_quote env) preds ord refs))))"

section \<open>The vocabulary tool (dimensions.go)\<close>

definition maxVocabPerDimension :: nat where
  "maxVocabPerDimension = 50"

definition ellipsis :: string where
  "ellipsis = [CHR 0xE2, CHR 0x80, CHR 0xA6]"

definition vocab_line :: "(string \<rightharpoonup> string list) \<Rightarrow> string \<Rightarrow> string" where
  "vocab_line vocab d =
     (let vals = (case vocab d of None \<Rightarrow> [] | Some vs \<Rightarrow> vs) in
      if vals = [] then ''- '' @ d @ '': (no values indexed yet)''
      else if length vals > maxVocabPerDimension then
        ''- '' @ d @ '': '' @ join '', '' (take maxVocabPerDimension vals) @ '' '' @ ellipsis @ '' ('' @ itoa (int (length vals)) @
        '' total, showing '' @ itoa (int maxVocabPerDimension) @ '')''
      else ''- '' @ d @ '': '' @ join '', '' vals)"

definition formatVocab :: "string list \<Rightarrow> (string \<rightharpoonup> string list) \<Rightarrow> string \<Rightarrow> string" where
  "formatVocab declared vocab only =
     (let lines = map (vocab_line vocab) (filter (\<lambda>d. only = [] \<or> d = only) declared) in
      if lines = [] then ''No declared dimensions.''
      else ''Declared dimensions and their values (use a listed value with kb_enumerate):'' @ [CHR 0x0A] @ join [CHR 0x0A] lines)"

definition dims_call :: "structured \<Rightarrow> string list \<Rightarrow> args \<Rightarrow> string result" where
  "dims_call st dims args =
     (let only = scalarArg args ''dimension'' in
      if only \<noteq> [] \<and> only \<notin> set dims then Inl (ErrMsg ''kb_dimensions: unknown dimension'')
      else (case st_Dimensions st of Inl e \<Rightarrow> Inl e | Inr vocab \<Rightarrow> Inr (formatVocab dims vocab only)))"

section \<open>What is advertised\<close>

text \<open>A schema is the JSON value that is marshalled; no schema is \<open>None\<close>.\<close>

record tool_def =
  td_Name :: string
  td_Description :: string
  td_Schema :: "jval option"

definition jstrings :: "string list \<Rightarrow> jval" where
  "jstrings ss = JList (map JStr ss)"

definition enumerateToolName :: string where "enumerateToolName = ''kb_enumerate''"
definition dimensionsToolName :: string where "dimensionsToolName = ''kb_dimensions''"

definition filter_schema :: "string list \<Rightarrow> jval" where
  "filter_schema dims = JObj [(''type'', JStr ''object''),
     (''properties'', JObj [
        (''dimension'', JObj [(''type'', JStr ''string''), (''enum'', jstrings dims)]),
        (''value'', JObj [(''type'', JStr ''string'')])]),
     (''required'', jstrings [''dimension'', ''value''])]"

definition filter_props :: "string list \<Rightarrow> (string \<times> jval) list" where
  "filter_props dims =
     [(''dimension'', JObj [(''type'', JStr ''string''), (''enum'', jstrings dims),
         (''description'', JStr ''which declared attribute to filter on'')]),
      (''value'', JObj [(''type'', JStr ''string''),
         (''description'', JStr ''the value to match; any known spelling or alias resolves'')]),
      (''and'', JObj [(''type'', JStr ''array''), (''items'', filter_schema dims),
         (''description'', JStr (''optional additional {dimension, value} filters; a document must match ALL of them plus the primary dimension/value (AND). '' @
            ''Use for compound facets like \"train games for 2 players\".''))])]"

definition order_props :: "string list \<Rightarrow> (string \<times> jval) list" where
  "order_props orderable =
     [(''sort'', JObj [(''type'', JStr ''string''), (''enum'', jstrings orderable),
         (''description'', JStr ''order the results by this declared field instead of leaving them in document order'')]),
      (''direction'', JObj [(''type'', JStr ''string''), (''enum'', jstrings [''desc'', ''asc'']),
         (''description'', JStr ''desc = newest/highest first (the default), asc = oldest/lowest first'')]),
      (''limit'', JObj [(''type'', JStr ''integer''), (''minimum'', JInt 1),
         (''description'', JStr ''return only the first N after sorting; use 1 for \"the latest\" or \"the newest\"'')])]"

definition filter_desc :: "string list \<Rightarrow> string" where
  "filter_desc dims =
     ''List EVERY document matching the given dimension/value '' @ [CHR 0xE2, CHR 0x80, CHR 0x94] @
     '' the complete set, not a sample or the top matches. '' @
     ''A filter is a dimension with a value; pass 'and' to require further facets at once (the intersection). '' @
     ''Declared dimensions: '' @ join '', '' dims @ ''. '' @
     ''Use this for which/what-covers/list questions; free-text questions use normal grounding instead.''"

definition order_desc :: "string list \<Rightarrow> string" where
  "order_desc orderable =
     '' Pass 'sort' with an orderable field to answer recency and ordinal questions '' @ [CHR 0xE2, CHR 0x80, CHR 0x94] @
     '' the latest, the most recent, the newest, the oldest, the first, the last, the highest-numbered, which is the Nth. '' @
     ''Those are questions about the WHOLE collection: the ordinary context is a sample and can silently omit the document that decides the answer, so it cannot be read off it. '' @
     ''Sorting combines with the filters above, which orders only the matching documents. '' @
     ''Orderable fields: '' @ join '', '' orderable @ ''.''"

definition enum_def :: "enumerate_tool \<Rightarrow> tool_def" where
  "enum_def e =
     (let sorts = (et_orderable e \<noteq> []);
          desc = (if sorts \<and> et_dimensions e = []
                  then ''List documents from the knowledge base as a complete set, not a sample or the top matches. ''
                  else filter_desc (et_dimensions e)) @ (if sorts then order_desc (et_orderable e) else []);
          props = filter_props (et_dimensions e) @ (if sorts then order_props (et_orderable e) else [])
      in \<lparr>td_Name = enumerateToolName, td_Description = desc,
          td_Schema = Some (JObj ([(''type'', JStr ''object''), (''properties'', JObj props)] @
            (if sorts then [] else [(''required'', jstrings [''dimension'', ''value''])])))\<rparr>)"

definition dims_def :: "string list \<Rightarrow> tool_def" where
  "dims_def dims = \<lparr>td_Name = dimensionsToolName,
     td_Description = ''List the declared dimensions and the values each holds, so you can pick a valid value for kb_enumerate. '' @
       ''Declared dimensions: '' @ join '', '' dims @ ''. '' @
       ''Call this before kb_enumerate when unsure how a value is spelled. High-cardinality dimensions are listed up to a cap, with the total count.'',
     td_Schema = Some (JObj [(''type'', JStr ''object''),
       (''properties'', JObj [(''dimension'', JObj [(''type'', JStr ''string''), (''enum'', jstrings dims),
          (''description'', JStr ''optional: list values for just this dimension; omit for all'')])])])\<rparr>"

text \<open>\<^verbatim>\<open>core.Tools\<close>: what is advertised, and the call.\<close>

record tools =
  t_Defs :: "tool_def list"
  t_Call :: "string \<Rightarrow> args \<Rightarrow> string result"

record composite =
  cp_base :: "tools option"
  cp_enum :: enumerate_tool
  cp_dims :: "string list"
  cp_hasDims :: bool

definition composite_Defs :: "composite \<Rightarrow> tool_def list" where
  "composite_Defs c =
     (let structured = enum_def (cp_enum c) # (if cp_hasDims c then [dims_def (cp_dims c)] else [])
      in case cp_base c of None \<Rightarrow> structured | Some base \<Rightarrow> t_Defs base @ structured)"

definition composite_Call :: "tool_env \<Rightarrow> structured \<Rightarrow> composite \<Rightarrow> string \<Rightarrow> args \<Rightarrow> string result" where
  "composite_Call env st c name args =
     (if name = enumerateToolName then enum_call env st (cp_enum c) args
      else if name = dimensionsToolName \<and> cp_hasDims c then dims_call st (cp_dims c) args
      else (case cp_base c of None \<Rightarrow> Inl (ErrMsg ''tools: unknown tool'') | Some base \<Rightarrow> t_Call base name args))"

definition WithEnumerate ::
    "tool_env \<Rightarrow> tools option \<Rightarrow> structured \<Rightarrow> string list \<Rightarrow> string list \<Rightarrow> tools option" where
  "WithEnumerate env base st dims orderable =
     (if dims = [] \<and> orderable = [] then base
      else let c = \<lparr>cp_base = base, cp_enum = \<lparr>et_dimensions = dims, et_orderable = orderable\<rparr>,
                   cp_dims = dims, cp_hasDims = (dims \<noteq> [])\<rparr>
           in Some \<lparr>t_Defs = composite_Defs c, t_Call = composite_Call env st c\<rparr>)"

end
