(* ===== verification/Mcp.thy ===== *)
theory Mcp
  imports Tools
begin

text \<open>
  The external tools, \<^verbatim>\<open>internal/tools/registry.go\<close> and \<^verbatim>\<open>internal/tools/agent.go\<close>, and the two
  functions of \<^verbatim>\<open>cmd/yaad-grove/main.go\<close> that read which servers there are and which of their tools
  are exposed. The MCP library is a parameter: what dialling a server gives (a session and the pages
  of its tool list) and what a call gives. Logging is left out.
\<close>

section \<open>Configuration (main.go)\<close>

record server_config =
  sc_Name :: string
  sc_Command :: string
  sc_Args :: "string list"
  sc_Allow :: "string list"
  sc_Deny :: "string list"

definition permits :: "server_config \<Rightarrow> string \<Rightarrow> bool" where
  "permits s tool = (if sc_Allow s \<noteq> [] then tool \<in> set (sc_Allow s)
     else if sc_Deny s \<noteq> [] then tool \<notin> set (sc_Deny s) else True)"

fun parseMCPServers :: "string list \<Rightarrow> server_config list result" where
  "parseMCPServers [] = Inr []"
| "parseMCPServers (spec # specs) =
     (case Cut (CHR ''='') spec of
        None \<Rightarrow> Inl (ErrMsg ''serve: invalid --mcp-server'')
      | Some (name, cmd) \<Rightarrow>
          if TrimSpace name = [] then Inl (ErrMsg ''serve: invalid --mcp-server'')
          else (case Fields cmd of
              [] \<Rightarrow> Inl (ErrMsg ''serve: --mcp-server has no command'')
            | c # argv \<Rightarrow> (case parseMCPServers specs of Inl e \<Rightarrow> Inl e
                | Inr out \<Rightarrow> Inr (\<lparr>sc_Name = TrimSpace name, sc_Command = c, sc_Args = argv, sc_Allow = [], sc_Deny = []\<rparr> # out))))"

definition splitTools :: "string \<Rightarrow> string list" where
  "splitTools csv = filter (\<lambda>t. t \<noteq> []) (map TrimSpace (SplitOn (CHR '','') csv))"

text \<open>\<open>idx\<close>: a later server of the same name takes the name.\<close>

definition server_index :: "server_config list \<Rightarrow> string \<rightharpoonup> nat" where
  "server_index servers = map_of (rev (map (\<lambda>(i, s). (sc_Name s, i)) (enumerate 0 servers)))"

fun assign_lists ::
    "(string \<rightharpoonup> nat) \<Rightarrow> (string list \<Rightarrow> server_config \<Rightarrow> server_config) \<Rightarrow> string list \<Rightarrow> server_config list
     \<Rightarrow> server_config list result" where
  "assign_lists idx put [] servers = Inr servers"
| "assign_lists idx put (spec # specs) servers =
     (case Cut (CHR ''='') spec of
        None \<Rightarrow> Inl (ErrMsg ''serve: invalid --mcp-allow or --mcp-deny'')
      | Some (name, csv) \<Rightarrow>
          if TrimSpace name = [] then Inl (ErrMsg ''serve: invalid --mcp-allow or --mcp-deny'')
          else (case idx (TrimSpace name) of
              None \<Rightarrow> Inl (ErrMsg ''serve: names unknown server'')
            | Some i \<Rightarrow>
                if splitTools csv = [] then Inl (ErrMsg ''serve: lists no tools'')
                else assign_lists idx put specs (servers[i := put (splitTools csv) (servers ! i)])))"

definition applyToolLists :: "server_config list \<Rightarrow> string list \<Rightarrow> string list \<Rightarrow> server_config list result" where
  "applyToolLists servers allowSpecs denySpecs =
     (case assign_lists (server_index servers) (\<lambda>l s. s\<lparr>sc_Allow := l\<rparr>) allowSpecs servers of
        Inl e \<Rightarrow> Inl e
      | Inr servers1 \<Rightarrow> (case assign_lists (server_index servers) (\<lambda>l s. s\<lparr>sc_Deny := l\<rparr>) denySpecs servers1 of
            Inl e \<Rightarrow> Inl e
          | Inr servers2 \<Rightarrow>
              if \<exists>s \<in> set servers2. sc_Allow s \<noteq> [] \<and> sc_Deny s \<noteq> []
              then Inl (ErrMsg ''serve: server has both --mcp-allow and --mcp-deny'')
              else Inr servers2))"

section \<open>The registry\<close>

record mcp_tool =
  mt_Name :: string
  mt_Description :: string
  mt_InputSchema :: "jval option"

type_synonym session = nat

record tool_ref =
  tr_session :: session
  tr_server :: string
  tr_description :: string
  tr_inputSchema :: "jval option"

record registry =
  rg_sessions :: "session list"
  rg_tools :: "string \<rightharpoonup> tool_ref"
  rg_names :: "string list"

definition new_registry :: registry where
  "new_registry = \<lparr>rg_sessions = [], rg_tools = Map.empty, rg_names = []\<rparr>"

text \<open>The pages of a tool list up to the one without a cursor.\<close>

fun list_pages :: "mcp_tool list result list \<Rightarrow> mcp_tool list result" where
  "list_pages [] = Inr []"
| "list_pages (Inl e # ps) = Inl e"
| "list_pages (Inr ts # ps) = (case list_pages ps of Inl e \<Rightarrow> Inl e | Inr us \<Rightarrow> Inr (ts @ us))"

type_synonym dialled = "(session \<times> mcp_tool list result list) result"

definition ref_of :: "session \<Rightarrow> server_config \<Rightarrow> mcp_tool \<Rightarrow> tool_ref" where
  "ref_of ses cfg t = \<lparr>tr_session = ses, tr_server = sc_Name cfg, tr_description = mt_Description t, tr_inputSchema = mt_InputSchema t\<rparr>"

definition register_tool :: "session \<Rightarrow> server_config \<Rightarrow> registry \<Rightarrow> mcp_tool \<Rightarrow> registry" where
  "register_tool ses cfg r t = r\<lparr>
     rg_names := (if rg_tools r (mt_Name t) = None then rg_names r @ [mt_Name t] else rg_names r),
     rg_tools := (rg_tools r)(mt_Name t \<mapsto> ref_of ses cfg t)\<rparr>"

definition reg_connect :: "server_config \<Rightarrow> dialled \<Rightarrow> registry \<Rightarrow> error option \<times> registry" where
  "reg_connect cfg conn r =
     (case conn of
        Inl e \<Rightarrow> (Some e, r)
      | Inr (ses, pages) \<Rightarrow> (case list_pages pages of
            Inl e \<Rightarrow> (Some e, r)
          | Inr ts \<Rightarrow> (None, foldl (register_tool ses cfg) (r\<lparr>rg_sessions := rg_sessions r @ [ses]\<rparr>)
              (filter (\<lambda>t. permits cfg (mt_Name t)) ts))))"

definition reg_Close :: "registry \<Rightarrow> registry" where
  "reg_Close r = r\<lparr>rg_sessions := []\<rparr>"

fun reg_Connect :: "(server_config \<times> dialled) list \<Rightarrow> registry \<Rightarrow> error option \<times> registry" where
  "reg_Connect [] r = (None, r)"
| "reg_Connect ((cfg, conn) # rest) r =
     (case reg_connect cfg conn r of
        (Some e, r') \<Rightarrow> (Some (Wrap ''tools: connect'' e), reg_Close r')
      | (None, r') \<Rightarrow> reg_Connect rest r')"

text \<open>\<open>marshal\<close> is \<^verbatim>\<open>json.Marshal\<close> of a schema.\<close>

definition reg_Defs :: "(jval \<Rightarrow> jval option) \<Rightarrow> registry \<Rightarrow> tool_def list" where
  "reg_Defs marshal r = map (\<lambda>name. case rg_tools r name of
       None \<Rightarrow> \<lparr>td_Name = name, td_Description = [], td_Schema = None\<rparr>
     | Some t \<Rightarrow> \<lparr>td_Name = name, td_Description = tr_description t, td_Schema = Option.bind (tr_inputSchema t) marshal\<rparr>)
     (rg_names r)"

definition reg_Server :: "registry \<Rightarrow> string \<Rightarrow> string" where
  "reg_Server r name = (case rg_tools r name of None \<Rightarrow> [] | Some t \<Rightarrow> tr_server t)"

text \<open>A block of a result that is not text is \<open>None\<close>.\<close>

definition flattenContent :: "string option list \<Rightarrow> string" where
  "flattenContent = foldl (\<lambda>b c. case c of None \<Rightarrow> b
     | Some t \<Rightarrow> (if b \<noteq> [] then b @ [CHR 0x0A] else b) @ t) []"

datatype call_outcome = CallRejected error | CallFailed error | CallResult bool "string option list"

definition reg_Call :: "(session \<Rightarrow> string \<Rightarrow> args \<Rightarrow> call_outcome) \<Rightarrow> registry \<Rightarrow> string \<Rightarrow> args \<Rightarrow> string result" where
  "reg_Call serve r name args =
     (case rg_tools r name of
        None \<Rightarrow> Inl (ErrMsg ''tools: unknown tool'')
      | Some t \<Rightarrow> (case serve (tr_session t) name args of
            CallRejected e \<Rightarrow> Inl (Wrap ''tools: call rejected'' e)
          | CallFailed e \<Rightarrow> Inl (Wrap ''tools: call'' e)
          | CallResult isError content \<Rightarrow>
              if isError then Inl (Wrap ''tools: reported an error'' (ErrMsg (flattenContent content)))
              else Inr (flattenContent content)))"

definition reg_tools :: "(jval \<Rightarrow> jval option) \<Rightarrow> (session \<Rightarrow> string \<Rightarrow> args \<Rightarrow> call_outcome) \<Rightarrow> registry \<Rightarrow> tools" where
  "reg_tools marshal serve r = \<lparr>t_Defs = reg_Defs marshal r, t_Call = reg_Call serve r\<rparr>"

section \<open>The tools of an agent run (agent.go)\<close>

datatype content_kind = KindTool | KindRemoteTool

record agent_tools =
  at_t :: "tools option"
  at_servers :: "(string \<Rightarrow> string) option"

definition at_Server :: "agent_tools \<Rightarrow> string \<Rightarrow> string" where
  "at_Server a name = (case at_servers a of None \<Rightarrow> [] | Some f \<Rightarrow> f name)"

definition at_Source :: "agent_tools \<Rightarrow> string \<Rightarrow> content_kind" where
  "at_Source a name = (if at_Server a name \<noteq> [] then KindRemoteTool else KindTool)"

definition at_Definitions :: "agent_tools \<Rightarrow> tool_def list" where
  "at_Definitions a = (case at_t a of None \<Rightarrow> [] | Some t \<Rightarrow> t_Defs t)"

text \<open>
  \<open>unmarshal\<close> is \<^verbatim>\<open>json.Unmarshal\<close> into a map, \<open>show_error\<close> is \<^verbatim>\<open>err.Error()\<close> and \<open>cancelled\<close> whether
  the context has ended when the call returns.
\<close>

definition at_Call ::
    "(string \<Rightarrow> args result) \<Rightarrow> (error \<Rightarrow> string) \<Rightarrow> bool \<Rightarrow> agent_tools \<Rightarrow> string \<Rightarrow> string \<Rightarrow> string result" where
  "at_Call unmarshal show_error cancelled a name arguments =
     (case at_t a of
        None \<Rightarrow> Inl (ErrMsg ''unknown tool'')
      | Some t \<Rightarrow>
          if name \<notin> td_Name ` set (t_Defs t) then Inl (ErrMsg ''unknown tool'')
          else (case (if arguments = [] then Inr [] else unmarshal arguments) of
              Inl _ \<Rightarrow> Inl (ErrMsg ''invalid arguments: the arguments are not a JSON object'')
            | Inr args \<Rightarrow> (case t_Call t name args of
                  Inr out \<Rightarrow> Inr out
                | Inl e \<Rightarrow>
                    if at_Server a name \<noteq> [] then Inl e
                    else if cancelled then Inl e
                    else Inr (''error: '' @ show_error e))))"

end
