(* ===== verification/Tools_Props.thy ===== *)
theory Tools_Props
  imports Tools
begin

text \<open>
  What a call of \<^verbatim>\<open>kb_enumerate\<close> answers. The contract of a store with structured lookups is the
  locale \<open>structured_store\<close>; the in-memory backend satisfies it (\<open>kb\<close>), so the answers are stated
  over the documents that were indexed.
\<close>

lemma paths_map [simp]: "paths (map f ds) = (\<lambda>d. dr_Path (f d)) ` set ds"
  by (auto simp: paths_def)

locale structured_store =
  fixes wf :: "'s \<Rightarrow> bool"
    and docs :: "'s \<Rightarrow> doc list"
    and matches :: "'s \<Rightarrow> string \<Rightarrow> string \<Rightarrow> doc \<Rightarrow> bool"
    and sorted_docs :: "'s \<Rightarrow> string \<Rightarrow> direction \<Rightarrow> doc list"
    and enum :: "'s \<Rightarrow> string \<Rightarrow> string \<Rightarrow> doc_ref list result"
    and ord :: "'s \<Rightarrow> string \<Rightarrow> direction \<Rightarrow> int \<Rightarrow> doc_ref list result"
  assumes one_path: "wf s \<Longrightarrow> distinct (map (\<lambda>d. dr_Path (d_Ref d)) (docs s))"
    and enum_complete: "wf s \<Longrightarrow> enum s d v = Inr (map d_Ref (filter (matches s d v) (docs s)))"
    and ord_sorted: "wf s \<Longrightarrow> ord s f dir k = Inr (cap k (map d_Ref (sorted_docs s f dir)))"
    and sorted_subset: "wf s \<Longrightarrow> set (sorted_docs s f dir) \<subseteq> set (docs s)"
begin

definition match_all :: "'s \<Rightarrow> predicate list \<Rightarrow> doc \<Rightarrow> bool" where
  "match_all s ps d \<longleftrightarrow> list_all (\<lambda>p. matches s (p_dimension p) (p_value p) d) ps"

definition dead :: "'s \<Rightarrow> predicate \<Rightarrow> bool" where
  "dead s p \<longleftrightarrow> \<not> list_ex (matches s (p_dimension p) (p_value p)) (docs s)"

lemma same_path: "wf s \<Longrightarrow> d \<in> set (docs s) \<Longrightarrow> d' \<in> set (docs s) \<Longrightarrow> dr_Path (d_Ref d) = dr_Path (d_Ref d') \<Longrightarrow> d = d'"
  using one_path by (fastforce simp: distinct_map inj_on_def)

lemma filter_paths:
  assumes "wf s" and "set ds \<subseteq> set (docs s)"
  shows "filter (\<lambda>r. dr_Path r \<in> paths (map d_Ref (filter P (docs s)))) (map d_Ref ds) = map d_Ref (filter P ds)"
proof -
  have "filter (\<lambda>d. dr_Path (d_Ref d) \<in> paths (map d_Ref (filter P (docs s)))) ds = filter P ds"
    using assms(2) same_path [OF assms(1)] by (intro filter_cong) auto
  then show ?thesis by (simp add: filter_map comp_def)
qed

lemma match_all_Cons: "filter (match_all s ps) (filter (matches s (p_dimension p) (p_value p)) ds) = filter (match_all s (p # ps)) ds"
  by (auto simp: match_all_def conj_commute intro: filter_cong)

lemma match_all_Nil [simp]: "filter (match_all s []) ds = ds"
  by (simp add: match_all_def)

lemma dead_filter: "filter (matches s (p_dimension p) (p_value p)) (docs s) = [] \<longleftrightarrow> dead s p"
  by (auto simp: dead_def list_ex_iff filter_empty_conv)

lemma intersect_rest_exact:
  assumes "wf s" and "set ds \<subseteq> set (docs s)"
  shows "intersect_rest (enum s) (map d_Ref ds) ps = Inr (case find (dead s) ps of
      Some p \<Rightarrow> ([], Some p) | None \<Rightarrow> (map d_Ref (filter (match_all s ps) ds), None))"
  using assms(2)
proof (induction ps arbitrary: ds)
  case (Cons p ps)
  let ?P = "matches s (p_dimension p) (p_value p)"
  show ?case
  proof (cases "dead s p")
    case False
    have "intersect_rest (enum s) (map d_Ref ds) (p # ps) = intersect_rest (enum s) (map d_Ref (filter ?P ds)) ps"
      using False dead_filter [of s p] filter_paths [OF assms(1) Cons.prems, of ?P]
      by (simp add: enum_complete [OF assms(1)] del: paths_map)
    also have "\<dots> = Inr (case find (dead s) ps of Some p \<Rightarrow> ([], Some p)
        | None \<Rightarrow> (map d_Ref (filter (match_all s ps) (filter ?P ds)), None))"
      using Cons.prems by (intro Cons.IH) auto
    finally show ?thesis using False by (simp only: match_all_Cons find.simps if_False)
  qed (simp add: enum_complete [OF assms(1)] dead_filter)
qed simp

lemma intersect_exact:
  assumes "wf s" and "ps \<noteq> []"
  shows "intersect (enum s) ps = Inr (case find (dead s) ps of
      Some p \<Rightarrow> ([], Some p) | None \<Rightarrow> (map d_Ref (filter (match_all s ps) (docs s)), None))"
proof -
  obtain p qs where ps: "ps = p # qs" using assms(2) by (cases ps) auto
  let ?P = "matches s (p_dimension p) (p_value p)"
  show ?thesis
  proof (cases "dead s p")
    case False
    have "intersect (enum s) ps = intersect_rest (enum s) (map d_Ref (filter ?P (docs s))) qs"
      using False dead_filter [of s p] by (simp add: ps enum_complete [OF assms(1)])
    also have "\<dots> = Inr (case find (dead s) qs of Some p \<Rightarrow> ([], Some p)
        | None \<Rightarrow> (map d_Ref (filter (match_all s qs) (filter ?P (docs s))), None))"
      by (rule intersect_rest_exact [OF assms(1)]) auto
    finally show ?thesis using False by (simp only: ps match_all_Cons find.simps if_False)
  qed (simp add: ps enum_complete [OF assms(1)] dead_filter)
qed

lemma ordered_exact:
  assumes "wf s" and "st_Enumerate st = enum s" and "st_Ordered st = ord s"
  shows "ordered st ps o' = Inr (case find (dead s) ps of
      Some p \<Rightarrow> ([], Some p)
    | None \<Rightarrow> (cap (o_limit o') (map d_Ref (filter (match_all s ps) (sorted_docs s (o_field o') (o_dir o')))), None))"
proof (cases "ps = []")
  case True
  then show ?thesis by (simp add: ordered_def assms ord_sorted)
next
  case False
  have sub: "set (sorted_docs s (o_field o') (o_dir o')) \<subseteq> set (docs s)" using sorted_subset assms(1) by blast
  show ?thesis
  proof (cases "find (dead s) ps")
    case None
    let ?m = "map d_Ref (filter (match_all s ps) (docs s))"
    have i: "intersect (st_Enumerate st) ps = Inr (?m, None)" by (simp add: assms intersect_exact [OF assms(1) False] None)
    show ?thesis
    proof (cases "?m = []")
      case True
      then have "filter (match_all s ps) (sorted_docs s (o_field o') (o_dir o')) = []"
        using sub by (auto simp: filter_empty_conv)
      then show ?thesis using True by (simp add: ordered_def False i None cap_def)
    next
      case no: False
      have "ordered st ps o' = Inr (cap (o_limit o') (filter (\<lambda>r. dr_Path r \<in> paths ?m)
          (map d_Ref (sorted_docs s (o_field o') (o_dir o')))), None)"
        using no by (simp add: ordered_def False i assms(3) ord_sorted [OF assms(1)] cap_take del: paths_map map_is_Nil_conv filter_empty_conv)
      then show ?thesis by (simp add: None filter_paths [OF assms(1) sub] del: paths_map)
    qed
  qed (simp add: ordered_def False assms intersect_exact [OF assms(1) False])
qed

end

section \<open>The in-memory backend\<close>

text \<open>The index of documents with distinct paths and comparable keys: what a scanned vault gives.\<close>

definition indexed :: "(string \<Rightarrow> string) \<Rightarrow> doc list \<Rightarrow> 'v mem_index \<Rightarrow> bool" where
  "indexed key ds ix \<longleftrightarrow> distinct (map (\<lambda>d. dr_Path (d_Ref d)) ds) \<and> (\<forall>d \<in> set ds. \<forall>f. d_Ordered d f \<noteq> Some NaN) \<and>
     (\<exists>emb ix0. store_Index key emb ds ix0 = (None, ix))"

definition fits :: "(string \<Rightarrow> string) \<Rightarrow> doc list \<Rightarrow> predicate \<Rightarrow> doc \<Rightarrow> bool" where
  "fits key ds p d \<longleftrightarrow> resolved key ds (p_value p) \<in> carried key d (p_dimension p)"

definition unmatched :: "(string \<Rightarrow> string) \<Rightarrow> doc list \<Rightarrow> predicate \<Rightarrow> bool" where
  "unmatched key ds p \<longleftrightarrow> \<not> list_ex (fits key ds p) ds"

definition fits_all :: "(string \<Rightarrow> string) \<Rightarrow> doc list \<Rightarrow> predicate list \<Rightarrow> doc \<Rightarrow> bool" where
  "fits_all key ds ps d \<longleftrightarrow> list_all (\<lambda>p. fits key ds p d) ps"

lemma Enumerate_docs: "store_Index key emb ds ix0 = (None, ix) \<Longrightarrow>
    Enumerate key ix d v = map d_Ref (filter (\<lambda>doc. resolved key ds v \<in> carried key doc d) ds)"
  by (rule Enumerate_index)

interpretation kb: structured_store
  "\<lambda>s. indexed key (fst s) (snd s)" fst "\<lambda>s d v doc. resolved key (fst s) v \<in> carried key doc d"
  "\<lambda>s f dir. sort_key (rank dir f) (carriers (fst s) f)"
  "\<lambda>s. st_Enumerate (mem_structured key (snd s))" "\<lambda>s. st_Ordered (mem_structured key (snd s))"
  for key :: "string \<Rightarrow> string"
proof
  fix s :: "doc list \<times> 'v mem_index" and d v f :: string and dir and k :: int
  assume wf: "indexed key (fst s) (snd s)"
  then show "distinct (map (\<lambda>d. dr_Path (d_Ref d)) (fst s))" by (simp add: indexed_def)
  obtain emb ix0 where ix: "store_Index key emb (fst s) ix0 = (None, snd s)" using wf by (auto simp: indexed_def)
  show "st_Enumerate (mem_structured key (snd s)) d v =
      Inr (map d_Ref (filter (\<lambda>doc. resolved key (fst s) v \<in> carried key doc d) (fst s)))"
    by (simp add: mem_structured_def Enumerate_docs [OF ix])
  show "st_Ordered (mem_structured key (snd s)) f dir k = Inr (cap k (map d_Ref (sort_key (rank dir f) (carriers (fst s) f))))"
    using wf by (simp add: mem_structured_def Ordered_index [OF ix] indexed_def)
  show "set (sort_key (rank dir f) (carriers (fst s) f)) \<subseteq> set (fst s)" by (auto simp: carriers_def)
qed

lemma kb_dead: "kb.dead key (ds, ix) = unmatched key ds"
  by (simp add: fun_eq_iff kb.dead_def unmatched_def fits_def [abs_def])

lemma kb_match_all: "kb.match_all key (ds, ix) ps = fits_all key ds ps"
  by (simp add: fun_eq_iff kb.match_all_def fits_all_def fits_def)

lemma and_filters_ok: "and_filters items = Inr ps \<Longrightarrow> length ps = length items"
  by (induction items arbitrary: ps rule: and_filters.induct) (auto simp: Let_def split: if_splits sum.splits)

lemma parsePredicates_some: "parsePredicates args False = Inr ps \<Longrightarrow> ps \<noteq> []"
  by (auto simp: parsePredicates_def Let_def split: if_splits option.splits jval.splits sum.splits)


text \<open>On amd64 a float64 outside the range of an int64 converts to the smallest one.\<close>

fun amd64_int :: "f64 \<Rightarrow> int" where
  "amd64_int (Fin q) = (let i = (if q < 0 then \<lceil>q\<rceil> else \<lfloor>q\<rfloor>) in if - (2 ^ 63) \<le> i \<and> i < 2 ^ 63 then i else - (2 ^ 63))"
| "amd64_int _ = - (2 ^ 63)"

definition demo_tool_env :: tool_env where
  "demo_tool_env = \<lparr>te_lower = id, te_quote = id, te_parse_float = (\<lambda>s. if s = ''1e30'' then Some (Fin (10 ^ 30)) else None),
     te_rnd = id, te_to_int = amd64_int\<rparr>"

definition demo_tool :: enumerate_tool where
  "demo_tool = \<lparr>et_dimensions = [''games''], et_orderable = [''date'']\<rparr>"

lemma demo_indexed: "indexed id demo_docs (demo_index id)"
  unfolding indexed_def
  by (intro conjI exI [of _ None] exI [of _ empty_index] demo_index_ok) (simp_all add: demo_docs_def demo_doc_def)

lemmas demo_args = scalarArg_def TrimSpace_ascii is_space_def demo_tool_env_def demo_tool_def intArg_def
  parseOrder_def parsePredicates_def Let_def positive_int_def


text \<open>A limit too large for the int of the machine is not refused and not obeyed: where the
  conversion of an out-of-range float64 gives the smallest int, as on amd64, a sorted call with a
  limit of 1e30 answers with the whole collection, which is what the check on the limit is there to
  prevent; and a sorted call whose only filters are given under 'and' answers as if no filter was
  asked for.\<close>

theorem kb_enumerate_widens:
  "(\<exists>limit. parseOrder demo_tool_env demo_tool [(''sort'', JStr ''date''), (''limit'', JStr ''1e30'')] =
       Inr \<lparr>o_field = ''date'', o_dir = Descending, o_limit = limit\<rparr> \<and>
     (\<forall>ix :: unit mem_index. Ordered ix ''date'' Descending limit = Ordered ix ''date'' Descending 0)) \<and>
   (\<forall>filters. parsePredicates [(''sort'', JStr ''date''), (''and'', filters)] True = Inr [])"
proof (intro conjI allI exI [of _ "- (2 ^ 63)"])
  have f: "\<lfloor>10 ^ 30 :: rat\<rfloor> = 10 ^ 30" by (metis floor_of_int of_int_numeral of_int_power)
  then show "parseOrder demo_tool_env demo_tool [(''sort'', JStr ''date''), (''limit'', JStr ''1e30'')] =
      Inr \<lparr>o_field = ''date'', o_dir = Descending, o_limit = - (2 ^ 63)\<rparr>"
    by (simp add: demo_args)
  show "Ordered ix ''date'' Descending (- (2 ^ 63)) = Ordered ix ''date'' Descending 0" for ix :: "unit mem_index"
    by (simp add: Ordered_def Let_def cap_def)
  show "parsePredicates [(''sort'', JStr ''date''), (''and'', filters)] True = Inr []" for filters
    by (simp add: demo_args)
qed

end
