(* ===== verification/Mcp_Props.thy ===== *)
theory Mcp_Props
  imports Mcp Tools_Props
begin

text \<open>
  The tool surface is closed: only tools a server's lists permit are advertised or reachable, a
  server's result is never taken for the program's own, and where the lists of two servers with one
  name end up.
\<close>

section \<open>Permitted tools only\<close>

text \<open>Every registered tool comes from one of the servers, and its lists permit it.\<close>

definition closed_registry :: "server_config set \<Rightarrow> registry \<Rightarrow> bool" where
  "closed_registry cfgs r \<longleftrightarrow> distinct (rg_names r) \<and> set (rg_names r) = dom (rg_tools r) \<and>
     (\<forall>name t. rg_tools r name = Some t \<longrightarrow> (\<exists>cfg \<in> cfgs. permits cfg name \<and> tr_server t = sc_Name cfg))"

lemma closed_new: "closed_registry cfgs new_registry"
  by (simp add: closed_registry_def new_registry_def)

lemma closed_register:
  assumes "closed_registry cfgs r" and "cfg \<in> cfgs" and "permits cfg (mt_Name t)"
  shows "closed_registry cfgs (register_tool ses cfg r t)"
  using assms unfolding closed_registry_def
  by (auto simp: register_tool_def ref_of_def dom_def)

lemma closed_registers: "closed_registry cfgs r \<Longrightarrow> cfg \<in> cfgs \<Longrightarrow> \<forall>t \<in> set ts. permits cfg (mt_Name t) \<Longrightarrow>
    closed_registry cfgs (foldl (register_tool ses cfg) r ts)"
  by (induction ts arbitrary: r) (simp_all add: closed_register)

lemma closed_sessions [simp]: "closed_registry cfgs (r\<lparr>rg_sessions := s\<rparr>) = closed_registry cfgs r"
  by (simp add: closed_registry_def)

lemma closed_connect:
  assumes "reg_connect cfg conn r = (e, r')" and "closed_registry cfgs r" and "cfg \<in> cfgs"
  shows "closed_registry cfgs r'"
  using assms by (auto simp: reg_connect_def split: sum.splits intro!: closed_registers)

lemma closed_Connect:
  assumes "reg_Connect conns r = (e, r')" and "closed_registry cfgs r" and "fst ` set conns \<subseteq> cfgs"
  shows "closed_registry cfgs r'"
  using assms
proof (induction conns r rule: reg_Connect.induct)
  case (2 cfg conn rest r)
  obtain e1 r1 where c: "reg_connect cfg conn r = (e1, r1)" by fastforce
  have "closed_registry cfgs r1" by (rule closed_connect [OF c "2.prems"(2)]) (use "2.prems"(3) in simp)
  then show ?case using 2 c by (cases e1) (auto simp: reg_Close_def)
qed simp


definition demo_server :: server_config where
  "demo_server = \<lparr>sc_Name = ''bgg'', sc_Command = ''bgg'', sc_Args = [], sc_Allow = [''search''], sc_Deny = []\<rparr>"

definition demo_conn :: dialled where
  "demo_conn = Inr (0, [Inr [\<lparr>mt_Name = ''search'', mt_Description = [], mt_InputSchema = None\<rparr>],
     Inr [\<lparr>mt_Name = ''post_play'', mt_Description = [], mt_InputSchema = None\<rparr>]])"

definition demo_registry :: registry where
  "demo_registry = snd (reg_Connect [(demo_server, demo_conn)] new_registry)"

lemmas demo_mcp = demo_server_def demo_conn_def reg_connect_def permits_def register_tool_def ref_of_def new_registry_def

lemma demo_connected: "reg_Connect [(demo_server, demo_conn)] new_registry = (None, demo_registry)"
  by (simp add: demo_registry_def demo_mcp)


section \<open>Whose result it is\<close>

lemma parseMCPServers_named: "parseMCPServers specs = Inr servers \<Longrightarrow> s \<in> set servers \<Longrightarrow> sc_Name s \<noteq> []"
  by (induction specs arbitrary: servers)
    (auto split: option.splits prod.splits if_splits list.splits sum.splits)

lemma map_update_same: "f (g (xs ! i)) = f (xs ! i) \<Longrightarrow> map f (xs[i := g (xs ! i)]) = map f xs"
  using list_update_id [of "map f xs" i] by (cases "i < length xs") (simp_all add: map_update list_update_beyond)

lemma assign_lists_names:
  assumes "assign_lists idx put specs servers = Inr servers'" and "\<forall>l s. sc_Name (put l s) = sc_Name s"
  shows "map sc_Name servers' = map sc_Name servers"
  using assms
proof (induction idx put specs servers arbitrary: servers' rule: assign_lists.induct)
  case (2 idx put spec specs servers)
  have put: "map sc_Name (servers[i := put l (servers ! i)]) = map sc_Name servers" for i l
    by (rule map_update_same) (simp add: "2.prems"(2))
  show ?case
    using 2 put by (auto split: option.splits prod.splits if_splits)
qed simp

lemma applyToolLists_names:
  assumes "applyToolLists servers al dl = Inr servers'"
  shows "map sc_Name servers' = map sc_Name servers"
proof -
  obtain s1 where "assign_lists (server_index servers) (\<lambda>l s. s\<lparr>sc_Allow := l\<rparr>) al servers = Inr s1"
    and "assign_lists (server_index servers) (\<lambda>l s. s\<lparr>sc_Deny := l\<rparr>) dl s1 = Inr servers'"
    using assms by (auto simp: applyToolLists_def split: sum.splits if_splits)
  from assign_lists_names [OF this(1)] assign_lists_names [OF this(2)] show ?thesis by simp
qed

lemma configured_named:
  assumes "parseMCPServers specs = Inr servers" and "applyToolLists servers al dl = Inr servers'" and "s \<in> set servers'"
  shows "sc_Name s \<noteq> []"
proof -
  have "sc_Name s \<in> set (map sc_Name servers)"
    using assms(3) unfolding applyToolLists_names [OF assms(2), symmetric] by simp
  then obtain s' where "s' \<in> set servers" and "sc_Name s' = sc_Name s" by auto
  then show ?thesis using parseMCPServers_named [OF assms(1)] by metis
qed

lemma def_names [simp]: "td_Name (enum_def e) = enumerateToolName" "td_Name (dims_def ds) = dimensionsToolName"
  by (simp_all add: enum_def_def Let_def dims_def_def)

lemma composite_names: "WithEnumerate env base st dims orderable = Some t \<Longrightarrow>
    td_Name ` set (t_Defs t) \<subseteq> (case base of None \<Rightarrow> {} | Some b \<Rightarrow> td_Name ` set (t_Defs b)) \<union> {enumerateToolName, dimensionsToolName}"
  by (auto simp: WithEnumerate_def Let_def composite_Defs_def split: if_splits option.splits)

text \<open>C23: A result of an agent run that is not marked as remote tool output is a result of one of the
  program's own two tools: whatever a configured server advertises, under whatever name, its results
  are marked as coming from a server.\<close>

theorem remote_results_marked:
  assumes "parseMCPServers specs = Inr servers" and "applyToolLists servers al dl = Inr servers'"
    and "reg_Connect conns new_registry = (None, r)" and "fst ` set conns \<subseteq> set servers'"
    and "at_Call unmarshal show_error cancelled \<lparr>at_t = WithEnumerate env (Some (reg_tools marshal serve r)) st dims orderable,
           at_servers = Some (reg_Server r)\<rparr> name arguments = Inr out"
    and "at_Source \<lparr>at_t = WithEnumerate env (Some (reg_tools marshal serve r)) st dims orderable,
           at_servers = Some (reg_Server r)\<rparr> name = KindTool"
  shows "name \<in> {enumerateToolName, dimensionsToolName} \<and> name \<notin> dom (rg_tools r)"
proof -
  let ?a = "\<lparr>at_t = WithEnumerate env (Some (reg_tools marshal serve r)) st dims orderable, at_servers = Some (reg_Server r)\<rparr>"
  have c: "closed_registry (fst ` set conns) r" by (rule closed_Connect [OF assms(3) closed_new subset_refl])
  have out: "name \<notin> dom (rg_tools r)"
  proof
    assume "name \<in> dom (rg_tools r)"
    then obtain t cfg where t: "rg_tools r name = Some t" "cfg \<in> fst ` set conns" "tr_server t = sc_Name cfg"
      using c unfolding closed_registry_def by blast
    then have "sc_Name cfg \<noteq> []" using configured_named [OF assms(1,2)] assms(4) by blast
    then show False using assms(6) t by (simp add: at_Source_def at_Server_def reg_Server_def split: if_splits)
  qed
  obtain t where t: "WithEnumerate env (Some (reg_tools marshal serve r)) st dims orderable = Some t"
    and name: "name \<in> td_Name ` set (t_Defs t)"
    using assms(5) by (auto simp: at_Call_def split: option.splits if_splits)
  have "td_Name ` set (reg_Defs marshal r) = dom (rg_tools r)"
  proof -
    have "td_Name ` set (reg_Defs marshal r) = set (rg_names r)"
      by (force simp: reg_Defs_def image_image split: option.splits)
    then show ?thesis using c by (simp add: closed_registry_def)
  qed
  then show ?thesis using composite_names [OF t] name out by (auto simp: reg_tools_def)
qed

theorem remote_results_marked_witness:
  "\<exists>servers conns r. parseMCPServers [''bgg=bgg''] = Inr servers \<and> applyToolLists servers [''bgg=search''] [] = Inr (map fst conns) \<and>
     reg_Connect conns new_registry = (None, r) \<and> rg_names r = [''search''] \<and>
     (\<exists>out. at_Call (\<lambda>_. Inr []) (\<lambda>_. []) False \<lparr>at_t = WithEnumerate demo_tool_env (Some (reg_tools Some (\<lambda>_ _ _. CallFailed ErrNoStore) r))
         (mem_structured id (demo_index id)) [''games''] [], at_servers = Some (reg_Server r)\<rparr> ''kb_enumerate'' [] = Inr out \<and>
       ''kb_enumerate'' \<notin> dom (rg_tools r))"
proof -
  let ?a = "\<lparr>at_t = WithEnumerate demo_tool_env (Some (reg_tools Some (\<lambda>_ _ _. CallFailed ErrNoStore) demo_registry))
         (mem_structured id (demo_index id)) [''games''] [], at_servers = Some (reg_Server demo_registry)\<rparr>"
  let ?plain = "demo_server\<lparr>sc_Allow := []\<rparr>"
  have p: "parseMCPServers [''bgg=bgg''] = Inr [?plain]"
    by (simp add: Cut_def TrimSpace_ascii is_space_def Fields_def FieldsFunc_def segs_ascii demo_server_def)
  have l: "applyToolLists [?plain] [''bgg=search''] [] = Inr [demo_server]"
    by (simp add: applyToolLists_def server_index_def Cut_def TrimSpace_ascii is_space_def splitTools_def demo_server_def)
  have n: "rg_names demo_registry = [''search'']" and s: "reg_Server demo_registry ''kb_enumerate'' = []"
    by (simp_all add: demo_registry_def demo_mcp reg_Server_def)
  have "\<exists>out. at_Call (\<lambda>_. Inr []) (\<lambda>_. []) False ?a ''kb_enumerate'' [] = Inr out"
    by (simp add: at_Call_def WithEnumerate_def composite_Defs_def enumerateToolName_def at_Server_def s
        composite_Call_def enum_call_def parseOrder_def scalarArg_def no_order_def parsePredicates_def)
  then obtain out where o: "at_Call (\<lambda>_. Inr []) (\<lambda>_. []) False ?a ''kb_enumerate'' [] = Inr out" ..
  have k: "at_Source ?a ''kb_enumerate'' = KindTool" by (simp add: at_Source_def at_Server_def s)
  have "''kb_enumerate'' \<notin> dom (rg_tools demo_registry)"
    using remote_results_marked [OF p l demo_connected _ o k] by simp
  then show ?thesis using p l demo_connected n o
    by (intro exI [of _ "[?plain]"] exI [of _ "[(demo_server, demo_conn)]"] exI [of _ demo_registry]) auto
qed

text \<open>Two servers may be given one name; the allow list of that name then goes to the second of
  them only, and the first exposes every tool it advertises, although the list is documented to drop
  all others.\<close>

theorem duplicate_server_unfiltered:
  "\<exists>servers servers'. parseMCPServers [''svc=one'', ''svc=two''] = Inr servers \<and>
     applyToolLists servers [''svc=read''] [] = Inr servers' \<and>
     permits (servers' ! 0) ''write'' \<and> \<not> permits (servers' ! 1) ''write'' \<and> sc_Name (servers' ! 0) = sc_Name (servers' ! 1)"
  by (simp add: Cut_def TrimSpace_ascii is_space_def Fields_def FieldsFunc_def segs_ascii applyToolLists_def server_index_def
      splitTools_def permits_def)

end
