(* ===== verification/Native.thy ===== *)
theory Native
  imports Utf8 Tools
begin

text \<open>
  The recovery of tool calls a model wrote into its text, \<^verbatim>\<open>internal/model/native.go\<close> and
  \<^verbatim>\<open>internal/model/bonyan.go\<close>: the scan over the sentinels, the body of one call, and the scrubbing
  of what is left. The JSON decoder (the first object of a text) and encoder are parameters.
\<close>

section \<open>Sentinels\<close>

definition nativeToolSep :: string where "nativeToolSep = ''<|tool_sep|>''"
definition nativeToolEnd :: string where "nativeToolEnd = ''<|tool_call_end|>''"
definition nativeToolsEnd :: string where "nativeToolsEnd = ''<|tool_calls_end|>''"
definition nativeCallBegin :: string where "nativeCallBegin = ''<|tool_call_begin|>''"
definition nativeCallsBegin :: string where "nativeCallsBegin = ''<|tool_calls_begin|>''"
definition nativeCallPrefix :: string where "nativeCallPrefix = ''function''"

definition nativeSentinels :: "string list" where
  "nativeSentinels = [nativeCallsBegin, nativeCallBegin, nativeToolSep, nativeToolEnd, nativeToolsEnd]"

definition stripToolSentinels :: "string \<Rightarrow> string" where
  "stripToolSentinels s = foldl (\<lambda>s t. ReplaceAll s t []) s nativeSentinels"

definition containsSentinel :: "string \<Rightarrow> bool" where
  "containsSentinel s \<longleftrightarrow> list_ex (Contains s) nativeSentinels"

section \<open>One call\<close>

record tool_call =
  tc_ID :: string
  tc_Name :: string
  tc_Arguments :: args

definition blank_char :: "char \<Rightarrow> bool" where
  "blank_char c \<longleftrightarrow> c \<in> {CHR 0x20, CHR 0x09, CHR 0x0D, CHR 0x0A}"

definition trimCallOpen :: "string \<Rightarrow> string" where
  "trimCallOpen pre = TrimSuffix (TrimSuffix (TrimSuffix (rev (dropWhile blank_char (rev pre))) nativeCallPrefix)
     nativeCallBegin) nativeCallsBegin"

definition firstTerminator :: "string \<Rightarrow> (nat \<times> nat) option" where
  "firstTerminator s =
     (case (Index s nativeToolEnd, Index s nativeToolsEnd) of
        (None, None) \<Rightarrow> None
      | (None, Some i2) \<Rightarrow> Some (i2, length nativeToolsEnd)
      | (Some i1, None) \<Rightarrow> Some (i1, length nativeToolEnd)
      | (Some i1, Some i2) \<Rightarrow> if i1 \<le> i2 then Some (i1, length nativeToolEnd) else Some (i2, length nativeToolsEnd))"

definition IndexByte :: "string \<Rightarrow> char \<Rightarrow> nat option" where
  "IndexByte s c = (if c \<in> set s then Some (length (takeWhile (\<lambda>x. x \<noteq> c) s)) else None)"

definition splitNativeName :: "string \<Rightarrow> string \<times> string" where
  "splitNativeName body =
     (let cut = (case IndexByte body (CHR 0x0A) of None \<Rightarrow> length body | Some n \<Rightarrow> n) in
      case IndexByte body (CHR ''{'') of
        Some b \<Rightarrow> if b < cut then (take b body, drop b body)
                  else if cut = length body then (body, []) else (take cut body, drop (cut + 1) body)
      | None \<Rightarrow> if cut = length body then (body, []) else (take cut body, drop (cut + 1) body))"

definition trim_byte :: "char \<Rightarrow> string \<Rightarrow> string" where
  "trim_byte c s = TrimRight c (TrimLeft c s)"

definition backtick :: char where "backtick = CHR 0x60"

definition sanitizeToolName :: "string \<Rightarrow> string" where
  "sanitizeToolName s = TrimSpace (trim_byte backtick (TrimSpace s))"

text \<open>\<open>decode\<close> is the first JSON object of a text.\<close>

definition parseNativeArgs :: "(string \<Rightarrow> args option) \<Rightarrow> string \<Rightarrow> args option" where
  "parseNativeArgs decode rest =
     (let trimmed = TrimSpace (trim_byte backtick (TrimSpace (stripToolSentinels rest))) in
      if trimmed = [] then Some []
      else (case IndexByte trimmed (CHR ''{'') of None \<Rightarrow> None | Some b \<Rightarrow> decode (drop b trimmed)))"

definition parseNativeCallBody :: "(string \<Rightarrow> args option) \<Rightarrow> string \<Rightarrow> nat \<Rightarrow> tool_call option" where
  "parseNativeCallBody decode body idx =
     (case splitNativeName (TrimSpace body) of (name0, rest) \<Rightarrow>
        let name = sanitizeToolName name0 in
        if name = [] then None
        else (case parseNativeArgs decode rest of None \<Rightarrow> None
          | Some as \<Rightarrow> Some \<lparr>tc_ID = ''call_native_'' @ itoa (int idx), tc_Name = name, tc_Arguments = as\<rparr>))"

section \<open>The scan\<close>

lemma Index_sub: "Index s sub = Some i \<Longrightarrow> i + length sub \<le> length s \<and> take (length sub) (drop i s) = sub"
proof (induction s arbitrary: i)
  case Nil
  then show ?case by (simp add: Index.simps [of "[]"] split: if_splits)
next
  case (Cons c s)
  show ?case
  proof (cases "prefix sub (c # s)")
    case True
    then obtain zs where "c # s = sub @ zs" by (auto simp: prefix_def)
    then have "length sub \<le> length (c # s)" "take (length sub) (c # s) = sub" by (metis length_append le_add1, simp)
    then show ?thesis using Cons.prems True by (simp add: Index.simps [of "c # s"])
  next
    case False
    then obtain j where "Index s sub = Some j" "i = Suc j" using Cons.prems by (auto simp: Index.simps [of "c # s"])
    then show ?thesis using Cons.IH by simp
  qed
qed

text \<open>The loop: \<open>calls\<close> and \<open>clean\<close> are what it has collected.\<close>

function native_loop ::
    "(string \<Rightarrow> args option) \<Rightarrow> string \<Rightarrow> tool_call list \<Rightarrow> string \<Rightarrow> string \<times> tool_call list" where
  "native_loop decode rest calls clean =
     (case Index rest nativeToolSep of
        None \<Rightarrow> (clean @ rest, calls)
      | Some i \<Rightarrow>
          (let clean1 = clean @ trimCallOpen (take i rest); afterSep = drop (i + length nativeToolSep) rest in
           case firstTerminator afterSep of
             None \<Rightarrow> (clean1, calls)
           | Some (stop, stopLen) \<Rightarrow>
               native_loop decode (drop (stop + stopLen) afterSep)
                 (case parseNativeCallBody decode (take stop afterSep) (length calls) of
                    Some tc \<Rightarrow> calls @ [tc] | None \<Rightarrow> calls) clean1))"
  by auto
termination
proof (relation "measure (\<lambda>(decode, rest, calls, clean). length rest)")
  fix decode :: "string \<Rightarrow> args option" and rest clean x afterSep :: string and calls :: "tool_call list" and i y stop stopLen
  assume i: "Index rest nativeToolSep = Some i" and a: "afterSep = drop (i + length nativeToolSep) rest"
  have "0 < length nativeToolSep" by (simp add: nativeToolSep_def)
  then have "length afterSep < length rest" using Index_sub [OF i] a by (simp only: length_drop) linarith
  then show "((decode, drop (stop + stopLen) afterSep,
      (case parseNativeCallBody decode (take stop afterSep) (length calls) of Some tc \<Rightarrow> calls @ [tc] | None \<Rightarrow> calls), x),
      decode, rest, calls, clean) \<in> measure (\<lambda>(decode, rest, calls, clean). length rest)" by simp
qed simp

declare native_loop.simps [simp del]

definition parseNativeToolCalls :: "(string \<Rightarrow> args option) \<Rightarrow> string \<Rightarrow> string \<times> tool_call list" where
  "parseNativeToolCalls decode content =
     (if \<not> Contains content nativeToolSep then
        (if \<not> containsSentinel content then (content, []) else (TrimSpace (stripToolSentinels content), []))
      else (case native_loop decode content [] [] of (clean, calls) \<Rightarrow> (TrimSpace (stripToolSentinels clean), calls)))"

section \<open>The chat wrapper (bonyan.go)\<close>

record chat_reply =
  cr_Content :: string
  cr_ToolCalls :: "(string \<times> string \<times> string) list"
  cr_StopToolCalls :: bool

fun marshal_calls :: "(args \<Rightarrow> string result) \<Rightarrow> tool_call list \<Rightarrow> (string \<times> string \<times> string) list result" where
  "marshal_calls marshal [] = Inr []"
| "marshal_calls marshal (c # cs) =
     (case marshal (tc_Arguments c) of Inl e \<Rightarrow> Inl (Wrap ''model: a native tool call's arguments'' e)
      | Inr a \<Rightarrow> (case marshal_calls marshal cs of Inl e \<Rightarrow> Inl e | Inr out \<Rightarrow> Inr ((tc_ID c, tc_Name c, a) # out)))"

definition native_Chat ::
    "(string \<Rightarrow> args option) \<Rightarrow> (args \<Rightarrow> string result) \<Rightarrow> chat_reply result \<Rightarrow> chat_reply result" where
  "native_Chat decode marshal inner =
     (case inner of
        Inl e \<Rightarrow> Inl e
      | Inr resp \<Rightarrow>
          if cr_ToolCalls resp \<noteq> [] then Inr (resp\<lparr>cr_Content := stripToolSentinels (cr_Content resp)\<rparr>)
          else (case parseNativeToolCalls decode (cr_Content resp) of (text, calls) \<Rightarrow>
            (case marshal_calls marshal calls of
               Inl e \<Rightarrow> Inl e
             | Inr out \<Rightarrow> Inr (resp\<lparr>cr_Content := text, cr_ToolCalls := out,
                 cr_StopToolCalls := (cr_StopToolCalls resp \<or> out \<noteq> [])\<rparr>))))"

end
