(* ===== verification/Native_Props.thy ===== *)
theory Native_Props
  imports Native
begin

text \<open>
  No sentinel reaches the user when the text holds whole sentinels only; deleting one out of the
  middle of another can leave a new one; a call written in the canonical shape reads back; and the
  calls recovered are numbered in order.
\<close>

section \<open>Whole sentinels\<close>

text \<open>Every opening angle bracket of the text begins one of the sentinels \<open>S\<close>.\<close>

fun marked :: "string list \<Rightarrow> string \<Rightarrow> bool" where
  "marked S [] = True"
| "marked S (c # s) = ((c = CHR ''<'' \<longrightarrow> list_ex (\<lambda>t. prefix t (c # s)) S) \<and> marked S s)"

definition bracketed :: "string \<Rightarrow> bool" where
  "bracketed t \<longleftrightarrow> t \<noteq> [] \<and> hd t = CHR ''<'' \<and> CHR ''<'' \<notin> set (tl t) \<and> last t = CHR ''>''"

lemma sentinels_bracketed: "list_all bracketed nativeSentinels"
  by (simp add: bracketed_def nativeSentinels_def nativeToolSep_def nativeToolEnd_def nativeToolsEnd_def
      nativeCallBegin_def nativeCallsBegin_def)

lemma marked_plain: "CHR ''<'' \<notin> set s \<Longrightarrow> marked S s"
  by (induction s) auto

lemma marked_none: "marked [] s \<longleftrightarrow> CHR ''<'' \<notin> set s"
  by (induction s) auto

lemma marked_append: "marked S a \<Longrightarrow> marked S b \<Longrightarrow> marked S (a @ b)"
proof (induction a)
  case (Cons c a)
  then show ?case by (auto simp: list_ex_iff) (metis append_Cons prefix_prefix)
qed simp

lemma marked_drop: "marked S (a @ b) \<Longrightarrow> marked S b"
  by (induction a) auto

lemma marked_take:
  assumes "list_all bracketed S" and "marked S (a @ b)" and "CHR ''>'' \<notin> set b \<or> b \<noteq> [] \<and> hd b = CHR ''<''"
  shows "marked S a"
  using assms(2)
proof (induction a)
  case (Cons c a)
  have "list_ex (\<lambda>t. prefix t (c # a)) S" if "c = CHR ''<''"
  proof -
    have "list_ex (\<lambda>t. prefix t (c # a @ b)) S" using Cons.prems that by simp
    then obtain t where t: "t \<in> set S" "prefix t (c # a @ b)" by (auto simp: list_ex_iff)
    have br: "bracketed t" using assms(1) t(1) by (simp add: list_all_iff)
    have "prefix t (c # a)"
    proof (rule ccontr)
      assume n: "\<not> prefix t (c # a)"
      have "prefix t ((c # a) @ b)" using t(2) by simp
      then obtain x where x: "t = (c # a) @ x" "prefix x b" using n unfolding prefix_append by blast
      then have "x \<noteq> []" using n by auto
      note x = x this
      from x(2) obtain x' where b: "b = x @ x'" by (auto simp: prefix_def)
      have "last x = CHR ''>''" using br x by (simp add: bracketed_def)
      then have "CHR ''>'' \<in> set b" using b x(3) by (metis UnCI last_in_set set_append)
      then have "hd b = CHR ''<''" using assms(3) by blast
      then have "CHR ''<'' \<in> set x" using b x(3) by (metis hd_append2 hd_in_set)
      then show False using br x(1) by (simp add: bracketed_def)
    qed
    then show ?thesis using t(1) by (auto simp: list_ex_iff)
  qed
  then show ?case using Cons by simp
qed simp

section \<open>Scrubbing\<close>

lemma ReplaceAll_skip: "CHR ''<'' \<notin> set x \<Longrightarrow> t \<noteq> [] \<Longrightarrow> hd t = CHR ''<'' \<Longrightarrow>
    ReplaceAll (x @ y) t [] = x @ ReplaceAll y t []"
proof (induction x)
  case (Cons c x)
  then have "\<not> prefix t ((c # x) @ y)" by (cases t) auto
  then show ?case using Cons by (subst ReplaceAll.simps) simp
qed simp

lemma marked_scrub:
  assumes "list_all bracketed S" and "bracketed t"
  shows "marked S s \<Longrightarrow> marked (filter (\<lambda>u. u \<noteq> t) S) (ReplaceAll s t [])"
proof (induction s rule: length_induct)
  case (1 s)
  have t: "t \<noteq> []" "hd t = CHR ''<''" "CHR ''<'' \<notin> set (tl t)" using assms(2) by (simp_all add: bracketed_def)
  show ?case
  proof (cases s)
    case Nil
    then show ?thesis by (simp add: ReplaceAll.simps)
  next
    case (Cons h r)
    show ?thesis
    proof (cases "prefix t s")
      case True
      then have e: "ReplaceAll s t [] = ReplaceAll (drop (length t) s) t []"
        using Cons t(1) by (subst ReplaceAll.simps) simp
      have "marked S (drop (length t) s)" using "1.prems" marked_drop [of S "take (length t) s"] by simp
      moreover have "length (drop (length t) s) < length s" using t(1) Cons by simp
      ultimately show ?thesis using "1.IH" e by simp
    next
      case False
      then have e: "ReplaceAll s t [] = h # ReplaceAll r t []" using Cons t(1) by (subst ReplaceAll.simps) simp
      have ih: "marked (filter (\<lambda>u. u \<noteq> t) S) (ReplaceAll r t [])" using "1.IH" "1.prems" Cons by simp
      have "list_ex (\<lambda>u. prefix u (h # ReplaceAll r t [])) (filter (\<lambda>u. u \<noteq> t) S)" if h: "h = CHR ''<''"
      proof -
        obtain u where u: "u \<in> set S" "prefix u s" using "1.prems" h Cons by (auto simp: list_ex_iff)
        then obtain y where y: "s = u @ y" by (auto simp: prefix_def)
        have br: "bracketed u" using assms(1) u(1) by (simp add: list_all_iff)
        then obtain u' where u': "u = h # u'" using h by (cases u) (auto simp: bracketed_def)
        have "ReplaceAll r t [] = u' @ ReplaceAll y t []"
          using ReplaceAll_skip [of u' t y] br t y Cons u' by (simp add: bracketed_def)
        moreover have "u \<noteq> t" using False u(2) by blast
        ultimately show ?thesis using u(1) u' by (auto simp: list_ex_iff intro!: bexI [of _ u])
      qed
      then show ?thesis using ih e by simp
    qed
  qed
qed

lemma stripped_plain:
  assumes "marked nativeSentinels s"
  shows "CHR ''<'' \<notin> set (stripToolSentinels s)"
proof -
  have "list_all bracketed S \<Longrightarrow> list_all bracketed ts \<Longrightarrow> marked S s \<Longrightarrow>
      marked (filter (\<lambda>u. u \<notin> set ts) S) (foldl (\<lambda>s t. ReplaceAll s t []) s ts)" for S ts s
  proof (induction ts arbitrary: S s)
    case (Cons t ts)
    have "marked (filter (\<lambda>u. u \<noteq> t) S) (ReplaceAll s t [])"
      using Cons.prems by (intro marked_scrub) simp_all
    moreover have "list_all bracketed (filter (\<lambda>u. u \<noteq> t) S)" using Cons.prems(1) by (simp add: list_all_iff)
    ultimately have "marked (filter (\<lambda>u. u \<notin> set ts) (filter (\<lambda>u. u \<noteq> t) S)) (foldl (\<lambda>s t. ReplaceAll s t []) (ReplaceAll s t []) ts)"
      using Cons.IH [of "filter (\<lambda>u. u \<noteq> t) S" "ReplaceAll s t []"] Cons.prems(2) by (simp only: list.pred_inject(2))
    then show ?case by (simp add: conj_commute)
  qed simp
  from this [OF sentinels_bracketed sentinels_bracketed assms] show ?thesis
    by (simp add: stripToolSentinels_def marked_none)
qed

lemma TrimSpace_subset: "set (TrimSpace s) \<subseteq> set s"
proof -
  have d: "set (drop_spaces ss) \<subseteq> set ss" for ss by (induction ss rule: drop_spaces.induct) auto
  have "set (TrimSpace s) \<subseteq> \<Union>(set ` snd ` set (segs s))"
    using d [of "rev (drop_spaces (segs s))"] d [of "segs s"] by (fastforce simp: TrimSpace_def)
  also have "\<dots> = set (concat (map snd (segs s)))" by simp
  finally show ?thesis by (simp only: segs_concat)
qed

section \<open>The scan\<close>

lemma marked_TrimSuffix:
  assumes "marked nativeSentinels s" and "CHR ''>'' \<notin> set t \<or> t \<in> set nativeSentinels"
  shows "marked nativeSentinels (TrimSuffix s t)"
proof (cases "suffix t s")
  case True
  then obtain a where a: "s = a @ t" by (auto simp: suffix_def)
  have "CHR ''>'' \<notin> set t \<or> t \<noteq> [] \<and> hd t = CHR ''<''"
    using assms(2) sentinels_bracketed by (auto simp: list_all_iff bracketed_def)
  then have "marked nativeSentinels a" using marked_take [OF sentinels_bracketed] assms(1) a by blast
  then show ?thesis by (simp add: TrimSuffix_def a suffix_def)
qed (use assms in \<open>simp add: TrimSuffix_def\<close>)

lemma marked_trimCallOpen:
  assumes "marked nativeSentinels pre"
  shows "marked nativeSentinels (trimCallOpen pre)"
proof -
  let ?ws = "rev (takeWhile blank_char (rev pre))"
  have split: "pre = rev (dropWhile blank_char (rev pre)) @ ?ws"
    by (metis rev_append rev_rev_ident takeWhile_dropWhile_id)
  have "CHR ''>'' \<notin> set ?ws" by (auto simp: blank_char_def dest: set_takeWhileD)
  then have "marked nativeSentinels (rev (dropWhile blank_char (rev pre)))"
    using marked_take [OF sentinels_bracketed, of "rev (dropWhile blank_char (rev pre))" ?ws] assms split by metis
  moreover have "CHR ''>'' \<notin> set nativeCallPrefix" by (simp add: nativeCallPrefix_def)
  moreover have "nativeCallBegin \<in> set nativeSentinels" "nativeCallsBegin \<in> set nativeSentinels"
    by (simp_all add: nativeSentinels_def)
  ultimately show ?thesis unfolding trimCallOpen_def by (intro marked_TrimSuffix) blast+
qed

lemma marked_loop:
  "marked nativeSentinels rest \<Longrightarrow> marked nativeSentinels clean \<Longrightarrow>
   marked nativeSentinels (fst (native_loop decode rest calls clean))"
proof (induction decode rest calls clean rule: native_loop.induct)
  case (1 decode rest calls clean)
  show ?case
  proof (cases "Index rest nativeToolSep")
    case None
    then show ?thesis using "1.prems" by (simp add: native_loop.simps [of decode rest] marked_append)
  next
    case (Some i)
    let ?after = "drop (i + length nativeToolSep) rest" and ?clean = "clean @ trimCallOpen (take i rest)"
    have "take (length nativeToolSep) (drop i rest) = nativeToolSep" using Index_sub [OF Some] by blast
    then have "hd (drop i rest) = CHR ''<''" "drop i rest \<noteq> []"
      by (auto simp: nativeToolSep_def) (cases "drop i rest"; simp)
    then have "marked nativeSentinels (take i rest)"
      using marked_take [OF sentinels_bracketed, of "take i rest" "drop i rest"] "1.prems"(1) by simp
    then have c: "marked nativeSentinels ?clean" using "1.prems"(2) by (intro marked_append marked_trimCallOpen)
    have d: "marked nativeSentinels (drop n ?after)" for n
      using marked_drop [of nativeSentinels "take (i + length nativeToolSep + n) rest" "drop (i + length nativeToolSep + n) rest"]
        "1.prems"(1) by (simp add: add.commute)
    show ?thesis
    proof (cases "firstTerminator ?after")
      case None
      then show ?thesis using Some c by (simp add: native_loop.simps [of decode rest] Let_def)
    next
      case (Some st)
      obtain stop len where st: "st = (stop, len)" by fastforce
      have "marked nativeSentinels (fst (native_loop decode (drop (stop + len) ?after)
          (case parseNativeCallBody decode (take stop ?after) (length calls) of Some tc \<Rightarrow> calls @ [tc] | None \<Rightarrow> calls) ?clean))"
        using "1.IH" [OF \<open>Index rest nativeToolSep = Some i\<close> refl refl Some] st d c by simp
      then show ?thesis
        using \<open>Index rest nativeToolSep = Some i\<close> Some st
        by (simp add: native_loop.simps [of decode rest] Let_def)
    qed
  qed
qed

text \<open>C24: When every opening angle bracket of a reply begins a whole sentinel, however the sentinels
  are nested, repeated, unterminated or out of order, no opening angle bracket and so no sentinel is
  left in the text that reaches the user.\<close>

theorem native_no_leak:
  assumes "marked nativeSentinels content"
  shows "CHR ''<'' \<notin> set (fst (parseNativeToolCalls decode content)) \<and>
    \<not> containsSentinel (fst (parseNativeToolCalls decode content))"
proof -
  have no: "CHR ''<'' \<notin> set s \<Longrightarrow> \<not> containsSentinel s" for s
  proof
    assume "CHR ''<'' \<notin> set s" and "containsSentinel s"
    then obtain t where t: "t \<in> set nativeSentinels" "sublist t s" by (auto simp: containsSentinel_def list_ex_iff Contains_def)
    have "CHR ''<'' \<in> set t" using sentinels_bracketed t(1) by (metis bracketed_def hd_in_set list_all_iff)
    then show False using t(2) \<open>CHR ''<'' \<notin> set s\<close> set_mono_sublist by blast
  qed
  have "CHR ''<'' \<notin> set (fst (parseNativeToolCalls decode content))"
  proof (cases "Contains content nativeToolSep \<or> containsSentinel content")
    case True
    have "fst (parseNativeToolCalls decode content) = TrimSpace (stripToolSentinels
        (if Contains content nativeToolSep then fst (native_loop decode content [] []) else content))"
      using True by (auto simp: parseNativeToolCalls_def split: prod.splits)
    moreover have "marked nativeSentinels (if Contains content nativeToolSep then fst (native_loop decode content [] []) else content)"
      using assms marked_loop [of content "[]" decode "[]"] by simp
    ultimately show ?thesis using stripped_plain TrimSpace_subset by (metis subsetD)
  next
    case False
    have "CHR ''<'' \<notin> set content"
    proof
      assume "CHR ''<'' \<in> set content"
      then obtain a b where s: "content = a @ CHR ''<'' # b" by (auto simp: in_set_conv_decomp)
      then have "marked nativeSentinels (CHR ''<'' # b)" using assms marked_drop by blast
      then obtain t where "t \<in> set nativeSentinels" "prefix t (CHR ''<'' # b)" by (auto simp: list_ex_iff)
      then have "containsSentinel content"
        by (auto simp: containsSentinel_def list_ex_iff Contains_def s sublist_append intro!: bexI [of _ t])
      then show False using False by simp
    qed
    then show ?thesis using False by (simp add: parseNativeToolCalls_def)
  qed
  then show ?thesis using no by simp
qed

theorem native_no_leak_witness:
  "CHR ''<'' \<notin> set (fst (parseNativeToolCalls (\<lambda>_. None) (''Hi '' @ nativeToolSep @ ''x'' @ nativeToolSep @ nativeToolsEnd @ nativeCallBegin)))"
proof -
  have "marked nativeSentinels (''Hi '' @ nativeToolSep @ ''x'' @ nativeToolSep @ nativeToolsEnd @ nativeCallBegin)"
    by (simp add: nativeSentinels_def nativeToolSep_def nativeToolEnd_def nativeToolsEnd_def nativeCallBegin_def nativeCallsBegin_def)
  then show ?thesis using native_no_leak by blast
qed

text \<open>The scrubbing deletes the sentinels one kind after the other and once: a sentinel written into
  the middle of another is deleted and leaves the outer one whole, and that one is in the text the
  user gets.\<close>

theorem native_scrub_reassembles:
  "fst (parseNativeToolCalls decode ''<|tool_calls_be<|tool_call_begin|>gin|>'') = nativeCallsBegin"
  by (simp add: parseNativeToolCalls_def Contains_def nativeToolSep_def containsSentinel_def nativeSentinels_def
      stripToolSentinels_def nativeCallsBegin_def nativeCallBegin_def nativeToolEnd_def nativeToolsEnd_def ReplaceAll.simps
      TrimSpace_ascii is_space_def sublist_code)

section \<open>A canonical call\<close>

lemma decode_snoc:
  assumes "s \<noteq> []" and "byte d < (128 :: nat)"
  shows "decode_rune (s @ [d]) = decode_rune s" and "snd (decode_rune s) \<le> length s"
proof -
  have cont: "128 \<le> lo \<Longrightarrow> cont_in lo hi (s @ [d]) i = cont_in lo hi s i" for lo hi i
    using assms(2) by (auto simp: cont_in_def nth_append)
  have l: "i < length s \<Longrightarrow> (s @ [d]) ! i = s ! i" for i by (simp add: nth_append)
  have out: "length s \<le> i \<Longrightarrow> \<not> cont_in lo hi s i" for lo hi i by (simp add: cont_in_def)
  have hd: "(s @ [d]) ! 0 = s ! 0" using assms(1) by (simp add: nth_append)
  show "decode_rune (s @ [d]) = decode_rune s"
  proof -
    consider "length s \<le> 1" | "length s = 2" | "length s = 3" | "3 < length s" by linarith
    then show ?thesis
      by cases (simp_all only: decode_rune_def Let_def hd cont l out if_split_eq1 simp_thms order.refl one_le_numeral
        numeral_le_iff semiring_norm if_cancel, simp_all add: cont l out)
  qed
  show "snd (decode_rune s) \<le> length s"
    using assms(1) by (auto simp: decode_rune_def Let_def cont_in_def Suc_le_eq)
qed

lemma segs_snoc: "byte d < (128 :: nat) \<Longrightarrow> segs (s @ [d]) = segs s @ [(byte d, [d])]"
proof (induction s rule: segs.induct)
  case (1 s)
  show ?case
  proof (cases "s = []")
    case True
    then show ?thesis using 1 by (simp add: segs_Cons_ascii)
  next
    case False
    obtain r n where d: "decode_rune s = (r, n)" by fastforce
    have n: "n \<le> length s" using decode_snoc(2) [OF False "1.prems"] d by simp
    have "segs (s @ [d]) = (r, take n s) # segs (drop n s @ [d])"
      using False d n decode_snoc(1) [OF False "1.prems"] by (subst segs.simps) simp
    also have "\<dots> = segs s @ [(byte d, [d])]"
      using "1.IH" [OF False d [symmetric] "1.prems"] False d by (subst segs.simps) simp
    finally show ?thesis .
  qed
qed

definition edges :: "string \<Rightarrow> bool" where
  "edges s \<longleftrightarrow> s \<noteq> [] \<and> byte (hd s) < (128 :: nat) \<and> \<not> is_space (byte (hd s)) \<and> byte (last s) < (128 :: nat) \<and> \<not> is_space (byte (last s))"

lemma TrimSpace_edges:
  assumes "edges s"
  shows "TrimSpace s = s"
proof -
  obtain c m where c: "s = c # m" using assms by (cases s) (auto simp: edges_def)
  obtain m' d where d: "s = m' @ [d]" using assms by (cases s rule: rev_cases) (auto simp: edges_def)
  have "drop_spaces (segs s) = segs s"
    using assms c segs_Cons_ascii [of c m] by (simp add: edges_def)
  moreover have "drop_spaces (rev (segs s)) = rev (segs s)"
    using assms d segs_snoc [of d m'] by (simp add: edges_def)
  ultimately show ?thesis by (simp add: TrimSpace_def segs_concat)
qed

lemma Index_hit [simp]: "Index (t @ r) t = Some 0"
  by (subst Index.simps) simp

lemma Index_plain: "CHR ''<'' \<notin> set x \<Longrightarrow> t \<noteq> [] \<Longrightarrow> hd t = CHR ''<'' \<Longrightarrow>
    Index (x @ y) t = map_option (\<lambda>i. length x + i) (Index y t)"
proof (induction x)
  case Nil
  then show ?case by (cases "Index y t") simp_all
next
  case (Cons c x)
  then have "\<not> prefix t ((c # x) @ y)" by (cases t) auto
  then show ?case using Cons by (cases "Index y t") (simp_all add: Index.simps [of "c # x @ y"])
qed

lemma Index_none: "CHR ''<'' \<notin> set x \<Longrightarrow> t \<noteq> [] \<Longrightarrow> hd t = CHR ''<'' \<Longrightarrow> Index x t = None"
  using Index_plain [of x t "[]"] by (cases t) (auto simp: Index.simps [of "[]"])

lemma Index_other:
  assumes "bracketed u" and "bracketed t" and "\<not> prefix t (u @ y)"
  shows "Index (u @ y) t = map_option (\<lambda>i. length u + i) (Index y t)"
proof -
  obtain u' where u: "u = CHR ''<'' # u'" using assms(1) by (cases u) (auto simp: bracketed_def)
  have "Index (u @ y) t = map_option Suc (Index (u' @ y) t)" using assms(3) u by (simp add: Index.simps [of "CHR ''<'' # u' @ y"])
  then show ?thesis
    using assms(1,2) u Index_plain [of u' t y] by (cases "Index y t") (simp_all add: bracketed_def)
qed

lemmas sentinel_defs = nativeToolSep_def nativeToolEnd_def nativeToolsEnd_def nativeCallBegin_def nativeCallsBegin_def

lemma bracketed_sentinels [simp]: "bracketed nativeToolSep" "bracketed nativeToolEnd" "bracketed nativeToolsEnd"
  "bracketed nativeCallBegin" "bracketed nativeCallsBegin"
  using sentinels_bracketed by (simp_all add: nativeSentinels_def)

lemma sentinels_apart [simp]: "\<not> prefix nativeToolSep (nativeCallsBegin @ y)" "\<not> prefix nativeToolSep (nativeCallBegin @ y)"
  "\<not> prefix nativeToolSep (nativeToolsEnd @ y)" "\<not> prefix nativeToolsEnd (nativeToolEnd @ y)"
  "\<not> prefix nativeCallsBegin (nativeToolsEnd @ y)" "\<not> prefix nativeCallBegin (nativeToolsEnd @ y)"
  "\<not> prefix nativeToolEnd (nativeToolsEnd @ y)"
  by (simp_all add: sentinel_defs)

lemma ReplaceAll_hit: "t \<noteq> [] \<Longrightarrow> ReplaceAll (t @ y) t [] = ReplaceAll y t []"
  by (subst ReplaceAll.simps) simp

lemma ReplaceAll_plain: "CHR ''<'' \<notin> set x \<Longrightarrow> bracketed t \<Longrightarrow> ReplaceAll x t [] = x"
  using ReplaceAll_skip [of x t "[]"] by (simp add: bracketed_def ReplaceAll.simps [of "[]"])

lemma ReplaceAll_other:
  assumes "bracketed u" and "bracketed t" and "\<not> prefix t (u @ y)"
  shows "ReplaceAll (u @ y) t [] = u @ ReplaceAll y t []"
proof -
  obtain u' where u: "u = CHR ''<'' # u'" using assms(1) by (cases u) (auto simp: bracketed_def)
  have "ReplaceAll (u @ y) t [] = CHR ''<'' # ReplaceAll (u' @ y) t []"
    using assms u by (subst ReplaceAll.simps) (simp add: bracketed_def)
  then show ?thesis using assms(1,2) u ReplaceAll_skip [of u' t y] by (simp add: bracketed_def)
qed

lemma strip_plain: "CHR ''<'' \<notin> set x \<Longrightarrow> stripToolSentinels x = x"
  by (simp add: stripToolSentinels_def nativeSentinels_def ReplaceAll_plain)

lemma strip_one:
  assumes "CHR ''<'' \<notin> set x" and "CHR ''<'' \<notin> set y"
  shows "stripToolSentinels (x @ nativeToolsEnd @ y) = x @ y"
proof -
  have r: "ReplaceAll (x @ nativeToolsEnd @ y) t [] = x @ nativeToolsEnd @ y"
    if "bracketed t" and "\<not> prefix t (nativeToolsEnd @ y)" for t
    using that assms ReplaceAll_skip [of x t "nativeToolsEnd @ y"]
    by (simp add: ReplaceAll_other ReplaceAll_plain) (simp add: bracketed_def)
  have e: "nativeToolsEnd \<noteq> []" "hd nativeToolsEnd = CHR ''<''" by (simp_all add: nativeToolsEnd_def)
  have "ReplaceAll (x @ nativeToolsEnd @ y) nativeToolsEnd [] = x @ y"
    using assms ReplaceAll_skip [of x nativeToolsEnd "nativeToolsEnd @ y"] ReplaceAll_plain [of y nativeToolsEnd]
    by (simp add: ReplaceAll_hit e)
  then show ?thesis by (simp add: stripToolSentinels_def nativeSentinels_def r)
qed

lemma TrimSuffix_append [simp]: "TrimSuffix (a @ t) t = a"
  by (simp add: TrimSuffix_def suffix_def)

lemma trimCallOpen_canonical: "trimCallOpen (pre @ nativeCallsBegin @ nativeCallBegin @ nativeCallPrefix) = pre"
proof -
  have "rev (dropWhile blank_char (rev (x @ nativeCallPrefix))) = x @ nativeCallPrefix" for x
    by (simp add: nativeCallPrefix_def blank_char_def)
  from this [of "pre @ nativeCallsBegin @ nativeCallBegin"] show ?thesis
    using TrimSuffix_append [of "pre @ nativeCallsBegin @ nativeCallBegin" nativeCallPrefix]
      TrimSuffix_append [of "pre @ nativeCallsBegin" nativeCallBegin] by (simp add: trimCallOpen_def)
qed

lemma IndexByte_first: "c \<notin> set a \<Longrightarrow> IndexByte (a @ c # b) c = Some (length a)"
proof -
  assume "c \<notin> set a"
  then have "takeWhile (\<lambda>x. x \<noteq> c) (a @ c # b) = a" by (induction a) auto
  then show ?thesis by (simp add: IndexByte_def)
qed

definition tool_name_text :: "string \<Rightarrow> bool" where
  "tool_name_text s \<longleftrightarrow> edges s \<and> CHR ''<'' \<notin> set s \<and> CHR ''{'' \<notin> set s \<and> CHR 0x0A \<notin> set s \<and> backtick \<notin> set s"

definition object_text :: "string \<Rightarrow> bool" where
  "object_text s \<longleftrightarrow> s \<noteq> [] \<and> hd s = CHR ''{'' \<and> last s = CHR ''}'' \<and> CHR ''<'' \<notin> set s"

lemma object_edges: "object_text s \<Longrightarrow> edges s"
  by (simp add: object_text_def edges_def is_space_def)

lemma trim_byte_edges: "s \<noteq> [] \<Longrightarrow> hd s \<noteq> c \<Longrightarrow> last s \<noteq> c \<Longrightarrow> trim_byte c s = s"
proof -
  assume a: "s \<noteq> []" "hd s \<noteq> c" "last s \<noteq> c"
  then have "TrimLeft c s = s" by (cases s) (auto simp: TrimLeft_def)
  moreover have "TrimRight c s = s" using a by (cases s rule: rev_cases) (auto simp: TrimRight_def)
  ultimately show ?thesis by (simp add: trim_byte_def)
qed

lemma body_canonical:
  assumes "tool_name_text name" and "object_text json" and "decode json = Some as"
  shows "parseNativeCallBody decode (name @ CHR 0x0A # json) n =
    Some \<lparr>tc_ID = ''call_native_'' @ itoa (int n), tc_Name = name, tc_Arguments = as\<rparr>"
proof -
  have e: "edges name" "edges json" using assms(1,2) object_edges by (simp_all add: tool_name_text_def)
  have ee: "edges (name @ CHR 0x0A # json)" using e by (simp add: edges_def)
  obtain j where j: "json = CHR ''{'' # j" using assms(2) by (cases json) (auto simp: object_text_def)
  have "IndexByte (name @ CHR 0x0A # json) (CHR 0x0A) = Some (length name)"
    using assms(1) by (intro IndexByte_first) (simp add: tool_name_text_def)
  moreover have "IndexByte ((name @ [CHR 0x0A]) @ CHR ''{'' # j) (CHR ''{'') = Some (length (name @ [CHR 0x0A]))"
    using assms(1) by (intro IndexByte_first) (simp add: tool_name_text_def)
  ultimately have split: "splitNativeName (name @ CHR 0x0A # json) = (name, json)"
    by (simp add: splitNativeName_def Let_def j)
  have "hd name \<noteq> backtick" "last name \<noteq> backtick" "name \<noteq> []"
    using assms(1) by (auto simp: tool_name_text_def edges_def dest: hd_in_set last_in_set)
  then have name: "sanitizeToolName name = name"
    by (simp add: sanitizeToolName_def TrimSpace_edges [OF e(1)] trim_byte_edges)
  have "trim_byte backtick json = json"
    using assms(2) by (intro trim_byte_edges) (auto simp: object_text_def backtick_def)
  then have "parseNativeArgs decode json = Some as"
    using assms(2,3) IndexByte_first [of "CHR ''{''" "[]" j]
    by (simp add: parseNativeArgs_def strip_plain object_text_def TrimSpace_edges [OF e(2)] j [symmetric])
  then show ?thesis
    using name \<open>name \<noteq> []\<close> by (simp add: parseNativeCallBody_def TrimSpace_edges [OF ee] split)
qed



section \<open>Numbering\<close>

definition numbered :: "tool_call list \<Rightarrow> bool" where
  "numbered cs \<longleftrightarrow> map tc_ID cs = map (\<lambda>i. ''call_native_'' @ itoa (int i)) [0..<length cs] \<and> list_all (\<lambda>c. tc_Name c \<noteq> []) cs"

lemma numbered_loop: "numbered calls \<Longrightarrow> numbered (snd (native_loop decode rest calls clean))"
proof (induction decode rest calls clean rule: native_loop.induct)
  case (1 decode rest calls clean)
  show ?case
  proof (cases "Index rest nativeToolSep")
    case (Some i)
    let ?after = "drop (i + length nativeToolSep) rest"
    show ?thesis
    proof (cases "firstTerminator ?after")
      case None
      then show ?thesis using Some 1 by (simp add: native_loop.simps [of decode rest] Let_def)
    next
      case t: (Some st)
      obtain stop len where st: "st = (stop, len)" by fastforce
      let ?calls = "case parseNativeCallBody decode (take stop ?after) (length calls) of Some tc \<Rightarrow> calls @ [tc] | None \<Rightarrow> calls"
      have "numbered ?calls"
        using "1.prems" by (auto simp: numbered_def parseNativeCallBody_def Let_def split: option.splits prod.splits if_splits)
      then show ?thesis
        using "1.IH" [OF Some refl refl t] Some t st by (simp add: native_loop.simps [of decode rest] Let_def)
    qed
  qed (use 1 in \<open>simp add: native_loop.simps [of decode rest]\<close>)
qed

text \<open>Every call recovered has a name, and the calls of a reply are told apart by their numbers.\<close>

lemma native_calls_numbered:
  "numbered (snd (parseNativeToolCalls decode content)) \<and> distinct (map tc_ID (snd (parseNativeToolCalls decode content)))"
proof -
  have "numbered (snd (native_loop decode content [] []))" by (rule numbered_loop) (simp add: numbered_def)
  then have n: "numbered (snd (parseNativeToolCalls decode content))"
    by (auto simp: parseNativeToolCalls_def numbered_def split: prod.splits)
  moreover have "distinct (map (\<lambda>i. ''call_native_'' @ itoa (int i)) [0..<k])" for k
    by (simp add: distinct_map inj_on_def itoa_inj)
  ultimately show ?thesis by (simp only: numbered_def)
qed

end
