(* ===== verification/AnswerRun.thy ===== *)
theory AnswerRun
  imports Engine Budget Mcp Native
begin

text \<open>
  The path of an answer's model and tool calls, as \<^verbatim>\<open>cmd/yaad-grove/answering.go\<close> wires it: the
  provider's client, counted for a replay (\<^verbatim>\<open>countCalls\<close>), with the recovery of native tool calls
  (\<^verbatim>\<open>model.NativeToolCalls\<close>) inside the spend meter (\<^verbatim>\<open>runtime.MeterChat\<close>), and the tools of
  \<^verbatim>\<open>tools.ForAgent\<close>. The loop between them is bonyan's and not under \<^verbatim>\<open>src/\<close>: it is a tree that asks
  the model, calls a tool or ends, and goes on from what it was answered. Its request type \<open>'q\<close> and
  the provider's state \<open>'x\<close> stay open.

  Several questions are answered at once, over one meter. \<open>fleet_step\<close> is that machine: each of its
  slots holds a loop, and a model call is two steps, the meter's \<^verbatim>\<open>Allow\<close> with the call's start, and
  its end with the meter's \<^verbatim>\<open>Record\<close>, between which the other slots step.
\<close>

section \<open>The model, wired\<close>

type_synonym model_response = "chat_reply chat_response"
type_synonym ('q, 'x) model_chat = "'q \<Rightarrow> 'x \<Rightarrow> model_response result \<times> 'x"

definition countCalls :: "('q, 'x) model_chat \<Rightarrow> ('q, 64 word \<times> 'x) model_chat" where
  "countCalls inner q w = (case w of (n, x) \<Rightarrow> (case inner q x of (r, x') \<Rightarrow> (r, n + 1, x')))"

definition uncounted :: "('q, 'x) model_chat \<Rightarrow> ('q, 64 word \<times> 'x) model_chat" where
  "uncounted inner q w = (case w of (n, x) \<Rightarrow> (case inner q x of (r, x') \<Rightarrow> (r, n, x')))"

definition native_response ::
    "(string \<Rightarrow> args option) \<Rightarrow> (args \<Rightarrow> string result) \<Rightarrow> model_response result \<Rightarrow> model_response result" where
  "native_response decode marshal r =
     (case r of
        Inl e \<Rightarrow> Inl e
      | Inr resp \<Rightarrow> (case native_Chat decode marshal (Inr (chat_response.cr_Content resp)) of
            Inl e \<Rightarrow> Inl e
          | Inr c \<Rightarrow> Inr (resp\<lparr>chat_response.cr_Content := c\<rparr>)))"

definition NativeToolCalls ::
    "(string \<Rightarrow> args option) \<Rightarrow> (args \<Rightarrow> string result) \<Rightarrow> ('q, 'x) model_chat \<Rightarrow> ('q, 'x) model_chat" where
  "NativeToolCalls decode marshal inner q x = (case inner q x of (r, x') \<Rightarrow> (native_response decode marshal r, x'))"

text \<open>
  What the calls act on: the meter and its store, the counter, and the rest. \<open>md_ios\<close> gives, for one
  call, the outcome of the write and the time of the meter's \<^verbatim>\<open>Allow\<close>, and those of its \<^verbatim>\<open>Record\<close>.
\<close>

record ('s, 'x) model_world =
  mw_meter :: meter
  mw_store :: 's
  mw_calls :: "64 word"
  mw_world :: 'x

record ('q, 's, 'x) model_env =
  md_chat :: "('q, 'x) model_chat"
  md_counted :: bool
  md_decode :: "string \<Rightarrow> args option"
  md_marshal :: "args \<Rightarrow> string result"
  md_save :: "(io, 's) saver"
  md_ios :: "'x \<Rightarrow> (io \<times> time) \<times> (io \<times> io \<times> time)"

definition wired_chat :: "('q, 's, 'x, 'z) model_env_scheme \<Rightarrow> ('q, 64 word \<times> 'x) model_chat" where
  "wired_chat md = NativeToolCalls (md_decode md) (md_marshal md)
     ((if md_counted md then countCalls else uncounted) (md_chat md))"

definition ask_model :: "('q, 's, 'x, 'z) model_env_scheme \<Rightarrow> 'q \<Rightarrow> ('s, 'x) model_world \<Rightarrow> model_response result \<times> ('s, 'x) model_world" where
  "ask_model md q w =
     (case md_ios md (mw_world w) of (a, rc) \<Rightarrow>
     (case metered_Chat (md_save md) (wired_chat md) a rc q (mw_meter w, mw_store w, mw_calls w, mw_world w) of
        (r, m, s, n, x) \<Rightarrow> (r, \<lparr>mw_meter = m, mw_store = s, mw_calls = n, mw_world = x\<rparr>)))"

section \<open>The loop\<close>

datatype 'q agent_run =
    AgentEnds run_outcome
  | AgentAsks 'q "model_response result \<Rightarrow> 'q agent_run"
  | AgentCalls string string "string result \<Rightarrow> 'q agent_run"

primrec agent_exec ::
    "'q agent_run \<Rightarrow> ('q \<Rightarrow> 'w \<Rightarrow> model_response result \<times> 'w) \<Rightarrow> (string \<Rightarrow> string \<Rightarrow> 'w \<Rightarrow> string result \<times> 'w) \<Rightarrow> 'w
     \<Rightarrow> run_outcome \<times> 'w" where
  "agent_exec (AgentEnds out) ask call w = (out, w)"
| "agent_exec (AgentAsks q k) ask call w = (case ask q w of (r, w') \<Rightarrow> agent_exec (k r) ask call w')"
| "agent_exec (AgentCalls name args k) ask call w = (case call name args w of (r, w') \<Rightarrow> agent_exec (k r) ask call w')"

text \<open>
  A tool call. \<open>tl_serve\<close> is what a session answers in a state of the world, \<open>tl_done\<close> what a call
  leaves of it; the other fields are those of \<open>at_Call\<close> and \<open>reg_tools\<close>.
\<close>

record 'x tool_outside =
  tl_env :: tool_env
  tl_marshal :: "jval \<Rightarrow> jval option"
  tl_unmarshal :: "string \<Rightarrow> args result"
  tl_show_error :: "error \<Rightarrow> string"
  tl_cancelled :: "'x \<Rightarrow> bool"
  tl_serve :: "'x \<Rightarrow> session \<Rightarrow> string \<Rightarrow> args \<Rightarrow> call_outcome"
  tl_done :: "string \<Rightarrow> string \<Rightarrow> 'x \<Rightarrow> 'x"

text \<open>\<^verbatim>\<open>ForAgent(WithEnumerate(registry, kbStore, ...), registry)\<close> over a structured store.\<close>

definition agent_toolset ::
    "'x tool_outside \<Rightarrow> (session \<Rightarrow> string \<Rightarrow> args \<Rightarrow> call_outcome) \<Rightarrow> structured \<Rightarrow> string list \<Rightarrow> string list \<Rightarrow> registry \<Rightarrow> agent_tools" where
  "agent_toolset tls serve st dims orderable reg =
     \<lparr>at_t = WithEnumerate (tl_env tls) (Some (reg_tools (tl_marshal tls) serve reg)) st dims orderable,
      at_servers = Some (reg_Server reg)\<rparr>"

definition call_tool ::
    "'x tool_outside \<Rightarrow> structured \<Rightarrow> string list \<Rightarrow> string list \<Rightarrow> registry \<Rightarrow> string \<Rightarrow> string \<Rightarrow> ('s, 'x) model_world
     \<Rightarrow> string result \<times> ('s, 'x) model_world" where
  "call_tool tls st dims orderable reg name arguments w =
     (let x = mw_world w in
      (at_Call (tl_unmarshal tls) (tl_show_error tls) (tl_cancelled tls x)
         (agent_toolset tls (tl_serve tls x) st dims orderable reg) name arguments,
       w\<lparr>mw_world := tl_done tls name arguments x\<rparr>))"

text \<open>Which tools there are depends neither on what a session answers nor on what the store holds.\<close>

definition advertised :: "'x tool_outside \<Rightarrow> string list \<Rightarrow> string list \<Rightarrow> registry \<Rightarrow> tool_def list" where
  "advertised tls dims orderable reg =
     at_Definitions (agent_toolset tls (\<lambda>_ _ _. CallFailed ErrNoStore)
       \<lparr>st_Enumerate = (\<lambda>_ _. Inl ErrNoStore), st_Ordered = (\<lambda>_ _ _. Inl ErrNoStore), st_Dimensions = Inl ErrNoStore\<rparr> dims orderable reg)"

lemma toolset_defs: "at_Definitions (agent_toolset tls serve st dims orderable reg) = advertised tls dims orderable reg"
  by (simp add: advertised_def at_Definitions_def agent_toolset_def WithEnumerate_def composite_Defs_def reg_tools_def Let_def)

lemma at_Call_unknown: "name \<notin> td_Name ` set (at_Definitions a) \<Longrightarrow>
    at_Call unmarshal show_error cancelled a name arguments = Inl (ErrMsg ''unknown tool'')"
  by (auto simp: at_Call_def at_Definitions_def split: option.splits)

section \<open>The fleet\<close>

text \<open>
  A slot's loop is thinking, or in a model call: \<open>InCall k\<close> goes on with \<open>k\<close> when the call ends. An event
  names its slot. \<open>Replied\<close> carries the tokens the provider's reply reports, \<open>Called\<close> the request;
  \<open>Lost\<close> is a reply whose native tool calls do not marshal, which the meter never sees. A slot whose
  loop has ended takes the next question.
\<close>

datatype 'q slot = Thinking "'q agent_run" | InCall "model_response result \<Rightarrow> 'q agent_run"

record ('q, 's) fleet =
  fl_meter :: meter
  fl_store :: 's
  fl_slots :: "'q slot list"

datatype 'q fleet_event =
    Denied nat time
  | Called nat time 'q
  | Replied nat time "64 word"
  | CallErred nat
  | Lost nat "64 word"
  | ToolCalled nat string string "string result"
  | Began nat

definition put_slot :: "nat \<Rightarrow> 'q agent_run \<Rightarrow> ('q, 's) fleet \<Rightarrow> ('q, 's) fleet" where
  "put_slot i run st = st\<lparr>fl_slots := (fl_slots st)[i := Thinking run]\<rparr>"

inductive fleet_step ::
    "(io, 's) saver \<Rightarrow> (model_response result \<Rightarrow> model_response result) \<Rightarrow> ('q, 's) fleet \<Rightarrow> 'q fleet_event \<Rightarrow> ('q, 's) fleet \<Rightarrow> bool"
  for save native where
  refuse: "i < length (fl_slots st) \<Longrightarrow> fl_slots st ! i = Thinking (AgentAsks q k) \<Longrightarrow>
     meter_Allow save io t (fl_meter st) (fl_store st) = (False, m, s) \<Longrightarrow>
     fleet_step save native st (Denied i t) (put_slot i (k (Inl ErrOverBudget)) (st\<lparr>fl_meter := m, fl_store := s\<rparr>))"
| call: "i < length (fl_slots st) \<Longrightarrow> fl_slots st ! i = Thinking (AgentAsks q k) \<Longrightarrow>
     meter_Allow save io t (fl_meter st) (fl_store st) = (True, m, s) \<Longrightarrow>
     fleet_step save native st (Called i t q) (st\<lparr>fl_meter := m, fl_store := s, fl_slots := (fl_slots st)[i := InCall k]\<rparr>)"
| answer: "i < length (fl_slots st) \<Longrightarrow> fl_slots st ! i = InCall k \<Longrightarrow> native (Inr resp) = Inr resp' \<Longrightarrow>
     meter_Record save ir io t (used_tokens resp') (fl_meter st) (fl_store st) = (e, m, s) \<Longrightarrow>
     fleet_step save native st (Replied i t (used_tokens resp)) (put_slot i (k (Inr resp')) (st\<lparr>fl_meter := m, fl_store := s\<rparr>))"
| fail: "i < length (fl_slots st) \<Longrightarrow> fl_slots st ! i = InCall k \<Longrightarrow> native (Inl e) = Inl e' \<Longrightarrow>
     fleet_step save native st (CallErred i) (put_slot i (k (Inl e')) st)"
| lose: "i < length (fl_slots st) \<Longrightarrow> fl_slots st ! i = InCall k \<Longrightarrow> native (Inr resp) = Inl e' \<Longrightarrow>
     fleet_step save native st (Lost i (used_tokens resp)) (put_slot i (k (Inl e')) st)"
| tool: "i < length (fl_slots st) \<Longrightarrow> fl_slots st ! i = Thinking (AgentCalls name args k) \<Longrightarrow>
     fleet_step save native st (ToolCalled i name args r) (put_slot i (k r) st)"
| start: "i < length (fl_slots st) \<Longrightarrow> fl_slots st ! i = Thinking (AgentEnds out) \<Longrightarrow>
     fleet_step save native st (Began i) (put_slot i run st)"

inductive fleet_run ::
    "(io, 's) saver \<Rightarrow> (model_response result \<Rightarrow> model_response result) \<Rightarrow> ('q, 's) fleet \<Rightarrow> 'q fleet_event list \<Rightarrow> ('q, 's) fleet \<Rightarrow> bool"
  for save native where
  stay [simp, intro]: "fleet_run save native st [] st"
| step: "fleet_step save native st ev st' \<Longrightarrow> fleet_run save native st' tr st'' \<Longrightarrow> fleet_run save native st (ev # tr) st''"

inductive_cases fleet_stepE: "fleet_step save native st ev st'"
inductive_simps fleet_run_Nil [simp]: "fleet_run save native st [] st'"
inductive_simps fleet_run_Cons: "fleet_run save native st (ev # tr) st'"

lemma fleet_run_append: "fleet_run save native st (tr @ tr') st'' \<longleftrightarrow>
    (\<exists>st'. fleet_run save native st tr st' \<and> fleet_run save native st' tr' st'')"
  by (induction tr arbitrary: st) (auto simp: fleet_run_Cons)

end
