(* ===== verification/Config.thy ===== *)
theory Config
  imports AnswerRun Vault Planner StoreMem LangPacks Handler
begin

text \<open>
  How \<^verbatim>\<open>cmd/yaad-grove/main.go\<close> and \<^verbatim>\<open>cmd/yaad-grove/answering.go\<close> turn the command's flags into the
  parts that answer: the retriever and its store, the persona, the prompt template, the topic scope
  and the engine. What the flags hold is the record \<open>serve_cmd\<close>; what the environment gives (files,
  variables, the embedding endpoint, the persistent store) is a record of functions, \<open>setup_env\<close>. Log
  lines and metrics are left out.
\<close>

section \<open>Integers (strconv)\<close>

text \<open>\<^verbatim>\<open>strconv.ParseInt(s, 10, 64)\<close>, which \<^verbatim>\<open>strconv.Atoi\<close> is on a 64-bit platform.\<close>

definition is_digit :: "char \<Rightarrow> bool" where
  "is_digit c \<longleftrightarrow> 48 \<le> byte c \<and> byte c \<le> (57 :: nat)"

definition digits_of :: "string \<Rightarrow> int option" where
  "digits_of s = (if s \<noteq> [] \<and> list_all is_digit s
     then Some (int (foldl (\<lambda>n c. n * 10 + digit_value c) 0 s)) else None)"

definition in_int64 :: "int \<Rightarrow> bool" where
  "in_int64 i \<longleftrightarrow> - (2 ^ 63) \<le> i \<and> i < 2 ^ 63"

definition ParseInt :: "string \<Rightarrow> int option" where
  "ParseInt s =
     (case (case s of
          [] \<Rightarrow> None
        | c # t \<Rightarrow> if c = CHR ''-'' then map_option uminus (digits_of t)
            else if c = CHR ''+'' then digits_of t else digits_of s) of
        None \<Rightarrow> None
      | Some i \<Rightarrow> if in_int64 i then Some i else None)"

section \<open>The flags\<close>

text \<open>
  Every flag, in the order of the struct. The flags that only name something outside (paths, endpoints,
  the model, the store's floor \<^verbatim>\<open>SimilarityThreshold\<close>) are read by no definition below: what is there is a
  field of the environment. An unset \<^verbatim>\<open>Temperature\<close> is \<open>None\<close>.
\<close>

record serve_cmd =
  sv_VaultDir :: string
  sv_Scope :: string
  sv_PersonaFile :: string
  sv_PromptTemplate :: string
  sv_Language :: string
  sv_LangpacksDir :: string
  sv_ModelBaseURL :: string
  sv_ModelName :: string
  sv_MaxOutputTokens :: int
  sv_Temperature :: "f64 option"
  sv_EmbeddingBaseURL :: string
  sv_EmbeddingModel :: string
  sv_SimilarityThreshold :: f64
  sv_RetrievalMode :: string
  sv_RetrievalFusionDepth :: int
  sv_RetrievalMaxChunks :: int
  sv_StoreDimensions :: "string list"
  sv_StoreOrderable :: "string list"
  sv_RetrievalStore :: string
  sv_StorePath :: string
  sv_DefaultTier :: tier
  sv_ACLDB :: string
  sv_MCPServers :: "string list"
  sv_MCPAllow :: "string list"
  sv_MCPDeny :: "string list"
  sv_SpendCeiling :: "64 word"
  sv_SpendPeriod :: duration
  sv_BudgetDB :: string
  sv_TelegramGroups :: "string list"
  sv_TelegramAllowedTopics :: "string list"
  sv_CallbackDB :: string
  sv_CallbackTTL :: duration
  sv_CallbackSweepInterval :: duration
  sv_QuarantineLog :: string
  sv_TranscriptLog :: string
  sv_Admins :: "string list"
  sv_NudgeMode :: string
  sv_NudgeText :: string
  sv_NudgeEmoji :: string
  sv_NudgeCooldown :: duration
  sv_ConsentAckEmoji :: string
  sv_MemoryTurns :: int
  sv_MemoryInject :: int
  sv_ContextSize :: int
  sv_FollowupWindow :: duration
  sv_LongMemoryURL :: string
  sv_LongMemoryNamespace :: string
  sv_LongMemoryWorkspace :: string
  sv_LongMemoryGroupNamespaces :: "string list"
  sv_LongMemoryRetention :: duration
  sv_LongMemoryWindow :: duration
  sv_LongMemoryDerive :: bool
  sv_LongMemoryInstructions :: string
  sv_LongMemoryRecord :: string
  sv_LongMemoryWithoutErase :: bool

section \<open>Files (main.go)\<close>

datatype os_read = OsNotExist | OsFailed error | OsRead string

definition loadPersona :: "(string \<Rightarrow> os_read) \<Rightarrow> string \<Rightarrow> string result" where
  "loadPersona rd configuredPath =
     (let explicit = configuredPath \<noteq> []; path = (if explicit then configuredPath else ''PERSONA.md'') in
      case rd path of
        OsNotExist \<Rightarrow> if \<not> explicit then Inr [] else Inl (Wrap ''persona file'' (ErrMsg ''file does not exist''))
      | OsFailed e \<Rightarrow> Inl (Wrap ''persona file'' e)
      | OsRead data \<Rightarrow> Inr data)"

text \<open>\<open>prs\<close> is \<^verbatim>\<open>core.ParsePromptTemplate\<close>; a nil template is \<open>None\<close>.\<close>

definition loadPromptTemplate :: "(string \<Rightarrow> os_read) \<Rightarrow> (string \<Rightarrow> 't result) \<Rightarrow> string \<Rightarrow> 't option result" where
  "loadPromptTemplate rd prs path =
     (if path = [] then Inr None
      else (case rd path of
          OsNotExist \<Rightarrow> Inl (Wrap ''prompt template'' (ErrMsg ''file does not exist''))
        | OsFailed e \<Rightarrow> Inl (Wrap ''prompt template'' e)
        | OsRead data \<Rightarrow> (case prs data of
              Inl e \<Rightarrow> Inl (Wrap ''prompt template'' e)
            | Inr t \<Rightarrow> Inr (Some t))))"

section \<open>The store and the retriever (main.go)\<close>

definition storeBackendMemory :: string where "storeBackendMemory = ''memory''"
definition storeBackendLadybug :: string where "storeBackendLadybug = ''ladybug''"

definition storeName :: "string \<Rightarrow> string" where
  "storeName s = (if TrimSpace s = [] then storeBackendMemory else s)"

type_synonym 'v embedder = "string list \<Rightarrow> 'v list result"

text \<open>
  A store: the memory backend's index, or the persistent backend, which is a library's. \<open>se_embed\<close>
  takes the endpoint, the key and the model; \<open>se_vault\<close> is what reading the vault's directory gives,
  \<open>se_loader\<close> what its files are read with; the last four are the memory backend's Unicode tables,
  similarity, floor and float rounding.
\<close>

datatype ('v, 'l) kb = KbMemory "'v embedder option" "'v mem_index" | KbLadybug 'l

record ('v, 'l) setup_env =
  se_getenv :: "string \<Rightarrow> string"
  se_embed :: "string \<Rightarrow> string \<Rightarrow> string \<Rightarrow> 'v embedder"
  se_loader :: loader_env
  se_vault :: "vnode list result"
  se_key :: "string \<Rightarrow> string"
  se_vlen :: "'v \<Rightarrow> nat"
  se_open_ladybug :: "string \<Rightarrow> 'v embedder option \<Rightarrow> 'l result"
  se_index_ladybug :: "doc list \<Rightarrow> 'l \<Rightarrow> error option \<times> 'l"
  se_stats_ladybug :: "'l \<Rightarrow> (nat \<times> nat) result"
  se_keyword_ladybug :: "'l \<Rightarrow> string \<Rightarrow> int \<Rightarrow> chunk list result"
  se_semantic_ladybug :: "'l \<Rightarrow> 'v \<Rightarrow> int \<Rightarrow> chunk list result"
  se_structured_ladybug :: "'l \<Rightarrow> structured"
  se_uc :: tables
  se_sim :: "'v \<Rightarrow> 'v \<Rightarrow> real"
  se_threshold :: real
  se_rnd :: "rat \<Rightarrow> rat"

definition buildStore :: "('v, 'l, 'z) setup_env_scheme \<Rightarrow> serve_cmd \<Rightarrow> 'v embedder option \<Rightarrow> ('v, 'l) kb result" where
  "buildStore env c emb =
     (if storeName (sv_RetrievalStore c) = storeBackendMemory then Inr (KbMemory emb empty_index)
      else if storeName (sv_RetrievalStore c) = storeBackendLadybug then
        (if TrimSpace (sv_StorePath c) = [] then Inl (ErrMsg ''serve: --retrieval-store ladybug requires --store-path'')
         else (case se_open_ladybug env (sv_StorePath c) emb of
             Inl e \<Rightarrow> Inl (Wrap ''serve: open ladybug store'' e)
           | Inr s \<Rightarrow> Inr (KbLadybug s)))
      else Inl (ErrMsg ''serve: unknown --retrieval-store''))"

definition kb_Index :: "('v, 'l, 'z) setup_env_scheme \<Rightarrow> doc list \<Rightarrow> ('v, 'l) kb \<Rightarrow> error option \<times> ('v, 'l) kb" where
  "kb_Index env docs k =
     (case k of
        KbMemory emb ix \<Rightarrow> (case store_Index (se_key env) emb docs ix of (e, ix') \<Rightarrow> (e, KbMemory emb ix'))
      | KbLadybug s \<Rightarrow> (case se_index_ladybug env docs s of (e, s') \<Rightarrow> (e, KbLadybug s')))"

definition kb_stats :: "('v, 'l, 'z) setup_env_scheme \<Rightarrow> ('v, 'l) kb \<Rightarrow> (nat \<times> nat) result" where
  "kb_stats env k = (case k of KbMemory emb ix \<Rightarrow> Inr (SemanticStats (se_vlen env) ix) | KbLadybug s \<Rightarrow> se_stats_ladybug env s)"

definition read_docs :: "('v, 'l, 'z) setup_env_scheme \<Rightarrow> serve_cmd \<Rightarrow> doc list result" where
  "read_docs env c = VaultDocs ((se_loader env)\<lparr>le_dimensions := sv_StoreDimensions c, le_orderable := sv_StoreOrderable c\<rparr>) (se_vault env)"

definition embeddingsSet :: "serve_cmd \<Rightarrow> bool" where
  "embeddingsSet c \<longleftrightarrow> TrimSpace (sv_EmbeddingBaseURL c) \<noteq> [] \<or> TrimSpace (sv_EmbeddingModel c) \<noteq> []"

definition retrieval_mode :: "serve_cmd \<Rightarrow> string" where
  "retrieval_mode c =
     (let mode = TrimSpace (sv_RetrievalMode c)
      in if mode = [] then (if embeddingsSet c then ModeHybrid else ModeKeyword) else mode)"

definition check_retrieval :: "serve_cmd \<Rightarrow> error option" where
  "check_retrieval c =
     (if embeddingsSet c \<and> (TrimSpace (sv_EmbeddingBaseURL c) = [] \<or> TrimSpace (sv_EmbeddingModel c) = [])
      then Some (ErrMsg ''serve: --embedding-base-url and --embedding-model must be set together'')
      else if retrieval_mode c \<noteq> ModeKeyword \<and> retrieval_mode c \<noteq> ModeSemantic \<and> retrieval_mode c \<noteq> ModeHybrid
      then Some (ErrMsg ''serve: unknown --retrieval-mode'')
      else if sv_RetrievalFusionDepth c < 0 then Some (ErrMsg ''serve: --retrieval-fusion-depth is negative'')
      else if sv_RetrievalMaxChunks c < 0 then Some (ErrMsg ''serve: --retrieval-max-chunks is negative'')
      else if retrieval_mode c \<noteq> ModeKeyword \<and> \<not> embeddingsSet c
      then Some (ErrMsg ''serve: --retrieval-mode requires --embedding-base-url and --embedding-model'')
      else None)"

definition build_embedder :: "('v, 'l, 'z) setup_env_scheme \<Rightarrow> serve_cmd \<Rightarrow> 'v embedder option" where
  "build_embedder env c =
     (if embeddingsSet c
      then let k = se_getenv env ''YAADGROVE_EMBEDDING_API_KEY'';
               key = (if k = [] then se_getenv env ''YAADGROVE_MODEL_API_KEY'' else k)
           in Some (se_embed env (TrimSpace (sv_EmbeddingBaseURL c)) key (TrimSpace (sv_EmbeddingModel c)))
      else None)"

definition defaultRetrievalMaxChunks :: int where
  "defaultRetrievalMaxChunks = 10"

definition build_planner :: "serve_cmd \<Rightarrow> planner" where
  "build_planner c =
     NewPlanner (retrieval_mode c)
       (if sv_RetrievalMaxChunks c = 0 then defaultRetrievalMaxChunks else sv_RetrievalMaxChunks c)
       (if sv_RetrievalFusionDepth c > 0 then [WithFusionDepth (sv_RetrievalFusionDepth c)] else [])"

text \<open>
  The retriever is its planner, its embedder and the indexed store; \<open>rv_warn\<close> is whether the code
  warns that some chunks have no vector.
\<close>

record ('v, 'l) retriever =
  rv_planner :: planner
  rv_embedder :: "'v embedder option"
  rv_kb :: "('v, 'l) kb"
  rv_docs :: "doc list"
  rv_warn :: bool

definition buildRetriever :: "('v, 'l, 'z) setup_env_scheme \<Rightarrow> serve_cmd \<Rightarrow> ('v, 'l) retriever result" where
  "buildRetriever env c =
     (case check_retrieval c of Some e \<Rightarrow> Inl e
      | None \<Rightarrow>
     (case read_docs env c of Inl e \<Rightarrow> Inl (Wrap ''serve: read vault'' e)
      | Inr docs \<Rightarrow>
     (case buildStore env c (build_embedder env c) of Inl e \<Rightarrow> Inl e
      | Inr store0 \<Rightarrow>
     (case kb_Index env docs store0 of
        (Some e, _) \<Rightarrow> Inl (Wrap ''serve: build retrieval index'' e)
      | (None, store) \<Rightarrow>
     (case (if embeddingsSet c then map_sum id (\<lambda>(d, n). int n) (kb_stats env store) else Inr (- 1)) of
        Inl e \<Rightarrow> Inl (Wrap ''serve: read the semantic index'' e)
      | Inr vectors \<Rightarrow>
          Inr \<lparr>rv_planner = build_planner c, rv_embedder = build_embedder env c, rv_kb = store, rv_docs = docs,
               rv_warn = (0 \<le> vectors \<and> vectors < int (length (concat (map d_Chunks docs))))\<rparr>)))))"

text \<open>A reindex (on SIGHUP) of the running store, and whether it completed.\<close>

definition reindex :: "('v, 'l, 'z) setup_env_scheme \<Rightarrow> serve_cmd \<Rightarrow> ('v, 'l) kb \<Rightarrow> bool \<times> ('v, 'l) kb" where
  "reindex env c store =
     (case read_docs env c of
        Inl e \<Rightarrow> (False, store)
      | Inr docs \<Rightarrow> (case kb_Index env docs store of (Some e, store') \<Rightarrow> (False, store') | (None, store') \<Rightarrow> (True, store')))"

text \<open>
  The query step over the store as it is when the query comes. Without an embedder a semantic leg
  would dereference nil; \<open>buildRetriever_ok\<close> shows that no retriever it builds has one then.
\<close>

definition kb_keyword :: "('v, 'l, 'z) setup_env_scheme \<Rightarrow> ('v, 'l) kb \<Rightarrow> string \<Rightarrow> int \<Rightarrow> chunk list result" where
  "kb_keyword env k = (case k of KbMemory emb ix \<Rightarrow> Keyword (se_uc env) ix | KbLadybug s \<Rightarrow> se_keyword_ladybug env s)"

definition kb_semantic :: "('v, 'l, 'z) setup_env_scheme \<Rightarrow> ('v, 'l) kb \<Rightarrow> 'v \<Rightarrow> int \<Rightarrow> chunk list result" where
  "kb_semantic env k =
     (case k of KbMemory emb ix \<Rightarrow> Semantic (se_sim env) (se_threshold env) (\<lambda>v. se_vlen env v = 0) ix
      | KbLadybug s \<Rightarrow> se_semantic_ladybug env s)"

definition kb_structured :: "('v, 'l, 'z) setup_env_scheme \<Rightarrow> ('v, 'l) kb \<Rightarrow> structured" where
  "kb_structured env k = (case k of KbMemory emb ix \<Rightarrow> mem_structured (se_key env) ix | KbLadybug s \<Rightarrow> se_structured_ladybug env s)"

definition call_embedder :: "'v embedder option \<Rightarrow> 'v embedder" where
  "call_embedder emb = (case emb of Some f \<Rightarrow> f | None \<Rightarrow> (\<lambda>_. Inl (ErrMsg ''nil embedder'')))"

definition kb_Retrieve ::
    "('v, 'l, 'z) setup_env_scheme \<Rightarrow> planner \<Rightarrow> 'v embedder option \<Rightarrow> ('v, 'l) kb \<Rightarrow> string \<Rightarrow> chunk list result" where
  "kb_Retrieve env p emb k q = Retrieve (se_rnd env) (kb_keyword env k) (kb_semantic env k) (call_embedder emb) p q"

section \<open>Topics (main.go)\<close>

fun topic_ids :: "string list \<Rightarrow> int list result" where
  "topic_ids [] = Inr []"
| "topic_ids (t # ts) =
     (if TrimSpace t = [] then topic_ids ts
      else (case ParseInt (TrimSpace t) of
          None \<Rightarrow> Inl (ErrMsg ''serve: --telegram-allowed-topics has a non-numeric topic id'')
        | Some i \<Rightarrow> (case topic_ids ts of Inl e \<Rightarrow> Inl e | Inr is \<Rightarrow> Inr (i # is))))"

definition topic_spec :: "string \<Rightarrow> (int \<times> int list) result" where
  "topic_spec spec =
     (case Cut (CHR ''='') spec of
        None \<Rightarrow> Inl (ErrMsg ''serve: invalid --telegram-allowed-topics'')
      | Some (idStr, topicsStr) \<Rightarrow>
          if TrimSpace idStr = [] then Inl (ErrMsg ''serve: invalid --telegram-allowed-topics'')
          else (case ParseInt (TrimSpace idStr) of
              None \<Rightarrow> Inl (ErrMsg ''serve: --telegram-allowed-topics has a non-numeric chat id'')
            | Some chatID \<Rightarrow> (case topic_ids (SplitOn (CHR '','') topicsStr) of
                  Inl e \<Rightarrow> Inl e
                | Inr topics \<Rightarrow>
                    if topics = [] then Inl (ErrMsg ''serve: --telegram-allowed-topics lists no topics'')
                    else Inr (chatID, topics))))"

type_synonym topic_map = "int \<rightharpoonup> int list"

fun add_topics :: "string list \<Rightarrow> topic_map \<Rightarrow> topic_map result" where
  "add_topics [] out = Inr out"
| "add_topics (spec # specs) out =
     (case topic_spec spec of
        Inl e \<Rightarrow> Inl e
      | Inr (chatID, topics) \<Rightarrow>
          add_topics specs (out(chatID \<mapsto> (case out chatID of None \<Rightarrow> [] | Some ts \<Rightarrow> ts) @ topics)))"

definition parseTopicAllowList :: "string list \<Rightarrow> topic_map result" where
  "parseTopicAllowList specs = add_topics specs Map.empty"

section \<open>Reactions, nudges and the log level (main.go)\<close>

definition DefaultConsentAckEmoji :: string where
  "DefaultConsentAckEmoji = map char_of [240, 159, 145, 141 :: nat]"

definition consentAckEmoji :: "string \<Rightarrow> bool \<Rightarrow> string" where
  "consentAckEmoji configured canReact =
     (if \<not> canReact then [] else if configured = [] then DefaultConsentAckEmoji else configured)"

definition downgrade_nudge :: "bool \<Rightarrow> nudge \<Rightarrow> nudge" where
  "downgrade_nudge canReact n = (if nd_Mode n = NudgeReaction \<and> \<not> canReact then n\<lparr>nd_Mode := NudgeMessage\<rparr> else n)"

section \<open>The engine (answering.go)\<close>

text \<open>
  An unset temperature is allowed; NaN is not, since \<^verbatim>\<open>*t >= 0\<close> is false of it.
\<close>

definition temperature_ok :: "f64 option \<Rightarrow> bool" where
  "temperature_ok t \<longleftrightarrow> (case t of None \<Rightarrow> True | Some x \<Rightarrow> go_less (Fin 0) x \<or> go_eq x (Fin 0))"

definition engine_New ::
    "(run_request \<Rightarrow> 'e \<Rightarrow> run_outcome \<times> 'e) \<Rightarrow> string \<Rightarrow> (string \<Rightarrow> 'e \<Rightarrow> chunk list result \<times> 'e) \<Rightarrow> nat \<Rightarrow> string
     \<Rightarrow> (untrusted list \<Rightarrow> string) \<Rightarrow> (time \<Rightarrow> string) \<Rightarrow> ('st \<Rightarrow> string \<Rightarrow> string \<Rightarrow> provenance \<Rightarrow> string \<Rightarrow> 'm \<Rightarrow> error option \<times> 'm)
     \<Rightarrow> (('e, 'st, 'm) engine \<Rightarrow> ('e, 'st, 'm) engine) list \<Rightarrow> ('e, 'st, 'm) engine" where
  "engine_New run modelName retr ntools scope render clock app opts =
     foldl (\<lambda>e opt. opt e)
       \<lparr>e_retriever = retr, e_run = run, e_render = render, e_clock = clock, e_modelName = modelName, e_tools = Some ntools,
        e_scope = scope, e_persona = [], e_prompt = None, e_language = [], e_contextTokens = 0,
        e_maxOutputTokens = DefaultMaxOutputTokens, e_temperature = None, e_append = app\<rparr> opts"

definition WithPersona :: "string \<Rightarrow> ('e, 'st, 'm) engine \<Rightarrow> ('e, 'st, 'm) engine" where
  "WithPersona persona e = e\<lparr>e_persona := persona\<rparr>"

definition WithPromptTemplate :: "(prompt_data \<Rightarrow> string option) option \<Rightarrow> ('e, 'st, 'm) engine \<Rightarrow> ('e, 'st, 'm) engine" where
  "WithPromptTemplate t e = e\<lparr>e_prompt := t\<rparr>"

definition WithLanguage :: "string \<Rightarrow> ('e, 'st, 'm) engine \<Rightarrow> ('e, 'st, 'm) engine" where
  "WithLanguage prompt e = e\<lparr>e_language := prompt\<rparr>"

definition WithContextTokens :: "int \<Rightarrow> ('e, 'st, 'm) engine \<Rightarrow> ('e, 'st, 'm) engine" where
  "WithContextTokens n e = e\<lparr>e_contextTokens := n\<rparr>"

definition WithTemperature :: "f64 option \<Rightarrow> ('e, 'st, 'm) engine \<Rightarrow> ('e, 'st, 'm) engine" where
  "WithTemperature t e = e\<lparr>e_temperature := t\<rparr>"

text \<open>
  What the libraries and the files give to an answering engine: the model client or its error, the JSON
  codec of native tool calls, the meter's clock and writes, the agent loop a request starts, what the
  tools' sessions answer, the prompt template's parser, the language packs, the rendering of the
  material, the clock and the memory store's append.
\<close>

record ('x, 'st, 'm, 'q) outside =
  ou_chat :: "('q, 'x) model_chat result"
  ou_decode :: "string \<Rightarrow> args option"
  ou_marshal :: "args \<Rightarrow> string result"
  ou_ios :: "'x \<Rightarrow> (io \<times> time) \<times> (io \<times> io \<times> time)"
  ou_agent :: "run_request \<Rightarrow> 'q agent_run"
  ou_tools :: "'x tool_outside"
  ou_read :: "string \<Rightarrow> os_read"
  ou_template :: "string \<Rightarrow> (prompt_data \<Rightarrow> string option) result"
  ou_packs :: "string \<Rightarrow> layer"
  ou_external :: "layer option"
  ou_render :: "untrusted list \<Rightarrow> string"
  ou_clock :: "time \<Rightarrow> string"
  ou_append :: "'st \<Rightarrow> string \<Rightarrow> string \<Rightarrow> provenance \<Rightarrow> string \<Rightarrow> 'm \<Rightarrow> error option \<times> 'm"

text \<open>
  The engine is one of the tool registry, which is connected after this. Its environment is the indexed
  store, which a reindex changes, and what the model and the tools act on.
\<close>

record ('v, 'l, 'x, 'st, 'm) answering =
  an_engine :: "Mcp.registry \<Rightarrow> (('v, 'l) kb \<times> 'x, 'st, 'm) engine"
  an_kbStore :: "('v, 'l) kb"
  an_servers :: "server_config list"
  an_persona :: string
  an_pack :: pack

definition wired_model ::
    "('x, 'st, 'm, 'q) outside \<Rightarrow> (io, 's) saver \<Rightarrow> bool \<Rightarrow> ('q, 'x) model_chat \<Rightarrow> ('q, 's, 'x) model_env" where
  "wired_model ou save counted chat =
     \<lparr>md_chat = chat, md_counted = counted, md_decode = ou_decode ou, md_marshal = ou_marshal ou, md_save = save, md_ios = ou_ios ou\<rparr>"

definition wired_tools ::
    "('v, 'l, 'z) setup_env_scheme \<Rightarrow> ('x, 'st, 'm, 'q) outside \<Rightarrow> serve_cmd \<Rightarrow> Mcp.registry \<Rightarrow> ('v, 'l) kb
     \<Rightarrow> string \<Rightarrow> string \<Rightarrow> ('s, 'x) model_world \<Rightarrow> string result \<times> ('s, 'x) model_world" where
  "wired_tools env ou c reg kb = call_tool (ou_tools ou) (kb_structured env kb) (sv_StoreDimensions c) (sv_StoreOrderable c) reg"

definition wired_run ::
    "('v, 'l, 'z) setup_env_scheme \<Rightarrow> ('x, 'st, 'm, 'q) outside \<Rightarrow> (io, 's) saver \<Rightarrow> bool \<Rightarrow> ('q, 'x) model_chat \<Rightarrow> serve_cmd \<Rightarrow> Mcp.registry
     \<Rightarrow> run_request \<Rightarrow> ('v, 'l) kb \<times> ('s, 'x) model_world \<Rightarrow> run_outcome \<times> ('v, 'l) kb \<times> ('s, 'x) model_world" where
  "wired_run env ou save counted chat c reg req kw =
     (case kw of (kb, w) \<Rightarrow>
     (case agent_exec (ou_agent ou req) (ask_model (wired_model ou save counted chat)) (wired_tools env ou c reg kb) w of
        (out, w') \<Rightarrow> (out, kb, w')))"

text \<open>\<open>save\<close> is the meter's store, \<open>counted\<close> whether a counter of model calls was given.\<close>

definition buildAnswering ::
    "('v, 'l, 'z) setup_env_scheme \<Rightarrow> ('x, 'st, 'm, 'q) outside \<Rightarrow> (io, 's) saver \<Rightarrow> bool \<Rightarrow> serve_cmd
     \<Rightarrow> ('v, 'l, ('s, 'x) model_world, 'st, 'm) answering result" where
  "buildAnswering env ou save counted c =
     (if \<not> temperature_ok (sv_Temperature c) then Inl (ErrMsg ''--temperature must not be negative'')
      else (case ou_chat ou of Inl e \<Rightarrow> Inl e
      | Inr chat \<Rightarrow>
     (case buildRetriever env c of Inl e \<Rightarrow> Inl e
      | Inr rv \<Rightarrow>
     (case parseMCPServers (sv_MCPServers c) of Inl e \<Rightarrow> Inl e
      | Inr servers0 \<Rightarrow>
     (case applyToolLists servers0 (sv_MCPAllow c) (sv_MCPDeny c) of Inl e \<Rightarrow> Inl e
      | Inr servers \<Rightarrow>
     (case loadPersona (ou_read ou) (sv_PersonaFile c) of Inl e \<Rightarrow> Inl e
      | Inr persona \<Rightarrow>
     (case loadPromptTemplate (ou_read ou) (ou_template ou) (sv_PromptTemplate c) of Inl e \<Rightarrow> Inl e
      | Inr tmpl \<Rightarrow>
     (case Load (ou_packs ou) (ou_external ou) (sv_Language c) of Inl e \<Rightarrow> Inl e
      | Inr pack \<Rightarrow>
          Inr \<lparr>an_engine = (\<lambda>reg. engine_New (wired_run env ou save counted chat c reg) (sv_ModelName c)
                 (\<lambda>q (kb, x). (kb_Retrieve env (rv_planner rv) (rv_embedder rv) kb q, kb, x))
                 (length (advertised (ou_tools ou) (sv_StoreDimensions c) (sv_StoreOrderable c) reg)) (sv_Scope c)
                 (ou_render ou) (ou_clock ou) (ou_append ou)
                 [WithPersona persona, WithPromptTemplate tmpl, WithLanguage (pk_Prompt pack),
                  WithContextTokens (sv_ContextSize c), WithMaxOutputTokens (sv_MaxOutputTokens c),
                  WithTemperature (sv_Temperature c)]),
               an_kbStore = rv_kb rv, an_servers = servers, an_persona = persona, an_pack = pack\<rparr>))))))))"

end
