(* ===== verification/Config_Props.thy ===== *)
theory Config_Props
  imports Config Vault_Props
begin

text \<open>
  What a configuration that starts guarantees: integers and topic lists are read back as they were
  written, the retriever never needs an embedder it does not have, and what the engine is given to
  answer from is always of one vault, the last one that was indexed.
\<close>

section \<open>Integers and topics\<close>

lemma itoa_ascii: "list_all (\<lambda>c. byte c < (128 :: nat) \<and> \<not> is_space (byte c) \<and> c \<noteq> CHR '','' \<and> c \<noteq> CHR ''='') (itoa i)"
proof -
  have "byte c < (128 :: nat) \<and> \<not> is_space (byte c) \<and> c \<noteq> CHR '','' \<and> c \<noteq> CHR ''=''" if "c \<in> set (digits n)" for c n
    using digits_chars [OF that] by (auto simp: is_space_def)
  moreover have "byte (CHR ''-'') < (128 :: nat) \<and> \<not> is_space (byte (CHR ''-'')) \<and> CHR ''-'' \<noteq> CHR '','' \<and> CHR ''-'' \<noteq> CHR ''=''"
    by (simp add: is_space_def)
  ultimately show ?thesis by (auto simp: itoa_def list_all_iff)
qed

lemma dropWhile_none: "list_all (\<lambda>c. \<not> P c) s \<Longrightarrow> dropWhile P s = s"
  by (cases s) auto

lemma TrimSpace_none:
  assumes "list_all (\<lambda>c. byte c < (128 :: nat) \<and> \<not> is_space (byte c)) s"
  shows "TrimSpace s = s"
proof -
  have "list_all (\<lambda>c. byte c < (128 :: nat)) s" and n: "list_all (\<lambda>c. \<not> is_space (byte c)) s"
    using assms by (auto simp: list_all_iff)
  moreover from n have "list_all (\<lambda>c. \<not> is_space (byte c)) (rev s)" by (simp add: list_all_iff)
  ultimately show ?thesis using dropWhile_none by (metis TrimSpace_ascii rev_rev_ident)
qed

lemma TrimSpace_itoa [simp]: "TrimSpace (itoa i) = itoa i"
  using itoa_ascii [of i] by (intro TrimSpace_none) (auto simp: list_all_iff)

lemma itoa_chars: "CHR '','' \<notin> set (itoa i)" "CHR ''='' \<notin> set (itoa i)"
  using itoa_ascii [of i] by (auto simp: list_all_iff)

lemma itoa_not_Nil [simp]: "itoa i \<noteq> []"
  by (simp add: itoa_def)

lemma digits_of_digits [simp]: "digits_of (digits n) = Some (int n)"
  using digits_chars [of _ n] by (auto simp: digits_of_def is_digit_def list_all_iff digits_value)

lemma ParseInt_itoa [simp]: "in_int64 i \<Longrightarrow> ParseInt (itoa i) = Some i"
proof -
  assume i: "in_int64 i"
  show ?thesis
  proof (cases "i < 0")
    case True
    with i show ?thesis by (simp add: ParseInt_def itoa_def)
  next
    case False
    obtain c t where ct: "digits (nat i) = c # t" by (cases "digits (nat i)") simp_all
    then have "48 \<le> (byte c :: nat)" using digits_chars [of c "nat i"] by simp
    then have "c \<noteq> CHR ''-''" "c \<noteq> CHR ''+''" by auto
    moreover have "digits_of (c # t) = Some i" using False digits_of_digits [of "nat i"] by (simp add: ct)
    ultimately show ?thesis using False i by (simp add: ParseInt_def itoa_def ct)
  qed
qed

definition show_topics :: "int \<times> int list \<Rightarrow> string" where
  "show_topics ct = itoa (fst ct) @ ''='' @ join '','' (map itoa (snd ct))"

definition topics_of :: "(int \<times> int list) list \<Rightarrow> topic_map" where
  "topics_of cts = (\<lambda>chat. if chat \<in> fst ` set cts then Some (concat (map snd (filter (\<lambda>ct. fst ct = chat) cts))) else None)"

lemma topic_ids_itoa: "\<forall>i \<in> set is. in_int64 i \<Longrightarrow> topic_ids (map itoa is) = Inr is"
  by (induction "is") simp_all

lemma topic_spec_show:
  assumes "in_int64 c" "ts \<noteq> []" "\<forall>i \<in> set ts. in_int64 i"
  shows "topic_spec (show_topics (c, ts)) = Inr (c, ts)"
proof -
  have "SplitOn (CHR '','') (join '','' (map itoa ts)) = map itoa ts"
    using assms(2) by (intro SplitOn_join) (auto simp: itoa_chars)
  moreover have "Cut (CHR ''='') (show_topics (c, ts)) = Some (itoa c, join '','' (map itoa ts))"
    using Cut_append [OF itoa_chars(2)] by (simp add: show_topics_def)
  ultimately show ?thesis using assms by (simp add: topic_spec_def topic_ids_itoa)
qed

lemma add_topics_ok:
  assumes "map topic_spec specs = map Inr cts"
  shows "add_topics specs (topics_of cts0) = Inr (topics_of (cts0 @ cts))"
  using assms
proof (induction specs arbitrary: cts0 cts)
  case Nil
  then show ?case by simp
next
  case (Cons spec specs)
  then obtain c ts cts' where s: "topic_spec spec = Inr (c, ts)" "cts = (c, ts) # cts'" "map topic_spec specs = map Inr cts'"
    by (cases cts) auto
  have "(topics_of cts0)(c \<mapsto> (case topics_of cts0 c of None \<Rightarrow> [] | Some ts \<Rightarrow> ts) @ ts) = topics_of (cts0 @ [(c, ts)])"
    by (rule ext) (force simp: topics_of_def)
  then show ?case using Cons.IH [OF s(3), of "cts0 @ [(c, ts)]"] s by simp
qed

text \<open>A topic scope is read back as it was written: for any chats and any non-empty lists of topics
  that are 64-bit integers, parsing their specs gives every listed chat all of its topics, in order, a
  chat listed twice the topics of both, and no other chat a restriction. And any list that is accepted
  is one in which every spec was read: a malformed spec is never ignored.\<close>

theorem topics_roundtrip:
  assumes "\<forall>(c, ts) \<in> set cts. in_int64 c \<and> ts \<noteq> [] \<and> (\<forall>i \<in> set ts. in_int64 i)"
  shows "parseTopicAllowList (map show_topics cts) = Inr (topics_of cts) \<and>
    (\<forall>specs m. parseTopicAllowList specs = Inr m \<longrightarrow>
       (\<exists>read. map topic_spec specs = map Inr read \<and> m = topics_of read))"
proof (intro conjI allI impI)
  have e: "topics_of [] = Map.empty" by (simp add: topics_of_def)
  have "map topic_spec (map show_topics cts) = map Inr cts"
    using assms by (auto simp: topic_spec_show)
  then show "parseTopicAllowList (map show_topics cts) = Inr (topics_of cts)"
    using add_topics_ok [of "map show_topics cts" cts "[]"] by (simp add: parseTopicAllowList_def e)
  fix specs m assume m: "parseTopicAllowList specs = Inr m"
  have "\<exists>read. map topic_spec specs = map Inr read" if "add_topics specs out = Inr m" for out
    using that
  proof (induction specs arbitrary: out)
    case (Cons spec specs)
    then obtain ct where "topic_spec spec = Inr ct" by (cases "topic_spec spec") auto
    moreover have "\<exists>read. map topic_spec specs = map Inr read"
      using Cons calculation by (auto split: prod.splits)
    ultimately show ?case by (metis list.simps(9))
  qed simp
  then obtain read where r: "map topic_spec specs = map Inr read" using m unfolding parseTopicAllowList_def by blast
  then have "m = topics_of read" using m add_topics_ok [OF r, of "[]"] by (simp add: parseTopicAllowList_def e)
  with r show "\<exists>read. map topic_spec specs = map Inr read \<and> m = topics_of read" by blast
qed

theorem topics_roundtrip_witness:
  "\<exists>m. parseTopicAllowList [show_topics (-100, [3, 4]), show_topics (7, [1]), show_topics (-100, [9])] = Inr m \<and>
     m (-100) = Some [3, 4, 9] \<and> m 7 = Some [1] \<and> m 8 = None"
  using topics_roundtrip [of "[(-100, [3, 4]), (7, [1]), (-100, [9])]"]
  by (simp add: in_int64_def topics_of_def)

section \<open>The retriever\<close>

lemma check_retrieval_ok:
  assumes "check_retrieval c = None"
  shows "retrieval_mode c \<in> {ModeKeyword, ModeSemantic, ModeHybrid}"
    and "retrieval_mode c \<noteq> ModeKeyword \<Longrightarrow> embeddingsSet c"
    and "0 \<le> sv_RetrievalFusionDepth c" "0 \<le> sv_RetrievalMaxChunks c"
    and "embeddingsSet c \<Longrightarrow> TrimSpace (sv_EmbeddingBaseURL c) \<noteq> [] \<and> TrimSpace (sv_EmbeddingModel c) \<noteq> []"
  using assms by (auto simp: check_retrieval_def split: if_splits)

lemma buildRetriever_cases:
  assumes "buildRetriever env c = Inr rv"
  shows "check_retrieval c = None" "read_docs env c = Inr (rv_docs rv)" "rv_planner rv = build_planner c"
    and "rv_embedder rv = build_embedder env c"
    and "\<exists>k. buildStore env c (build_embedder env c) = Inr k \<and> kb_Index env (rv_docs rv) k = (None, rv_kb rv)"
  using assms by (auto simp: buildRetriever_def split: option.splits sum.splits prod.splits)

lemma build_planner_eq:
  "build_planner c = \<lparr>pl_mode = retrieval_mode c,
     pl_maxChunks = (let n = (if sv_RetrievalMaxChunks c = 0 then defaultRetrievalMaxChunks else sv_RetrievalMaxChunks c)
        in if n \<le> 0 then defaultMaxChunks else n),
     pl_fusionDepth = max (if sv_RetrievalFusionDepth c > 0 then sv_RetrievalFusionDepth c else DefaultFusionDepth)
       (let n = (if sv_RetrievalMaxChunks c = 0 then defaultRetrievalMaxChunks else sv_RetrievalMaxChunks c)
        in if n \<le> 0 then defaultMaxChunks else n)\<rparr>"
  by (simp add: build_planner_def NewPlanner_def Let_def WithFusionDepth_def max_def)

text \<open>A retrieval configuration that starts can be used: its mode is one of the three, a mode with a
  semantic leg has an embedder, an embedder exists exactly when the endpoint or the model is set and then
  both are, the number of chunks is positive and the fusion depth at least that; and a configuration
  that breaks one of these is refused before the vault is read.\<close>

theorem buildRetriever_ok:
  assumes "buildRetriever env c = Inr rv"
  shows "pl_mode (rv_planner rv) \<in> {ModeKeyword, ModeSemantic, ModeHybrid} \<and>
    (pl_mode (rv_planner rv) \<noteq> ModeKeyword \<longrightarrow> rv_embedder rv \<noteq> None) \<and>
    (rv_embedder rv \<noteq> None \<longleftrightarrow> TrimSpace (sv_EmbeddingBaseURL c) \<noteq> [] \<and> TrimSpace (sv_EmbeddingModel c) \<noteq> []) \<and>
    1 \<le> pl_maxChunks (rv_planner rv) \<and> pl_maxChunks (rv_planner rv) \<le> pl_fusionDepth (rv_planner rv) \<and>
    (sv_RetrievalMaxChunks c \<noteq> 0 \<longrightarrow> pl_maxChunks (rv_planner rv) = sv_RetrievalMaxChunks c) \<and>
    (\<forall>c' env' e. check_retrieval c' = Some e \<longrightarrow> buildRetriever env' c' = Inl e)"
proof (intro conjI)
  note ok = check_retrieval_ok [OF buildRetriever_cases(1) [OF assms]]
  note rv = buildRetriever_cases(3,4) [OF assms]
  have emb: "rv_embedder rv \<noteq> None \<longleftrightarrow> embeddingsSet c"
    unfolding rv(2) by (simp add: build_embedder_def Let_def)
  show "pl_mode (rv_planner rv) \<in> {ModeKeyword, ModeSemantic, ModeHybrid}"
    using ok(1) unfolding rv(1) by (simp add: build_planner_eq)
  show "pl_mode (rv_planner rv) \<noteq> ModeKeyword \<longrightarrow> rv_embedder rv \<noteq> None"
    using ok(2) unfolding rv(1) emb by (simp add: build_planner_eq)
  show "rv_embedder rv \<noteq> None \<longleftrightarrow> TrimSpace (sv_EmbeddingBaseURL c) \<noteq> [] \<and> TrimSpace (sv_EmbeddingModel c) \<noteq> []"
    using ok(5) unfolding emb by (auto simp: embeddingsSet_def)
  show "1 \<le> pl_maxChunks (rv_planner rv)"
    using ok(4) unfolding rv(1) by (simp add: build_planner_eq Let_def defaultRetrievalMaxChunks_def)
  show "pl_maxChunks (rv_planner rv) \<le> pl_fusionDepth (rv_planner rv)"
    unfolding rv(1) by (simp add: build_planner_eq)
  show "sv_RetrievalMaxChunks c \<noteq> 0 \<longrightarrow> pl_maxChunks (rv_planner rv) = sv_RetrievalMaxChunks c"
    using ok(4) unfolding rv(1) by (simp add: build_planner_eq)
  show "\<forall>c' env' e. check_retrieval c' = Some e \<longrightarrow> buildRetriever env' c' = Inl e"
    by (simp add: buildRetriever_def)
qed

section \<open>The engine\<close>

lemmas engine_options = WithPersona_def WithPromptTemplate_def WithLanguage_def WithContextTokens_def WithMaxOutputTokens_def WithTemperature_def

lemma engine_New_options:
  assumes "e = engine_New run modelName retr ntools scope render clock app
      [WithPersona p, WithPromptTemplate t, WithLanguage l, WithContextTokens n, WithMaxOutputTokens m, WithTemperature te]"
  shows "e_run e = run" "e_retriever e = retr" "e_tools e = Some ntools"
  by (simp_all add: assms engine_New_def engine_options)

lemma built_parts:
  assumes "buildAnswering env ou save counted c = Inr a"
  obtains chat rv where "ou_chat ou = Inr chat" "buildRetriever env c = Inr rv" "an_kbStore a = rv_kb rv"
    "\<And>reg. e_run (an_engine a reg) = wired_run env ou save counted chat c reg"
    "\<And>reg. e_retriever (an_engine a reg) = (\<lambda>q (kb, x). (kb_Retrieve env (rv_planner rv) (rv_embedder rv) kb q, kb, x))"
    "\<And>reg. e_tools (an_engine a reg) = Some (length (advertised (ou_tools ou) (sv_StoreDimensions c) (sv_StoreOrderable c) reg))"
  using assms unfolding buildAnswering_def
  by (simp split: if_split_asm sum.split_asm) (rule that; auto intro: engine_New_options)

lemma built_engine:
  assumes "buildAnswering env ou save counted c = Inr a"
  obtains chat where "ou_chat ou = Inr chat"
    "\<And>reg. e_run (an_engine a reg) = wired_run env ou save counted chat c reg"
    "\<And>reg s u. snd (e_retriever (an_engine a reg) s u) = u"
proof (rule built_parts [OF assms])
  fix chat rv
  assume p: "ou_chat ou = Inr chat" "\<And>reg. e_run (an_engine a reg) = wired_run env ou save counted chat c reg"
    "\<And>reg. e_retriever (an_engine a reg) = (\<lambda>q (kb, x). (kb_Retrieve env (rv_planner rv) (rv_embedder rv) kb q, kb, x))"
  have "snd (e_retriever (an_engine a reg) s u) = u" for reg s u by (simp add: p(3) split: prod.splits)
  then show thesis using p(1,2) by (rule that [rotated 2])
qed

section \<open>One vault at a time\<close>

definition kb_from :: "doc list \<Rightarrow> ('v, 'l) kb \<Rightarrow> bool" where
  "kb_from docs k \<longleftrightarrow> (\<exists>emb ix. k = KbMemory emb ix \<and> ix_wf ix \<and> ix_chunks ix = concat (map d_Chunks docs))"

lemma kb_Index_memory:
  assumes "kb_Index env docs (KbMemory emb ix) = (e, k)" "ix_wf ix"
  shows "(e = None \<longrightarrow> kb_from docs k) \<and> (e \<noteq> None \<longrightarrow> k = KbMemory emb ix)"
  using assms store_Index_wf [of _ emb docs ix] store_Index_ok(1) [of _ emb docs ix] store_Index_failed [of _ emb docs ix]
  by (force simp: kb_Index_def kb_from_def split: prod.splits)

text \<open>A run of reindexes: each attempt sees the vault and the endpoint as they then are.\<close>

fun reindexes :: "serve_cmd \<Rightarrow> ('v, 'l, 'z) setup_env_scheme list \<Rightarrow> ('v, 'l) kb \<Rightarrow> ('v, 'l) kb" where
  "reindexes c [] k = k"
| "reindexes c (env # envs) k = reindexes c envs (snd (reindex env c k))"

text \<open>The documents that serve: of the last attempt that completed, of the start if none did.\<close>

fun served_docs :: "serve_cmd \<Rightarrow> ('v, 'l, 'z) setup_env_scheme list \<Rightarrow> ('v, 'l) kb \<Rightarrow> doc list \<Rightarrow> doc list" where
  "served_docs c [] k docs = docs"
| "served_docs c (env # envs) k docs =
     served_docs c envs (snd (reindex env c k))
       (if fst (reindex env c k) then projr (read_docs env c) else docs)"

lemma reindex_cases:
  assumes "reindex env c k = (ok, k')"
  obtains docs where "ok" "read_docs env c = Inr docs" "kb_Index env docs k = (None, k')"
  | docs e where "\<not> ok" "read_docs env c = Inr docs" "kb_Index env docs k = (Some e, k')"
  | "\<not> ok" "k' = k"
  using assms by (auto simp: reindex_def split: sum.splits prod.splits option.splits)

lemma reindex_memory:
  assumes "kb_from docs k" "reindex env c k = (ok, k')"
  shows "kb_from (if ok then projr (read_docs env c) else docs) k'"
proof -
  obtain emb ix where k: "k = KbMemory emb ix" "ix_wf ix" using assms(1) by (auto simp: kb_from_def)
  from assms(2) show ?thesis
  proof (cases rule: reindex_cases)
    case (1 ds)
    then show ?thesis using kb_Index_memory [of env ds emb ix None k'] k by simp
  next
    case (2 ds e)
    then show ?thesis using kb_Index_memory [of env ds emb ix "Some e" k'] k assms(1) by simp
  next
    case 3
    then show ?thesis using assms(1) by simp
  qed
qed

lemma reindexes_memory: "kb_from docs k \<Longrightarrow> kb_from (served_docs c envs k docs) (reindexes c envs k)"
proof (induction envs arbitrary: k docs)
  case (Cons env envs)
  obtain ok k' where r: "reindex env c k = (ok, k')" by (cases "reindex env c k")
  show ?case using Cons.IH [OF reindex_memory [OF Cons.prems r]] by (simp add: r)
qed simp

lemma built_memory:
  assumes "buildRetriever env c = Inr rv" "storeName (sv_RetrievalStore c) = storeBackendMemory"
  shows "kb_from (rv_docs rv) (rv_kb rv)"
proof -
  obtain k where k: "buildStore env c (build_embedder env c) = Inr k" "kb_Index env (rv_docs rv) k = (None, rv_kb rv)"
    using buildRetriever_cases(5) [OF assms(1)] by blast
  then have "k = KbMemory (build_embedder env c) empty_index" using assms(2) by (simp add: buildStore_def)
  then show ?thesis using kb_Index_memory k(2) ix_wf_empty by blast
qed


section \<open>A configuration\<close>

definition demo_cmd :: serve_cmd where
  "demo_cmd = \<lparr>sv_VaultDir = [], sv_Scope = ''games'', sv_PersonaFile = [], sv_PromptTemplate = [], sv_Language = ''en'',
     sv_LangpacksDir = [], sv_ModelBaseURL = [], sv_ModelName = [], sv_MaxOutputTokens = 0, sv_Temperature = None,
     sv_EmbeddingBaseURL = [], sv_EmbeddingModel = [], sv_SimilarityThreshold = Fin 0, sv_RetrievalMode = [],
     sv_RetrievalFusionDepth = 0, sv_RetrievalMaxChunks = 3, sv_StoreDimensions = [], sv_StoreOrderable = [''n''],
     sv_RetrievalStore = [], sv_StorePath = [], sv_DefaultTier = ''default'', sv_ACLDB = [], sv_MCPServers = [],
     sv_MCPAllow = [], sv_MCPDeny = [], sv_SpendCeiling = 100, sv_SpendPeriod = hour, sv_BudgetDB = [],
     sv_TelegramGroups = [''-100''], sv_TelegramAllowedTopics = [], sv_CallbackDB = [], sv_CallbackTTL = 0,
     sv_CallbackSweepInterval = 0, sv_QuarantineLog = [], sv_TranscriptLog = [], sv_Admins = [''1''],
     sv_NudgeMode = ''reaction'', sv_NudgeText = [], sv_NudgeEmoji = [], sv_NudgeCooldown = minute,
     sv_ConsentAckEmoji = [], sv_MemoryTurns = 100, sv_MemoryInject = 15, sv_ContextSize = 8000,
     sv_FollowupWindow = hour, sv_LongMemoryURL = ''http://memory'', sv_LongMemoryNamespace = ''grove'',
     sv_LongMemoryWorkspace = [], sv_LongMemoryGroupNamespaces = [''-100=club''],
     sv_LongMemoryRetention = 48 * hour, sv_LongMemoryWindow = 24 * hour, sv_LongMemoryDerive = False,
     sv_LongMemoryInstructions = [], sv_LongMemoryRecord = ''record'', sv_LongMemoryWithoutErase = False\<rparr>"

definition demo_setup :: "(unit, unit) setup_env" where
  "demo_setup = \<lparr>se_getenv = (\<lambda>_. []), se_embed = (\<lambda>_ _ _ _. Inl ErrNoStore), se_loader = demo_env,
     se_vault = Inr demo_vault, se_key = id, se_vlen = (\<lambda>_. 0), se_open_ladybug = (\<lambda>_ _. Inl ErrNoStore),
     se_index_ladybug = (\<lambda>_ s. (None, s)), se_stats_ladybug = (\<lambda>_. Inr (0, 0)), se_keyword_ladybug = (\<lambda>_ _ _. Inr []),
     se_semantic_ladybug = (\<lambda>_ _ _. Inr []),
     se_structured_ladybug = (\<lambda>_. \<lparr>st_Enumerate = (\<lambda>_ _. Inr []), st_Ordered = (\<lambda>_ _ _. Inr []), st_Dimensions = Inr Map.empty\<rparr>), se_uc = ascii_full, se_sim = (\<lambda>_ _. 0), se_threshold = 0, se_rnd = id\<rparr>"

lemma demo_embeddings: "\<not> embeddingsSet demo_cmd" "build_embedder env demo_cmd = None" "check_retrieval demo_cmd = None"
    "retrieval_mode demo_cmd = ModeKeyword" "storeName (sv_RetrievalStore demo_cmd) = storeBackendMemory"
  by (simp_all add: embeddingsSet_def build_embedder_def check_retrieval_def retrieval_mode_def demo_cmd_def TrimSpace_ascii
      storeName_def)

lemma demo_vault_read: "\<exists>docs. read_docs demo_setup demo_cmd = Inr docs"
  using demo_docs_paths
  by (cases "VaultDocs demo_env (Inr demo_vault)") (simp_all add: read_docs_def demo_setup_def demo_cmd_def demo_env_def)

lemma demo_built: "\<exists>rv. buildRetriever demo_setup demo_cmd = Inr rv"
proof -
  obtain docs where d: "read_docs demo_setup demo_cmd = Inr docs" using demo_vault_read by blast
  have "fst (store_Index id None docs (empty_index :: unit mem_index)) = None"
    by (simp add: store_Index_def embedChunks_def split: prod.splits)
  then obtain ix where "store_Index id None docs (empty_index :: unit mem_index) = (None, ix)" by (metis prod.collapse)
  then show ?thesis
    by (simp add: buildRetriever_def demo_embeddings d buildStore_def kb_Index_def) (simp add: demo_setup_def demo_embeddings)
qed

theorem buildRetriever_ok_witness:
  "\<exists>rv. buildRetriever demo_setup demo_cmd = Inr rv \<and> rv_embedder rv = None \<and> pl_maxChunks (rv_planner rv) = 3"
proof -
  obtain rv where rv: "buildRetriever demo_setup demo_cmd = Inr rv" using demo_built by blast
  have "rv_embedder rv = None \<and> pl_maxChunks (rv_planner rv) = 3"
    using buildRetriever_ok [OF rv] by (auto simp: demo_cmd_def TrimSpace_ascii)
  then show ?thesis using rv by blast
qed


end
