(* ===== verification/MemorySetup.thy ===== *)
theory MemorySetup
  imports Config LongMemory
begin

text \<open>
  How \<^verbatim>\<open>cmd/yaad-grove/longmemory.go\<close> sets long-term memory up from the flags, and the command
  \<^verbatim>\<open>memory erase\<close> of \<^verbatim>\<open>cmd/yaad-grove/memory.go\<close>. The memory library is a parameter: opening a
  namespace's backend and making a store over it are functions, and so is deleting a subject from a
  store.
\<close>

section \<open>Setting up (longmemory.go)\<close>

definition minLongMemoryWindow :: duration where
  "minLongMemoryWindow = hour"

definition longMemoryTokenEnv :: string where
  "longMemoryTokenEnv = ''YAADGROVE_LONG_MEMORY_TOKEN''"

definition processSecrets :: "string list" where
  "processSecrets = [''YAADGROVE_MODEL_API_KEY'', ''YAADGROVE_EMBEDDING_API_KEY'', ''YAADGROVE_TELEGRAM_TOKEN'', longMemoryTokenEnv]"

definition defaultDeriverInstructions :: string where
  "defaultDeriverInstructions =
     ''Form conclusions only about the person speaking: what they said, asked, prefer and think. '' @
     ''Do not keep anything they say about another person, and form no conclusions about anyone else.''"

fun group_namespaces :: "string list \<Rightarrow> (string \<times> string) list \<Rightarrow> (string \<times> string) list result" where
  "group_namespaces [] grps = Inr grps"
| "group_namespaces (spec # specs) grps =
     (case Cut (CHR ''='') spec of
        None \<Rightarrow> Inl (ErrMsg ''--long-memory-group-namespace: want chatid=namespace'')
      | Some (c, n) \<Rightarrow>
          (let chat = TrimSpace c; ns = TrimSpace n in
           if chat = [] \<or> ns = [] then Inl (ErrMsg ''--long-memory-group-namespace: want chatid=namespace'')
           else if chat \<in> fst ` set grps then Inl (ErrMsg ''--long-memory-group-namespace: chat is given a namespace twice'')
           else group_namespaces specs (grps @ [(chat, ns)])))"

definition parseGroupNamespaces :: "string list \<Rightarrow> (string \<times> string) list result" where
  "parseGroupNamespaces specs = group_namespaces specs []"

text \<open>A secret of the environment, as the resolver gives it.\<close>

datatype secret_read = SecretMissing | SecretFailed error | SecretValue string

fun resolve_secrets :: "(string \<Rightarrow> secret_read) \<Rightarrow> string list \<Rightarrow> (string \<rightharpoonup> string) \<Rightarrow> (string \<rightharpoonup> string) result" where
  "resolve_secrets rslv [] values = Inr values"
| "resolve_secrets rslv (name # names) values =
     (case rslv name of
        SecretValue v \<Rightarrow> resolve_secrets rslv names (values(name \<mapsto> v))
      | SecretMissing \<Rightarrow> resolve_secrets rslv names values
      | SecretFailed e \<Rightarrow> Inl (Wrap ''long-term memory: resolve'' e))"

record honcho_options =
  ho_URL :: string
  ho_Namespace :: string
  ho_Workspace :: string
  ho_Derive :: bool
  ho_Instructions :: string
  ho_Token :: string

text \<open>
  \<open>ss_new\<close> is \<^verbatim>\<open>memory.NewStore\<close>: it takes the namespace, the backend, the retention and the
  scrubber.
\<close>

record ('b, 'st) store_set =
  ss_open :: "string \<Rightarrow> 'b result"
  ss_new :: "string \<Rightarrow> 'b \<Rightarrow> duration \<Rightarrow> (string \<Rightarrow> string) option \<Rightarrow> 'st result"
  ss_retention :: duration
  ss_scrubber :: "(string \<Rightarrow> string) option"
  ss_stores :: "string \<rightharpoonup> 'st"
  ss_backends :: "string \<rightharpoonup> 'b"

definition ss_get :: "string \<Rightarrow> ('b, 'st) store_set \<Rightarrow> ('st \<times> ('b, 'st) store_set) result" where
  "ss_get ns s =
     (case ss_stores s ns of
        Some st \<Rightarrow> Inr (st, s)
      | None \<Rightarrow> (case ss_open s ns of
            Inl e \<Rightarrow> Inl e
          | Inr backend \<Rightarrow> (case ss_new s ns backend (ss_retention s) (ss_scrubber s) of
                Inl e \<Rightarrow> Inl (Wrap ''long-term memory namespace'' e)
              | Inr st \<Rightarrow> Inr (st, s\<lparr>ss_stores := (ss_stores s)(ns \<mapsto> st), ss_backends := (ss_backends s)(ns \<mapsto> backend)\<rparr>))))"

record ('b, 'st) long_memory_setup =
  ls_memory :: "'st long_memory"
  ls_purgers :: "(ns_purge \<times> 'b) list"
  ls_stores :: "string \<rightharpoonup> 'st"

text \<open>The loop over the groups: the store of each, and the groups' map.\<close>

fun open_groups :: "(string \<times> string) list \<Rightarrow> ('b, 'st) store_set \<Rightarrow> (string \<rightharpoonup> 'st option)
     \<Rightarrow> ((string \<rightharpoonup> 'st option) \<times> ('b, 'st) store_set) result" where
  "open_groups [] s gm = Inr (gm, s)"
| "open_groups ((chat, ns) # gs) s gm =
     (case ss_get ns s of Inl e \<Rightarrow> Inl e
      | Inr (st, s') \<Rightarrow> open_groups gs s' (gm(chat \<mapsto> Some st)))"

text \<open>
  The loop over the record. \<open>dio ns\<close> is what saving the record did when \<open>ns\<close> was marked dropped.
\<close>

fun cover_namespaces ::
    "(string \<Rightarrow> save_io) \<Rightarrow> string set \<Rightarrow> duration \<Rightarrow> time \<Rightarrow> string list \<Rightarrow> ('b, 'st) store_set
     \<Rightarrow> (string \<rightharpoonup> 'st) \<times> (ns_purge \<times> 'b) list \<Rightarrow> ns_record
     \<Rightarrow> ((string \<rightharpoonup> 'st) \<times> (ns_purge \<times> 'b) list) result \<times> ns_record" where
  "cover_namespaces dio configured window now [] s acc r = (Inr acc, r)"
| "cover_namespaces dio configured window now (ns # nss) s (stores, purgers) r =
     (case ss_get ns s of Inl e \<Rightarrow> (Inl e, r)
      | Inr (st, s') \<Rightarrow>
     (case (if ns \<in> configured then (Inr 0, r) else ns_Dropped (dio ns) ns now r) of
        (Inl e, r') \<Rightarrow> (Inl e, r')
      | (Inr dropped, r') \<Rightarrow>
          cover_namespaces dio configured window now nss s'
            (stores(ns \<mapsto> st),
             purgers @ [(\<lparr>np_Namespace = ns, np_Retention = ss_retention s, np_Window = window, np_Dropped = dropped\<rparr>,
                         the (ss_backends s' ns))]) r'))"

text \<open>
  \<open>ordg\<close> and \<open>ordn\<close> are the orders Go's \<^verbatim>\<open>range\<close> gives the two maps, \<open>cio\<close> what saving the
  configured namespaces did.
\<close>

definition newLongMemory ::
    "((string \<times> string) list \<Rightarrow> (string \<times> string) list) \<Rightarrow> (string list \<Rightarrow> string list) \<Rightarrow> save_io \<Rightarrow> (string \<Rightarrow> save_io)
     \<Rightarrow> ('b, 'st) store_set \<Rightarrow> string \<Rightarrow> (string \<times> string) list \<Rightarrow> duration \<Rightarrow> time \<Rightarrow> ns_record
     \<Rightarrow> ('b, 'st) long_memory_setup result \<times> ns_record" where
  "newLongMemory ordg ordn cio dio s namespace grps window now r =
     (case ss_get namespace s of Inl e \<Rightarrow> (Inl e, r)
      | Inr (st, s1) \<Rightarrow>
     (case open_groups (ordg grps) s1 Map.empty of Inl e \<Rightarrow> (Inl e, r)
      | Inr (gm, s2) \<Rightarrow>
          (let configured = insert namespace (snd ` set grps) in
           (case ns_Configured cio (ordn (remdups (namespace # map snd grps))) r of
              (Some e, r1) \<Rightarrow> (Inl e, r1)
            | (None, r1) \<Rightarrow>
                (case cover_namespaces dio configured window now (ns_Namespaces r1) s2 (Map.empty, []) r1 of
                   (Inl e, r2) \<Rightarrow> (Inl e, r2)
                 | (Inr (stores, purgers), r2) \<Rightarrow>
                     (Inr \<lparr>ls_memory = \<lparr>lm_Store = st, lm_Groups = gm, lm_Window = window, lm_Scrubber = ss_scrubber s,
                                        lm_withdrawn = Map.empty\<rparr>,
                           ls_purgers = purgers, ls_stores = stores\<rparr>, r2))))))"

definition check_long_memory :: "serve_cmd \<Rightarrow> error option" where
  "check_long_memory c =
     (if sv_LongMemoryNamespace c = [] then Some (ErrMsg ''--long-memory-namespace is required with --long-memory-url'')
      else if sv_LongMemoryWindow c < minLongMemoryWindow then Some (ErrMsg ''--long-memory-window must be at least 1h'')
      else if sv_LongMemoryRetention c \<le> 0 then Some (ErrMsg ''--long-memory-retention is required and must be positive'')
      else if go_rem (sv_LongMemoryRetention c) (sv_LongMemoryWindow c) \<noteq> 0
      then Some (ErrMsg ''--long-memory-retention must be a whole number of --long-memory-window'')
      else if sv_LongMemoryRecord c = [] then Some (ErrMsg ''--long-memory-record is required with --long-memory-url'')
      else if sv_LongMemoryWorkspace c \<noteq> [] \<and> sv_LongMemoryGroupNamespaces c \<noteq> []
      then Some (ErrMsg ''--long-memory-workspace names the workspace of --long-memory-namespace only'')
      else None)"

definition memory_options_set :: "serve_cmd \<Rightarrow> bool" where
  "memory_options_set c \<longleftrightarrow> sv_LongMemoryNamespace c \<noteq> [] \<or> sv_LongMemoryWorkspace c \<noteq> [] \<or>
     sv_LongMemoryGroupNamespaces c \<noteq> [] \<or> sv_LongMemoryRetention c \<noteq> 0 \<or> sv_LongMemoryDerive c \<or>
     sv_LongMemoryInstructions c \<noteq> []"

text \<open>What the setup of memory meets outside: \<open>mo_open\<close> is \<^verbatim>\<open>honcho.Open\<close>, \<open>mo_file\<close> what opening the
  record's file reads.\<close>

record ('b, 'st) memory_outside =
  mo_resolve :: "string \<Rightarrow> secret_read"
  mo_open :: "honcho_options \<Rightarrow> 'b result"
  mo_new :: "string \<Rightarrow> 'b \<Rightarrow> duration \<Rightarrow> (string \<Rightarrow> string) option \<Rightarrow> 'st result"
  mo_scrubber :: "string \<Rightarrow> string"
  mo_file :: file_read
  mo_ordg :: "(string \<times> string) list \<Rightarrow> (string \<times> string) list"
  mo_ordn :: "string list \<Rightarrow> string list"
  mo_cio :: save_io
  mo_dio :: "string \<Rightarrow> save_io"

definition honcho_of :: "serve_cmd \<Rightarrow> (string \<rightharpoonup> string) \<Rightarrow> string \<Rightarrow> honcho_options" where
  "honcho_of c values namespace =
     \<lparr>ho_URL = sv_LongMemoryURL c, ho_Namespace = namespace,
      ho_Workspace = (if namespace = sv_LongMemoryNamespace c then sv_LongMemoryWorkspace c else []),
      ho_Derive = sv_LongMemoryDerive c,
      ho_Instructions = (if sv_LongMemoryInstructions c = [] then defaultDeriverInstructions else sv_LongMemoryInstructions c),
      ho_Token = (case values longMemoryTokenEnv of None \<Rightarrow> [] | Some v \<Rightarrow> v)\<rparr>"

text \<open>The result, and the record as it is left: \<open>None\<close> when it was not opened.\<close>

definition buildLongMemory ::
    "('b, 'st) memory_outside \<Rightarrow> time \<Rightarrow> serve_cmd \<Rightarrow> ('b, 'st) long_memory_setup option result \<times> ns_record option" where
  "buildLongMemory mo now c =
     (if sv_LongMemoryURL c = []
      then (if memory_options_set c then Inl (ErrMsg ''long-term memory options are set without --long-memory-url'') else Inr None, None)
      else (case check_long_memory c of Some e \<Rightarrow> (Inl e, None)
      | None \<Rightarrow>
     (case parseGroupNamespaces (sv_LongMemoryGroupNamespaces c) of Inl e \<Rightarrow> (Inl e, None)
      | Inr grps \<Rightarrow>
     (case resolve_secrets (mo_resolve mo) processSecrets Map.empty of Inl e \<Rightarrow> (Inl e, None)
      | Inr values \<Rightarrow>
     (case ns_Open (mo_file mo) of Inl e \<Rightarrow> (Inl e, None)
      | Inr m \<Rightarrow>
          (let r = \<lparr>nr_dropped = m, nr_disk = (case mo_file mo of ReadFile es \<Rightarrow> Some es | _ \<Rightarrow> None)\<rparr> in
           if sv_LongMemoryWorkspace c \<noteq> [] \<and> (\<exists>ns \<in> set (ns_Namespaces r). ns \<noteq> sv_LongMemoryNamespace c)
           then (Inl (ErrMsg ''--long-memory-workspace: the record names another namespace''), Some r)
           else (case newLongMemory (mo_ordg mo) (mo_ordn mo) (mo_cio mo) (mo_dio mo)
                   \<lparr>ss_open = (\<lambda>ns. mo_open mo (honcho_of c values ns)), ss_new = mo_new mo, ss_retention = sv_LongMemoryRetention c,
                    ss_scrubber = Some (mo_scrubber mo), ss_stores = Map.empty, ss_backends = Map.empty\<rparr>
                   (sv_LongMemoryNamespace c) grps (sv_LongMemoryWindow c) now r of
                (Inl e, r') \<Rightarrow> (Inl e, Some r')
              | (Inr lm, r') \<Rightarrow> (Inr (Some lm), Some r'))))))))"

text \<open>What withdrawal erases through: the eraser's deletes, from the store's.\<close>

definition eraser :: "('st \<Rightarrow> string \<Rightarrow> 'm \<Rightarrow> error option \<times> 'm) \<Rightarrow> ('b, 'st) long_memory_setup
     \<Rightarrow> string \<rightharpoonup> (string \<Rightarrow> 'm \<Rightarrow> error option \<times> 'm)" where
  "eraser delete lm ns = map_option delete (ls_stores lm ns)"

definition lm_withdrawal ::
    "('st \<Rightarrow> string \<Rightarrow> 'm \<Rightarrow> error option \<times> 'm) \<Rightarrow> ('b, 'st) long_memory_setup option \<Rightarrow> bool \<Rightarrow> 'm policy \<Rightarrow> 'm policy" where
  "lm_withdrawal delete lm derive p =
     (case lm of None \<Rightarrow> p | Some l \<Rightarrow> p\<lparr>po_Erase := Some (eraser delete l), po_MemoryDerive := derive\<rparr>)"

section \<open>memory erase (memory.go)\<close>

definition tab :: string where "tab = [CHR 0x09]"

definition erase_line :: "(error \<Rightarrow> string) \<Rightarrow> string \<Rightarrow> erase_result \<Rightarrow> string" where
  "erase_line show_error u r = u @ tab @ er_Namespace r @
     (case er_Err r of Some e \<Rightarrow> tab @ ''failed: '' @ show_error e @ newline | None \<Rightarrow> tab @ ''erased'' @ newline)"

fun erase_each ::
    "(error \<Rightarrow> string) \<Rightarrow> (string \<Rightarrow> 'w \<Rightarrow> erase_result list \<times> 'w) \<Rightarrow> string list \<Rightarrow> string \<times> nat \<Rightarrow> 'w \<Rightarrow> (string \<times> nat) \<times> 'w" where
  "erase_each show_error er [] acc w = (acc, w)"
| "erase_each show_error er (u # us) (b, failed) w =
     (case er u w of (rs, w') \<Rightarrow>
        erase_each show_error er us
          (b @ concat (map (erase_line show_error u) rs), failed + length (filter (\<lambda>r. er_Err r \<noteq> None) rs)) w')"

text \<open>\<open>out\<close> is what writing the report did; \<open>er\<close> is the eraser's \<^verbatim>\<open>Erase\<close>.\<close>

definition eraseUsers ::
    "(error \<Rightarrow> string) \<Rightarrow> (string \<Rightarrow> 'w \<Rightarrow> erase_result list \<times> 'w) \<Rightarrow> io \<Rightarrow> string list \<Rightarrow> 'w \<Rightarrow> error option \<times> string \<times> 'w" where
  "eraseUsers show_error er out us w =
     (case erase_each show_error er us ([], 0) w of ((b, failed), w') \<Rightarrow>
        (case out of Failed e \<Rightarrow> Some e
         | Done \<Rightarrow> if failed > 0 then Some (ErrMsg ''memory erase: erases failed; run it again to retry'') else None,
         b @ itoa (int (length us)) @ '' users, '' @ itoa (int failed) @ '' failed erases'' @ newline, w'))"

text \<open>
  The command: the users, or every user of the access-control store whose consent is not granted.
  \<open>acl\<close> is what opening that store gave and \<open>rd\<close> what reading it did. The report is \<open>None\<close> when
  nothing was erased.
\<close>

definition memory_erase ::
    "(error \<Rightarrow> string) \<Rightarrow> ('st \<Rightarrow> string \<Rightarrow> 'm \<Rightarrow> error option \<times> 'm) \<Rightarrow> ('b, 'st) memory_outside \<Rightarrow> acl_db result \<Rightarrow> io \<Rightarrow> io \<Rightarrow> time
     \<Rightarrow> serve_cmd \<Rightarrow> string list \<Rightarrow> bool \<Rightarrow> 'm \<Rightarrow> error option \<times> string option \<times> 'm" where
  "memory_erase show_error delete mo acl rd out now c users unconsented mem =
     (if (users \<noteq> []) = unconsented then (Some (ErrMsg ''memory erase: give --user or --unconsented, one of them''), None, mem)
      else (case buildLongMemory mo now c of
        (Inl e, _) \<Rightarrow> (Some e, None, mem)
      | (Inr None, _) \<Rightarrow> (Some (ErrMsg ''memory erase: long-term memory is not configured''), None, mem)
      | (Inr (Some lm), ro) \<Rightarrow>
     (case (if \<not> unconsented then Inr users
            else (case acl of Inl e \<Rightarrow> Inl (Wrap ''memory erase'' e) | Inr db \<Rightarrow> acl_unconsented rd db)) of
        Inl e \<Rightarrow> (Some e, None, mem)
      | Inr us \<Rightarrow>
          (case eraseUsers show_error (\<lambda>u (lmo, e). Erase (eraser delete lm) u (the ro) (lmo, e)) out us (Some (ls_memory lm), mem) of
             (err, b, _, mem') \<Rightarrow> (err, Some b, mem')))))"

end
