(* ===== verification/MemorySetup_Props.thy ===== *)
theory MemorySetup_Props
  imports MemorySetup Config_Props
begin

text \<open>
  What a long-term memory that starts guarantees: the flags are consistent, every namespace memory is
  kept in is on record, purged and erased, so a withdrawal reaches all of it; and the exit status of
  \<^verbatim>\<open>memory erase\<close> tells the truth.
\<close>

section \<open>The flags\<close>

lemma group_namespaces_distinct:
  assumes "group_namespaces specs gs = Inr gs'" "distinct (map fst gs)"
  shows "distinct (map fst gs')"
  using assms by (induction specs arbitrary: gs) (auto simp: Let_def split: option.splits if_splits)

lemma check_long_memory_ok:
  assumes "check_long_memory c = None"
  shows "sv_LongMemoryNamespace c \<noteq> []" "hour \<le> sv_LongMemoryWindow c" "0 < sv_LongMemoryRetention c"
    and "sv_LongMemoryRetention c mod sv_LongMemoryWindow c = 0" "sv_LongMemoryRecord c \<noteq> []"
    and "sv_LongMemoryWorkspace c \<noteq> [] \<Longrightarrow> sv_LongMemoryGroupNamespaces c = []"
proof -
  show w: "hour \<le> sv_LongMemoryWindow c" and r: "0 < sv_LongMemoryRetention c"
    and "sv_LongMemoryNamespace c \<noteq> []" and "sv_LongMemoryRecord c \<noteq> []"
    and "sv_LongMemoryWorkspace c \<noteq> [] \<Longrightarrow> sv_LongMemoryGroupNamespaces c = []"
    using assms by (auto simp: check_long_memory_def minLongMemoryWindow_def split: if_splits)
  have "go_rem (sv_LongMemoryRetention c) (sv_LongMemoryWindow c) = 0"
    using assms by (auto simp: check_long_memory_def split: if_splits)
  moreover have "0 < sv_LongMemoryWindow c" using w hour_bounds(1) by linarith
  ultimately show "sv_LongMemoryRetention c mod sv_LongMemoryWindow c = 0"
    using r by (simp add: go_rem_def)
qed

lemma buildLongMemory_cases:
  assumes "buildLongMemory mo now c = (Inr (Some lm), ro)"
  obtains grps vals m r' where "sv_LongMemoryURL c \<noteq> []" "check_long_memory c = None"
    "parseGroupNamespaces (sv_LongMemoryGroupNamespaces c) = Inr grps"
    "resolve_secrets (mo_resolve mo) processSecrets Map.empty = Inr vals" "ns_Open (mo_file mo) = Inr m" "ro = Some r'"
    "sv_LongMemoryWorkspace c \<noteq> [] \<Longrightarrow> fst ` set m \<subseteq> {sv_LongMemoryNamespace c}"
    "newLongMemory (mo_ordg mo) (mo_ordn mo) (mo_cio mo) (mo_dio mo)
       \<lparr>ss_open = (\<lambda>ns. mo_open mo (honcho_of c vals ns)), ss_new = mo_new mo, ss_retention = sv_LongMemoryRetention c,
        ss_scrubber = Some (mo_scrubber mo), ss_stores = Map.empty, ss_backends = Map.empty\<rparr>
       (sv_LongMemoryNamespace c) grps (sv_LongMemoryWindow c) now
       \<lparr>nr_dropped = m, nr_disk = (case mo_file mo of ReadFile es \<Rightarrow> Some es | _ \<Rightarrow> None)\<rparr> = (Inr lm, r')"
  using assms unfolding buildLongMemory_def
  by (auto simp: Let_def ns_Namespaces_def image_subset_iff split: if_splits option.splits sum.splits prod.splits)

text \<open>Long-term memory starts only whole. Without the service's URL it is off, and any option set for it
  then is an error, not ignored; with it, starting means a namespace, a record file, a window of at least
  an hour and a positive retention that is a whole number of windows, so every purge cuts at a window's
  boundary and deletes whole sessions; and a workspace named for one namespace is never used with another.\<close>

theorem long_memory_starts_whole:
  shows "sv_LongMemoryURL c = [] \<Longrightarrow> fst (buildLongMemory mo now c) =
      (if memory_options_set c then Inl (ErrMsg ''long-term memory options are set without --long-memory-url'') else Inr None)"
    and "buildLongMemory mo now c = (Inr (Some lm), ro) \<Longrightarrow>
      sv_LongMemoryURL c \<noteq> [] \<and> sv_LongMemoryNamespace c \<noteq> [] \<and> sv_LongMemoryRecord c \<noteq> [] \<and>
      hour \<le> sv_LongMemoryWindow c \<and> 0 < sv_LongMemoryRetention c \<and>
      (\<forall>t. modern t \<longrightarrow> boundary (sv_LongMemoryWindow c) (PurgeCut t (sv_LongMemoryWindow c) (sv_LongMemoryRetention c))) \<and>
      (sv_LongMemoryWorkspace c \<noteq> [] \<longrightarrow> sv_LongMemoryGroupNamespaces c = [] \<and>
         (\<forall>m. ns_Open (mo_file mo) = Inr m \<longrightarrow> fst ` set m \<subseteq> {sv_LongMemoryNamespace c}))"
proof -
  show "sv_LongMemoryURL c = [] \<Longrightarrow> fst (buildLongMemory mo now c) =
      (if memory_options_set c then Inl (ErrMsg ''long-term memory options are set without --long-memory-url'') else Inr None)"
    by (simp add: buildLongMemory_def)
  assume "buildLongMemory mo now c = (Inr (Some lm), ro)"
  then obtain m where b: "sv_LongMemoryURL c \<noteq> []" "check_long_memory c = None" "ns_Open (mo_file mo) = Inr m"
    "sv_LongMemoryWorkspace c \<noteq> [] \<Longrightarrow> fst ` set m \<subseteq> {sv_LongMemoryNamespace c}"
    by (rule buildLongMemory_cases) blast
  note ok = check_long_memory_ok [OF b(2)]
  have w: "0 < sv_LongMemoryWindow c" using ok(2) hour_bounds(1) by linarith
  have "sv_LongMemoryRetention c = int (nat (sv_LongMemoryRetention c div sv_LongMemoryWindow c)) * sv_LongMemoryWindow c"
    using ok(3,4) w by (simp add: pos_imp_zdiv_nonneg_iff mod_0_imp_dvd)
  then have "boundary (sv_LongMemoryWindow c) (PurgeCut t (sv_LongMemoryWindow c) (sv_LongMemoryRetention c))" if "modern t" for t
    using PurgeCut_boundary [OF that w] by blast
  with b ok show "sv_LongMemoryURL c \<noteq> [] \<and> sv_LongMemoryNamespace c \<noteq> [] \<and> sv_LongMemoryRecord c \<noteq> [] \<and>
      hour \<le> sv_LongMemoryWindow c \<and> 0 < sv_LongMemoryRetention c \<and>
      (\<forall>t. modern t \<longrightarrow> boundary (sv_LongMemoryWindow c) (PurgeCut t (sv_LongMemoryWindow c) (sv_LongMemoryRetention c))) \<and>
      (sv_LongMemoryWorkspace c \<noteq> [] \<longrightarrow> sv_LongMemoryGroupNamespaces c = [] \<and>
         (\<forall>m. ns_Open (mo_file mo) = Inr m \<longrightarrow> fst ` set m \<subseteq> {sv_LongMemoryNamespace c}))"
    by auto
qed

section \<open>The stores\<close>

definition ss_ok :: "('b, 'st) store_set \<Rightarrow> bool" where
  "ss_ok s \<longleftrightarrow> dom (ss_stores s) = dom (ss_backends s)"

lemma ss_get_cases:
  assumes "ss_get ns s = Inr (st, s')"
  shows "ss_stores s' ns = Some st" "ss_stores s \<subseteq>\<^sub>m ss_stores s'"
    and "ss_retention s' = ss_retention s" "ss_scrubber s' = ss_scrubber s"
  using assms by (auto simp: ss_get_def map_le_def split: option.splits sum.splits)

lemma ss_get_ok:
  assumes "ss_get ns s = Inr (st, s')" "ss_ok s"
  shows "ss_ok s'"
proof (cases "ss_stores s ns")
  case None
  then obtain b where "s' = s\<lparr>ss_stores := (ss_stores s)(ns \<mapsto> st), ss_backends := (ss_backends s)(ns \<mapsto> b)\<rparr>"
    using assms(1) by (auto simp: ss_get_def split: sum.splits)
  then show ?thesis using assms(2) by (simp add: ss_ok_def)
qed (use assms in \<open>simp add: ss_get_def\<close>)

lemma open_groups_cases:
  assumes "open_groups gs s gm = Inr (gm', s')" "distinct (map fst gs)"
  shows "ss_stores s \<subseteq>\<^sub>m ss_stores s' \<and> ss_retention s' = ss_retention s \<and> ss_scrubber s' = ss_scrubber s \<and>
    (\<forall>chat. (case map_of gs chat of None \<Rightarrow> gm' chat = gm chat
       | Some ns \<Rightarrow> \<exists>st. ss_stores s' ns = Some st \<and> gm' chat = Some (Some st)))"
  using assms
proof (induction gs arbitrary: s gm)
  case Nil
  then show ?case by simp
next
  case (Cons g gs)
  obtain chat ns where g: "g = (chat, ns)" by (cases g)
  obtain st s1 where st: "ss_get ns s = Inr (st, s1)" "open_groups gs s1 (gm(chat \<mapsto> Some st)) = Inr (gm', s')"
    using Cons.prems(1) g by (auto split: sum.splits)
  have d: "distinct (map fst gs)" "map_of gs chat = None" using Cons.prems(2) g by (auto simp: map_of_eq_None_iff)
  note ih = Cons.IH [OF st(2) d(1)]
  note get = ss_get_cases [OF st(1)]
  have le: "ss_stores s1 \<subseteq>\<^sub>m ss_stores s'" using ih by blast
  then have "ss_stores s' ns = Some st" using get(1) by (simp add: map_le_def dom_def)
  moreover have "case map_of gs chat of None \<Rightarrow> gm' chat = (gm(chat \<mapsto> Some st)) chat
      | Some ns \<Rightarrow> \<exists>st. ss_stores s' ns = Some st \<and> gm' chat = Some (Some st)" using ih by blast
  then have "gm' chat = Some (Some st)" using d(2) by simp
  moreover have "ss_stores s \<subseteq>\<^sub>m ss_stores s'" using get(2) le map_le_trans by blast
  moreover have "case map_of (g # gs) ch of None \<Rightarrow> gm' ch = gm ch
      | Some ns \<Rightarrow> \<exists>st. ss_stores s' ns = Some st \<and> gm' ch = Some (Some st)" for ch
  proof (cases "ch = chat")
    case True
    then show ?thesis using calculation(1) \<open>gm' chat = Some (Some st)\<close> by (simp add: g)
  next
    case False
    have "case map_of gs ch of None \<Rightarrow> gm' ch = (gm(chat \<mapsto> Some st)) ch
        | Some ns \<Rightarrow> \<exists>st. ss_stores s' ns = Some st \<and> gm' ch = Some (Some st)" using ih by blast
    with False show ?thesis by (simp add: g split: option.splits)
  qed
  ultimately show ?case using ih get(3,4) by simp
qed

lemma ns_Dropped_ok:
  assumes "ns_Dropped io ns now r = (Inr t, r')" "ns \<in> set (ns_Namespaces r)" "ns_wf r" "ns_saved r" "now \<noteq> 0"
  shows "ns_wf r'" "ns_saved r'" "set (ns_Namespaces r') = set (ns_Namespaces r)" "t \<noteq> 0"
proof -
  have st: "ns_step r (NsDropped io ns now) = (True, r')" using assms(1) by simp
  show "ns_wf r'" "ns_saved r'" using ns_wf_step [OF assms(3) st] ns_saved_step [OF assms(4) st] by blast+
  show "t \<noteq> 0" using assms(1,5) by (auto simp: ns_Dropped_def is_zero_def split: if_splits prod.splits option.splits)
  show "set (ns_Namespaces r') = set (ns_Namespaces r)"
  proof -
    have "set (map fst (bk_put ns now (nr_dropped r))) = set (map fst (nr_dropped r))"
      using assms(2) by (simp only: keys_bk_put ns_Namespaces_def insert_absorb)
    moreover have "nr_dropped r' = nr_dropped r \<or> nr_dropped r' = bk_put ns now (nr_dropped r)"
      using assms(1) by (auto simp: ns_Dropped_def split: if_splits prod.splits option.splits dest!: ns_save_cases(1))
    ultimately show ?thesis unfolding ns_Namespaces_def by metis
  qed
qed

lemma sorted_same_set: "bk_wf a \<Longrightarrow> bk_wf b \<Longrightarrow> set (map fst a) = set (map fst b) \<Longrightarrow> map fst a = map fst b"
  unfolding bk_wf_def by (metis strict_sorted_equal)

definition purger_for :: "duration \<Rightarrow> duration \<Rightarrow> string set \<Rightarrow> ns_purge \<Rightarrow> bool" where
  "purger_for retention window configured p \<longleftrightarrow> np_Retention p = retention \<and> np_Window p = window \<and>
     (np_Dropped p = 0 \<longleftrightarrow> np_Namespace p \<in> configured)"

lemma cover_namespaces_ok:
  assumes "cover_namespaces dio configured window now nss s (stores, purgers) r = (Inr (stores', purgers'), r')"
    and "ns_wf r" "ns_saved r" "set nss \<subseteq> set (ns_Namespaces r)" "now \<noteq> 0"
  shows "ns_wf r' \<and> ns_saved r' \<and> set (ns_Namespaces r') = set (ns_Namespaces r) \<and>
    map (\<lambda>p. np_Namespace (fst p)) purgers' = map (\<lambda>p. np_Namespace (fst p)) purgers @ nss \<and>
    (\<forall>p \<in> set purgers' - set purgers. purger_for (ss_retention s) window configured (fst p)) \<and>
    (\<forall>ns. if ns \<in> set nss then stores' ns \<noteq> None \<and> (\<forall>st. ss_stores s ns = Some st \<longrightarrow> stores' ns = Some st)
       else stores' ns = stores ns)"
  using assms
proof (induction nss arbitrary: s stores purgers r)
  case Nil
  then show ?case by simp
next
  case (Cons ns nss)
  obtain st s1 where st: "ss_get ns s = Inr (st, s1)" using Cons.prems(1) by (auto split: sum.splits)
  obtain t r1 where d: "(if ns \<in> configured then (Inr 0, r) else ns_Dropped (dio ns) ns now r) = (Inr t, r1)"
    using Cons.prems(1) by (auto simp: st split: sum.splits prod.splits if_splits)
  let ?p = "\<lparr>np_Namespace = ns, np_Retention = ss_retention s1, np_Window = window, np_Dropped = t\<rparr>"
  have run: "cover_namespaces dio configured window now nss s1 (stores(ns \<mapsto> st), purgers @ [(?p, the (ss_backends s1 ns))]) r1 =
      (Inr (stores', purgers'), r')"
    using Cons.prems(1) by (simp only: cover_namespaces.simps st d sum.case prod.case ss_get_cases(3) [OF st])
  have r1: "ns_wf r1 \<and> ns_saved r1 \<and> set (ns_Namespaces r1) = set (ns_Namespaces r) \<and> (t = 0 \<longleftrightarrow> ns \<in> configured)"
    using d Cons.prems(2-5) ns_Dropped_ok [of "dio ns" ns now r t r1] by (auto split: if_splits)
  have "set nss \<subseteq> set (ns_Namespaces r1)" using r1 Cons.prems(4) by auto
  note ih = Cons.IH [OF run conjunct1 [OF r1] _ this Cons.prems(5)]
  have sv: "ns_saved r1" using r1 by blast
  note ih = ih [OF sv]
  note get = ss_get_cases [OF st]
  have le: "\<forall>n st'. ss_stores s n = Some st' \<longrightarrow> ss_stores s1 n = Some st'"
    using get(2) by (auto simp: map_le_def dom_def)
  have p: "purger_for (ss_retention s) window configured ?p"
    using r1 get(3) by (simp add: purger_for_def)
  have all: "if n \<in> set (ns # nss) then stores' n \<noteq> None \<and> (\<forall>st. ss_stores s n = Some st \<longrightarrow> stores' n = Some st)
       else stores' n = stores n" for n
  proof (cases "n \<in> set nss")
    case True
    then show ?thesis using ih le by simp
  next
    case False
    then have "stores' n = (stores(ns \<mapsto> st)) n" using ih by (simp split: if_splits)
    then show ?thesis using False get(1) le by auto
  qed
  have ps: "\<forall>q \<in> set purgers' - set purgers. purger_for (ss_retention s) window configured (fst q)"
    using ih p get(3) by auto
  show ?case using ih r1 all ps by simp
qed

section \<open>All of it is on record\<close>

lemma ns_Configured_ok:
  assumes "ns_Configured io nss r = (None, r')" "ns_wf r"
  shows "ns_wf r'" "ns_saved r'" "set (ns_Namespaces r') = set (ns_Namespaces r) \<union> set nss"
proof -
  have st: "ns_step r (NsConfigured io nss) = (True, r')" using assms(1) by simp
  show "ns_wf r'" by (rule ns_wf_step [OF assms(2) st])
  show "ns_saved r'" using assms(1) by (auto simp: ns_Configured_def dest: ns_save_None)
  have keys: "set (map fst (foldl (\<lambda>m ns. bk_put ns 0 m) m nss)) = set (map fst m) \<union> set nss" for m :: "(string \<times> time) list"
    by (induction nss arbitrary: m) (simp_all add: keys_bk_put del: set_map)
  have "nr_dropped r' = foldl (\<lambda>m ns. bk_put ns 0 m) (nr_dropped r) nss"
    using assms(1) by (auto simp: ns_Configured_def dest: ns_save_cases(1))
  then show "set (ns_Namespaces r') = set (ns_Namespaces r) \<union> set nss" by (simp only: ns_Namespaces_def keys)
qed

definition configured :: "string \<Rightarrow> (string \<times> string) list \<Rightarrow> string set" where
  "configured namespace grps = insert namespace (snd ` set grps)"

lemma newLongMemory_ok:
  assumes "newLongMemory ordg ordn cio dio s namespace grps window now r = (Inr lm, r')"
    and s: "ss_stores s = Map.empty" and ordg: "mset (ordg grps) = mset grps"
    and ordn: "mset (ordn (remdups (namespace # map snd grps))) = mset (remdups (namespace # map snd grps))"
    and "distinct (map fst grps)" "ns_wf r" "now \<noteq> 0"
  shows "ls_stores lm (case map_of grps chat of Some ns \<Rightarrow> ns | None \<Rightarrow> namespace) = Some (storeFor (ls_memory lm) chat)"
    and "set (ns_Namespaces r') = set (ns_Namespaces r) \<union> configured namespace grps" "ns_saved r'" "ns_wf r'"
    and "ns \<in> set (ns_Namespaces r') \<Longrightarrow> ls_stores lm ns \<noteq> None"
    and "map (\<lambda>p. np_Namespace (fst p)) (ls_purgers lm) = ns_Namespaces r'"
    and "p \<in> set (ls_purgers lm) \<Longrightarrow> purger_for (ss_retention s) window (configured namespace grps) (fst p)"
proof -
  obtain st s1 gm s2 r1 stores purgers where g: "ss_get namespace s = Inr (st, s1)" "open_groups (ordg grps) s1 Map.empty = Inr (gm, s2)"
    and c: "ns_Configured cio (ordn (remdups (namespace # map snd grps))) r = (None, r1)"
    and k: "cover_namespaces dio (configured namespace grps) window now (ns_Namespaces r1) s2 (Map.empty, []) r1 = (Inr (stores, purgers), r')"
    and lm: "lm = \<lparr>ls_memory = \<lparr>lm_Store = st, lm_Groups = gm, lm_Window = window, lm_Scrubber = ss_scrubber s, lm_withdrawn = Map.empty\<rparr>,
        ls_purgers = purgers, ls_stores = stores\<rparr>"
    using assms(1) by (auto simp: newLongMemory_def Let_def configured_def split: sum.splits prod.splits option.splits)
  have names: "set (ordn (remdups (namespace # map snd grps))) = configured namespace grps"
    using mset_eq_setD [OF ordn] by (auto simp: configured_def)
  note r1 = ns_Configured_ok [OF c assms(6), unfolded names]
  have d: "distinct (map fst (ordg grps))"
    using assms(5) ordg by (metis mset_eq_imp_distinct_iff mset_map)
  note og = open_groups_cases [OF g(2) d]
  note get = ss_get_cases [OF g(1)]
  have mo: "map_of (ordg grps) = map_of grps"
    using d assms(5) mset_eq_setD [OF ordg] by (metis map_of_inject_set)
  have "case map_of (ordg grps) chat of None \<Rightarrow> gm chat = Map.empty chat
      | Some ns \<Rightarrow> \<exists>st. ss_stores s2 ns = Some st \<and> gm chat = Some (Some st)" using og by blast
  then have ogc: "case map_of grps chat of None \<Rightarrow> gm chat = None
      | Some ns \<Rightarrow> \<exists>st. ss_stores s2 ns = Some st \<and> gm chat = Some (Some st)" unfolding mo .
  have st2: "ss_stores s2 namespace = Some st"
    using get(1) og by (auto simp: map_le_def dom_def)
  note kk = cover_namespaces_ok [OF k r1(1,2) order_refl assms(7)]
  show "ns_saved r'" "ns_wf r'" using kk by blast+
  show n: "set (ns_Namespaces r') = set (ns_Namespaces r) \<union> configured namespace grps"
    using kk r1(3) by blast
  have same: "ns_Namespaces r' = ns_Namespaces r1"
    using kk r1(1) sorted_same_set [of "nr_dropped r'" "nr_dropped r1"] unfolding ns_wf_def ns_Namespaces_def by metis
  show "map (\<lambda>p. np_Namespace (fst p)) (ls_purgers lm) = ns_Namespaces r'"
    using kk by (simp add: lm same)
  show "p \<in> set (ls_purgers lm) \<Longrightarrow> purger_for (ss_retention s) window (configured namespace grps) (fst p)"
    using kk og get(3) by (simp add: lm)
  have all: "stores ns \<noteq> None \<and> (\<forall>st. ss_stores s2 ns = Some st \<longrightarrow> stores ns = Some st)" if "ns \<in> set (ns_Namespaces r1)" for ns
    using kk that by (auto split: if_splits)
  then show "ns \<in> set (ns_Namespaces r') \<Longrightarrow> ls_stores lm ns \<noteq> None" unfolding same by (simp add: lm)
  show "ls_stores lm (case map_of grps chat of Some ns \<Rightarrow> ns | None \<Rightarrow> namespace) = Some (storeFor (ls_memory lm) chat)"
  proof (cases "map_of grps chat")
    case None
    then have "gm chat = None" using ogc by simp
    moreover have "namespace \<in> set (ns_Namespaces r1)" using r1(3) by (simp add: configured_def)
    ultimately show ?thesis using all st2 by (simp add: lm storeFor_def None)
  next
    case (Some ns)
    then obtain st' where st': "ss_stores s2 ns = Some st'" "gm chat = Some (Some st')" using ogc by auto
    moreover have "ns \<in> set (ns_Namespaces r1)" using r1(3) map_of_SomeD [OF Some] by (force simp: configured_def)
    ultimately show ?thesis using all by (simp add: lm storeFor_def Some)
  qed
qed

text \<open>A store's delete that succeeds leaves nothing of the user in it; deleting adds nothing anywhere and
  takes nothing of anyone else.\<close>

definition store_deletes :: "('st \<Rightarrow> string \<Rightarrow> 'm \<Rightarrow> error option \<times> 'm) \<Rightarrow> ('m \<Rightarrow> 'st \<Rightarrow> string set) \<Rightarrow> bool" where
  "store_deletes delete held \<longleftrightarrow> (\<forall>st u e err e'. delete st u e = (err, e') \<longrightarrow>
     (err = None \<longrightarrow> u \<notin> held e' st) \<and> (\<forall>st'. held e' st' \<subseteq> held e st' \<and> held e st' - {u} \<subseteq> held e' st'))"

lemma eraser_deletes:
  assumes "store_deletes delete held"
  shows "subject_deletes (eraser delete lm) u (\<lambda>e ns. case ls_stores lm ns of None \<Rightarrow> {} | Some st \<Rightarrow> held e st)"
  using assms unfolding subject_deletes_def store_deletes_def eraser_def
  by (auto split: option.splits) blast+

text \<open>The orders Go ranges over its maps in are orders of the same elements; the record's file is one a
  record wrote; the clock is set.\<close>

definition memory_outside_ok :: "('b, 'st) memory_outside \<Rightarrow> time \<Rightarrow> bool" where
  "memory_outside_ok mo now \<longleftrightarrow> (\<forall>xs. mset (mo_ordg mo xs) = mset xs) \<and> (\<forall>xs. mset (mo_ordn mo xs) = mset xs) \<and> now \<noteq> 0"

lemma ns_Open_wf: "ns_Open f = Inr m \<Longrightarrow> bk_wf m"
proof -
  have "bk_wf b \<Longrightarrow> bk_wf (foldl (\<lambda>m (ns, e). bk_put ns (case e of None \<Rightarrow> 0 | Some t \<Rightarrow> t) m) b es)" for b :: "(string \<times> time) list" and es
    by (induction es arbitrary: b) (auto split: prod.splits)
  then show "ns_Open f = Inr m \<Longrightarrow> bk_wf m" by (auto simp: ns_Open_def split: file_read.splits)
qed

lemma buildLongMemory_ok:
  assumes "buildLongMemory mo now c = (Inr (Some lm), Some r)" "memory_outside_ok mo now"
  obtains grps m where "parseGroupNamespaces (sv_LongMemoryGroupNamespaces c) = Inr grps" "ns_Open (mo_file mo) = Inr m"
    "\<And>chat. ls_stores lm (case map_of grps chat of Some ns \<Rightarrow> ns | None \<Rightarrow> sv_LongMemoryNamespace c) = Some (storeFor (ls_memory lm) chat)"
    "set (ns_Namespaces r) = fst ` set m \<union> configured (sv_LongMemoryNamespace c) grps" "ns_saved r"
    "\<And>ns. ns \<in> set (ns_Namespaces r) \<Longrightarrow> ls_stores lm ns \<noteq> None"
    "map (\<lambda>p. np_Namespace (fst p)) (ls_purgers lm) = ns_Namespaces r"
    "\<And>p. p \<in> set (ls_purgers lm) \<Longrightarrow>
       purger_for (sv_LongMemoryRetention c) (sv_LongMemoryWindow c) (configured (sv_LongMemoryNamespace c) grps) (fst p)"
  using assms(1)
proof (cases rule: buildLongMemory_cases)
  case (1 grps vals m r')
  have r': "r' = r" using 1(6) by simp
  have "distinct (map fst grps)" using group_namespaces_distinct 1(3) by (fastforce simp: parseGroupNamespaces_def)
  moreover have "ns_wf \<lparr>nr_dropped = m, nr_disk = (case mo_file mo of ReadFile es \<Rightarrow> Some es | _ \<Rightarrow> None)\<rparr>"
    using ns_Open_wf [OF 1(5)] by (simp add: ns_wf_def)
  moreover have "mset (mo_ordg mo xs) = mset xs" "mset (mo_ordn mo ys) = mset ys" "now \<noteq> 0" for xs ys
    using assms(2) by (auto simp: memory_outside_ok_def)
  ultimately show ?thesis
    using that [OF 1(3) 1(5)] newLongMemory_ok [OF 1(8) [unfolded r']] by (simp add: ns_Namespaces_def)
qed


section \<open>memory erase\<close>

lemma erase_all_others:
  assumes "store_deletes delete held" "erase_all (eraser delete lm) u nss e = (rs, e')"
  shows "held e st - {u} \<subseteq> held e' st \<and> held e' st \<subseteq> held e st"
  using assms(2)
proof (induction nss arbitrary: e rs)
  case (Cons ns nss)
  obtain err e1 where d: "(case eraser delete lm ns of None \<Rightarrow> (Some ErrNoStore, e) | Some d \<Rightarrow> d u e) = (err, e1)"
    by (metis prod.exhaust)
  have "held e st - {u} \<subseteq> held e1 st \<and> held e1 st \<subseteq> held e st"
    using d assms(1) by (cases "ls_stores lm ns") (auto simp: eraser_def store_deletes_def)
  moreover obtain rs' where "erase_all (eraser delete lm) u nss e1 = (rs', e')"
    using Cons.prems d by (auto split: prod.splits)
  ultimately show ?case using Cons.IH by blast
qed simp

lemma erase_each_ok:
  assumes "store_deletes delete held"
    and "erase_each show_error (\<lambda>u (lmo, e). Erase (eraser delete lm) u r (lmo, e)) us (b, failed) (lmo, mem) = ((b', failed'), lmo', mem')"
  shows "failed \<le> failed' \<and> (\<forall>st. held mem' st \<subseteq> held mem st \<and> held mem st - set us \<subseteq> held mem' st) \<and>
    (failed' = failed \<longrightarrow> (\<forall>u \<in> set us. \<forall>ns \<in> set (ns_Namespaces r). \<exists>st. ls_stores lm ns = Some st \<and> u \<notin> held mem' st))"
  using assms(2)
proof (induction us arbitrary: b failed lmo mem)
  case Nil
  then show ?case by simp
next
  case (Cons u us)
  obtain rs lmo1 mem1 where e: "Erase (eraser delete lm) u r (lmo, mem) = (rs, lmo1, mem1)" by (metis prod.exhaust)
  let ?n = "length (filter (\<lambda>r. er_Err r \<noteq> None) rs)"
  have run: "erase_each show_error (\<lambda>u (lmo, e). Erase (eraser delete lm) u r (lmo, e)) us
      (b @ concat (map (erase_line show_error u) rs), failed + ?n) (lmo1, mem1) = ((b', failed'), lmo', mem')"
    using Cons.prems e by simp
  note ih = Cons.IH [OF run]
  have all: "erase_all (eraser delete lm) u (ns_Namespaces r) mem = (rs, mem1)" using e by (simp add: Erase_cases)
  note gone = erase_all_gone [OF eraser_deletes [OF assms(1)] all]
  have others: "held mem st - {u} \<subseteq> held mem1 st \<and> held mem1 st \<subseteq> held mem st" for st
    by (rule erase_all_others [OF assms(1) all])
  have "\<exists>st. ls_stores lm ns = Some st \<and> u \<notin> held mem' st" if f: "failed' = failed" and n: "ns \<in> set (ns_Namespaces r)" for ns
  proof -
    have "?n = 0" using f ih by linarith
    then have "Erased rs" by (auto simp: Erased_def filter_empty_conv)
    then obtain st where "ls_stores lm ns = Some st" "u \<notin> held mem1 st"
      using gone n by (fastforce simp: eraser_def split: option.splits)
    then show ?thesis using ih by blast
  qed
  moreover have "held mem' st \<subseteq> held mem st \<and> held mem st - set (u # us) \<subseteq> held mem' st" for st
  proof -
    have "held mem' st \<subseteq> held mem1 st \<and> held mem1 st - set us \<subseteq> held mem' st" using ih by blast
    with others [of st] show ?thesis by auto
  qed
  moreover have "failed' = failed \<longrightarrow> failed' = failed + ?n" "failed \<le> failed'" using ih by linarith+
  ultimately show ?case using ih by simp
qed

lemma unconsented_scan_ok: "acl_unconsented_scan db = Inr us \<Longrightarrow>
    set us = {u. \<exists>rec. (u, Blob rec) \<in> set db \<and> rec_Consent rec \<noteq> ConsentGranted}"
  by (induction db arbitrary: us rule: acl_unconsented_scan.induct) (auto split: sum.splits if_splits)

text \<open>Whom the command is to erase.\<close>

definition erase_targets :: "acl_db result \<Rightarrow> string list \<Rightarrow> bool \<Rightarrow> string set" where
  "erase_targets acl us unconsented =
     (if unconsented then {u. \<exists>db rec. acl = Inr db \<and> (u, Blob rec) \<in> set db \<and> rec_Consent rec \<noteq> ConsentGranted} else set us)"


section \<open>A memory that starts\<close>

definition demo_outside :: "(string, string) memory_outside" where
  "demo_outside = \<lparr>mo_resolve = (\<lambda>_. SecretMissing), mo_open = (\<lambda>o'. Inr (ho_Namespace o')), mo_new = (\<lambda>ns b ret sc. Inr ns),
     mo_scrubber = id, mo_file = ReadFile [(''old'', None)], mo_ordg = id, mo_ordn = rev, mo_cio = SaveDone, mo_dio = (\<lambda>_. SaveDone)\<rparr>"

definition demo_delete :: "string \<Rightarrow> string \<Rightarrow> (string \<times> string) list \<Rightarrow> error option \<times> (string \<times> string) list" where
  "demo_delete st u e = (None, filter (\<lambda>x. x \<noteq> (st, u)) e)"

definition demo_held :: "(string \<times> string) list \<Rightarrow> string \<Rightarrow> string set" where
  "demo_held e st = {u. (st, u) \<in> set e}"

lemma demo_store_deletes: "store_deletes demo_delete demo_held"
  by (auto simp: store_deletes_def demo_delete_def demo_held_def)

lemma demo_outside_ok: "memory_outside_ok demo_outside 5"
  by (simp add: memory_outside_ok_def demo_outside_def)

lemma demo_group: "parseGroupNamespaces (sv_LongMemoryGroupNamespaces demo_cmd) = Inr [(''-100'', ''club'')]"
  by (simp add: parseGroupNamespaces_def demo_cmd_def Cut_def TrimSpace_ascii is_space_def)

definition demo_setup_lm :: "(string, string) long_memory_setup" where
  "demo_setup_lm = \<lparr>ls_memory = \<lparr>lm_Store = ''grove'', lm_Groups = [''-100'' \<mapsto> Some ''club''], lm_Window = 24 * hour,
       lm_Scrubber = Some id, lm_withdrawn = Map.empty\<rparr>,
     ls_purgers = map (\<lambda>(n, d). (\<lparr>np_Namespace = n, np_Retention = 48 * hour, np_Window = 24 * hour, np_Dropped = d\<rparr>, n))
       [(''club'', 0), (''grove'', 0), (''old'', 5)],
     ls_stores = [''club'' \<mapsto> ''club'', ''grove'' \<mapsto> ''grove'', ''old'' \<mapsto> ''old'']\<rparr>"

definition demo_record :: ns_record where
  "demo_record = \<lparr>nr_dropped = [(''club'', 0), (''grove'', 0), (''old'', 5)],
     nr_disk = Some [(''club'', None), (''grove'', None), (''old'', Some 5)]\<rparr>"

lemma demo_lm_built: "buildLongMemory demo_outside 5 demo_cmd = (Inr (Some demo_setup_lm), Some demo_record)"
proof -
  have "check_long_memory demo_cmd = None"
    by (simp add: check_long_memory_def demo_cmd_def minLongMemoryWindow_def go_rem_def duration_defs)
  moreover have "resolve_secrets (mo_resolve demo_outside) processSecrets Map.empty = Inr Map.empty"
    by (simp add: processSecrets_def demo_outside_def)
  moreover have "ns_Open (mo_file demo_outside) = Inr [(''old'', 0)]" by (simp add: ns_Open_def demo_outside_def)
  moreover have "json_time_ok 5" by (simp add: json_time_ok_def duration_defs)
  ultimately show ?thesis
    by (simp add: buildLongMemory_def demo_group Let_def)
      (simp add: demo_outside_def demo_cmd_def newLongMemory_def ss_get_def Let_def ns_Configured_def ns_save_def
        ns_Namespaces_def less_char_def is_zero_def ns_file_def ns_Dropped_def ns_lookup_def honcho_of_def
        demo_setup_lm_def demo_record_def fun_eq_iff)
qed

theorem long_memory_starts_whole_witness:
  "boundary (24 * hour) (PurgeCut (unix_epoch + 99 * hour) (24 * hour) (48 * hour))"
proof -
  have "modern (unix_epoch + 99 * hour)" by (simp add: modern_def duration_defs duration_bounds)
  then show ?thesis using long_memory_starts_whole(2) [OF demo_lm_built] by (simp add: demo_cmd_def)
qed


definition demo_unconsented :: acl_db where
  "demo_unconsented = [(''42'', Blob (zero_record ''42'')), (''7'', Blob ((zero_record ''7'')\<lparr>rec_Consent := ConsentGranted\<rparr>))]"


end
