(* ===== verification/AnswerRun_Props.thy ===== *)
theory AnswerRun_Props
  imports AnswerRun
begin

text \<open>
  What the calls of any number of answers at once cost: the meter counts every token the provider
  reported, a call starts only while the period's tokens are below the ceiling, and the overshoot is
  bounded by the calls in flight. And one answer alone is a run of the fleet, so the bound is one on the
  engine's answers.
\<close>

section \<open>What the provider reported\<close>

fun event_tokens :: "'q fleet_event \<Rightarrow> int" where
  "event_tokens (Replied i t n) = max 0 (sint n)"
| "event_tokens (Lost i n) = max 0 (sint n)"
| "event_tokens _ = 0"

definition used_in :: "'q fleet_event list \<Rightarrow> int" where
  "used_in tr = sum_list (map event_tokens tr)"

fun event_time :: "'q fleet_event \<Rightarrow> time option" where
  "event_time (Denied i t) = Some t"
| "event_time (Called i t q) = Some t"
| "event_time (Replied i t n) = Some t"
| "event_time _ = None"

definition within_period :: "meter \<Rightarrow> 'q fleet_event \<Rightarrow> bool" where
  "within_period m ev \<longleftrightarrow> (case event_time ev of None \<Rightarrow> True | Some t \<Rightarrow> time_sub t (m_start m) < m_period m)"

fun in_call :: "'q slot \<Rightarrow> bool" where
  "in_call (InCall k) = True"
| "in_call (Thinking run) = False"

definition in_flight :: "('q, 's) fleet \<Rightarrow> nat" where
  "in_flight st = length (filter in_call (fl_slots st))"

lemma used_in_simps [simp]: "used_in [] = 0" "used_in (ev # tr) = event_tokens ev + used_in tr"
  "used_in (tr @ tr') = used_in tr + used_in tr'"
  by (simp_all add: used_in_def)

lemma event_tokens_nonneg [simp]: "0 \<le> event_tokens ev"
  by (cases ev) simp_all

lemma length_filter_update: "i < length xs \<Longrightarrow>
    int (length (filter P (xs[i := y]))) = int (length (filter P xs)) + of_bool (P y) - of_bool (P (xs ! i))"
proof (induction xs arbitrary: i)
  case (Cons x xs)
  then show ?case by (cases i) auto
qed simp

lemma in_flight_put [simp]: "i < length (fl_slots st) \<Longrightarrow>
    int (in_flight (put_slot i run st)) = int (in_flight st) - of_bool (in_call (fl_slots st ! i))"
  by (simp add: in_flight_def put_slot_def length_filter_update)

lemma in_flight_le: "in_flight st \<le> length (fl_slots st)"
  by (simp add: in_flight_def)

lemma put_slot_fields [simp]: "fl_meter (put_slot i run st) = fl_meter st" "fl_store (put_slot i run st) = fl_store st"
  "length (fl_slots (put_slot i run st)) = length (fl_slots st)"
  "fl_slots (put_slot i run st) = (fl_slots st)[i := Thinking run]"
  by (simp_all add: put_slot_def)

lemma in_flight_fields [simp]: "in_flight (st\<lparr>fl_meter := m\<rparr>) = in_flight st" "in_flight (st\<lparr>fl_store := s\<rparr>) = in_flight st"
  by (simp_all add: in_flight_def)

locale usage_keeper =
  fixes native :: "model_response result \<Rightarrow> model_response result"
  assumes usage_kept: "native (Inr resp) = Inr resp' \<Longrightarrow> used_tokens resp' = used_tokens resp"
begin

text \<open>
  Inside one period of the meter \<open>m0\<close>, from a spend \<open>s0\<close>: the meter holds what the provider reported so
  far, \<open>n\<close>, and what can still be reported for calls in flight stays within the bound.
\<close>

definition paid :: "meter \<Rightarrow> int \<Rightarrow> ('q, 's) fleet \<Rightarrow> int \<Rightarrow> bool" where
  "paid m0 c st n \<longleftrightarrow> (let ceil = sint (m_ceiling m0); s0 = sint (m_spent m0); m = fl_meter st in
     m_ceiling m = m_ceiling m0 \<and> m_period m = m_period m0 \<and> m_start m = m_start m0 \<and> sint (m_spent m) = s0 + n \<and> 0 \<le> n \<and>
     s0 + n + int (in_flight st) * c \<le> max s0 (ceil - 1) + int (length (fl_slots st)) * c)"

lemma allow_in_period: "time_sub t (m_start m) < m_period m \<Longrightarrow>
    meter_Allow save io t m s = (sint (m_spent m) < sint (m_ceiling m), m, s)"
  by (simp add: meter_Allow_def rollLocked_def)

lemma record_in_period: "time_sub t (m_start m) < m_period m \<Longrightarrow>
    fst (snd (meter_Record save ir io t n m s)) = m\<lparr>m_spent := m_spent m + (if sint n < 0 then 0 else n)\<rparr>"
  by (simp add: meter_Record_def rollLocked_def Let_def split: prod.splits)

lemma paid_allow: "paid m0 c st n \<Longrightarrow> time_sub t (m_start m0) < m_period m0 \<Longrightarrow>
    meter_Allow save io t (fl_meter st) (fl_store st) = (sint (m_spent m0) + n < sint (m_ceiling m0), fl_meter st, fl_store st)"
  by (subst allow_in_period) (auto simp: paid_def Let_def)

lemma paid_step:
  assumes "fleet_step save native st ev st'" and "paid m0 c st n" and "within_period m0 ev" and "\<And>i k. ev \<noteq> Lost i k"
    and "event_tokens ev \<le> c" and "0 \<le> c" and "0 \<le> sint (m_spent m0)"
    and "max (sint (m_spent m0)) (sint (m_ceiling m0) - 1) + int (length (fl_slots st)) * c < 2 ^ 63"
  shows "paid m0 c st' (n + event_tokens ev) \<and> length (fl_slots st') = length (fl_slots st) \<and>
    (\<forall>i t q. ev = Called i t q \<longrightarrow> sint (m_spent m0) + n < sint (m_ceiling m0))"
  using assms(1)
proof cases
  case (call i q k io t m s)
  have al: "meter_Allow save io t (fl_meter st) (fl_store st) = (sint (m_spent m0) + n < sint (m_ceiling m0), fl_meter st, fl_store st)"
    using paid_allow [OF assms(2)] assms(3) call(1) by (simp add: within_period_def)
  have fl: "int (in_flight st') = int (in_flight st) + 1" using call(2-4) by (simp add: in_flight_def length_filter_update)
  have len: "length (fl_slots st') = length (fl_slots st)" using call(2) by simp
  have "int (in_flight st') * c \<le> int (length (fl_slots st)) * c"
    using in_flight_le [of st'] len assms(6) by (intro mult_right_mono) auto
  then show ?thesis using call al assms(2) len by (auto simp: paid_def Let_def)
next
  case (answer i k resp resp' ir io t e m s)
  let ?u = "used_tokens resp"
  have m: "m = (fl_meter st)\<lparr>m_spent := m_spent (fl_meter st) + (if sint ?u < 0 then 0 else ?u)\<rparr>"
    using record_in_period [of t "fl_meter st" save ir io "?u" "fl_store st"] assms(2,3) answer usage_kept [OF answer(5)]
    by (simp add: paid_def within_period_def Let_def)
  have k: "int (in_flight st') = int (in_flight st) - 1" using answer by simp
  have b: "sint (m_spent m0) + n + int (in_flight st) * c \<le> max (sint (m_spent m0)) (sint (m_ceiling m0) - 1) + int (length (fl_slots st)) * c"
    using assms(2) by (simp add: paid_def Let_def)
  have d: "int (in_flight st) * c = int (in_flight st') * c + c" by (simp add: k left_diff_distrib)
  have u: "max 0 (sint ?u) \<le> c" using assms(5) answer(1) by simp
  have "0 \<le> int (in_flight st') * c" using assms(6) by simp
  then have small: "sint (m_spent m0) + n + max 0 (sint ?u) < 2 ^ 63" using b d u assms(8) by linarith
  have "sint (m_spent m) = sint (m_spent m0) + n + max 0 (sint ?u)"
    using sint_add_small [of "m_spent (fl_meter st)" "if sint ?u < 0 then 0 else ?u"] small assms(2,7)
    by (auto simp: m paid_def Let_def max_def split: if_splits)
  then show ?thesis using answer assms(2) b d u by (auto simp: paid_def Let_def m)
next
  case (refuse i q k io t m s)
  have "m = fl_meter st" using paid_allow [OF assms(2), of t save io] assms(3) refuse by (simp add: within_period_def)
  then show ?thesis using assms(2) refuse by (auto simp: paid_def Let_def)
qed (use assms in \<open>auto simp: paid_def Let_def left_diff_distrib\<close>)

lemma paid_run:
  assumes "fleet_run save native st tr st'" and "paid m0 c st n" and "\<And>ev. ev \<in> set tr \<Longrightarrow> within_period m0 ev"
    and "\<And>ev. ev \<in> set tr \<Longrightarrow> event_tokens ev \<le> c" and "\<And>i k. Lost i k \<notin> set tr" and "0 \<le> c" "0 \<le> sint (m_spent m0)"
    and "max (sint (m_spent m0)) (sint (m_ceiling m0) - 1) + int (length (fl_slots st)) * c < 2 ^ 63"
  shows "paid m0 c st' (n + used_in tr) \<and> length (fl_slots st') = length (fl_slots st) \<and>
    (\<forall>pre i t q post. tr = pre @ Called i t q # post \<longrightarrow> sint (m_spent m0) + n + used_in pre < sint (m_ceiling m0))"
  using assms(1-5,8)
proof (induction arbitrary: n rule: fleet_run.induct)
  case (step st ev st' tr st'')
  have "paid m0 c st' (n + event_tokens ev) \<and> length (fl_slots st') = length (fl_slots st) \<and>
      (\<forall>i t q. ev = Called i t q \<longrightarrow> sint (m_spent m0) + n < sint (m_ceiling m0))"
    by (rule paid_step [OF step.hyps(1) step.prems(1)]) (use step.prems assms(6,7) in auto)
  then have one: "paid m0 c st' (n + event_tokens ev)" "length (fl_slots st') = length (fl_slots st)"
      "\<forall>i t q. ev = Called i t q \<longrightarrow> sint (m_spent m0) + n < sint (m_ceiling m0)" by blast+
  have rest: "paid m0 c st'' (n + event_tokens ev + used_in tr) \<and> length (fl_slots st'') = length (fl_slots st') \<and>
      (\<forall>pre i t q post. tr = pre @ Called i t q # post \<longrightarrow> sint (m_spent m0) + (n + event_tokens ev) + used_in pre < sint (m_ceiling m0))"
    using step.prems one(2) by (intro step.IH one(1)) auto
  have "sint (m_spent m0) + n + used_in pre < sint (m_ceiling m0)" if "ev # tr = pre @ Called i t q # post" for pre i t q post
    using that rest one(3) by (cases pre) (auto simp: algebra_simps)
  then show ?case using rest one(2) by (auto simp: algebra_simps)
qed simp

lemma paid_start: "0 \<le> c \<Longrightarrow> paid (fl_meter st) c st 0"
  using mult_right_mono [of "int (in_flight st)" "int (length (fl_slots st))" c] in_flight_le [of st]
  by (auto simp: paid_def Let_def)

end

lemma native_usage: "native_response decode marshal (Inr resp) = Inr resp' \<Longrightarrow> used_tokens resp' = used_tokens resp"
  by (auto simp: native_response_def used_tokens_def split: sum.splits)

interpretation recovered: usage_keeper "native_response decode marshal" for decode marshal
  by unfold_locales (rule native_usage)

text \<open>\<^verbatim>\<open>encoding/json\<close> encodes every object it decoded.\<close>

definition marshals :: "(args \<Rightarrow> string result) \<Rightarrow> bool" where
  "marshals marshal \<longleftrightarrow> (\<forall>a. \<exists>s. marshal a = Inr s)"

lemma marshal_calls_total: "marshals marshal \<Longrightarrow> \<exists>out. marshal_calls marshal cs = Inr out"
proof (induction cs)
  case (Cons c cs)
  then obtain s out where "marshal (tc_Arguments c) = Inr s" "marshal_calls marshal cs = Inr out"
    unfolding marshals_def by blast
  then show ?case by simp
qed simp

lemma native_total:
  assumes "marshals marshal"
  shows "native_response decode marshal (Inr resp) \<noteq> Inl e"
proof -
  have "marshal_calls marshal cs \<noteq> Inl e'" for cs e'
    using marshal_calls_total [OF assms, of cs] by auto
  then show ?thesis by (auto simp: native_response_def native_Chat_def split: sum.splits prod.splits)
qed

lemma none_lost: "fleet_run save (native_response decode marshal) st tr st' \<Longrightarrow> marshals marshal \<Longrightarrow> Lost i k \<notin> set tr"
proof (induction rule: fleet_run.induct)
  case (step st ev st' tr st'')
  from step.hyps(1) native_total [OF step.prems] have "ev \<noteq> Lost i k" by cases auto
  then show ?case using step by auto
qed simp

text \<open>C30: The money bound, over everything that is answered at once. Any number of slots answer questions
  over one meter, their model and tool calls interleaved in any way, every write of the meter's store
  going through or failing. While a period lasts, the meter's counter is exactly the tokens the
  provider reported on top of what the period began with; no call to the provider starts once those have
  reached the ceiling; and if no reply costs more than \<open>c\<close> tokens they never exceed
  \<open>ceiling - 1 + slots * c\<close>. (That a decoded argument object encodes again is what \<^verbatim>\<open>encoding/json\<close>
  documents; the bound must be an int64.)\<close>

theorem spend_bounded:
  assumes "fleet_run save (native_response decode marshal) st tr st'" and "marshals marshal"
    and "\<And>ev. ev \<in> set tr \<Longrightarrow> within_period (fl_meter st) ev" and "\<And>ev. ev \<in> set tr \<Longrightarrow> event_tokens ev \<le> c"
    and "0 \<le> c" "0 \<le> sint (m_spent (fl_meter st))"
    and "max (sint (m_spent (fl_meter st))) (sint (m_ceiling (fl_meter st)) - 1) + int (length (fl_slots st)) * c < 2 ^ 63"
  shows "sint (m_spent (fl_meter st')) = sint (m_spent (fl_meter st)) + used_in tr \<and>
    (\<forall>pre i t q post. tr = pre @ Called i t q # post \<longrightarrow> sint (m_spent (fl_meter st)) + used_in pre < sint (m_ceiling (fl_meter st))) \<and>
    sint (m_spent (fl_meter st')) \<le> max (sint (m_spent (fl_meter st))) (sint (m_ceiling (fl_meter st)) - 1) + int (length (fl_slots st)) * c"
proof -
  have p: "recovered.paid (fl_meter st) c st' (0 + used_in tr) \<and> length (fl_slots st') = length (fl_slots st) \<and>
    (\<forall>pre i t q post. tr = pre @ Called i t q # post \<longrightarrow> sint (m_spent (fl_meter st)) + 0 + used_in pre < sint (m_ceiling (fl_meter st)))"
    using assms none_lost [OF assms(1,2)] by (intro recovered.paid_run recovered.paid_start)
  have "0 \<le> int (in_flight st') * c" using assms(5) by simp
  then show ?thesis using p by (auto simp: recovered.paid_def Let_def)
qed

text \<open>Two slots ask at once, and both calls start before either is recorded.\<close>

definition ends_once :: "model_response result \<Rightarrow> unit agent_run" where
  "ends_once r = AgentEnds (case r of Inl e \<Rightarrow> RunError e
     | Inr resp \<Rightarrow> RunAnswer (chat_reply.cr_Content (chat_response.cr_Content resp)))"

definition asks_once :: "unit agent_run" where
  "asks_once = AgentAsks () ends_once"

definition busy_reply :: model_response where
  "busy_reply = \<lparr>chat_response.cr_Content = \<lparr>chat_reply.cr_Content = ''yes'', cr_ToolCalls = [], cr_StopToolCalls = False\<rparr>,
     cr_Usage = Some \<lparr>us_InputTokens = 80, us_OutputTokens = 10\<rparr>\<rparr>"

definition busy_meter :: "64 word \<Rightarrow> meter" where
  "busy_meter n = \<lparr>m_ceiling = 100, m_period = hour, m_start = 1, m_spent = n\<rparr>"

definition busy_fleet :: "(unit, budget_db) fleet" where
  "busy_fleet = \<lparr>fl_meter = busy_meter 0, fl_store = [], fl_slots = [Thinking asks_once, Thinking asks_once]\<rparr>"

abbreviation "busy_native \<equiv> native_response (\<lambda>_. None) (\<lambda>_. Inr [])"

lemma busy_native_reply: "busy_native (Inr busy_reply) = Inr busy_reply"
proof -
  have "parseNativeToolCalls (\<lambda>_. None) ''yes'' = (''yes'', [])" by code_simp
  then show ?thesis by (simp add: native_response_def native_Chat_def busy_reply_def)
qed

lemma busy_run: "\<exists>st'. fleet_run budget_save busy_native busy_fleet [Called 0 2 (), Called 1 3 (), Replied 0 4 90, Replied 1 5 90] st'"
proof -
  have hour: "time_sub t 1 < hour" if "t \<in> {2, 3, 4, 5}" for t
    using that by (auto simp: time_sub_def duration_bounds duration_defs)
  have in_time: "meter_Allow budget_save Done t (busy_meter 0) ([] :: budget_db) = (True, busy_meter 0, [])" if "t \<in> {2, 3, 4, 5}" for t
    using hour [OF that] by (simp add: meter_Allow_def rollLocked_def busy_meter_def)
  have tokens: "used_tokens busy_reply = 90" by (simp add: used_tokens_def busy_reply_def)
  obtain e1 m1 s1 e2 m2 s2 where rec: "meter_Record budget_save Done Done 4 (used_tokens busy_reply) (busy_meter 0) [] = (e1, m1, s1)"
      "meter_Record budget_save Done Done 5 (used_tokens busy_reply) m1 s1 = (e2, m2, s2)" by (metis prod.exhaust)
  note replied = fleet_step.answer [where native = busy_native and resp = busy_reply and resp' = busy_reply and ir = Done and io = Done]
  let ?over = "\<lambda>i st. put_slot i (AgentEnds (RunAnswer ''yes'')) st"
  let ?st1 = "busy_fleet\<lparr>fl_slots := [InCall ends_once, Thinking asks_once]\<rparr>"
  let ?st2 = "busy_fleet\<lparr>fl_slots := [InCall ends_once, InCall ends_once]\<rparr>"
  let ?st3 = "?over 0 (?st2\<lparr>fl_meter := m1, fl_store := s1\<rparr>)"
  let ?st4 = "?over 1 (?st3\<lparr>fl_meter := m2, fl_store := s2\<rparr>)"
  let ?step = "fleet_step budget_save busy_native"
  have ends: "ends_once (Inr busy_reply) = AgentEnds (RunAnswer ''yes'')" by (simp add: ends_once_def busy_reply_def)
  have "?step busy_fleet (Called 0 2 ()) ?st1"
    using fleet_step.call [of 0 busy_fleet "()" ends_once budget_save Done 2] in_time
    by (simp add: busy_fleet_def asks_once_def)
  moreover have "?step ?st1 (Called 1 3 ()) ?st2"
    using fleet_step.call [of 1 ?st1 "()" ends_once budget_save Done 3] in_time
    by (simp add: busy_fleet_def asks_once_def)
  moreover have "?step ?st2 (Replied 0 4 90) ?st3"
    using replied [of 0 ?st2 ends_once budget_save 4 e1 m1 s1] rec(1) busy_native_reply
    by (simp add: busy_fleet_def tokens ends)
  moreover have "?step ?st3 (Replied 1 5 90) ?st4"
    using replied [of 1 ?st3 ends_once budget_save 5 e2 m2 s2] rec(2) busy_native_reply
    by (simp add: busy_fleet_def tokens ends)
  ultimately show ?thesis unfolding fleet_run_Cons fleet_run_Nil by blast
qed

theorem spend_bounded_witness:
  "\<exists>st'. fleet_run budget_save busy_native busy_fleet [Called 0 2 (), Called 1 3 (), Replied 0 4 90, Replied 1 5 90] st' \<and>
     sint (m_spent (fl_meter st')) = 180 \<and> sint (m_spent (fl_meter st')) \<le> 99 + 2 * 90"
proof -
  let ?tr = "[Called 0 2 (), Called 1 3 (), Replied 0 4 90, Replied 1 5 90] :: unit fleet_event list"
  obtain st' where run: "fleet_run budget_save busy_native busy_fleet ?tr st'" using busy_run by blast
  have f: "m_spent (fl_meter busy_fleet) = 0" "m_ceiling (fl_meter busy_fleet) = 100" "length (fl_slots busy_fleet) = 2"
    by (simp_all add: busy_fleet_def busy_meter_def)
  have "within_period (fl_meter busy_fleet) ev \<and> event_tokens ev \<le> 90" if "ev \<in> set ?tr" for ev
    using that by (auto simp: within_period_def busy_fleet_def busy_meter_def time_sub_def duration_bounds duration_defs)
  then have "sint (m_spent (fl_meter st')) = sint (m_spent (fl_meter busy_fleet)) + used_in ?tr \<and>
      (\<forall>pre i t q post. ?tr = pre @ Called i t q # post \<longrightarrow> sint (m_spent (fl_meter busy_fleet)) + used_in pre < sint (m_ceiling (fl_meter busy_fleet))) \<and>
      sint (m_spent (fl_meter st')) \<le> max (sint (m_spent (fl_meter busy_fleet))) (sint (m_ceiling (fl_meter busy_fleet)) - 1) +
        int (length (fl_slots busy_fleet)) * 90"
    using f by (intro spend_bounded [OF run]) (auto simp: marshals_def)
  then show ?thesis using run f by (intro exI [of _ st']) simp
qed

section \<open>One answer is a run\<close>

fun is_called :: "'q fleet_event \<Rightarrow> bool" where
  "is_called (Called i t q) = True"
| "is_called _ = False"

definition calls_in :: "'q fleet_event list \<Rightarrow> 64 word" where
  "calls_in tr = of_nat (length (filter is_called tr))"

lemma calls_in_simps [simp]: "calls_in [] = 0" "calls_in (ev # tr) = of_bool (is_called ev) + calls_in tr"
  "calls_in (tr @ tr') = calls_in tr + calls_in tr'"
  by (simp_all add: calls_in_def)

text \<open>The fleet as the world \<open>w\<close> has it.\<close>

definition at_world :: "('q, 's) fleet \<Rightarrow> ('s, 'x) model_world \<Rightarrow> ('q, 's) fleet" where
  "at_world st w = st\<lparr>fl_meter := mw_meter w, fl_store := mw_store w\<rparr>"

lemma at_world_simps [simp]: "fl_meter (at_world st w) = mw_meter w" "fl_store (at_world st w) = mw_store w"
  "fl_slots (at_world st w) = fl_slots st" "at_world (at_world st w) w' = at_world st w'"
  "at_world (put_slot i run st) w = put_slot i run (at_world st w)"
  by (simp_all add: at_world_def put_slot_def)

lemma put_slot_twice [simp]: "put_slot i run' (put_slot i run st) = put_slot i run' st"
  by (simp add: put_slot_def)

lemma wired_calls:
  assumes "wired_chat md q (n, x) = (r, n', x')"
  shows "r = native_response (md_decode md) (md_marshal md) (fst (md_chat md q x)) \<and> x' = snd (md_chat md q x) \<and>
    n' = (if md_counted md then n + 1 else n)"
  using assms by (auto simp: wired_chat_def NativeToolCalls_def countCalls_def uncounted_def split: prod.splits if_splits)

lemma native_error [simp]: "native_response decode marshal (Inl e) = Inl e"
  by (simp add: native_response_def)

fun is_tool :: "'q fleet_event \<Rightarrow> bool" where
  "is_tool (ToolCalled i name args r) = True"
| "is_tool _ = False"

lemma call_answered:
  assumes "i < length (fl_slots st)" "fl_slots st ! i = InCall k" "native r1 = Inr resp'" "\<And>e. native (Inl e) = Inl e"
    and "meter_Record save ior ios t (used_tokens resp') (fl_meter st) (fl_store st) = (e, m, s)"
  shows "\<exists>ev. fleet_step save native st ev (put_slot i (k (Inr resp')) (st\<lparr>fl_meter := m, fl_store := s\<rparr>)) \<and> \<not> is_called ev \<and> \<not> is_tool ev"
proof -
  obtain resp where "native (Inr resp) = Inr resp'" using assms(3,4) by (cases r1) auto
  then have "fleet_step save native st (Replied i t (used_tokens resp)) (put_slot i (k (Inr resp')) (st\<lparr>fl_meter := m, fl_store := s\<rparr>))"
    using assms(1,2,5) by (intro fleet_step.answer)
  then show ?thesis by force
qed

lemma call_failed:
  assumes "i < length (fl_slots st)" "fl_slots st ! i = InCall k" "native r1 = Inl e"
  shows "\<exists>ev. fleet_step save native st ev (put_slot i (k (Inl e)) st) \<and> \<not> is_called ev \<and> \<not> is_tool ev"
proof (cases r1)
  case (Inl e0)
  then have "fleet_step save native st (CallErred i) (put_slot i (k (Inl e)) st)" using assms by (intro fleet_step.fail) auto
  then show ?thesis by force
next
  case (Inr resp)
  then have "fleet_step save native st (Lost i (used_tokens resp)) (put_slot i (k (Inl e)) st)" using assms by (intro fleet_step.lose) auto
  then show ?thesis by force
qed

lemma ask_model_run:
  assumes "ask_model md q w = (r, w')" and "i < length (fl_slots st)" "fl_slots st ! i = Thinking (AgentAsks q k)"
  shows "\<exists>tr. fleet_run (md_save md) (native_response (md_decode md) (md_marshal md)) (at_world st w) tr (put_slot i (k r) (at_world st w')) \<and>
    mw_calls w' = mw_calls w + (if md_counted md then calls_in tr else 0) \<and> (\<forall>ev \<in> set tr. \<not> is_tool ev)"
proof -
  let ?native = "native_response (md_decode md) (md_marshal md)" and ?step = "fleet_step (md_save md) (native_response (md_decode md) (md_marshal md))"
  obtain ioa ta ior ios tr where io: "md_ios md (mw_world w) = ((ioa, ta), (ior, ios, tr))" by (metis prod.exhaust)
  obtain ok m1 s1 where al: "meter_Allow (md_save md) ioa ta (mw_meter w) (mw_store w) = (ok, m1, s1)" by (metis prod.exhaust)
  let ?mid = "st\<lparr>fl_meter := m1, fl_store := s1, fl_slots := (fl_slots st)[i := InCall k]\<rparr>"
  show ?thesis
  proof (cases ok)
    case False
    have "?step (at_world st w) (Denied i ta) (put_slot i (k (Inl ErrOverBudget)) ((at_world st w)\<lparr>fl_meter := m1, fl_store := s1\<rparr>))"
      by (rule fleet_step.refuse) (use assms(2,3) al False in auto)
    moreover have "r = Inl ErrOverBudget" "w' = \<lparr>mw_meter = m1, mw_store = s1, mw_calls = mw_calls w, mw_world = mw_world w\<rparr>"
      using assms(1) io al False by (auto simp: ask_model_def metered_Chat_def split: prod.splits)
    ultimately show ?thesis
      by (intro exI [of _ "[Denied i ta]"]) (auto simp: fleet_run_Cons at_world_def put_slot_def)
  next
    case True
    have "?step (at_world st w) (Called i ta q) ((at_world st w)\<lparr>fl_meter := m1, fl_store := s1, fl_slots := (fl_slots (at_world st w))[i := InCall k]\<rparr>)"
      by (rule fleet_step.call) (use assms(2,3) al True in auto)
    then have call: "?step (at_world st w) (Called i ta q) ?mid" by (simp add: at_world_def)
    obtain r0 n' x' where wc: "wired_chat md q (mw_calls w, mw_world w) = (r0, n', x')" by (metis prod.exhaust)
    note wd = wired_calls [OF wc]
    then have nat: "?native (fst (md_chat md q (mw_world w))) = r0" by simp
    have mid: "i < length (fl_slots ?mid)" "fl_slots ?mid ! i = InCall k" using assms(2) by simp_all
    have "\<exists>ev. ?step ?mid ev (put_slot i (k r) (at_world st w')) \<and> \<not> is_called ev \<and> \<not> is_tool ev \<and> mw_calls w' = n'"
    proof (cases r0)
      case (Inr resp')
      obtain e m2 s2 where rec: "meter_Record (md_save md) ior ios tr (used_tokens resp') (fl_meter ?mid) (fl_store ?mid) = (e, m2, s2)" by (metis prod.exhaust)
      have "r = Inr resp'" "w' = \<lparr>mw_meter = m2, mw_store = s2, mw_calls = n', mw_world = x'\<rparr>"
        using assms(1) io al True wc Inr rec by (auto simp: ask_model_def metered_Chat_def)
      then show ?thesis
        using call_answered [where native = ?native, OF mid nat [unfolded Inr] native_error rec] wd
        by (simp add: at_world_def put_slot_def)
    next
      case (Inl e)
      have "r = Inl e" "w' = \<lparr>mw_meter = m1, mw_store = s1, mw_calls = n', mw_world = x'\<rparr>"
        using assms(1) io al True wc Inl by (auto simp: ask_model_def metered_Chat_def)
      then show ?thesis
        using call_failed [where native = ?native, OF mid nat [unfolded Inl], of "md_save md"] wd
        by (simp add: at_world_def put_slot_def)
    qed
    then obtain ev where "?step ?mid ev (put_slot i (k r) (at_world st w'))" "\<not> is_called ev" "\<not> is_tool ev" "mw_calls w' = n'" by blast
    then show ?thesis using call wd by (intro exI [of _ "[Called i ta q, ev]"]) (auto simp: fleet_run_Cons)
  qed
qed

text \<open>A tool call leaves the meter, its store and the counter alone.\<close>

definition keeps_model :: "(string \<Rightarrow> string \<Rightarrow> ('s, 'x) model_world \<Rightarrow> string result \<times> ('s, 'x) model_world) \<Rightarrow> bool" where
  "keeps_model call \<longleftrightarrow> (\<forall>name args w. mw_meter (snd (call name args w)) = mw_meter w \<and>
     mw_store (snd (call name args w)) = mw_store w \<and> mw_calls (snd (call name args w)) = mw_calls w)"

lemma keeps_modelD: "keeps_model call \<Longrightarrow> call name args w = (r, w') \<Longrightarrow>
    mw_meter w' = mw_meter w \<and> mw_store w' = mw_store w \<and> mw_calls w' = mw_calls w"
  unfolding keeps_model_def by (metis snd_conv)

lemma call_tool_keeps: "keeps_model (call_tool tls st dims orderable reg)"
  by (simp add: keeps_model_def call_tool_def Let_def)

lemma exec_run:
  assumes "agent_exec run (ask_model md) call w = (out, w')" and "i < length (fl_slots st)" "fl_slots st ! i = Thinking run"
    and "keeps_model call"
  shows "\<exists>tr. fleet_run (md_save md) (native_response (md_decode md) (md_marshal md)) (at_world st w) tr (put_slot i (AgentEnds out) (at_world st w')) \<and>
    mw_calls w' = mw_calls w + (if md_counted md then calls_in tr else 0) \<and>
    (\<forall>j name args r. ToolCalled j name args r \<in> set tr \<longrightarrow> (\<exists>w. r = fst (call name args w)))"
  using assms(1-3)
proof (induction run arbitrary: w st)
  case (AgentEnds out')
  then have "put_slot i (AgentEnds out) (at_world st w') = at_world st w" by (auto simp: put_slot_def at_world_def list_update_same_conv)
  then show ?case using AgentEnds by (intro exI [of _ "[]"]) auto
next
  case (AgentAsks q k)
  obtain r w1 where a: "ask_model md q w = (r, w1)" by fastforce
  from ask_model_run [OF a AgentAsks.prems(2,3)] obtain tr1 where t1:
    "fleet_run (md_save md) (native_response (md_decode md) (md_marshal md)) (at_world st w) tr1 (put_slot i (k r) (at_world st w1))"
    "mw_calls w1 = mw_calls w + (if md_counted md then calls_in tr1 else 0)" "\<forall>ev \<in> set tr1. \<not> is_tool ev" by blast
  have "agent_exec (k r) (ask_model md) call w1 = (out, w')" using AgentAsks.prems(1) a by simp
  from AgentAsks.IH [OF _ this, of "put_slot i (k r) st"] AgentAsks.prems(2) obtain tr2 where t2:
    "fleet_run (md_save md) (native_response (md_decode md) (md_marshal md)) (put_slot i (k r) (at_world st w1)) tr2 (put_slot i (AgentEnds out) (at_world st w'))"
    "mw_calls w' = mw_calls w1 + (if md_counted md then calls_in tr2 else 0)"
    "\<forall>j name args r. ToolCalled j name args r \<in> set tr2 \<longrightarrow> (\<exists>w. r = fst (call name args w))" by auto
  then show ?case using t1 by (intro exI [of _ "tr1 @ tr2"]) (auto simp: fleet_run_append)
next
  case (AgentCalls name args k)
  obtain r w1 where a: "call name args w = (r, w1)" by fastforce
  then have same: "at_world st w1 = at_world st w" "mw_calls w1 = mw_calls w" using keeps_modelD [OF assms(4) a] by (simp_all add: at_world_def)
  have "fleet_step (md_save md) (native_response (md_decode md) (md_marshal md)) (at_world st w) (ToolCalled i name args r) (put_slot i (k r) (at_world st w))"
    by (rule fleet_step.tool) (use AgentCalls.prems(2,3) in auto)
  moreover have "agent_exec (k r) (ask_model md) call w1 = (out, w')" using AgentCalls.prems(1) a by simp
  from AgentCalls.IH [OF _ this, of "put_slot i (k r) st"] AgentCalls.prems(2) obtain tr2 where
    "fleet_run (md_save md) (native_response (md_decode md) (md_marshal md)) (put_slot i (k r) (at_world st w)) tr2 (put_slot i (AgentEnds out) (at_world st w'))"
    "mw_calls w' = mw_calls w + (if md_counted md then calls_in tr2 else 0)"
    "\<forall>j name args r. ToolCalled j name args r \<in> set tr2 \<longrightarrow> (\<exists>w. r = fst (call name args w))" using same by auto
  ultimately show ?case using a by (intro exI [of _ "ToolCalled i name args r # tr2"]) (auto simp: fleet_run_Cons, metis fst_conv)
qed

section \<open>Calls counted\<close>

text \<open>
  What the loop is relied on for: it asks the model at most \<open>n\<close> times, and it ends with an answer or at its
  step limit only once the model has answered it.
\<close>

primrec asks_at_most :: "'q agent_run \<Rightarrow> nat \<Rightarrow> bool" where
  "asks_at_most (AgentEnds out) n = True"
| "asks_at_most (AgentAsks q k) n = (0 < n \<and> (\<forall>r. asks_at_most (k r) (n - 1)))"
| "asks_at_most (AgentCalls name args k) n = (\<forall>r. asks_at_most (k r) n)"

fun concludes :: "run_outcome \<Rightarrow> bool" where
  "concludes (RunAnswer a) = True"
| "concludes (RunEnded reason e) = (reason = ReasonStepLimit)"
| "concludes (RunError e) = False"

primrec hears_first :: "'q agent_run \<Rightarrow> bool \<Rightarrow> bool" where
  "hears_first (AgentEnds out) heard = (heard \<or> \<not> concludes out)"
| "hears_first (AgentAsks q k) heard = (\<forall>r. hears_first (k r) (heard \<or> \<not> isl r))"
| "hears_first (AgentCalls name args k) heard = (\<forall>r. hears_first (k r) heard)"

lemma ask_model_counted:
  assumes "md_counted md" "ask_model md q w = (r, w')"
  shows "\<exists>j \<le> 1. mw_calls w' = mw_calls w + of_nat j \<and> (\<not> isl r \<longrightarrow> j = (1 :: nat))"
proof -
  obtain a rc where io: "md_ios md (mw_world w) = (a, rc)" by (metis prod.exhaust)
  obtain r0 n x where c: "wired_chat md q (mw_calls w, mw_world w) = (r0, n, x)" by (metis prod.exhaust)
  then have "n = mw_calls w + 1" using wired_calls [OF c] assms(1) by simp
  then have "mw_calls w' = mw_calls w + 1 \<or> mw_calls w' = mw_calls w \<and> isl r"
    using assms(2) io c by (auto simp: ask_model_def metered_Chat_def split: prod.splits if_splits sum.splits)
  then show ?thesis by (elim disjE) (auto intro: exI [of _ 1] exI [of _ 0])
qed

lemma exec_counted:
  assumes "md_counted md" and "keeps_model call"
    and "agent_exec run (ask_model md) call w = (out, w')" and "asks_at_most run n" and "hears_first run heard"
  shows "\<exists>k \<le> n. mw_calls w' = mw_calls w + of_nat k \<and> (\<not> heard \<and> concludes out \<longrightarrow> 0 < k)"
  using assms(3-5)
proof (induction run arbitrary: w n heard)
  case (AgentEnds out')
  then show ?case by (auto intro!: exI [of _ 0])
next
  case (AgentAsks q k)
  obtain r w1 where a: "ask_model md q w = (r, w1)" by fastforce
  obtain j :: nat where j: "j \<le> 1" "mw_calls w1 = mw_calls w + of_nat j" "\<not> isl r \<longrightarrow> j = 1"
    using ask_model_counted [OF assms(1) a] by blast
  have "agent_exec (k r) (ask_model md) call w1 = (out, w')" "asks_at_most (k r) (n - 1)" "hears_first (k r) (heard \<or> \<not> isl r)"
    using AgentAsks.prems a by simp_all
  from AgentAsks.IH [OF _ this] obtain m where m: "m \<le> n - 1" "mw_calls w' = mw_calls w1 + of_nat m"
      "\<not> (heard \<or> \<not> isl r) \<and> concludes out \<longrightarrow> 0 < m" by auto
  have "0 < n" using AgentAsks.prems(2) by simp
  then have "j + m \<le> n" using j(1) m(1) by linarith
  then show ?case using j m by (intro exI [of _ "j + m"]) auto
next
  case (AgentCalls name args k)
  obtain r w1 where a: "call name args w = (r, w1)" by fastforce
  then show ?case using AgentCalls.IH [OF rangeI, of r w1 n heard] AgentCalls.prems keeps_modelD [OF assms(2) a] by auto
qed

lemma exec_counted_some:
  assumes "md_counted md" and "keeps_model call"
    and "agent_exec run (ask_model md) call w = (out, w')" and "asks_at_most run (2 ^ 64 - 1)" and "hears_first run False" "concludes out"
  shows "mw_calls w' \<noteq> mw_calls w"
proof -
  obtain k where k: "k \<le> 2 ^ 64 - 1" "mw_calls w' = mw_calls w + of_nat k" "0 < k"
    using exec_counted [OF assms(1-5)] assms(6) by auto
  then have "unat (of_nat k :: 64 word) = k" by (simp add: unat_of_nat take_bit_nat_eq_self)
  then have "(of_nat k :: 64 word) \<noteq> 0" using k(3) by (metis unat_0 neq0_conv)
  then show ?thesis using k(2) by simp
qed

end
