(* ===== verification/Serve.thy ===== *)
theory Serve
  imports MemorySetup_Props AnswerRun_Props Mcp_Props
begin

text \<open>
  The start and the end of \<^verbatim>\<open>serve\<close>, \<^verbatim>\<open>ServeCmd.Run\<close> of \<^verbatim>\<open>cmd/yaad-grove/main.go\<close>: what is opened and
  checked in which order, what the transport is run with, and what is closed. The result is the
  command's error and the trace of what happened. A deferred close is the end of the block its resource
  is open in. What each call outside did is a field of \<open>serve_env\<close>; log lines are left out.
\<close>

datatype resource = OutFile | BudgetDB | Telemetry | AclDB | CallbackDB | QuarantineFile | TranscriptDir | Signals | Servers

datatype 'a event = Opened resource | Closed resource | Purging | Serving 'a

type_synonym 'a trace = "'a event list"

text \<open>An error ends the command; a resource that opened is closed when the rest has run.\<close>

definition unless_error :: "error option \<Rightarrow> error option \<times> 'a trace \<Rightarrow> error option \<times> 'a trace" where
  "unless_error e rest = (case e of Some err \<Rightarrow> (Some err, []) | None \<Rightarrow> rest)"

definition with_open :: "resource \<Rightarrow> error option \<Rightarrow> error option \<times> 'a trace \<Rightarrow> error option \<times> 'a trace" where
  "with_open r e rest = unless_error e (fst rest, Opened r # snd rest @ [Closed r])"

definition with_result :: "'b result \<Rightarrow> ('b \<Rightarrow> error option \<times> 'a trace) \<Rightarrow> error option \<times> 'a trace" where
  "with_result x f = (case x of Inl e \<Rightarrow> (Some e, []) | Inr y \<Rightarrow> f y)"

text \<open>Telemetry: off, on (with the error the instruments gave, if they did), or not set up.\<close>

datatype telemetry_setup = TelemetryFailed error | TelemetryOff | TelemetryOn "error option"

record ('v, 'l, 'x, 'st, 'm, 'b, 'q) serve_env =
  ve_budget :: "error option"
  ve_bucket :: budget_db
  ve_load :: io
  ve_now :: time
  ve_memory :: "('b, 'st) memory_outside"
  ve_telemetry :: telemetry_setup
  ve_setup :: "('v, 'l) setup_env"
  ve_outside :: "('x, 'st, 'm, 'q) outside"
  ve_acl :: "error option"
  ve_callbacks :: "error option"
  ve_quarantine :: "error option"
  ve_transcript :: "error option"
  ve_dial :: "server_config \<Rightarrow> dialled"
  ve_reactions :: bool
  ve_run :: "error option"
  ve_canceled :: "error \<Rightarrow> bool"

text \<open>
  What the transport is run with: the gate, the policy, the empty buffer of turns, long-term memory, the
  answering engine with the connected tool registry and the meter its model calls go through, whether
  the logs are on, how long a button lives, the groups and the topics. \<open>st_delete\<close> is the memory stores'
  delete, \<open>st_base\<close> the embedded catalog.
\<close>

type_synonym ('v, 'l, 'x, 'st, 'm) serve_answering = "('v, 'l, (budget_db, 'x) model_world, 'st, 'm) answering"

record ('v, 'l, 'x, 'st, 'm) served =
  sd_gate :: gate
  sd_policy :: "'m policy"
  sd_buffer :: buffer
  sd_memory :: "'st long_memory option"
  sd_answering :: "('v, 'l, 'x, 'st, 'm) serve_answering"
  sd_registry :: Mcp.registry
  sd_meter :: meter
  sd_quarantine :: bool
  sd_transcript :: bool
  sd_callbackTTL :: duration
  sd_groups :: "string list"
  sd_topics :: topic_map

definition serve_policy :: "('st \<Rightarrow> string \<Rightarrow> 'm \<Rightarrow> error option \<times> 'm) \<Rightarrow> catalog \<Rightarrow> bool \<Rightarrow> serve_cmd
     \<Rightarrow> ('b, 'st) long_memory_setup option \<Rightarrow> pack \<Rightarrow> 'm policy" where
  "serve_policy delete base canReact c lm pack =
     lm_withdrawal delete lm (sv_LongMemoryDerive c)
       \<lparr>po_Admins = NewAdminSet (sv_Admins c),
        po_Nudge = downgrade_nudge canReact \<lparr>nd_Mode = sv_NudgeMode c, nd_Text = sv_NudgeText c, nd_Emoji = sv_NudgeEmoji c\<rparr>,
        po_Inject = sv_MemoryInject c, po_FollowupWindow = sv_FollowupWindow c,
        po_Texts = strings_Get base (pk_Strings pack), po_Erase = None, po_MemoryDerive = False,
        po_ConsentAck = consentAckEmoji (sv_ConsentAckEmoji c) canReact, po_Consent = True\<rparr>"

definition build_served :: "('st \<Rightarrow> string \<Rightarrow> 'm \<Rightarrow> error option \<times> 'm) \<Rightarrow> catalog \<Rightarrow> bool \<Rightarrow> serve_cmd
     \<Rightarrow> ('b, 'st) long_memory_setup option \<Rightarrow> meter \<Rightarrow> ('v, 'l, 'x, 'st, 'm) serve_answering \<Rightarrow> Mcp.registry \<Rightarrow> topic_map
     \<Rightarrow> ('v, 'l, 'x, 'st, 'm) served" where
  "build_served delete base canReact c lm meter a reg topics =
     \<lparr>sd_gate = with_nudge_cooldown (new_gate (sv_DefaultTier c)) (sv_NudgeCooldown c),
      sd_policy = serve_policy delete base canReact c lm (an_pack a),
      sd_buffer = mem_New (sv_MemoryTurns c),
      sd_memory = WithMemory None (map_option ls_memory lm),
      sd_answering = a, sd_registry = reg, sd_meter = meter,
      sd_quarantine = (sv_QuarantineLog c \<noteq> []), sd_transcript = (sv_TranscriptLog c \<noteq> []), sd_callbackTTL = sv_CallbackTTL c,
      sd_groups = sv_TelegramGroups c, sd_topics = topics\<rparr>"

text \<open>Dialling the servers of the engine, in their order, into the registry it was built with.\<close>

definition connect_servers :: "(server_config \<Rightarrow> dialled) \<Rightarrow> ('v, 'l, 'x, 'st, 'm) answering \<Rightarrow> error option \<times> Mcp.registry" where
  "connect_servers dial a = reg_Connect (map (\<lambda>s. (s, dial s)) (an_servers a)) new_registry"

text \<open>The end of the transport's run: a shutdown is not an error.\<close>

definition serve_end :: "(error \<Rightarrow> bool) \<Rightarrow> error option \<Rightarrow> error option" where
  "serve_end canceled run = (case run of None \<Rightarrow> None | Some e \<Rightarrow> if canceled e then None else Some e)"

text \<open>From the servers' connection on.\<close>

definition serve_transport ::
    "('st \<Rightarrow> string \<Rightarrow> 'm \<Rightarrow> error option \<times> 'm) \<Rightarrow> catalog \<Rightarrow> ('v, 'l, 'x, 'st, 'm, 'b, 'q) serve_env \<Rightarrow> serve_cmd
     \<Rightarrow> ('b, 'st) long_memory_setup option \<Rightarrow> meter \<Rightarrow> ('v, 'l, 'x, 'st, 'm) serve_answering
     \<Rightarrow> error option \<times> ('v, 'l, 'x, 'st, 'm) served trace" where
  "serve_transport delete base env c lm meter a =
     with_open Signals None
      (case connect_servers (ve_dial env) a of (failed, reg) \<Rightarrow>
        with_open Servers failed
        (case (with_result (parseTopicAllowList (sv_TelegramAllowedTopics c))
            (\<lambda>topics. (serve_end (ve_canceled env) (ve_run env),
               [Serving (build_served delete base (ve_reactions env) c lm meter a reg topics)]))) of
           (e, tr) \<Rightarrow> (e, (if lm \<noteq> None then [Purging] else []) @ tr)))"

text \<open>The stores the handler uses.\<close>

definition serve_stores ::
    "('st \<Rightarrow> string \<Rightarrow> 'm \<Rightarrow> error option \<times> 'm) \<Rightarrow> catalog \<Rightarrow> ('v, 'l, 'x, 'st, 'm, 'b, 'q) serve_env \<Rightarrow> serve_cmd
     \<Rightarrow> ('b, 'st) long_memory_setup option \<Rightarrow> meter \<Rightarrow> ('v, 'l, 'x, 'st, 'm) serve_answering
     \<Rightarrow> error option \<times> ('v, 'l, 'x, 'st, 'm) served trace" where
  "serve_stores delete base env c lm meter a =
     with_open AclDB (ve_acl env)
      (with_open CallbackDB (ve_callbacks env)
        (let transport = serve_transport delete base env c lm meter a;
             transcript = (if sv_TranscriptLog c = [] then transport else with_open TranscriptDir (ve_transcript env) transport)
         in if sv_QuarantineLog c = [] then transcript else with_open QuarantineFile (ve_quarantine env) transcript))"

definition serve_run ::
    "('st \<Rightarrow> string \<Rightarrow> 'm \<Rightarrow> error option \<times> 'm) \<Rightarrow> catalog \<Rightarrow> ('v, 'l, 'x, 'st, 'm, 'b, 'q) serve_env \<Rightarrow> serve_cmd
     \<Rightarrow> error option \<times> ('v, 'l, 'x, 'st, 'm) served trace" where
  "serve_run delete base env c =
     unless_error (if sv_ContextSize c \<le> 0 then Some (ErrMsg ''--context-size is required'') else None)
      (with_open BudgetDB (ve_budget env)
        (with_result (meter_New budget_load (ve_load env) (ve_now env)
             \<lparr>bc_Ceiling = sv_SpendCeiling c, bc_Period = sv_SpendPeriod c\<rparr> (Some (ve_bucket env)))
          (\<lambda>meter. with_result (fst (buildLongMemory (ve_memory env) (ve_now env) c))
            (\<lambda>lm. (let answer = with_result (buildAnswering (ve_setup env) (ve_outside env) budget_save False c)
                          (serve_stores delete base env c lm meter) in
               case ve_telemetry env of
                 TelemetryFailed e \<Rightarrow> (Some e, [])
               | TelemetryOff \<Rightarrow> answer
               | TelemetryOn e \<Rightarrow> with_open Telemetry None (unless_error e answer))))))"

section \<open>What is opened is closed\<close>

text \<open>Read as a stack of open resources: every close closes the last one opened, and none is left.\<close>

fun closes :: "resource list \<Rightarrow> 'a trace \<Rightarrow> bool" where
  "closes st [] = (st = [])"
| "closes st (Opened r # tr) = closes (r # st) tr"
| "closes (r # st) (Closed r' # tr) = (r = r' \<and> closes st tr)"
| "closes [] (Closed r' # tr) = False"
| "closes st (Purging # tr) = closes st tr"
| "closes st (Serving s # tr) = closes st tr"

lemma closes_append: "closes [] tr \<Longrightarrow> closes st (tr @ tr') = closes st tr'"
proof -
  have "closes st1 tr \<Longrightarrow> closes (st1 @ st) (tr @ tr') = closes st tr'" for st1
    by (induction st1 tr rule: closes.induct) auto
  then show "closes [] tr \<Longrightarrow> ?thesis" by fastforce
qed

lemma closes_with_open [intro]: "closes [] (snd rest) \<Longrightarrow> closes [] (snd (with_open r e rest))"
  by (cases e) (simp_all add: with_open_def unless_error_def closes_append)

lemma closes_unless_error [intro]: "closes [] (snd rest) \<Longrightarrow> closes [] (snd (unless_error e rest))"
  by (cases e) (simp_all add: unless_error_def)

lemma closes_with_result [intro]: "(\<And>y. x = Inr y \<Longrightarrow> closes [] (snd (f y))) \<Longrightarrow> closes [] (snd (with_result x f))"
  by (cases x) (simp_all add: with_result_def)

lemma closes_transport: "closes [] (snd (serve_transport delete base env c lm meter a))"
  unfolding serve_transport_def by (intro closes_with_open) (auto simp: with_result_def intro!: closes_with_open split: sum.splits prod.splits)

lemma closes_stores: "closes [] (snd (serve_stores delete base env c lm meter a))"
  unfolding serve_stores_def Let_def by (auto intro!: closes_with_open closes_transport)

lemma closes_run: "closes [] (snd (serve_run delete base env c))"
  unfolding serve_run_def Let_def
  by (auto intro!: closes_with_open closes_unless_error closes_with_result closes_stores split: telemetry_setup.splits)

section \<open>What is served\<close>

definition around :: "resource list \<Rightarrow> 'a trace \<Rightarrow> 'a trace" where
  "around rs tr = map Opened rs @ tr @ map Closed (rev rs)"

lemma around_simps: "around [] tr = tr" "Opened r # around rs tr @ [Closed r] = around (r # rs) tr"
  by (simp_all add: around_def)

lemma unless_error_served [simp]: "Serving sd \<in> set (snd (unless_error e rest)) \<longleftrightarrow> e = None \<and> Serving sd \<in> set (snd rest)"
  by (cases e) (simp_all add: unless_error_def)

lemma with_open_served [simp]: "Serving sd \<in> set (snd (with_open r e rest)) \<longleftrightarrow> e = None \<and> Serving sd \<in> set (snd rest)"
  by (cases e) (simp_all add: with_open_def unless_error_def)

lemma with_result_served [simp]: "Serving sd \<in> set (snd (with_result x f)) \<longleftrightarrow> (\<exists>y. x = Inr y \<and> Serving sd \<in> set (snd (f y)))"
  by (cases x) (simp_all add: with_result_def)

lemma open_None [simp]: "snd (with_open r None rest) = Opened r # snd rest @ [Closed r]" "snd (unless_error None rest) = snd rest"
  by (simp_all add: with_open_def unless_error_def)

definition transport_resources :: "serve_cmd \<Rightarrow> resource list" where
  "transport_resources c = [AclDB, CallbackDB] @ (if sv_QuarantineLog c = [] then [] else [QuarantineFile]) @
     (if sv_TranscriptLog c = [] then [] else [TranscriptDir]) @ [Signals, Servers]"

lemma transport_served:
  assumes "Serving sd \<in> set (snd (serve_transport delete base env c lm meter a))"
  shows "\<exists>topics reg. parseTopicAllowList (sv_TelegramAllowedTopics c) = Inr topics \<and> connect_servers (ve_dial env) a = (None, reg) \<and>
      sd = build_served delete base (ve_reactions env) c lm meter a reg topics"
    and "snd (serve_transport delete base env c lm meter a) = around [Signals, Servers] ((if lm \<noteq> None then [Purging] else []) @ [Serving sd])"
  using assms
  by (auto simp: serve_transport_def with_result_def around_def split: sum.splits if_splits prod.splits)

lemma stores_served:
  assumes "Serving sd \<in> set (snd (serve_stores delete base env c lm meter a))"
  shows "\<exists>topics reg. parseTopicAllowList (sv_TelegramAllowedTopics c) = Inr topics \<and> connect_servers (ve_dial env) a = (None, reg) \<and>
      sd = build_served delete base (ve_reactions env) c lm meter a reg topics"
    and "snd (serve_stores delete base env c lm meter a) = around (transport_resources c) ((if lm \<noteq> None then [Purging] else []) @ [Serving sd])"
proof -
  have t: "Serving sd \<in> set (snd (serve_transport delete base env c lm meter a))"
    using assms by (auto simp: serve_stores_def Let_def split: if_splits)
  show "\<exists>topics reg. parseTopicAllowList (sv_TelegramAllowedTopics c) = Inr topics \<and> connect_servers (ve_dial env) a = (None, reg) \<and>
      sd = build_served delete base (ve_reactions env) c lm meter a reg topics"
    by (rule transport_served(1) [OF t])
  show "snd (serve_stores delete base env c lm meter a) = around (transport_resources c) ((if lm \<noteq> None then [Purging] else []) @ [Serving sd])"
    using assms transport_served(2) [OF t]
    by (auto simp: serve_stores_def Let_def transport_resources_def around_def split: if_splits)
qed

lemma run_served:
  assumes s: "Serving sd \<in> set (snd (serve_run delete base env c))"
  shows "0 < sv_ContextSize c \<and> 0 < sint (sv_SpendCeiling c) \<and> 0 < sv_SpendPeriod c \<and>
     (\<exists>x. budget_load (ve_load env) (ve_bucket env) = Inr x) \<and>
     (\<exists>lm meter a reg topics tel. fst (buildLongMemory (ve_memory env) (ve_now env) c) = Inr lm \<and>
        meter_New budget_load (ve_load env) (ve_now env) \<lparr>bc_Ceiling = sv_SpendCeiling c, bc_Period = sv_SpendPeriod c\<rparr>
          (Some (ve_bucket env)) = Inr meter \<and>
        buildAnswering (ve_setup env) (ve_outside env) budget_save False c = Inr a \<and>
        connect_servers (ve_dial env) a = (None, reg) \<and>
        parseTopicAllowList (sv_TelegramAllowedTopics c) = Inr topics \<and>
        sd = build_served delete base (ve_reactions env) c lm meter a reg topics \<and>
        snd (serve_run delete base env c) =
          around (BudgetDB # (if tel then [Telemetry] else []) @ transport_resources c)
            ((if lm \<noteq> None then [Purging] else []) @ [Serving sd]))"
proof (intro conjI)
  let ?cfg = "\<lparr>bc_Ceiling = sv_SpendCeiling c, bc_Period = sv_SpendPeriod c\<rparr>"
  have o: "\<not> sv_ContextSize c \<le> 0" "ve_budget env = None" using s by (auto simp: serve_run_def split: if_splits)
  then show "0 < sv_ContextSize c" by simp
  obtain m where m: "meter_New budget_load (ve_load env) (ve_now env) ?cfg (Some (ve_bucket env)) = Inr m"
    using s by (auto simp: serve_run_def)
  then show "0 < sint (sv_SpendCeiling c)" "0 < sv_SpendPeriod c" "\<exists>x. budget_load (ve_load env) (ve_bucket env) = Inr x"
    by (auto simp: meter_New_def split: if_splits sum.splits)
  obtain lm where lm: "fst (buildLongMemory (ve_memory env) (ve_now env) c) = Inr lm" using s by (auto simp: serve_run_def)
  obtain a where a: "buildAnswering (ve_setup env) (ve_outside env) budget_save False c = Inr a"
      "Serving sd \<in> set (snd (serve_stores delete base env c lm m a))"
    using s lm m by (auto simp: serve_run_def Let_def split: telemetry_setup.splits)
  define tel where "tel \<longleftrightarrow> ve_telemetry env = TelemetryOn None"
  have "ve_telemetry env \<in> {TelemetryOff, TelemetryOn None}"
    using s m lm by (auto simp: serve_run_def Let_def split: telemetry_setup.splits)
  then have "snd (serve_run delete base env c) = around (BudgetDB # (if tel then [Telemetry] else []) @ transport_resources c)
            ((if lm \<noteq> None then [Purging] else []) @ [Serving sd])"
    using o m lm a(1) stores_served(2) [OF a(2)]
    by (auto simp: serve_run_def with_result_def tel_def around_def)
  then show "\<exists>lm meter a reg topics tel. fst (buildLongMemory (ve_memory env) (ve_now env) c) = Inr lm \<and>
        meter_New budget_load (ve_load env) (ve_now env) \<lparr>bc_Ceiling = sv_SpendCeiling c, bc_Period = sv_SpendPeriod c\<rparr>
          (Some (ve_bucket env)) = Inr meter \<and>
        buildAnswering (ve_setup env) (ve_outside env) budget_save False c = Inr a \<and>
        connect_servers (ve_dial env) a = (None, reg) \<and>
        parseTopicAllowList (sv_TelegramAllowedTopics c) = Inr topics \<and>
        sd = build_served delete base (ve_reactions env) c lm meter a reg topics \<and>
        snd (serve_run delete base env c) =
          around (BudgetDB # (if tel then [Telemetry] else []) @ transport_resources c)
            ((if lm \<noteq> None then [Purging] else []) @ [Serving sd])"
    using m lm a(1) stores_served(1) [OF a(2)] by blast
qed


section \<open>A start\<close>

text \<open>A model that answers ''yes'' for ten tokens, a loop that asks it once, and no tool server.\<close>

definition demo_chat :: "(unit, unit) model_chat" where
  "demo_chat q x = (Inr \<lparr>chat_response.cr_Content = \<lparr>chat_reply.cr_Content = ''yes'', cr_ToolCalls = [], cr_StopToolCalls = False\<rparr>,
     cr_Usage = Some \<lparr>us_InputTokens = 7, us_OutputTokens = 3\<rparr>\<rparr>, x)"

definition demo_loop :: "run_request \<Rightarrow> unit agent_run" where
  "demo_loop req = AgentAsks () (\<lambda>r. AgentEnds (case r of Inl e \<Rightarrow> RunError e
     | Inr resp \<Rightarrow> RunAnswer (chat_reply.cr_Content (chat_response.cr_Content resp))))"

definition demo_tools :: "unit tool_outside" where
  "demo_tools = \<lparr>tl_env = demo_tool_env, tl_marshal = Some, tl_unmarshal = (\<lambda>_. Inr []), tl_show_error = (\<lambda>_. []), tl_cancelled = (\<lambda>_. False),
     tl_serve = (\<lambda>_ _ _ _. CallFailed ErrNoStore), tl_done = (\<lambda>_ _ x. x)\<rparr>"

definition demo_answering_outside :: "(unit, string, (string \<times> string) list, unit) outside" where
  "demo_answering_outside = \<lparr>ou_chat = Inr demo_chat, ou_decode = (\<lambda>_. None), ou_marshal = (\<lambda>_. Inr []),
     ou_ios = (\<lambda>_. ((Done, 6), (Done, Done, 7))), ou_agent = demo_loop, ou_tools = demo_tools,
     ou_read = (\<lambda>_. OsNotExist), ou_template = (\<lambda>_. Inl ErrNoStore),
     ou_packs = (\<lambda>_. Layer \<lparr>pk_Code = ''en'', pk_Name = ''English'', pk_Prompt = [], pk_Strings = Map.empty\<rparr>), ou_external = None,
     ou_render = (\<lambda>_. []), ou_clock = (\<lambda>_. []), ou_append = (\<lambda>st u ses k t m. (None, (st, u) # m))\<rparr>"

definition demo_serve :: "(unit, unit, unit, string, (string \<times> string) list, string, unit) serve_env" where
  "demo_serve = \<lparr>ve_budget = None, ve_bucket = [], ve_load = Done, ve_now = 5, ve_memory = demo_outside,
     ve_telemetry = TelemetryOff, ve_setup = demo_setup, ve_outside = demo_answering_outside, ve_acl = None, ve_callbacks = None,
     ve_quarantine = None, ve_transcript = None, ve_dial = (\<lambda>_. Inl ErrNoStore), ve_reactions = True, ve_run = Some ErrNoStore,
     ve_canceled = (\<lambda>_. True)\<rparr>"

lemma demo_answers: "\<exists>a. buildAnswering demo_setup demo_answering_outside save counted demo_cmd = Inr a \<and> an_servers a = []"
proof -
  obtain rv where rv: "buildRetriever demo_setup demo_cmd = Inr rv" using demo_built by blast
  have "parseMCPServers (sv_MCPServers demo_cmd) = Inr []" "applyToolLists [] (sv_MCPAllow demo_cmd) (sv_MCPDeny demo_cmd) = Inr []"
    and "temperature_ok (sv_Temperature demo_cmd)" "loadPersona (ou_read demo_answering_outside) (sv_PersonaFile demo_cmd) = Inr []"
    and "loadPromptTemplate (ou_read demo_answering_outside) (ou_template demo_answering_outside) (sv_PromptTemplate demo_cmd) = Inr None"
    and "\<exists>p. Load (ou_packs demo_answering_outside) (ou_external demo_answering_outside) (sv_Language demo_cmd) = Inr p"
    and "ou_chat demo_answering_outside = Inr demo_chat"
    by (simp_all add: demo_cmd_def applyToolLists_def temperature_ok_def loadPersona_def loadPromptTemplate_def
        demo_answering_outside_def Load_def baseCode_def)
  then show ?thesis using rv by (auto simp: buildAnswering_def)
qed

lemma demo_served: "\<exists>m a. Serving (build_served demo_delete Map.empty True demo_cmd (Some demo_setup_lm) m a new_registry Map.empty)
    \<in> set (snd (serve_run demo_delete Map.empty demo_serve demo_cmd))"
proof -
  obtain a where a: "buildAnswering demo_setup demo_answering_outside budget_save False demo_cmd = Inr a" "an_servers a = []"
    using demo_answers by blast
  have "\<exists>m. meter_New budget_load Done 5 \<lparr>bc_Ceiling = sv_SpendCeiling demo_cmd, bc_Period = sv_SpendPeriod demo_cmd\<rparr> (Some []) = Inr m"
    by (simp add: meter_New_def demo_cmd_def budget_load_def)
  then obtain m where m: "meter_New budget_load Done 5 \<lparr>bc_Ceiling = sv_SpendCeiling demo_cmd, bc_Period = sv_SpendPeriod demo_cmd\<rparr> (Some []) = Inr m" ..
  have t: "parseTopicAllowList (sv_TelegramAllowedTopics demo_cmd) = Inr Map.empty"
    and q: "sv_QuarantineLog demo_cmd = []" "sv_TranscriptLog demo_cmd = []" "\<not> sv_ContextSize demo_cmd \<le> 0"
    by (simp_all add: parseTopicAllowList_def demo_cmd_def)
  show ?thesis
    using m a
    by (intro exI [of _ m] exI [of _ a])
       (auto simp: serve_run_def demo_serve_def demo_lm_built Let_def serve_stores_def q serve_transport_def connect_servers_def with_result_def t)
qed


end
