(* ===== verification/Telegram.thy ===== *)
theory Telegram
  imports Handler Config Utf8
begin

text \<open>
  The Telegram adapter, \<^verbatim>\<open>internal/transport/telegram/telegram.go\<close>: which messages and clicks reach
  the handler and as what, and how a reply is delivered. The Bot API client is a parameter: what each
  call did is an argument, and the calls made are part of the result. The conversion of Markdown
  (\<^verbatim>\<open>format.go\<close>) is theory \<open>TelegramFormat\<close>; here it is a parameter too. Log lines are left out.
\<close>

section \<open>UTF-16\<close>

text \<open>\<^verbatim>\<open>utf16.Encode\<close> and \<^verbatim>\<open>utf16.Decode\<close>, on code units.\<close>

definition utf16_rune :: "rune \<Rightarrow> nat list" where
  "utf16_rune r =
     (if r < 55296 \<or> 57344 \<le> r \<and> r < 65536 then [r]
      else if 65536 \<le> r \<and> r \<le> 1114111 then [55296 + (r - 65536) div 1024, 56320 + (r - 65536) mod 1024]
      else [rune_error])"

definition utf16_encode :: "rune list \<Rightarrow> nat list" where
  "utf16_encode rs = concat (map utf16_rune rs)"

fun utf16_decode :: "nat list \<Rightarrow> rune list" where
  "utf16_decode [] = []"
| "utf16_decode (u # us) =
     (if u < 55296 \<or> 57344 \<le> u then u # utf16_decode us
      else (case us of
          [] \<Rightarrow> [rune_error]
        | v # vs \<Rightarrow> (if u < 56320 \<and> 56320 \<le> v \<and> v < 57344
            then ((u - 55296) * 1024 + (v - 56320) + 65536) # utf16_decode vs
            else rune_error # utf16_decode us)))"

definition units :: "string \<Rightarrow> nat list" where
  "units s = utf16_encode (runes s)"

definition of_units :: "nat list \<Rightarrow> string" where
  "of_units us = of_runes (utf16_decode us)"

section \<open>What the platform sends\<close>

record tg_user =
  tu_ID :: int
  tu_Username :: string
  tu_FirstName :: string

datatype chat_type = ChatPrivate | ChatGroup | ChatSupergroup | ChatChannel

record tg_chat =
  tc_ID :: int
  tc_Type :: chat_type

datatype entity_type = EntMention | EntTextMention | EntOther

record tg_entity =
  en_Type :: entity_type
  en_Offset :: int
  en_Length :: int
  en_User :: "tg_user option"

text \<open>Of the message replied to, what the adapter reads.\<close>

record tg_parent =
  tp_ID :: int
  tp_From :: "tg_user option"
  tp_Text :: string

record tg_message =
  tm_ID :: int
  tm_From :: "tg_user option"
  tm_Chat :: tg_chat
  tm_MessageThreadID :: int
  tm_Text :: string
  tm_Entities :: "tg_entity list"
  tm_ReplyToMessage :: "tg_parent option"

text \<open>A click: the chat and the message it is on, when the platform says which.\<close>

record tg_click =
  cq_ID :: string
  cq_From :: tg_user
  cq_Data :: string
  cq_Message :: "(tg_chat \<times> int) option"

section \<open>The adapter\<close>

text \<open>\<open>ad_fold\<close> maps a rune to a representative of its case-folding orbit, for \<^verbatim>\<open>strings.EqualFold\<close>.\<close>

record adapter =
  ad_Token :: string
  ad_AllowedGroups :: "string list"
  ad_AllowedTopics :: topic_map
  ad_callbacks :: bool
  ad_running :: bool
  ad_botID :: int
  ad_botUsername :: string
  ad_fold :: "rune \<Rightarrow> rune"

datatype capability = CapReactions | CapEditMessage | CapButtons | CapOther

definition Supports :: "adapter \<Rightarrow> capability \<Rightarrow> bool" where
  "Supports a c = (case c of CapReactions \<Rightarrow> True | CapEditMessage \<Rightarrow> True | CapButtons \<Rightarrow> ad_callbacks a | CapOther \<Rightarrow> False)"

definition EqualFold :: "adapter \<Rightarrow> string \<Rightarrow> string \<Rightarrow> bool" where
  "EqualFold a s t \<longleftrightarrow> map (ad_fold a) (runes s) = map (ad_fold a) (runes t)"

definition userOf :: "tg_user \<Rightarrow> user" where
  "userOf u = \<lparr>u_ID = itoa (tu_ID u), u_Display = (if tu_Username u = [] then tu_FirstName u else tu_Username u)\<rparr>"

definition groupAllowed :: "adapter \<Rightarrow> int \<Rightarrow> bool" where
  "groupAllowed a chatID \<longleftrightarrow> itoa chatID \<in> set (ad_AllowedGroups a)"

definition topicAllowed :: "adapter \<Rightarrow> int \<Rightarrow> int \<Rightarrow> bool" where
  "topicAllowed a chatID threadID \<longleftrightarrow> (case ad_AllowedTopics a chatID of None \<Rightarrow> True | Some topics \<Rightarrow> threadID \<in> set topics)"

definition surfaceFor :: "adapter \<Rightarrow> tg_chat \<Rightarrow> surface option" where
  "surfaceFor a chat =
     (case tc_Type chat of
        ChatPrivate \<Rightarrow> Some SurfaceDM
      | ChatChannel \<Rightarrow> None
      | _ \<Rightarrow> if \<not> groupAllowed a (tc_ID chat) then None else Some SurfaceGroup)"

definition entityText :: "string \<Rightarrow> int \<Rightarrow> int \<Rightarrow> string" where
  "entityText text' offset length' =
     (if offset < 0 \<or> length' < 0 \<or> offset + length' > int (length (units text')) then []
      else of_units (take (nat length') (drop (nat offset) (units text'))))"

definition mentions_bot :: "adapter \<Rightarrow> string \<Rightarrow> tg_entity \<Rightarrow> bool" where
  "mentions_bot a text' e =
     (case en_Type e of
        EntMention \<Rightarrow> ad_botUsername a \<noteq> [] \<and> EqualFold a (entityText text' (en_Offset e) (en_Length e)) (''@'' @ ad_botUsername a)
      | EntTextMention \<Rightarrow> ad_botID a \<noteq> 0 \<and> (case en_User e of None \<Rightarrow> False | Some u \<Rightarrow> tu_ID u = ad_botID a)
      | EntOther \<Rightarrow> False)"

definition replyToBot :: "adapter \<Rightarrow> tg_message \<Rightarrow> bool" where
  "replyToBot a m \<longleftrightarrow> ad_botID a \<noteq> 0 \<and>
     (case tm_ReplyToMessage m of None \<Rightarrow> False | Some p \<Rightarrow> (case tp_From p of None \<Rightarrow> False | Some u \<Rightarrow> tu_ID u = ad_botID a))"

definition isDirected :: "adapter \<Rightarrow> tg_message \<Rightarrow> bool" where
  "isDirected a m \<longleftrightarrow> replyToBot a m \<or> (\<exists>e \<in> set (tm_Entities m). mentions_bot a (tm_Text m) e)"

text \<open>
  The spans are cut from the end backwards; a cut whose bounds lie outside what is left is a panic,
  \<open>None\<close>. The order of spans that start together is not specified in the code; here it is the entities'.
\<close>

fun cut_spans :: "(int \<times> int) list \<Rightarrow> nat list \<Rightarrow> nat list option" where
  "cut_spans [] us = Some us"
| "cut_spans ((s, e) # spans) us =
     (if 0 \<le> s \<and> s \<le> int (length us) \<and> 0 \<le> e \<and> e \<le> int (length us)
      then cut_spans spans (take (nat s) us @ drop (nat e) us) else None)"

definition own_spans :: "adapter \<Rightarrow> string \<Rightarrow> tg_entity list \<Rightarrow> (int \<times> int) list" where
  "own_spans a text' es = map (\<lambda>e. (en_Offset e, en_Offset e + en_Length e))
     (filter (\<lambda>e. mentions_bot a text' e \<and> 0 \<le> en_Offset e \<and> en_Offset e + en_Length e \<le> int (length (units text'))) es)"

definition stripBotMentions :: "adapter \<Rightarrow> string \<Rightarrow> tg_entity list \<Rightarrow> string option" where
  "stripBotMentions a text' es =
     (if own_spans a text' es = [] then Some text'
      else map_option (\<lambda>us. TrimSpace (of_units us))
        (cut_spans (sort_key (\<lambda>(s, e). - s) (own_spans a text' es)) (units text')))"

section \<open>Inbound (toInbound, toCallbackInbound)\<close>

text \<open>A dropped update is \<open>Some None\<close>, a panic \<open>None\<close>.\<close>

definition toInbound :: "adapter \<Rightarrow> tg_message \<Rightarrow> inbound option option" where
  "toInbound a m =
     (case tm_From m of None \<Rightarrow> Some None
      | Some from \<Rightarrow>
          if TrimSpace (tm_Text m) = [] then Some None
          else (case surfaceFor a (tm_Chat m) of None \<Rightarrow> Some None
            | Some surface \<Rightarrow>
                if surface = SurfaceGroup \<and> \<not> topicAllowed a (tc_ID (tm_Chat m)) (tm_MessageThreadID m) then Some None
                else map_option (\<lambda>stripped. Some \<lparr>in_User = userOf from, in_Surface = surface, in_Text = stripped,
                    in_ReplyTo = itoa (tc_ID (tm_Chat m)), in_Directed = (surface = SurfaceDM \<or> isDirected a m),
                    in_MessageID = itoa (tm_ID m),
                    in_ReplyToMessageID = (case tm_ReplyToMessage m of None \<Rightarrow> [] | Some p \<Rightarrow> itoa (tp_ID p)),
                    in_ReplyToBot = replyToBot a m,
                    in_ReplyToText = (case tm_ReplyToMessage m of None \<Rightarrow> [] | Some p \<Rightarrow> TrimSpace (tp_Text p)),
                    in_ReplyToSender = (case tm_ReplyToMessage m of None \<Rightarrow> []
                       | Some p \<Rightarrow> (case tp_From p of None \<Rightarrow> [] | Some u \<Rightarrow> u_Display (userOf u))),
                    in_Callback = None\<rparr>) (stripBotMentions a (tm_Text m) (tm_Entities m))))"

definition toCallbackInbound :: "adapter \<Rightarrow> tg_click \<Rightarrow> inbound option" where
  "toCallbackInbound a cq =
     (if cq_Data cq = [] then None
      else (case cq_Message cq of None \<Rightarrow> None
        | Some (chat, messageID) \<Rightarrow> (case surfaceFor a chat of None \<Rightarrow> None
            | Some surface \<Rightarrow> Some \<lparr>in_User = userOf (cq_From cq), in_Surface = surface, in_Text = [],
                in_ReplyTo = itoa (tc_ID chat), in_Directed = False, in_MessageID = [], in_ReplyToMessageID = [],
                in_ReplyToBot = False, in_ReplyToText = [], in_ReplyToSender = [],
                in_Callback = Some \<lparr>cb_Token = cq_Data cq, cb_QueryID = cq_ID cq, cb_MessageID = itoa messageID\<rparr>\<rparr>)))"

section \<open>Sending\<close>

datatype mark_kind = MarkCode | MarkPre

record mark =
  mk_kind :: mark_kind
  mk_offset :: nat
  mk_length :: nat

text \<open>A keyboard is its rows, each one button: a label and the token the click carries back.\<close>

type_synonym keyboard = "(string \<times> string) list"

record send_params =
  sp_chat :: int
  sp_thread :: int
  sp_text :: string
  sp_html :: bool
  sp_marks :: "mark list"
  sp_keyboard :: "keyboard option"

datatype tg_call = CallSend send_params | CallReact int int string | CallAnswer string string | CallEdit int int string

text \<open>What a call did: \<open>ApiBad\<close> is an error that is \<^verbatim>\<open>bot.ErrorBadRequest\<close>.\<close>

datatype api_out = ApiOk | ApiBad error | ApiErr error

fun api_error :: "api_out \<Rightarrow> error option" where
  "api_error ApiOk = None" | "api_error (ApiBad e) = Some e" | "api_error (ApiErr e) = Some e"

definition redacted :: string where
  "redacted = map char_of [194, 171 :: nat] @ ''token'' @ map char_of [194, 187 :: nat]"

definition redact :: "(error \<Rightarrow> string) \<Rightarrow> adapter \<Rightarrow> error option \<Rightarrow> error option" where
  "redact show_error a eo = (case eo of None \<Rightarrow> None
     | Some e \<Rightarrow> if ad_Token a = [] then Some e else Some (ErrMsg (ReplaceAll (show_error e) (ad_Token a) redacted)))"

fun mint_tokens :: "(action \<Rightarrow> 's \<Rightarrow> string result \<times> 's) \<Rightarrow> action list \<Rightarrow> 's \<Rightarrow> keyboard result \<times> 's" where
  "mint_tokens put [] s = (Inr [], s)"
| "mint_tokens put (act # acts) s =
     (case put act s of
        (Inl e, s') \<Rightarrow> (Inl e, s')
      | (Inr token, s') \<Rightarrow> (case mint_tokens put acts s' of
            (Inl e, s'') \<Rightarrow> (Inl e, s'')
          | (Inr rows, s'') \<Rightarrow> (Inr ((a_Label act, token) # rows), s'')))"

definition renderActions :: "adapter \<Rightarrow> (action \<Rightarrow> 's \<Rightarrow> string result \<times> 's) \<Rightarrow> action list \<Rightarrow> 's \<Rightarrow> keyboard result \<times> 's" where
  "renderActions a put acts s = (if \<not> ad_callbacks a then (Inl (ErrMsg ''telegram: no callback store''), s) else mint_tokens put acts s)"

text \<open>The three ways one reply may be sent, in the order they are tried.\<close>

datatype attempt = AsHTML | AsPlain | AsRaw

text \<open>\<open>h\<close>, \<open>p\<close> and \<open>w\<close> are the three requests, \<open>formatted\<close> whether there is formatted text at all.\<close>

definition try_send ::
    "(attempt \<Rightarrow> api_out) \<Rightarrow> (error option \<Rightarrow> error option) \<Rightarrow> bool \<Rightarrow> send_params \<Rightarrow> send_params \<Rightarrow> send_params
     \<Rightarrow> error option \<times> (attempt \<times> send_params) list" where
  "try_send out red formatted h p w =
     (if \<not> formatted then (red (api_error (out AsRaw)), [(AsRaw, w)])
      else (case out AsHTML of
          ApiOk \<Rightarrow> (None, [(AsHTML, h)])
        | _ \<Rightarrow> (case out AsPlain of
              ApiOk \<Rightarrow> (None, [(AsHTML, h), (AsPlain, p)])
            | ApiErr e \<Rightarrow> (red (Some e), [(AsHTML, h), (AsPlain, p)])
            | ApiBad e \<Rightarrow> (red (api_error (out AsRaw)), [(AsHTML, h), (AsPlain, p), (AsRaw, w)]))))"

definition sendTo ::
    "(error \<Rightarrow> string) \<Rightarrow> (string \<Rightarrow> string) \<Rightarrow> (string \<Rightarrow> string \<times> mark list) \<Rightarrow> (action \<Rightarrow> 's \<Rightarrow> string result \<times> 's)
     \<Rightarrow> adapter \<Rightarrow> (attempt \<Rightarrow> api_out) \<Rightarrow> int \<Rightarrow> int \<Rightarrow> reply \<Rightarrow> 's \<Rightarrow> error option \<times> (attempt \<times> send_params) list \<times> 's" where
  "sendTo show_error html plainOf put a out chatID threadID r s =
     (if r_Silent r \<or> TrimSpace (r_Text r) = [] \<and> r_Actions r = [] then (None, [], s)
      else if \<not> ad_running a then (Some (ErrMsg ''telegram: transport not running''), [], s)
      else (case (if r_Actions r = [] then (Inr None, s)
                  else (case renderActions a put (r_Actions r) s of (Inl e, s') \<Rightarrow> (Inl e, s') | (Inr k, s') \<Rightarrow> (Inr (Some k), s'))) of
        (kb, s') \<Rightarrow>
          (let plain = (case kb of Inl _ \<Rightarrow> r_Text r @ ActionsAsText (r_Actions r) | Inr _ \<Rightarrow> r_Text r);
               markup = (case kb of Inl _ \<Rightarrow> None | Inr k \<Rightarrow> k);
               msg = \<lparr>sp_chat = chatID, sp_thread = threadID, sp_text = plain, sp_html = False, sp_marks = [], sp_keyboard = markup\<rparr>;
               htmlText = html plain
           in (case try_send out (redact show_error a) (htmlText \<noteq> [])
                 (msg\<lparr>sp_text := htmlText, sp_html := True\<rparr>)
                 (msg\<lparr>sp_text := fst (plainOf htmlText), sp_marks := snd (plainOf htmlText)\<rparr>) msg of
               (e, sends) \<Rightarrow> (e, sends, s')))))"

text \<open>\<^verbatim>\<open>Send\<close>, the transport interface's.\<close>

definition tg_Send ::
    "(error \<Rightarrow> string) \<Rightarrow> (string \<Rightarrow> string) \<Rightarrow> (string \<Rightarrow> string \<times> mark list) \<Rightarrow> (action \<Rightarrow> 's \<Rightarrow> string result \<times> 's)
     \<Rightarrow> adapter \<Rightarrow> (attempt \<Rightarrow> api_out) \<Rightarrow> string \<Rightarrow> reply \<Rightarrow> 's \<Rightarrow> error option \<times> (attempt \<times> send_params) list \<times> 's" where
  "tg_Send show_error html plainOf put a out replyTo r s =
     (case ParseInt replyTo of
        None \<Rightarrow> (Some (ErrMsg ''telegram: invalid chat id''), [], s)
      | Some chatID \<Rightarrow> sendTo show_error html plainOf put a out chatID 0 r s)"

section \<open>Dispatch\<close>

text \<open>A message: the calls made, and \<open>None\<close> for a panic. \<open>handler\<close> steps the state \<open>'s\<close>.\<close>

definition dispatch_message ::
    "(error \<Rightarrow> string) \<Rightarrow> (string \<Rightarrow> string) \<Rightarrow> (string \<Rightarrow> string \<times> mark list) \<Rightarrow> (action \<Rightarrow> 's \<Rightarrow> string result \<times> 's)
     \<Rightarrow> (inbound \<Rightarrow> 's \<Rightarrow> reply result \<times> 's) \<Rightarrow> adapter \<Rightarrow> (attempt \<Rightarrow> api_out) \<Rightarrow> tg_message \<Rightarrow> 's \<Rightarrow> (tg_call list \<times> 's) option" where
  "dispatch_message show_error html plainOf put handler a out m s =
     map_option (\<lambda>inb. case inb of None \<Rightarrow> ([], s)
       | Some i \<Rightarrow> (case handler i s of
             (Inl _, s') \<Rightarrow> ([], s')
           | (Inr r, s') \<Rightarrow>
               (case sendTo show_error html plainOf put a out (tc_ID (tm_Chat m)) (tm_MessageThreadID m) r s' of
                  (_, sends, s'') \<Rightarrow>
                    ((if r_Reaction r \<noteq> [] \<and> ad_running a then [CallReact (tc_ID (tm_Chat m)) (tm_ID m) (r_Reaction r)] else []) @
                     map (\<lambda>(_, p). CallSend p) sends, s'')))) (toInbound a m)"

definition editToStatus :: "string \<Rightarrow> string \<Rightarrow> string \<Rightarrow> tg_call list" where
  "editToStatus chatID messageID text' =
     (case ParseInt chatID of None \<Rightarrow> []
      | Some chat \<Rightarrow> (case ParseInt messageID of None \<Rightarrow> [] | Some msg \<Rightarrow> [CallEdit chat msg text']))"

definition handleCallback :: "(inbound \<Rightarrow> 's \<Rightarrow> reply result \<times> 's) \<Rightarrow> adapter \<Rightarrow> tg_click \<Rightarrow> 's \<Rightarrow> tg_call list \<times> 's" where
  "handleCallback handler a cq s =
     (case toCallbackInbound a cq of
        None \<Rightarrow> ([CallAnswer (cq_ID cq) []], s)
      | Some i \<Rightarrow>
          (let cb = the (in_Callback i) in
           case handler i s of
             (Inl _, s') \<Rightarrow> ([CallAnswer (cb_QueryID cb) []], s')
           | (Inr r, s') \<Rightarrow>
               (CallAnswer (cb_QueryID cb) (r_Notice r) #
                 (if TrimSpace (r_Text r) \<noteq> [] then editToStatus (in_ReplyTo i) (cb_MessageID cb) (r_Text r) else []), s')))"

end
