(* ===== verification/Telegram_Props.thy ===== *)
theory Telegram_Props
  imports Telegram Config_Props Pending
begin

text \<open>
  What the adapter guarantees: which updates reach the handler, that cutting the bot's own mentions out
  of a message keeps exactly the rest, how often one reply can be sent, that every click is answered,
  that a button carries its action's token and nothing else, and that the bot's token never leaves it.
\<close>

section \<open>Scope\<close>

definition in_scope :: "adapter \<Rightarrow> tg_chat \<Rightarrow> bool" where
  "in_scope a chat \<longleftrightarrow> tc_Type chat = ChatPrivate \<or>
     tc_Type chat \<in> {ChatGroup, ChatSupergroup} \<and> itoa (tc_ID chat) \<in> set (ad_AllowedGroups a)"

lemma surfaceFor_iff: "surfaceFor a chat \<noteq> None \<longleftrightarrow> in_scope a chat"
  by (cases "tc_Type chat") (auto simp: surfaceFor_def in_scope_def groupAllowed_def)

lemma surfaceFor_DM: "surfaceFor a chat = Some SurfaceDM \<longleftrightarrow> tc_Type chat = ChatPrivate"
  by (cases "tc_Type chat") (auto simp: surfaceFor_def)

lemma topics_of_cases:
  "topics_of cts chat = None \<longleftrightarrow> chat \<notin> fst ` set cts"
  "topics_of cts chat = Some ts \<Longrightarrow> i \<in> set ts \<Longrightarrow> \<exists>(c, ts) \<in> set cts. c = chat \<and> i \<in> set ts"
  by (auto simp: topics_of_def split: if_splits) force

lemma scoped_updates:
  assumes "parseTopicAllowList specs = Inr (ad_AllowedTopics a)" and "map topic_spec specs = map Inr read"
  shows "toInbound a m = Some (Some inb) \<Longrightarrow>
      in_scope a (tm_Chat m) \<and> TrimSpace (tm_Text m) \<noteq> [] \<and> in_ReplyTo inb = itoa (tc_ID (tm_Chat m)) \<and> in_Callback inb = None \<and>
      (in_Surface inb = SurfaceDM \<longleftrightarrow> tc_Type (tm_Chat m) = ChatPrivate) \<and>
      (in_Surface inb = SurfaceGroup \<longrightarrow> tc_ID (tm_Chat m) \<in> fst ` set read \<longrightarrow>
         (\<exists>(c, ts) \<in> set read. c = tc_ID (tm_Chat m) \<and> tm_MessageThreadID m \<in> set ts))"
    and "toCallbackInbound a cq = Some inb \<Longrightarrow>
      \<exists>chat msg. cq_Message cq = Some (chat, msg) \<and> in_scope a chat \<and> in_ReplyTo inb = itoa (tc_ID chat) \<and>
        cb_Token (the (in_Callback inb)) = cq_Data cq \<and> cq_Data cq \<noteq> []"
    and "ad_AllowedGroups a = [] \<Longrightarrow> toInbound a m = Some (Some inb) \<Longrightarrow> in_Surface inb = SurfaceDM"
proof -
  have t: "ad_AllowedTopics a = topics_of read"
    using assms add_topics_ok [OF assms(2), of "[]"] by (simp add: parseTopicAllowList_def topics_of_def)
  have g: "in_scope a (tm_Chat m) \<and> TrimSpace (tm_Text m) \<noteq> [] \<and> in_ReplyTo inb = itoa (tc_ID (tm_Chat m)) \<and> in_Callback inb = None \<and>
      surfaceFor a (tm_Chat m) = Some (in_Surface inb) \<and>
      (in_Surface inb = SurfaceGroup \<longrightarrow> topicAllowed a (tc_ID (tm_Chat m)) (tm_MessageThreadID m))"
    if inb: "toInbound a m = Some (Some inb)"
  proof -
    obtain u surface where s: "tm_From m = Some u" "TrimSpace (tm_Text m) \<noteq> []" "surfaceFor a (tm_Chat m) = Some surface"
      using inb by (auto simp: toInbound_def split: option.splits if_splits)
    then have n: "\<not> (surface = SurfaceGroup \<and> \<not> topicAllowed a (tc_ID (tm_Chat m)) (tm_MessageThreadID m))"
      using inb by (auto simp: toInbound_def split: if_splits)
    then have i: "in_ReplyTo inb = itoa (tc_ID (tm_Chat m))" "in_Callback inb = None" "in_Surface inb = surface"
      using inb s unfolding toInbound_def by auto
    then show ?thesis using s n surfaceFor_iff [of a "tm_Chat m"] by auto
  qed
  have topic: "\<exists>(c, ts) \<in> set read. c = tc_ID (tm_Chat m) \<and> tm_MessageThreadID m \<in> set ts"
    if "topicAllowed a (tc_ID (tm_Chat m)) (tm_MessageThreadID m)" "tc_ID (tm_Chat m) \<in> fst ` set read"
    using that topics_of_cases [of read] by (cases "topics_of read (tc_ID (tm_Chat m))") (simp_all add: topicAllowed_def t)
  show "toInbound a m = Some (Some inb) \<Longrightarrow>
      in_scope a (tm_Chat m) \<and> TrimSpace (tm_Text m) \<noteq> [] \<and> in_ReplyTo inb = itoa (tc_ID (tm_Chat m)) \<and> in_Callback inb = None \<and>
      (in_Surface inb = SurfaceDM \<longleftrightarrow> tc_Type (tm_Chat m) = ChatPrivate) \<and>
      (in_Surface inb = SurfaceGroup \<longrightarrow> tc_ID (tm_Chat m) \<in> fst ` set read \<longrightarrow>
         (\<exists>(c, ts) \<in> set read. c = tc_ID (tm_Chat m) \<and> tm_MessageThreadID m \<in> set ts))"
    using g topic surfaceFor_DM [of a "tm_Chat m"] by auto
  show "ad_AllowedGroups a = [] \<Longrightarrow> toInbound a m = Some (Some inb) \<Longrightarrow> in_Surface inb = SurfaceDM"
    using g surfaceFor_DM [of a "tm_Chat m"] by (auto simp: in_scope_def)
  show "toCallbackInbound a cq = Some inb \<Longrightarrow>
      \<exists>chat msg. cq_Message cq = Some (chat, msg) \<and> in_scope a chat \<and> in_ReplyTo inb = itoa (tc_ID chat) \<and>
        cb_Token (the (in_Callback inb)) = cq_Data cq \<and> cq_Data cq \<noteq> []"
    using surfaceFor_iff [of a] by (fastforce simp: toCallbackInbound_def split: option.splits if_splits prod.splits)
qed

text \<open>C14: A message reaches the handler only from a direct chat, or from a group that is listed and, when
  the group has topics listed in the configuration, from one of them; the reply address and the surface
  are then the chat's own. A click reaches it only from a direct chat or a listed group. With no group
  listed, no group is served.\<close>

theorem only_scoped_updates:
  assumes "parseTopicAllowList specs = Inr (ad_AllowedTopics a)" and "map topic_spec specs = map Inr read"
  shows "(\<forall>inb. toInbound a m = Some (Some inb) \<longrightarrow>
      in_scope a (tm_Chat m) \<and> TrimSpace (tm_Text m) \<noteq> [] \<and> in_ReplyTo inb = itoa (tc_ID (tm_Chat m)) \<and> in_Callback inb = None \<and>
      (in_Surface inb = SurfaceDM \<longleftrightarrow> tc_Type (tm_Chat m) = ChatPrivate) \<and>
      (in_Surface inb = SurfaceGroup \<longrightarrow> tc_ID (tm_Chat m) \<in> fst ` set read \<longrightarrow>
         (\<exists>(c, ts) \<in> set read. c = tc_ID (tm_Chat m) \<and> tm_MessageThreadID m \<in> set ts)) \<and>
      (ad_AllowedGroups a = [] \<longrightarrow> in_Surface inb = SurfaceDM)) \<and>
    (\<forall>inb. toCallbackInbound a cq = Some inb \<longrightarrow>
      (\<exists>chat msg. cq_Message cq = Some (chat, msg) \<and> in_scope a chat \<and> in_ReplyTo inb = itoa (tc_ID chat) \<and>
        cb_Token (the (in_Callback inb)) = cq_Data cq \<and> cq_Data cq \<noteq> []))"
  using scoped_updates [OF assms] by blast

section \<open>Own mentions\<close>

text \<open>The code units outside every span, a definition to compare with.\<close>

definition outside_spans :: "(int \<times> int) list \<Rightarrow> nat list \<Rightarrow> nat list" where
  "outside_spans spans us = nths us {i. \<forall>(s, e) \<in> set spans. \<not> (s \<le> int i \<and> int i < e)}"

lemma nths_none: "\<forall>i < length xs. i \<notin> I \<Longrightarrow> nths xs I = []"
  by (induction xs arbitrary: I) (auto simp: nths_Cons)

lemma nths_agree: "\<forall>i < length xs. i \<in> I \<longleftrightarrow> i \<in> J \<Longrightarrow> nths xs I = nths xs J"
proof (induction xs arbitrary: I J)
  case (Cons x xs)
  then have "nths xs {j. Suc j \<in> I} = nths xs {j. Suc j \<in> J}" by (intro Cons.IH) auto
  then show ?case using Cons.prems by (auto simp: nths_Cons)
qed simp

lemma cut_spans_prefix:
  assumes "\<forall>(s, e) \<in> set spans. s \<le> e \<and> e \<le> int (length a)"
    and "sorted_wrt (\<lambda>(s, e) (s', e'). e' \<le> s) spans"
  shows "cut_spans spans (a @ b) = map_option (\<lambda>us. us @ b) (cut_spans spans a)"
  using assms
proof (induction spans arbitrary: a b)
  case (Cons x spans)
  obtain s e where x: "x = (s, e)" by (cases x)
  have b: "s \<le> e" "e \<le> int (length a)" using Cons.prems(1) x by auto
  show ?case
  proof (cases "0 \<le> s")
    case True
    have ta: "take (nat s) (a @ b) = take (nat s) a" "drop (nat e) (a @ b) = drop (nat e) a @ b"
      using b True by auto
    have rest: "\<forall>(s', e') \<in> set spans. s' \<le> e' \<and> e' \<le> int (length (take (nat s) a))"
      using Cons.prems True b x by auto
    have sw: "sorted_wrt (\<lambda>(s, e) (s', e'). e' \<le> s) spans" using Cons.prems(2) by simp
    show ?thesis
      using Cons.IH [OF rest sw, of "drop (nat e) a @ b"] Cons.IH [OF rest sw, of "drop (nat e) a"] True b
      by (auto simp: x ta option.map_comp comp_def)
  next
    case False
    then show ?thesis by (simp add: x)
  qed
qed simp

lemma cut_spans_outside:
  assumes "\<forall>(s, e) \<in> set spans. 0 \<le> s \<and> s \<le> e \<and> e \<le> int (length us)"
    and "sorted_wrt (\<lambda>(s, e) (s', e'). e' \<le> s) spans"
  shows "cut_spans spans us = Some (outside_spans spans us)"
  using assms
proof (induction spans arbitrary: us)
  case Nil
  then show ?case by (simp add: outside_spans_def nths_all)
next
  case (Cons x spans)
  obtain s e where x: "x = (s, e)" by (cases x)
  have b: "0 \<le> s" "s \<le> e" "e \<le> int (length us)" using Cons.prems(1) x by auto
  define a m d where amd: "a = take (nat s) us" "m = take (nat e - nat s) (drop (nat s) us)" "d = drop (nat e) us"
  have us: "us = a @ m @ d"
    using b by (metis amd append_take_drop_id drop_drop le_add_diff_inverse2 nat_mono)
  have len: "length a = nat s" "length m = nat e - nat s" using b amd by auto
  have before: "e' \<le> s" if "(s', e') \<in> set spans" for s' e' using Cons.prems(2) that x by auto
  have rest: "\<forall>(s', e') \<in> set spans. 0 \<le> s' \<and> s' \<le> e' \<and> e' \<le> int (length a)"
    using Cons.prems(1) before len(1) b(1) by fastforce
  have sw: "sorted_wrt (\<lambda>(s, e) (s', e'). e' \<le> s) spans" using Cons.prems(2) by simp
  let ?I = "{i. \<forall>(s, e) \<in> set (x # spans). \<not> (s \<le> int i \<and> int i < e)}"
  have "nths a ?I = outside_spans spans a"
    unfolding outside_spans_def by (rule nths_agree) (auto simp: x len)
  moreover have "nths m {j. j + length a \<in> ?I} = []"
    using b by (intro nths_none) (auto simp: x len)
  moreover have "nths d {j. j + length m \<in> {j. j + length a \<in> ?I}} = d"
    using b before by (intro nths_all) (fastforce simp: x len)
  ultimately have o: "outside_spans (x # spans) us = outside_spans spans a @ d"
    unfolding outside_spans_def us by (simp add: nths_append)
  have "cut_spans (x # spans) us = cut_spans spans (a @ d)" using b by (simp add: x amd)
  also have "\<dots> = map_option (\<lambda>us. us @ d) (cut_spans spans a)"
    using rest by (intro cut_spans_prefix [OF _ sw]) auto
  finally show ?case using Cons.IH [OF rest sw] o by simp
qed

definition apart :: "tg_entity \<Rightarrow> tg_entity \<Rightarrow> bool" where
  "apart e e' \<longleftrightarrow> en_Offset e + en_Length e \<le> en_Offset e' \<or> en_Offset e' + en_Length e' \<le> en_Offset e"

lemma descending_spans:
  assumes "sorted_wrt (\<lambda>(s, e) (s', e'). e \<le> s' \<or> e' \<le> s) spans" "\<forall>(s, e) \<in> set spans. s < (e :: int)"
  shows "sorted_wrt (\<lambda>(s, e) (s', e'). e' \<le> s) (sort_key (\<lambda>(s, e). - s) spans)"
proof -
  let ?f = "\<lambda>(s, e). - s :: int"
  have "distinct spans \<and> (\<forall>x \<in> set spans. \<forall>y \<in> set spans. x \<noteq> y \<longrightarrow> snd x \<le> fst y \<or> snd y \<le> fst x)"
    using assms by (induction spans) force+
  then have d: "distinct (sort_key ?f spans)"
    and p: "\<forall>x \<in> set (sort_key ?f spans). \<forall>y \<in> set (sort_key ?f spans). x \<noteq> y \<longrightarrow> snd x \<le> fst y \<or> snd y \<le> fst x"
    by auto
  have ne: "\<forall>x \<in> set (sort_key ?f spans). fst x < snd x" using assms(2) by auto
  have "sorted (map ?f (sort_key ?f spans))" by simp
  then have "sorted_wrt (\<lambda>x y. fst y \<le> fst x) (sort_key ?f spans)"
    by (simp add: sorted_wrt_map case_prod_beta)
  then show ?thesis using d p ne
  proof (induction "sort_key ?f spans" arbitrary: spans rule: list.induct)
    case (Cons x xs)
    let ?ys = "sort_key ?f spans"
    have "sorted_wrt (\<lambda>(s, e) (s', e'). e' \<le> s) ys"
      if "sorted_wrt (\<lambda>x y. fst y \<le> fst x) ys" "distinct ys"
        "\<forall>x \<in> set ys. \<forall>y \<in> set ys. x \<noteq> y \<longrightarrow> snd x \<le> fst y \<or> snd y \<le> fst x" "\<forall>x \<in> set ys. fst x < snd x"
      for ys :: "(int \<times> int) list"
      using that by (induction ys) force+
    then show ?case using Cons.prems by blast
  qed simp
qed

text \<open>C32: Cutting the bot's own mentions out of a message keeps exactly the rest: when the platform's entities
  are not empty and do not overlap, the cut never fails and its result is the text at the UTF-16 units no
  own mention covers, trimmed; a text without an own mention is left alone.\<close>

theorem stripBotMentions_equiv:
  assumes "\<forall>e \<in> set es. 0 < en_Length e" and "sorted_wrt apart es"
  shows "stripBotMentions a t es = Some (if own_spans a t es = [] then t
    else TrimSpace (of_units (outside_spans (own_spans a t es) (units t))))"
proof (cases "own_spans a t es = []")
  case True
  then show ?thesis by (simp add: stripBotMentions_def)
next
  case False
  let ?own = "own_spans a t es" and ?sorted = "sort_key (\<lambda>(s, e). - s) (own_spans a t es)"
  have b: "\<forall>(s, e) \<in> set ?own. 0 \<le> s \<and> s < e \<and> e \<le> int (length (units t))"
    using assms(1) by (auto simp: own_spans_def)
  have "sorted_wrt (\<lambda>(s, e) (s', e'). e \<le> s' \<or> e' \<le> s) ?own"
    using assms(2) by (auto simp: own_spans_def sorted_wrt_map apart_def [abs_def] intro!: sorted_wrt_filter)
  then have "sorted_wrt (\<lambda>(s, e) (s', e'). e' \<le> s) ?sorted" using b by (intro descending_spans) auto
  then have "cut_spans ?sorted (units t) = Some (outside_spans ?sorted (units t))"
    using b by (intro cut_spans_outside) fastforce+
  then show ?thesis using False by (simp add: stripBotMentions_def outside_spans_def)
qed

section \<open>Delivery\<close>

fun rejected :: "api_out \<Rightarrow> bool" where
  "rejected (ApiBad e) = True" | "rejected _ = False"

lemma api_error_None [simp]: "api_error x = None \<longleftrightarrow> x = ApiOk"
  by (cases x) simp_all

lemma try_send_cases:
  assumes "try_send out red f h p w = (e, sends)"
  obtains "sends = [(AsRaw, w)]" "e = red (api_error (out AsRaw))"
  | "out AsHTML = ApiOk" "sends = [(AsHTML, h)]" "e = None"
  | "out AsHTML \<noteq> ApiOk" "out AsPlain = ApiOk" "sends = [(AsHTML, h), (AsPlain, p)]" "e = None"
  | x where "out AsHTML \<noteq> ApiOk" "out AsPlain = ApiErr x" "sends = [(AsHTML, h), (AsPlain, p)]" "e = red (Some x)"
  | x where "out AsHTML \<noteq> ApiOk" "out AsPlain = ApiBad x" "sends = [(AsHTML, h), (AsPlain, p), (AsRaw, w)]"
      "e = red (api_error (out AsRaw))"
  using assms by (cases f; cases "out AsHTML"; cases "out AsPlain") (simp_all add: try_send_def)

text \<open>C15: One reply is sent at most once successfully and at most twice in any way that may have reached the
  chat: the attempts (formatted, plain, raw) go to the chat and topic of the question, each only after
  the one before it failed, the raw text only after a request the platform rejected; success is reported
  exactly when the last attempt succeeded; and a silent reply, or one with neither text nor actions,
  sends nothing.\<close>

theorem delivery_bounded:
  assumes "sendTo show_error html plainOf put a out chatID threadID r s = (e, sends, s')"
  shows "(\<forall>(k, p) \<in> set sends. sp_chat p = chatID \<and> sp_thread p = threadID) \<and>
    length (filter (\<lambda>k. \<not> rejected (out k)) (map fst sends)) \<le> 2 \<and> distinct (map fst sends) \<and>
    (\<forall>k \<in> set (butlast (map fst sends)). out k \<noteq> ApiOk) \<and>
    (AsPlain \<in> set (map fst sends) \<longrightarrow> AsRaw \<in> set (map fst sends) \<longrightarrow> rejected (out AsPlain)) \<and>
    (sends \<noteq> [] \<longrightarrow> (e = None \<longleftrightarrow> out (last (map fst sends)) = ApiOk)) \<and>
    (r_Silent r \<or> TrimSpace (r_Text r) = [] \<and> r_Actions r = [] \<longrightarrow> sends = [] \<and> e = None \<and> s' = s)"
proof (cases "r_Silent r \<or> TrimSpace (r_Text r) = [] \<and> r_Actions r = [] \<or> \<not> ad_running a")
  case True
  then show ?thesis using assms by (auto simp: sendTo_def split: if_splits)
next
  case False
  have red: "redact show_error a x = None \<longleftrightarrow> x = None" for x by (auto simp: redact_def split: option.splits)
  obtain f h p w where t: "try_send out (redact show_error a) f h p w = (e, sends)"
    and q: "\<forall>q \<in> {h, p, w}. sp_chat q = chatID \<and> sp_thread q = threadID"
  proof -
    obtain kb s1 where kb: "(if r_Actions r = [] then (Inr None, s)
        else (case renderActions a put (r_Actions r) s of (Inl e, s') \<Rightarrow> (Inl e, s') | (Inr k, s') \<Rightarrow> (Inr (Some k), s'))) = (kb, s1)"
      by (rule prod.exhaust)
    have ns: "(r_Silent r \<or> TrimSpace (r_Text r) = [] \<and> r_Actions r = []) = False" "(\<not> ad_running a) = False"
      using False by blast+
    let ?plain = "case kb of Inl _ \<Rightarrow> r_Text r @ ActionsAsText (r_Actions r) | Inr _ \<Rightarrow> r_Text r"
    let ?msg = "\<lparr>sp_chat = chatID, sp_thread = threadID, sp_text = ?plain, sp_html = False, sp_marks = [],
      sp_keyboard = (case kb of Inl _ \<Rightarrow> None | Inr k \<Rightarrow> k)\<rparr>"
    have "try_send out (redact show_error a) (html ?plain \<noteq> []) (?msg\<lparr>sp_text := html ?plain, sp_html := True\<rparr>)
        (?msg\<lparr>sp_text := fst (plainOf (html ?plain)), sp_marks := snd (plainOf (html ?plain))\<rparr>) ?msg = (e, sends)"
      using assms unfolding sendTo_def kb ns if_False prod.case Let_def by (simp split: prod.splits)
    then show ?thesis by (rule that) simp
  qed
  have quiet: "\<not> (r_Silent r \<or> TrimSpace (r_Text r) = [] \<and> r_Actions r = [])" using False by blast
  from t show ?thesis
    by (cases rule: try_send_cases) (use q quiet in \<open>simp_all add: red\<close>)
qed

section \<open>Clicks\<close>

text \<open>Every click is answered, once and first: whatever the click is and whatever the handler does, the
  first call made is the answer to that click's query, no other click is answered, and at most one
  message, the one the button is on, is edited after it, never before the answer.\<close>

theorem click_answered_once:
  "\<exists>toast rest. fst (handleCallback handler a cq s) = CallAnswer (cq_ID cq) toast # rest \<and>
     (rest = [] \<or> (\<exists>chat msg text'. rest = [CallEdit chat msg text'] \<and>
        (\<exists>c m. cq_Message cq = Some (c, m) \<and> ParseInt (itoa (tc_ID c)) = Some chat \<and> ParseInt (itoa m) = Some msg)))"
proof (cases "toCallbackInbound a cq")
  case None
  then show ?thesis by (simp add: handleCallback_def)
next
  case (Some i)
  then obtain c m where i: "cq_Message cq = Some (c, m)" "in_ReplyTo i = itoa (tc_ID c)"
      "in_Callback i = Some \<lparr>cb_Token = cq_Data cq, cb_QueryID = cq_ID cq, cb_MessageID = itoa m\<rparr>"
    by (auto simp: toCallbackInbound_def split: if_splits option.splits)
  obtain x s' where h: "handler i s = (x, s')" by (cases "handler i s")
  show ?thesis
    by (cases x) (auto simp: handleCallback_def Some i h editToStatus_def Let_def split: option.splits)
qed

section \<open>Buttons\<close>

text \<open>The durable token store as \<^verbatim>\<open>Put\<close> is called by the adapter: a supply of tokens drawn, a clock, what
  each write did.\<close>

definition put_drawn :: "time \<Rightarrow> io \<Rightarrow> action \<Rightarrow> pend_bolt \<times> string list \<Rightarrow> string result \<times> pend_bolt \<times> string list" where
  "put_drawn now io act st =
     (case pbolt_Put (Inr (hd (snd st))) now io (fst st) act of (x, s') \<Rightarrow> (x, s', tl (snd st)))"

lemma put_drawn_ok:
  assumes "put_drawn now io act (s, tok # toks) = (Inr t, s', toks')"
  shows "t = tok" "toks' = toks" "pb_ttl s' = pb_ttl s"
    "map_of (pb_db s') = (map_of (pb_db s))(tok \<mapsto> Blob (new_record act (now + pb_ttl s)))"
  using assms
  by (auto simp: put_drawn_def pbolt_Put_def pend_marshal_def tx_update_committed store_simps
      split: sum.splits prod.splits option.splits if_splits)

lemma mint_tokens_ok:
  assumes "mint_tokens (put_drawn now io) acts (s, toks) = (Inr rows, s', toks')" "length acts \<le> length toks" "distinct toks"
  shows "rows = zip (map a_Label acts) toks \<and> pb_ttl s' = pb_ttl s \<and>
    (\<forall>i < length acts. map_of (pb_db s') (toks ! i) = Some (Blob (new_record (acts ! i) (now + pb_ttl s)))) \<and>
    (\<forall>t. t \<notin> set (take (length acts) toks) \<longrightarrow> map_of (pb_db s') t = map_of (pb_db s) t)"
  using assms
proof (induction acts arbitrary: s toks rows)
  case (Cons act acts)
  obtain tok toks1 where toks: "toks = tok # toks1" using Cons.prems(2) by (cases toks) auto
  obtain t s1 toks2 where p: "put_drawn now io act (s, tok # toks1) = (Inr t, s1, toks2)"
    using Cons.prems(1) toks by (auto split: prod.splits sum.splits)
  note po = put_drawn_ok [OF p]
  obtain rows1 where r: "mint_tokens (put_drawn now io) acts (s1, toks1) = (Inr rows1, s', toks')" "rows = (a_Label act, tok) # rows1"
    using Cons.prems(1) toks p po by (auto split: prod.splits sum.splits)
  have ih: "rows1 = zip (map a_Label acts) toks1 \<and> pb_ttl s' = pb_ttl s1 \<and>
    (\<forall>i < length acts. map_of (pb_db s') (toks1 ! i) = Some (Blob (new_record (acts ! i) (now + pb_ttl s1)))) \<and>
    (\<forall>t. t \<notin> set (take (length acts) toks1) \<longrightarrow> map_of (pb_db s') t = map_of (pb_db s1) t)"
    using Cons.IH [OF r(1)] Cons.prems(2,3) toks by simp
  have "tok \<notin> set (take (length acts) toks1)" using Cons.prems(3) toks by (auto dest: in_set_takeD)
  then have "map_of (pb_db s') tok = Some (Blob (new_record act (now + pb_ttl s)))" using ih po(4) by simp
  then have "map_of (pb_db s') (toks ! i) = Some (Blob (new_record ((act # acts) ! i) (now + pb_ttl s)))"
    if "i < length (act # acts)" for i
    using that ih po(3) toks by (cases i) simp_all
  moreover have "map_of (pb_db s') t = map_of (pb_db s) t" if "t \<notin> set (take (length (act # acts)) toks)" for t
    using that ih po(4) toks by simp
  ultimately show ?case using ih po(3) r(2) toks by simp
qed simp

text \<open>A button comes back as the action it was rendered for. When a keyboard is rendered, its rows are
  the actions' labels in order, each with the token drawn for it and nothing else of the action; and a
  click carrying the token of any of them, while it is valid, resolves in the durable store to exactly
  that action.\<close>

theorem button_roundtrip:
  assumes "renderActions a (put_drawn now io) acts (s, toks) = (Inr rows, s', toks')"
    and "length acts \<le> length toks" "distinct toks" "i < length acts"
    and "t \<le> now + pb_ttl s" "t \<noteq> 0" "json_time_ok t" "json_time_ok (now + pb_ttl s)"
  shows "rows = zip (map a_Label acts) toks \<and>
    fst (pbolt_Resolve t Done s' (snd (rows ! i))) = (acts ! i, Resolved, None)"
proof -
  have "mint_tokens (put_drawn now io) acts (s, toks) = (Inr rows, s', toks')"
    using assms(1) by (simp add: renderActions_def split: if_splits)
  note m = mint_tokens_ok [OF this assms(2,3)]
  then have "snd (rows ! i) = toks ! i" using assms(2,4) by simp
  moreover have "map_of (pb_db s') (toks ! i) = Some (Blob (new_record (acts ! i) (now + pb_ttl s)))" using m assms(4) by blast
  ultimately show ?thesis using m assms(5-8)
    by (simp add: pbolt_Resolve_def pbolt_resolve_tx_def resolveRecord_def is_zero_def pend_marshal_def)
qed

section \<open>The bot's token\<close>

lemma Contains_Cons: "Contains (c # s) t \<Longrightarrow> t \<noteq> [] \<Longrightarrow> c \<notin> set t \<Longrightarrow> Contains s t"
  by (auto simp: Contains_def sublist_Cons_right prefix_Cons)

lemma Contains_split: "Contains (a @ c # b) t \<Longrightarrow> t \<noteq> [] \<Longrightarrow> c \<notin> set t \<Longrightarrow> Contains a t \<or> Contains b t"
proof (induction a)
  case Nil
  then show ?case using Contains_Cons [of c b t] by simp
next
  case (Cons x a)
  consider "prefix t (x # a @ c # b)" | "Contains (a @ c # b) t"
    using Cons.prems(1) by (auto simp: Contains_def sublist_Cons_right)
  then show ?case
  proof cases
    case 1
    then obtain r where r: "(x # a) @ c # b = t @ r" by (auto simp: prefix_def)
    have "length t \<le> length (x # a)"
    proof (rule ccontr)
      assume "\<not> length t \<le> length (x # a)"
      then have "t ! length (x # a) = ((x # a) @ c # b) ! length (x # a)" unfolding r by (simp add: nth_append)
      also have "\<dots> = c" by (simp only: nth_append_length)
      finally show False using Cons.prems(3) \<open>\<not> length t \<le> length (x # a)\<close> by (metis not_le nth_mem)
    qed
    moreover have "prefix t ((x # a) @ c # b)" unfolding r by simp
    moreover have "prefix (x # a) ((x # a) @ c # b)" by (rule prefixI) (rule refl)
    ultimately have "prefix t (x # a)" using prefix_length_prefix by blast
    then show ?thesis by (auto simp: Contains_def)
  next
    case 2
    then show ?thesis using Cons.IH Cons.prems(2,3) by (auto simp: Contains_def sublist_Cons_right)
  qed
qed

lemma Contains_at: "Contains w t \<Longrightarrow> t \<noteq> [] \<Longrightarrow> \<exists>k < length w. prefix t (drop k (w @ s))"
proof -
  assume "Contains w t" "t \<noteq> []"
  then obtain u v where "w = u @ t @ v" by (auto simp: Contains_def sublist_def)
  with \<open>t \<noteq> []\<close> show ?thesis by (intro exI [of _ "length u"]) simp
qed

lemma ReplaceAll_match:
  "t \<noteq> [] \<Longrightarrow> prefix t s \<Longrightarrow> ReplaceAll s t u = u @ ReplaceAll (drop (length t) s) t u"
  by (subst ReplaceAll.simps) auto

lemma ReplaceAll_pass: "t \<noteq> [] \<Longrightarrow> \<not> prefix t (x # s) \<Longrightarrow> ReplaceAll (x # s) t u = x # ReplaceAll s t u"
  by (subst ReplaceAll.simps) simp

lemma clear_snoc:
  assumes "\<forall>k < length w. \<not> prefix t (drop k (w @ x # s))" and "\<not> prefix t (x # s)"
  shows "\<forall>k < length (w @ [x]). \<not> prefix t (drop k ((w @ [x]) @ s))"
  using assms by (auto simp: less_Suc_eq)

text \<open>Nothing of the text before an occurrence, and nothing of the replacement, makes a new one.\<close>

lemma ReplaceAll_hides_after:
  assumes "t \<noteq> []" "c \<notin> set t" "d \<notin> set t" "\<not> Contains mid t"
  shows "\<forall>k < length w. \<not> prefix t (drop k (w @ s)) \<Longrightarrow> \<not> Contains (w @ ReplaceAll s t (c # mid @ [d])) t"
proof (induction "length s" arbitrary: s w rule: less_induct)
  case less
  have w: "\<not> Contains w t" using less.prems Contains_at [OF _ assms(1), of w s] by blast
  show ?case
  proof (cases "prefix t s")
    case True
    let ?rest = "ReplaceAll (drop (length t) s) t (c # mid @ [d])"
    have "0 < length s" "0 < length t" using True assms(1) by (auto simp: prefix_def)
    then have "\<not> Contains ([] @ ?rest) t" by (intro less.hyps) simp_all
    then have "\<not> Contains (mid @ d # ?rest) t" using assms(1,3,4) Contains_split [of mid d ?rest t] by auto
    then have "\<not> Contains (w @ c # mid @ d # ?rest) t"
      using w Contains_split [of w c "mid @ d # ?rest" t] assms(1,2) by blast
    then show ?thesis by (simp add: ReplaceAll_match [OF assms(1) True])
  next
    case skip: False
    show ?thesis
    proof (cases s)
      case Nil
      with w show ?thesis by (simp add: ReplaceAll.simps)
    next
      case (Cons x s')
      have "\<not> Contains ((w @ [x]) @ ReplaceAll s' t (c # mid @ [d])) t"
        using clear_snoc [of w t x s'] less.prems skip Cons by (intro less.hyps) auto
      with Cons skip show ?thesis by (simp add: ReplaceAll_pass [OF assms(1)])
    qed
  qed
qed

lemma ReplaceAll_hides:
  assumes "t \<noteq> []" "c \<notin> set t" "d \<notin> set t" "\<not> Contains mid t"
  shows "\<not> Contains (ReplaceAll s t (c # mid @ [d])) t"
  using ReplaceAll_hides_after [OF assms, of "[]" s] by simp

text \<open>The bot's token never leaves the adapter in an error: for a token of the platform's form (ASCII,
  with a colon), whatever an API call or the client reports, wherever and however often the token occurs
  in it, the error that is returned or logged does not contain the token, and an error stays an error.\<close>

theorem token_never_leaks:
  assumes "list_all (\<lambda>c. byte c < (128 :: nat)) (ad_Token a)" and "CHR '':'' \<in> set (ad_Token a)"
    and "redact show_error a eo = Some e"
  shows "(\<exists>m. e = ErrMsg m \<and> \<not> Contains m (ad_Token a)) \<and> eo \<noteq> None"
proof -
  have r: "redacted = char_of (194 :: nat) # (char_of (171 :: nat) # ''token'' @ [char_of (194 :: nat)]) @ [char_of (187 :: nat)]"
    by (simp add: redacted_def)
  have ne: "ad_Token a \<noteq> []" using assms(2) by auto
  have "char_of (194 :: nat) \<notin> set (ad_Token a)" "char_of (187 :: nat) \<notin> set (ad_Token a)"
    using assms(1) by (auto simp: list_all_iff)
  moreover have "\<not> Contains (char_of (171 :: nat) # ''token'' @ [char_of (194 :: nat)]) (ad_Token a)"
  proof
    assume "Contains (char_of (171 :: nat) # ''token'' @ [char_of (194 :: nat)]) (ad_Token a)"
    then have "set (ad_Token a) \<subseteq> set (char_of (171 :: nat) # ''token'' @ [char_of (194 :: nat)])"
      unfolding Contains_def by (rule set_mono_sublist)
    with assms(2) have "CHR '':'' \<in> set (char_of (171 :: nat) # ''token'' @ [char_of (194 :: nat)])" by blast
    then show False by (simp add: char_of_def) 
  qed
  ultimately have "\<not> Contains (ReplaceAll s (ad_Token a) redacted) (ad_Token a)" for s
    unfolding r by (intro ReplaceAll_hides [OF ne])
  with assms(3) ne show "(\<exists>m. e = ErrMsg m \<and> \<not> Contains m (ad_Token a)) \<and> eo \<noteq> None"
    by (auto simp: redact_def split: option.splits)
qed

section \<open>A group with topics\<close>

definition demo_topics :: topic_map where
  "demo_topics = topics_of [(-100, [3, 4])]"

definition demo_adapter :: adapter where
  "demo_adapter = \<lparr>ad_Token = ''12:abc'', ad_AllowedGroups = [itoa (-100)], ad_AllowedTopics = demo_topics, ad_callbacks = True,
     ad_running = True, ad_botID = 9, ad_botUsername = ''grove'', ad_fold = id\<rparr>"

definition demo_message :: tg_message where
  "demo_message = \<lparr>tm_ID = 5, tm_From = Some \<lparr>tu_ID = 42, tu_Username = [], tu_FirstName = ''Ann''\<rparr>,
     tm_Chat = \<lparr>tc_ID = -100, tc_Type = ChatSupergroup\<rparr>, tm_MessageThreadID = 3, tm_Text = ''@grove hi'',
     tm_Entities = [\<lparr>en_Type = EntMention, en_Offset = 0, en_Length = 6, en_User = None\<rparr>], tm_ReplyToMessage = None\<rparr>"

lemma demo_topics_parsed: "parseTopicAllowList [show_topics (-100, [3, 4])] = Inr demo_topics"
  and demo_topics_read: "map topic_spec [show_topics (-100, [3, 4])] = map Inr [(-100, [3, 4])]"
proof -
  show r: "map topic_spec [show_topics (-100, [3, 4])] = map Inr [(-100, [3, 4])]"
    by (simp add: topic_spec_show in_int64_def)
  have "topics_of [] = Map.empty" by (simp add: topics_of_def)
  then show "parseTopicAllowList [show_topics (-100, [3, 4])] = Inr demo_topics"
    using add_topics_ok [OF r, of "[]"] by (simp add: parseTopicAllowList_def demo_topics_def)
qed

lemma demo_units: "units ''@grove hi'' = [64, 103, 114, 111, 118, 101, 32, 104, 105]"
  by (simp add: units_def runes_ascii utf16_encode_def utf16_rune_def)

lemma demo_own: "own_spans demo_adapter (tm_Text demo_message) (tm_Entities demo_message) = [(0, 6)]"
  by (simp add: own_spans_def demo_adapter_def demo_message_def mentions_bot_def entityText_def demo_units of_units_def
      of_runes_def encode_rune_def EqualFold_def runes_ascii)

theorem stripBotMentions_equiv_witness:
  "stripBotMentions demo_adapter ''@grove hi'' (tm_Entities demo_message) = Some ''hi''"
proof -
  have "stripBotMentions demo_adapter (tm_Text demo_message) (tm_Entities demo_message) = Some (if own_spans demo_adapter
      (tm_Text demo_message) (tm_Entities demo_message) = [] then tm_Text demo_message else TrimSpace (of_units (outside_spans
      (own_spans demo_adapter (tm_Text demo_message) (tm_Entities demo_message)) (units (tm_Text demo_message)))))"
    by (rule stripBotMentions_equiv) (simp_all add: demo_message_def)
  moreover have "outside_spans [(0, 6)] (units ''@grove hi'') = [32, 104, 105]"
    by (simp add: outside_spans_def demo_units nths_Cons)
  moreover have "TrimSpace (of_units [32, 104, 105]) = ''hi''"
    by (simp add: of_units_def of_runes_def encode_rune_def TrimSpace_ascii is_space_def char_of_def bit_0)
  moreover have m: "tm_Text demo_message = ''@grove hi''" by (simp add: demo_message_def)
  ultimately show ?thesis by (simp add: demo_own [unfolded m])
qed

theorem only_scoped_updates_witness:
  "\<exists>inb. toInbound demo_adapter demo_message = Some (Some inb) \<and> in_ReplyTo inb = itoa (-100) \<and>
     (\<exists>(c, ts) \<in> set [(-100, [3, 4])]. c = (-100 :: int) \<and> (3 :: int) \<in> set ts)"
proof -
  have "own_spans demo_adapter (tm_Text demo_message) (tm_Entities demo_message) \<noteq> []" by (simp add: demo_own)
  then have "\<exists>x. stripBotMentions demo_adapter (tm_Text demo_message) (tm_Entities demo_message) = Some x"
    by (simp add: stripBotMentions_def demo_own) (simp add: demo_message_def demo_units)
  then obtain inb where i: "toInbound demo_adapter demo_message = Some (Some inb)" "in_Surface inb = SurfaceGroup"
    by (auto simp: toInbound_def)
      (auto simp: demo_adapter_def demo_message_def surfaceFor_def groupAllowed_def topicAllowed_def demo_topics_def topics_of_def
        TrimSpace_ascii is_space_def)
  show ?thesis
    using only_scoped_updates [OF _ demo_topics_read, of demo_adapter demo_message] i demo_topics_parsed
    by (auto simp: demo_adapter_def demo_message_def)
qed

theorem delivery_bounded_witness:
  "\<exists>e sends. sendTo (\<lambda>_. []) id (\<lambda>t. (t, [])) (put_drawn 5 Done) demo_adapter (\<lambda>k. if k = AsRaw then ApiOk else ApiBad ErrNoStore) (-100) 3
       (empty_reply\<lparr>r_Text := ''hi''\<rparr>) (\<lparr>pb_db = [], pb_ttl = 10\<rparr>, []) = (e, sends, \<lparr>pb_db = [], pb_ttl = 10\<rparr>, []) \<and>
     length (filter (\<lambda>k. k = AsRaw) (map fst sends)) \<le> 2 \<and> length sends = 3"
  (is "\<exists>e sends. ?run = _ \<and> _")
proof -
  have t: "TrimSpace ''hi'' = ''hi''" by (simp add: TrimSpace_ascii is_space_def)
  obtain e sends s' where run: "?run = (e, sends, s')" by (metis prod.exhaust)
  have "map fst sends = [AsHTML, AsPlain, AsRaw] \<and> s' = (\<lparr>pb_db = [], pb_ttl = 10\<rparr>, [])"
    using run by (auto simp: sendTo_def empty_reply_def t demo_adapter_def try_send_def Let_def)
  moreover have "length (filter (\<lambda>k. \<not> rejected (if k = AsRaw then ApiOk else ApiBad ErrNoStore)) (map fst sends)) \<le> 2"
    using delivery_bounded [OF run] by blast
  moreover have "(\<lambda>k. \<not> rejected (if k = AsRaw then ApiOk else ApiBad ErrNoStore)) = (\<lambda>k. k = AsRaw)" by (auto simp: fun_eq_iff)
  ultimately show ?thesis using run by (auto dest: arg_cong [of _ _ length])
qed

theorem button_roundtrip_witness:
  "\<exists>rows s' toks'. renderActions demo_adapter (put_drawn 5 Done) [empty_action\<lparr>a_Label := ''Allow''\<rparr>, empty_action\<lparr>a_Label := ''Deny''\<rparr>]
       (\<lparr>pb_db = [], pb_ttl = 10\<rparr>, [''x'', ''y'', ''z'']) = (Inr rows, s', toks') \<and> rows = [(''Allow'', ''x''), (''Deny'', ''y'')] \<and>
     fst (pbolt_Resolve 7 Done s' ''y'') = (empty_action\<lparr>a_Label := ''Deny''\<rparr>, Resolved, None)"
  (is "\<exists>rows s' toks'. ?run = _ \<and> _")
proof -
  have j: "json_time_ok 7" "json_time_ok 15" by (simp_all add: json_time_ok_def duration_defs)
  obtain k s' toks' where run: "?run = (k, s', toks')" by (metis prod.exhaust)
  then obtain rows where r: "k = Inr rows"
    by (auto simp: renderActions_def demo_adapter_def put_drawn_def pbolt_Put_def pend_marshal_def j tx_update_def
        split: sum.splits prod.splits if_splits)
  have "rows = zip (map a_Label [empty_action\<lparr>a_Label := ''Allow''\<rparr>, empty_action\<lparr>a_Label := ''Deny''\<rparr>]) [''x'', ''y'', ''z''] \<and>
    fst (pbolt_Resolve 7 Done s' (snd (rows ! 1))) = ([empty_action\<lparr>a_Label := ''Allow''\<rparr>, empty_action\<lparr>a_Label := ''Deny''\<rparr>] ! 1, Resolved, None)"
    by (rule button_roundtrip [OF run [unfolded r]]) (simp_all add: j)
  note c = this
  have rows: "rows = [(''Allow'', ''x''), (''Deny'', ''y'')]" using conjunct1 [OF c] by simp
  note res = conjunct2 [OF c]
  from res have "fst (pbolt_Resolve 7 Done s' ''y'') = (empty_action\<lparr>a_Label := ''Deny''\<rparr>, Resolved, None)"
    unfolding rows by simp
  with run r rows show ?thesis by blast
qed

theorem token_never_leaks_witness:
  "\<exists>m. redact (\<lambda>_. ''Post /bot12:abc/send'') demo_adapter (Some ErrNoStore) = Some (ErrMsg m) \<and> \<not> Contains m ''12:abc''"
proof -
  obtain e where e: "redact (\<lambda>_. ''Post /bot12:abc/send'') demo_adapter (Some ErrNoStore) = Some e"
    by (auto simp: redact_def demo_adapter_def)
  show ?thesis using token_never_leaks [OF _ _ e] e by (auto simp: demo_adapter_def)
qed

end
