(* ===== verification/TelegramFormat.thy ===== *)
theory TelegramFormat
  imports Telegram
begin

text \<open>
  How a reply's Markdown becomes the HTML Telegram shows and back, \<^verbatim>\<open>internal/transport/telegram/format.go\<close>.
  The Markdown parser and the HTML tokenizer are libraries: their results, a syntax tree and a list of
  tokens, are the inputs here. The regular expressions are written out as functions.
\<close>

section \<open>Text\<close>

text \<open>\<^verbatim>\<open>html.EscapeString\<close>.\<close>

fun escape_char :: "char \<Rightarrow> string" where
  "escape_char c = (if c = CHR ''&'' then ''&amp;'' else if c = CHR 0x27 then ''&#39;'' else if c = CHR ''<'' then ''&lt;''
     else if c = CHR ''>'' then ''&gt;'' else if c = CHR 0x22 then ''&#34;'' else [c])"

definition EscapeString :: "string \<Rightarrow> string" where
  "EscapeString s = concat (map escape_char s)"

text \<open>\<^verbatim>\<open>[ \t\r\n\f]+\<close> and \<^verbatim>\<open> {2,}\<close> to a space, \<^verbatim>\<open> *\n *\<close> to a line break, three line breaks or more to two.\<close>

definition html_space :: "char \<Rightarrow> bool" where
  "html_space c \<longleftrightarrow> c \<in> {CHR '' '', CHR 0x09, CHR 0x0D, CHR 0x0A, CHR 0x0C}"

fun squeeze :: "(char \<Rightarrow> bool) \<Rightarrow> bool \<Rightarrow> string \<Rightarrow> string" where
  "squeeze P inside [] = []"
| "squeeze P inside (c # s) = (if P c then (if inside then [] else '' '') @ squeeze P True s else c # squeeze P False s)"

definition htmlSpaceRun :: "string \<Rightarrow> string" where
  "htmlSpaceRun = squeeze html_space False"

definition htmlSpaces :: "string \<Rightarrow> string" where
  "htmlSpaces = squeeze (\<lambda>c. c = CHR '' '') False"

definition spaces :: "string \<Rightarrow> string" where
  "spaces = takeWhile (\<lambda>c. c = CHR '' '')"

definition skip_spaces :: "string \<Rightarrow> string" where
  "skip_spaces = dropWhile (\<lambda>c. c = CHR '' '')"

function htmlLineEdge :: "string \<Rightarrow> string" where
  "htmlLineEdge s =
     (case skip_spaces s of
        [] \<Rightarrow> s
      | c # t \<Rightarrow> if c = CHR 0x0A then CHR 0x0A # htmlLineEdge (skip_spaces t) else spaces s @ c # htmlLineEdge t)"
  by auto
termination
proof (relation "measure length", goal_cases)
  case (2 s c t)
  have "length (skip_spaces t) \<le> length t" by (simp add: skip_spaces_def length_dropWhile_le)
  moreover have "length (skip_spaces s) \<le> length s" by (simp add: skip_spaces_def length_dropWhile_le)
  ultimately show ?case using 2 by simp
next
  case (3 s c t)
  have "length (skip_spaces s) \<le> length s" by (simp add: skip_spaces_def length_dropWhile_le)
  then show ?case using 3 by simp
qed simp

declare htmlLineEdge.simps [simp del]

fun blank_run :: "nat \<Rightarrow> string \<Rightarrow> string" where
  "blank_run n [] = []"
| "blank_run n (c # s) = (if c = CHR 0x0A then (if n < 2 then [c] else []) @ blank_run (Suc n) s else c # blank_run 0 s)"

definition htmlBlankRun :: "string \<Rightarrow> string" where
  "htmlBlankRun = blank_run 0"

definition isWebURL :: "'a unicode_scheme \<Rightarrow> string \<Rightarrow> bool" where
  "isWebURL uc dest = (let d = ToLower uc (TrimSpace dest) in prefix ''http://'' d \<or> prefix ''https://'' d)"

section \<open>HTML blocks\<close>

text \<open>A token of the HTML tokenizer, its tag names in lower case, its text unescaped.\<close>

datatype html_token = HText string | HStart string "(string \<times> string) list" | HEnd string | HSelfClosing string | HOther

definition htmlBreaks :: "string \<Rightarrow> string" where
  "htmlBreaks t = (if t \<in> {''p'', ''div'', ''blockquote'', ''pre'', ''ul'', ''ol'', ''table'', ''hr'', ''h1'', ''h2'', ''h3'', ''h4'', ''h5'', ''h6''}
     then newline @ newline else if t \<in> {''br'', ''tr''} then newline else [])"

definition bullet :: string where
  "bullet = map char_of [226, 128, 162 :: nat] @ '' ''"

record html_state =
  hs_hidden :: nat
  hs_pre :: nat
  hs_out :: string

text \<open>A tag: its name, and whether it starts or ends an element.\<close>

definition html_tag :: "string \<Rightarrow> bool \<Rightarrow> bool \<Rightarrow> html_state \<Rightarrow> html_state" where
  "html_tag t starts ends s =
     (if t \<in> {''script'', ''style''} then
        s\<lparr>hs_hidden := (if starts then hs_hidden s + 1 else if ends \<and> hs_hidden s > 0 then hs_hidden s - 1 else hs_hidden s)\<rparr>
      else
        (let s1 = (if t = ''pre''
               then s\<lparr>hs_pre := (if starts then hs_pre s + 1 else if ends \<and> hs_pre s > 0 then hs_pre s - 1 else hs_pre s)\<rparr>
               else s)
         in if t = ''li'' then (if starts then s1\<lparr>hs_out := hs_out s1 @ newline @ bullet\<rparr> else s1)
            else s1\<lparr>hs_out := hs_out s1 @ htmlBreaks t\<rparr>))"

fun html_step :: "html_state \<Rightarrow> html_token \<Rightarrow> html_state" where
  "html_step s (HText t) = (if hs_hidden s > 0 then s else if hs_pre s > 0 then s\<lparr>hs_out := hs_out s @ t\<rparr>
     else s\<lparr>hs_out := hs_out s @ htmlSpaceRun t\<rparr>)"
| "html_step s (HStart t attrs) = html_tag t True False s"
| "html_step s (HEnd t) = html_tag t False True s"
| "html_step s (HSelfClosing t) = html_tag t False False s"
| "html_step s HOther = s"

definition htmlBlockText :: "html_token list \<Rightarrow> string" where
  "htmlBlockText toks =
     TrimSpace (htmlBlankRun (htmlLineEdge (htmlSpaces (hs_out (foldl html_step \<lparr>hs_hidden = 0, hs_pre = 0, hs_out = []\<rparr> toks)))))"

definition writeHTMLBlockText :: "bool \<Rightarrow> html_token list \<Rightarrow> string" where
  "writeHTMLBlockText inList toks =
     (let t = htmlBlockText toks in if t = [] then [] else EscapeString t @ (if inList then newline else newline @ newline))"

section \<open>Markdown\<close>

text \<open>
  The parser's syntax tree: a text with whether a line break follows it, a code span with its immediate
  texts, a code block with its lines, a list with its items' children. Any other node, the document
  among them, is \<open>MOther\<close>.
\<close>

datatype md =
    MText string bool
  | MString string
  | MAutoLink string
  | MCodeSpan "string list"
  | MEmphasis nat "md list"
  | MLink string "md list"
  | MImage string "md list"
  | MHeading "md list"
  | MParagraph "md list"
  | MTextBlock "md list"
  | MFencedCodeBlock "string list"
  | MCodeBlock "string list"
  | MBlockquote "md list"
  | MList bool int "md list list"
  | MThematicBreak
  | MRawHTML
  | MHTMLBlock "html_token list"
  | MOther "md list"

definition a_open :: "string \<Rightarrow> string" where
  "a_open url = ''<a href='' @ [CHR 0x22] @ EscapeString url @ [CHR 0x22] @ ''>''"

definition dash :: string where
  "dash = map char_of [226, 128, 148 :: nat]"

fun list_items :: "bool \<Rightarrow> int \<Rightarrow> string list \<Rightarrow> string" where
  "list_items numbered n [] = []"
| "list_items numbered n (item # items) =
     (if numbered then itoa n @ ''. '' else bullet) @ item @ newline @ list_items numbered (n + 1) items"

fun render :: "'a unicode_scheme \<Rightarrow> bool \<Rightarrow> md \<Rightarrow> string" where
  "render uc inList (MText t brk) = EscapeString t @ (if brk then newline else [])"
| "render uc inList (MString t) = EscapeString t"
| "render uc inList (MAutoLink u) = a_open u @ EscapeString u @ ''</a>''"
| "render uc inList (MCodeSpan ts) = ''<code>'' @ concat (map EscapeString ts) @ ''</code>''"
| "render uc inList (MEmphasis level kids) =
     (if level \<ge> 2 then ''<b>'' @ concat (map (render uc inList) kids) @ ''</b>''
      else ''<i>'' @ concat (map (render uc inList) kids) @ ''</i>'')"
| "render uc inList (MLink dest kids) =
     (if isWebURL uc dest then a_open dest @ concat (map (render uc inList) kids) @ ''</a>''
      else concat (map (render uc inList) kids))"
| "render uc inList (MImage dest kids) =
     (if isWebURL uc dest then a_open dest @ concat (map (render uc inList) kids) @ ''</a>''
      else concat (map (render uc inList) kids))"
| "render uc inList (MHeading kids) = ''<b>'' @ concat (map (render uc inList) kids) @ ''</b>'' @ newline @ newline"
| "render uc inList (MParagraph kids) = concat (map (render uc inList) kids) @ (if inList then newline else newline @ newline)"
| "render uc inList (MTextBlock kids) = concat (map (render uc inList) kids) @ newline"
| "render uc inList (MFencedCodeBlock lines) = ''<pre>'' @ concat (map EscapeString lines) @ ''</pre>'' @ newline @ newline"
| "render uc inList (MCodeBlock lines) = ''<pre>'' @ concat (map EscapeString lines) @ ''</pre>'' @ newline @ newline"
| "render uc inList (MBlockquote kids) = ''<blockquote>'' @ concat (map (render uc inList) kids) @ ''</blockquote>'' @ newline"
| "render uc inList (MList numbered start items) =
     list_items numbered (if start = 0 then 1 else start) (map (\<lambda>kids. concat (map (render uc True) kids)) items) @
     (if inList then [] else newline)"
| "render uc inList MThematicBreak = dash @ newline"
| "render uc inList MRawHTML = []"
| "render uc inList (MHTMLBlock toks) = writeHTMLBlockText inList toks"
| "render uc inList (MOther kids) = concat (map (render uc inList) kids)"

definition toTelegramHTML :: "'a unicode_scheme \<Rightarrow> md \<Rightarrow> string" where
  "toTelegramHTML uc doc = TrimSpace (render uc False doc)"

section \<open>Plain text with marks\<close>

text \<open>\<open>ps_open\<close> is the open code or pre element with where it starts; \<open>ps_links\<close> the open links, innermost
  first, with where their text starts in bytes.\<close>

record plain_state =
  ps_b :: string
  ps_n :: nat
  ps_marks :: "mark list"
  ps_open :: "(mark_kind \<times> nat) option"
  ps_links :: "(string \<times> nat) list"

definition plain_write :: "string \<Rightarrow> plain_state \<Rightarrow> plain_state" where
  "plain_write t s = s\<lparr>ps_b := ps_b s @ t, ps_n := ps_n s + sum_list (map (\<lambda>r. length (utf16_rune r)) (runes t))\<rparr>"

definition href_of :: "(string \<times> string) list \<Rightarrow> string" where
  "href_of attrs = foldl (\<lambda>h (k, v). if k = ''href'' then v else h) [] attrs"

fun plain_step :: "plain_state \<Rightarrow> html_token \<Rightarrow> plain_state" where
  "plain_step s (HText t) = plain_write t s"
| "plain_step s (HStart t attrs) =
     (if t = ''code'' \<or> t = ''pre'' then
        (if ps_open s = None then s\<lparr>ps_open := Some (if t = ''pre'' then MarkPre else MarkCode, ps_n s)\<rparr> else s)
      else if t = ''a'' then s\<lparr>ps_links := (href_of attrs, length (ps_b s)) # ps_links s\<rparr>
      else s)"
| "plain_step s (HEnd t) =
     (if t = ''code'' \<or> t = ''pre'' then
        (case ps_open s of None \<Rightarrow> s
         | Some (k, start) \<Rightarrow>
             (if ps_n s > start then s\<lparr>ps_marks := ps_marks s @ [\<lparr>mk_kind = k, mk_offset = start, mk_length = ps_n s - start\<rparr>]\<rparr> else s)
               \<lparr>ps_open := None\<rparr>)
      else if t = ''a'' then
        (case ps_links s of [] \<Rightarrow> s
         | (h, start) # ls \<Rightarrow>
             (let s1 = s\<lparr>ps_links := ls\<rparr> in
              if h \<noteq> [] \<and> drop start (ps_b s) \<noteq> h then plain_write ('' ('' @ h @ '')'') s1 else s1))
      else s)"
| "plain_step s (HSelfClosing t) = s"
| "plain_step s HOther = s"

definition plainFromHTML :: "html_token list \<Rightarrow> string \<times> mark list" where
  "plainFromHTML toks =
     (let s = foldl plain_step \<lparr>ps_b = [], ps_n = 0, ps_marks = [], ps_open = None, ps_links = []\<rparr> toks in (ps_b s, ps_marks s))"

end
