(* ===== verification/TelegramFormat_Props.thy ===== *)
theory TelegramFormat_Props
  imports TelegramFormat
begin

text \<open>
  What a formatted reply is: whatever the model wrote, the HTML has only the tags the platform shows,
  properly nested, and nothing of the model's own; and the marks of the plain form lie inside its text.
\<close>

section \<open>Well-formed HTML\<close>

text \<open>
  A reader of the HTML the platform accepts: it scans to the end of each tag, keeps the stack of open
  elements, and accepts when every tag is one of the few allowed, every end tag closes the innermost
  element, and none is left open. A link's start tag is exactly an address between quotes.
\<close>

definition simple_tags :: "string set" where
  "simple_tags = {''b'', ''i'', ''code'', ''pre'', ''blockquote''}"

definition start_tag :: "string \<Rightarrow> string option" where
  "start_tag t =
     (if t \<in> simple_tags then Some t
      else if prefix (''a href='' @ [CHR 0x22]) t \<and> drop 8 t \<noteq> [] \<and> last t = CHR 0x22 \<and>
              CHR 0x22 \<notin> set (butlast (drop 8 t)) then Some ''a'' else None)"

definition until_gt :: "string \<Rightarrow> string" where
  "until_gt = takeWhile (\<lambda>c. c \<noteq> CHR ''>'')"

definition after_gt :: "string \<Rightarrow> string" where
  "after_gt s = tl (dropWhile (\<lambda>c. c \<noteq> CHR ''>'') s)"

lemma after_gt_le: "length (after_gt s) \<le> length s"
  using length_dropWhile_le [of "\<lambda>c. c \<noteq> CHR ''>''" s] by (simp add: after_gt_def)

function reads :: "string list \<Rightarrow> string \<Rightarrow> bool" where
  "reads st [] = (st = [])"
| "reads st (c # s) =
     (if c = CHR ''>'' then False
      else if c \<noteq> CHR ''<'' then reads st s
      else if CHR ''>'' \<notin> set s then False
      else (let t = until_gt s in
        case t of
          [] \<Rightarrow> False
        | d # n \<Rightarrow>
            if d = CHR ''/'' then (case st of [] \<Rightarrow> False | x # st' \<Rightarrow> x = n \<and> reads st' (after_gt s))
            else (case start_tag t of None \<Rightarrow> False | Some x \<Rightarrow> reads (x # st) (after_gt s))))"
  by pat_completeness auto
termination
proof (relation "measure (\<lambda>(st, s). length s)", goal_cases)
  case (3 st c s t d n x st')
  then show ?case using after_gt_le [of s] by simp
next
  case (4 st c s t d n x)
  then show ?case using after_gt_le [of s] by simp
qed simp_all

text \<open>A balanced piece changes nothing of what follows it, whatever is open.\<close>

definition balanced :: "string \<Rightarrow> bool" where
  "balanced a \<longleftrightarrow> (\<forall>st b. reads st (a @ b) = reads st b)"

lemma balanced_Nil [simp, intro]: "balanced []"
  by (simp add: balanced_def)

lemma balanced_append [intro]: "balanced a \<Longrightarrow> balanced b \<Longrightarrow> balanced (a @ b)"
  by (simp add: balanced_def)

lemma balanced_concat [intro]: "\<forall>x \<in> set xs. balanced x \<Longrightarrow> balanced (concat xs)"
  by (induction xs) (auto simp: balanced_append)

definition plain_text :: "string \<Rightarrow> bool" where
  "plain_text a \<longleftrightarrow> CHR ''<'' \<notin> set a \<and> CHR ''>'' \<notin> set a"

lemma balanced_text: "plain_text a \<Longrightarrow> balanced a"
  unfolding balanced_def plain_text_def by (induction a) auto

lemma EscapeString_text: "plain_text (EscapeString s)" "CHR 0x22 \<notin> set (EscapeString s)"
  by (auto simp: EscapeString_def plain_text_def split: if_splits)

lemma balanced_escape [simp, intro]: "balanced (EscapeString s)"
  by (rule balanced_text [OF EscapeString_text(1)])

lemma reads_tag:
  assumes "CHR ''>'' \<notin> set t" "t \<noteq> []"
  shows "reads st (CHR ''<'' # t @ CHR ''>'' # b) =
    (if hd t = CHR ''/'' then (case st of [] \<Rightarrow> False | x # st' \<Rightarrow> x = tl t \<and> reads st' b)
     else (case start_tag t of None \<Rightarrow> False | Some x \<Rightarrow> reads (x # st) b))"
proof -
  have u: "until_gt (t @ CHR ''>'' # b) = t" "after_gt (t @ CHR ''>'' # b) = b"
    using assms(1) by (auto simp: until_gt_def after_gt_def takeWhile_append dropWhile_append)
  obtain d n where "t = d # n" using assms(2) by (cases t) auto
  then show ?thesis using u
    by (cases "d = CHR ''/''") (simp_all add: Let_def cong: list.case_cong option.case_cong)
qed

lemma balanced_element:
  assumes "start_tag t = Some x" "CHR ''>'' \<notin> set t" "t \<noteq> []" "hd t \<noteq> CHR ''/''" "CHR ''>'' \<notin> set x" "balanced body"
  shows "balanced (CHR ''<'' # t @ CHR ''>'' # body @ ''</'' @ x @ ''>'')"
  unfolding balanced_def
proof (intro allI)
  fix st b
  have "reads st (CHR ''<'' # t @ CHR ''>'' # body @ CHR ''<'' # (CHR ''/'' # x) @ CHR ''>'' # b) =
      reads (x # st) (body @ CHR ''<'' # (CHR ''/'' # x) @ CHR ''>'' # b)"
    by (subst reads_tag) (use assms(1-4) in simp_all)
  also have "\<dots> = reads (x # st) (CHR ''<'' # (CHR ''/'' # x) @ CHR ''>'' # b)" using assms(6) by (simp add: balanced_def)
  also have "\<dots> = reads st b" using assms(5) by (subst reads_tag) auto
  finally show "reads st ((CHR ''<'' # t @ CHR ''>'' # body @ ''</'' @ x @ ''>'') @ b) = reads st b" by simp
qed

lemma balanced_simple [intro]:
  assumes "balanced body"
  shows "balanced (''<b>'' @ body @ ''</b>'')" "balanced (''<i>'' @ body @ ''</i>'')" "balanced (''<code>'' @ body @ ''</code>'')"
    and "balanced (''<pre>'' @ body @ ''</pre>'')" "balanced (''<blockquote>'' @ body @ ''</blockquote>'')"
  using balanced_element [of "''b''" "''b''", OF _ _ _ _ _ assms] balanced_element [of "''i''" "''i''", OF _ _ _ _ _ assms]
    balanced_element [of "''code''" "''code''", OF _ _ _ _ _ assms] balanced_element [of "''pre''" "''pre''", OF _ _ _ _ _ assms]
    balanced_element [of "''blockquote''" "''blockquote''", OF _ _ _ _ _ assms]
  by (simp_all add: start_tag_def simple_tags_def)

lemma balanced_link [intro]:
  assumes "balanced body"
  shows "balanced (a_open u @ body @ ''</a>'')"
proof -
  let ?t = "''a href='' @ [CHR 0x22] @ EscapeString u @ [CHR 0x22]"
  have "?t \<notin> simple_tags" by (simp add: simple_tags_def)
  then have "start_tag ?t = Some ''a''" using EscapeString_text(2) [of u] by (auto simp: start_tag_def)
  then have "balanced (CHR ''<'' # ?t @ CHR ''>'' # body @ ''</'' @ ''a'' @ ''>'')"
    using EscapeString_text(1) [of u] assms by (intro balanced_element) (auto simp: plain_text_def)
  then show ?thesis by (simp add: a_open_def)
qed

lemma plain_pieces [simp]: "plain_text newline" "plain_text bullet" "plain_text dash" "plain_text ''. ''"
  by (simp_all add: plain_text_def newline_def bullet_def dash_def char_of_def bit_0)

lemma plain_itoa [simp]: "plain_text (itoa i)"
  using digits_chars [of "CHR ''<''"] digits_chars [of "CHR ''>''"] by (auto simp: plain_text_def itoa_def)

lemma balanced_pieces [simp, intro]: "balanced newline" "balanced bullet" "balanced dash" "balanced (itoa i)" "balanced ''. ''"
  by (simp_all add: balanced_text)

lemma balanced_then:
  assumes "balanced body" "balanced rest"
  shows "balanced (''<b>'' @ body @ ''</b>'' @ rest)" "balanced (''<pre>'' @ body @ ''</pre>'' @ rest)"
    "balanced (''<blockquote>'' @ body @ ''</blockquote>'' @ rest)"
  using balanced_append [OF balanced_simple(1) [OF assms(1)] assms(2)]
    balanced_append [OF balanced_simple(4) [OF assms(1)] assms(2)]
    balanced_append [OF balanced_simple(5) [OF assms(1)] assms(2)] by (simp_all only: append_assoc)

lemma balanced_if: "(c \<Longrightarrow> balanced a) \<Longrightarrow> (\<not> c \<Longrightarrow> balanced b) \<Longrightarrow> balanced (if c then a else b)"
  by simp

lemma balanced_map: "(\<And>x. x \<in> set xs \<Longrightarrow> balanced (f x)) \<Longrightarrow> balanced (concat (map f xs))"
  by (rule balanced_concat) auto

lemma balanced_items: "\<forall>x \<in> set items. balanced x \<Longrightarrow> balanced (list_items numbered n items)"
proof (induction numbered n items rule: list_items.induct)
  case (2 numbered n item items)
  then show ?case unfolding list_items.simps by (intro balanced_append balanced_if) auto
qed simp

lemma balanced_render: "balanced (render uc inList doc)"
proof (induction uc inList doc rule: render.induct)
  case (14 uc inList numbered start items)
  then show ?case unfolding render.simps by (intro balanced_append balanced_if balanced_items) (auto intro!: balanced_map)
qed (unfold render.simps writeHTMLBlockText_def Let_def,
    (assumption | rule balanced_Nil balanced_if balanced_map balanced_escape balanced_pieces balanced_then balanced_simple
      balanced_link balanced_append)+)

section \<open>Trimming\<close>

lemma reads_prefix: "plain_text a \<Longrightarrow> reads st (a @ b) = reads st b"
  using balanced_text by (simp add: balanced_def)

lemma reads_suffix: "plain_text b \<Longrightarrow> reads st (a @ b) \<Longrightarrow> reads st a"
proof (induction st a rule: reads.induct)
  case (1 st)
  then show ?case using reads_prefix [of b st "[]"] by simp
next
  case (2 st c s)
  have gt: "CHR ''>'' \<notin> set b" using 2(4) by (simp add: plain_text_def)
  show ?case
  proof (cases "c = CHR ''<''")
    case False
    then show ?thesis using 2 by (auto split: if_splits)
  next
    case True
    then have in_s: "CHR ''>'' \<in> set s" using 2(5) gt by (auto split: if_splits)
    have u: "until_gt (s @ b) = until_gt s" "after_gt (s @ b) = after_gt s @ b"
    proof -
      obtain a z where s: "s = a @ CHR ''>'' # z" "CHR ''>'' \<notin> set a" using in_s split_list_first by metis
      then show "until_gt (s @ b) = until_gt s" "after_gt (s @ b) = after_gt s @ b"
        by (auto simp: until_gt_def after_gt_def takeWhile_append dropWhile_append)
    qed
    show ?thesis using 2 in_s True u
      by (auto simp: Let_def split: list.splits if_splits option.splits)
  qed
qed

lemma decode_bytes:
  assumes "decode_rune s = (q, n)" "s \<noteq> []" "c \<in> set (take n s)" "byte c < (128 :: nat)" "q \<noteq> rune_error"
  shows "byte c = q"
proof -
  obtain i where i: "c = s ! i" "i < n" "i < length s"
    using assms(3) by (auto simp: in_set_conv_nth)
  have four: "i < 4 \<Longrightarrow> i = 0 \<or> i = 1 \<or> i = 2 \<or> i = 3" for i :: nat by arith
  have small: "i = 0" if "i < Suc 0" for i :: nat using that by simp
  show ?thesis
  proof (cases "byte (s ! 0) < (128 :: nat)")
    case True
    then show ?thesis using assms(1) i small by (auto simp: decode_rune_def Let_def)
  next
    case False
    then show ?thesis using assms(1,4,5) i four [of i]
      by (auto simp: decode_rune_def Let_def cont_in_def split: if_splits)
  qed
qed

lemma space_runes: "\<not> is_space rune_error" "\<not> is_space (byte CHR ''<'')" "\<not> is_space (byte CHR ''>'')"
  by (simp_all add: is_space_def rune_error_def)

lemma segs_space:
  assumes "(r, bs) \<in> set (segs s)" "is_space r"
  shows "plain_text bs"
  using assms(1)
proof (induction s rule: segs.induct)
  case (1 s)
  then have ne: "s \<noteq> []" by auto
  obtain q n where d: "decode_rune s = (q, n)" by (cases "decode_rune s")
  from 1(2) ne d consider "r = q" "bs = take n s" | "(r, bs) \<in> set (segs (drop n s))"
    by (subst (asm) segs.simps) auto
  then show ?case
  proof cases
    case 1
    have "byte c = r" if "c \<in> set bs" "byte c < (128 :: nat)" for c
      using decode_bytes [OF d ne, of c] that 1 assms(2) space_runes(1) by metis
    from this [of "CHR ''<''"] this [of "CHR ''>''"] show ?thesis
      using assms(2) space_runes(2,3) by (auto simp: plain_text_def)
  next
    case 2
    then show ?thesis using 1(1) [OF ne d [symmetric]] by simp
  qed
qed

lemma drop_spaces_cut:
  "\<exists>a. ss = a @ drop_spaces ss \<and> (\<forall>(r, bs) \<in> set a. is_space r)"
proof (induction ss rule: drop_spaces.induct)
  case (2 r bs ss)
  show ?case
  proof (cases "is_space r")
    case True
    then obtain a where "ss = a @ drop_spaces ss" "\<forall>(r, bs) \<in> set a. is_space r" using 2 by blast
    then show ?thesis using True by (intro exI [of _ "(r, bs) # a"]) simp
  qed simp
qed simp

lemma plain_segs:
  assumes "\<forall>(r, bs) \<in> set a. is_space r" "set a \<subseteq> set (segs s)"
  shows "plain_text (concat (map snd a))"
  using segs_space [of _ _ s] assms by (fastforce simp: plain_text_def)

lemma TrimSpace_cut: "\<exists>a b. s = a @ TrimSpace s @ b \<and> plain_text a \<and> plain_text b"
proof -
  let ?m = "drop_spaces (segs s)"
  obtain a where a: "segs s = a @ ?m" "\<forall>(r, bs) \<in> set a. is_space r" using drop_spaces_cut by blast
  obtain b where b: "rev ?m = b @ drop_spaces (rev ?m)" "\<forall>(r, bs) \<in> set b. is_space r" using drop_spaces_cut by blast
  have m: "?m = rev (drop_spaces (rev ?m)) @ rev b" using arg_cong [OF b(1), of rev] by simp
  have "segs s = a @ rev (drop_spaces (rev ?m)) @ rev b" using a(1) m by simp
  then have "s = concat (map snd a) @ TrimSpace s @ concat (map snd (rev b))"
    using segs_concat [of s] by (metis TrimSpace_def concat_append map_append)
  moreover have "set a \<subseteq> set (segs s)" "set (rev b) \<subseteq> set (segs s)" using a(1) m by (metis set_append Un_upper1 Un_upper2 sup.coboundedI2)+
  ultimately show ?thesis using a(2) b(2) plain_segs by (metis set_rev)
qed

lemma reads_TrimSpace: "balanced s \<Longrightarrow> reads [] (TrimSpace s)"
  using TrimSpace_cut [of s] reads_prefix reads_suffix
  by (metis append_Nil2 balanced_def reads.simps(1))

text \<open>C16: Whatever the model wrote, the formatted reply is well-formed HTML of the platform's own few tags:
  every tag is one of them, the link's only attribute is its quoted address, every end tag closes the
  innermost open element and nothing stays open. No text, address or HTML block of the document can
  introduce a tag, end one early, or leave one open.
\<close>

theorem html_is_well_formed: "reads [] (toTelegramHTML uc doc)"
  unfolding toTelegramHTML_def by (rule reads_TrimSpace [OF balanced_render])



section \<open>Marks of the plain form\<close>

text \<open>Texts that are UTF-8: joining them joins their UTF-16 forms.\<close>

definition utf8_text :: "string \<Rightarrow> bool" where
  "utf8_text t \<longleftrightarrow> of_runes (runes t) = t"

definition units_of :: "string \<Rightarrow> nat" where
  "units_of t = sum_list (map (\<lambda>r. length (utf16_rune r)) (runes t))"

lemma utf8_append:
  assumes "utf8_text a" "utf8_text b"
  shows "runes (a @ b) = runes a @ runes b" "utf8_text (a @ b)" "units_of (a @ b) = units_of a + units_of b"
proof -
  have "a @ b = of_runes (runes a @ runes b)" using assms by (simp add: utf8_text_def)
  moreover have "list_all valid_rune (runes a @ runes b)" using runes_valid by simp
  ultimately show r: "runes (a @ b) = runes a @ runes b" by (metis runes_of_runes)
  show "utf8_text (a @ b)" using assms r by (simp add: utf8_text_def)
  show "units_of (a @ b) = units_of a + units_of b" using r by (simp add: units_of_def)
qed

lemma utf8_ascii: "list_all (\<lambda>c. byte c < (128 :: nat)) t \<Longrightarrow> utf8_text t"
proof (induction t)
  case (Cons c t)
  then show ?case by (simp add: utf8_text_def runes_ascii of_runes_def encode_rune_def)
qed (simp add: utf8_text_def runes_def of_runes_def)

fun token_text :: "html_token \<Rightarrow> bool" where
  "token_text (HText t) = utf8_text t"
| "token_text (HStart t attrs) = (\<forall>(k, v) \<in> set attrs. utf8_text v)"
| "token_text _ = True"

text \<open>
  The marks so far follow one another without overlap and end before the open one starts, and every
  position is one of the text written so far.
\<close>

definition marks_from :: "nat \<Rightarrow> mark list \<Rightarrow> nat \<Rightarrow> bool" where
  "marks_from a ms z \<longleftrightarrow> sorted (a # concat (map (\<lambda>m. [mk_offset m, mk_offset m + mk_length m]) ms) @ [z]) \<and>
     (\<forall>m \<in> set ms. 0 < mk_length m)"

definition plain_inv :: "plain_state \<Rightarrow> bool" where
  "plain_inv s \<longleftrightarrow> utf8_text (ps_b s) \<and> ps_n s = units_of (ps_b s) \<and>
     (case ps_open s of None \<Rightarrow> marks_from 0 (ps_marks s) (ps_n s)
      | Some (k, a) \<Rightarrow> a \<le> ps_n s \<and> marks_from 0 (ps_marks s) a) \<and>
     (\<forall>(h, b) \<in> set (ps_links s). utf8_text h)"

lemma marks_from_mono: "marks_from a ms z \<Longrightarrow> z \<le> z' \<Longrightarrow> marks_from a ms z'"
  by (auto simp: marks_from_def sorted_append)

lemma marks_from_add:
  "marks_from a ms z \<Longrightarrow> z < n \<Longrightarrow> marks_from a (ms @ [\<lparr>mk_kind = k, mk_offset = z, mk_length = n - z\<rparr>]) n"
  by (auto simp: marks_from_def sorted_append)

lemma plain_write_inv: "plain_inv s \<Longrightarrow> utf8_text t \<Longrightarrow> plain_inv (plain_write t s)"
  using utf8_append [of "ps_b s" t]
  by (auto simp: plain_inv_def plain_write_def units_of_def split: option.splits elim: marks_from_mono)

lemma href_of_text: "\<forall>(k, v) \<in> set attrs. utf8_text v \<Longrightarrow> utf8_text h \<Longrightarrow>
    utf8_text (foldl (\<lambda>h (k, v). if k = ''href'' then v else h) h attrs)"
  by (induction attrs arbitrary: h) auto

lemma plain_step_inv: "plain_inv s \<Longrightarrow> token_text tok \<Longrightarrow> plain_inv (plain_step s tok)"
proof (induction s tok rule: plain_step.induct)
  case (1 s t)
  then show ?case by (simp add: plain_write_inv)
next
  case (2 s t attrs)
  have "utf8_text (href_of attrs)" using 2(2) href_of_text [of attrs "[]"] utf8_ascii [of "[]"] by (auto simp: href_of_def)
  then show ?case using 2(1) by (auto simp: plain_inv_def split: option.splits)
next
  case (3 s t)
  show ?case
  proof (cases "t = ''code'' \<or> t = ''pre''")
    case True
    then show ?thesis using 3(1)
      by (auto simp: plain_inv_def split: option.splits intro: marks_from_add elim: marks_from_mono)
  next
    case False
    show ?thesis
    proof (cases "ps_links s")
      case (Cons l ls)
      obtain h b where l: "l = (h, b)" by (cases l)
      have s1: "plain_inv (s\<lparr>ps_links := ls\<rparr>)" "utf8_text h" using 3(1) Cons l by (auto simp: plain_inv_def split: option.splits)
      moreover have "utf8_text ('' ('' @ h @ '')'')"
        by (intro utf8_append(2) s1(2) utf8_ascii) simp_all
      ultimately have "plain_inv (plain_write ('' ('' @ h @ '')'') (s\<lparr>ps_links := ls\<rparr>))" by (simp only: plain_write_inv)
      then show ?thesis using False 3(1) Cons l s1 by (simp add: Let_def)
    qed (use False 3(1) in simp)
  qed
qed simp_all


lemma plain_run_inv: "plain_inv s \<Longrightarrow> list_all token_text toks \<Longrightarrow> plain_inv (foldl plain_step s toks)"
  by (induction toks arbitrary: s) (simp_all add: plain_step_inv)

lemma plain_start_inv: "plain_inv \<lparr>ps_b = [], ps_n = 0, ps_marks = [], ps_open = None, ps_links = []\<rparr>"
  using utf8_ascii [of "[]"] by (simp add: plain_inv_def marks_from_def units_of_def runes_def)

lemma units_encode: "units_of t = length (utf16_encode (runes t))"
  by (simp add: units_of_def utf16_encode_def length_concat comp_def)

text \<open>
  The marks of the plain form are positions of its own text, in the platform's UTF-16 units: each is
  nonempty, they follow one another without overlap, and the last ends within the text. This holds of any
  stream of tokens, tags unmatched or nested in any way, as long as its texts and addresses are UTF-8.
\<close>

theorem plain_marks_inside:
  assumes "list_all token_text toks" "plainFromHTML toks = (t, ms)"
  shows "marks_from 0 ms (length (utf16_encode (runes t)))"
proof -
  let ?s = "foldl plain_step \<lparr>ps_b = [], ps_n = 0, ps_marks = [], ps_open = None, ps_links = []\<rparr> toks"
  have "plain_inv ?s" using plain_run_inv [OF plain_start_inv assms(1)] .
  moreover have "t = ps_b ?s" "ms = ps_marks ?s" using assms(2) by (simp_all add: plainFromHTML_def Let_def)
  ultimately show ?thesis
    by (auto simp: plain_inv_def units_encode split: option.splits elim: marks_from_mono)
qed

definition demo_tokens :: "html_token list" where
  "demo_tokens = [HText ''x'', HStart ''pre'' [], HText ''ab'', HStart ''a'' [(''href'', ''u'')], HEnd ''pre'', HText ''c'', HEnd ''a'']"

theorem plain_marks_inside_witness:
  "plainFromHTML demo_tokens = (''xabc (u)'', [\<lparr>mk_kind = MarkPre, mk_offset = 1, mk_length = 2\<rparr>]) \<and>
   marks_from 0 (snd (plainFromHTML demo_tokens)) 8"
proof
  show v: "plainFromHTML demo_tokens = (''xabc (u)'', [\<lparr>mk_kind = MarkPre, mk_offset = 1, mk_length = 2\<rparr>])"
    by (simp add: demo_tokens_def plainFromHTML_def plain_write_def href_of_def runes_ascii utf16_rune_def Let_def)
  have "list_all token_text demo_tokens" by (simp add: demo_tokens_def utf8_ascii)
  from plain_marks_inside [OF this v]
  have "marks_from 0 (snd (plainFromHTML demo_tokens)) (length (utf16_encode (runes ''xabc (u)'')))" by (simp only: v snd_conv)
  moreover have "length (utf16_encode (runes ''xabc (u)'')) = 8" by (simp add: runes_ascii utf16_encode_def utf16_rune_def)
  ultimately show "marks_from 0 (snd (plainFromHTML demo_tokens)) 8" by (simp only:)
qed

end
