(* ===== verification/Ladybug.thy ===== *)
theory Ladybug
  imports Config
begin

text \<open>
  The persistent backend of the retrieval port, \<^verbatim>\<open>internal/store/ladybug.go\<close> and
  \<^verbatim>\<open>internal/store/ladybug_ops.go\<close>: which statements it sends to the graph database, in which order,
  what it makes of the rows that come back, and when it refuses. The database is a library's: sending a
  statement is a parameter, a function from the statement's text and the database's state to rows or an
  error and a state. The mutex makes an operation one step.
\<close>

section \<open>Statements and rows\<close>

text \<open>
  A row comes from the iterator or is its error; \<open>NoValues\<close> is a row whose values could not be read.
  \<open>LFloat\<close> is a float32 or a float64.
\<close>

datatype lvalue = LString string | LInt int | LFloat real | LOther

datatype lrow = NextFailed error | NoValues | Row "lvalue list"

text \<open>
  \<open>le_hash\<close> is the hexadecimal SHA-256, \<open>le_key\<close> is \<open>normalizeKey\<close>, \<open>le_vec\<close> gives a vector's elements as
  decimals, \<open>le_float\<close> is \<^verbatim>\<open>strconv.FormatFloat\<close>, \<open>le_rnd\<close> rounds to a float32; the last three are the orders in
  which Go ranges over a document's fields, its dimensions and the hashes to keep.
\<close>

record ('v, 'db) lady_env =
  le_query :: "string \<Rightarrow> 'db \<Rightarrow> lrow list result \<times> 'db"
  le_hash :: "string \<Rightarrow> string"
  le_key :: "string \<Rightarrow> string"
  le_vec :: "'v \<Rightarrow> string list"
  le_float :: "f64 \<Rightarrow> string"
  le_rnd :: "real \<Rightarrow> real"
  le_fields :: "doc \<Rightarrow> string list"
  le_dims :: "doc \<Rightarrow> string list"
  le_range :: "string set \<Rightarrow> string list"

record ('v, 'db) ladybug =
  ld_db :: 'db
  ld_embedder :: "'v embedder option"
  ld_threshold :: real
  ld_dim :: int
  ld_poisoned :: bool

definition errStorePoisoned :: error where
  "errStorePoisoned = ErrMsg ''store: ladybug connection wedged by a prior index-write timeout''"

definition cypher_char :: "char \<Rightarrow> string" where
  "cypher_char c = (if c = CHR 0x5C then [CHR 0x5C, CHR 0x5C] else if c = CHR 0x27 then [CHR 0x5C, CHR 0x27] else [c])"

definition cypherString :: "string \<Rightarrow> string" where
  "cypherString s = CHR 0x27 # concat (map cypher_char s) @ [CHR 0x27]"

definition asString :: "lvalue \<Rightarrow> string" where
  "asString v = (case v of LString s \<Rightarrow> s | _ \<Rightarrow> [])"

definition toFloat :: "(real \<Rightarrow> real) \<Rightarrow> lvalue \<Rightarrow> real" where
  "toFloat rnd v = (case v of LFloat x \<Rightarrow> rnd x | _ \<Rightarrow> 0)"

definition ld_exec :: "('v, 'db) lady_env \<Rightarrow> string \<Rightarrow> 'db \<Rightarrow> error option \<times> 'db" where
  "ld_exec env q db = (case le_query env q db of (Inl e, db') \<Rightarrow> (Some e, db') | (Inr _, db') \<Rightarrow> (None, db'))"

fun exec_all :: "('v, 'db) lady_env \<Rightarrow> string list \<Rightarrow> 'db \<Rightarrow> error option \<times> 'db" where
  "exec_all env [] db = (None, db)"
| "exec_all env (q # qs) db = (case ld_exec env q db of (Some e, db') \<Rightarrow> (Some e, db') | (None, db') \<Rightarrow> exec_all env qs db')"

text \<open>The loop every query runs over its rows: a row with fewer than \<open>n\<close> values is passed over.\<close>

fun collect :: "nat \<Rightarrow> (lvalue list \<Rightarrow> 'a option) \<Rightarrow> lrow list \<Rightarrow> 'a list result" where
  "collect n f [] = Inr []"
| "collect n f (NextFailed e # rows) = Inl e"
| "collect n f (NoValues # rows) = collect n f rows"
| "collect n f (Row vs # rows) =
     (if length vs < n then collect n f rows
      else (case f vs of
          None \<Rightarrow> collect n f rows
        | Some x \<Rightarrow> (case collect n f rows of Inl e \<Rightarrow> Inl e | Inr xs \<Rightarrow> Inr (x # xs))))"

definition floatArrayLiteral :: "('v, 'db) lady_env \<Rightarrow> 'v \<Rightarrow> string" where
  "floatArrayLiteral env v =
     ''CAST(['' @ join '','' (le_vec env v) @ ''] AS FLOAT['' @ itoa (int (length (le_vec env v))) @ ''])''"

fun map_fields :: "(string \<times> string) list \<Rightarrow> string list" where
  "map_fields [] = []"
| "map_fields ((k, v) # kvs) = (k @ '':'' @ cypherString v) # map_fields kvs"

definition mapLiteral :: "(string \<times> string) list \<Rightarrow> string" where
  "mapLiteral kvs = ''{'' @ join '','' (map_fields kvs) @ ''}''"

section \<open>Opening\<close>

fun load_one :: "('v, 'db) lady_env \<Rightarrow> string \<Rightarrow> 'db \<Rightarrow> error option \<times> 'db" where
  "load_one env ext db =
     (case ld_exec env (''LOAD EXTENSION '' @ ext @ '';'') db of
        (None, db1) \<Rightarrow> (None, db1)
      | (Some _, db1) \<Rightarrow> (case ld_exec env (''INSTALL '' @ ext @ '';'') db1 of
            (Some e, db2) \<Rightarrow> (Some (Wrap ''store: ladybug extension not baked in and INSTALL failed'' e), db2)
          | (None, db2) \<Rightarrow> (case ld_exec env (''LOAD EXTENSION '' @ ext @ '';'') db2 of
                (Some e, db3) \<Rightarrow> (Some (Wrap ''store: ladybug load after install'' e), db3)
              | (None, db3) \<Rightarrow> (None, db3))))"

definition loadExtensions :: "('v, 'db) lady_env \<Rightarrow> 'db \<Rightarrow> error option \<times> 'db" where
  "loadExtensions env db =
     (case load_one env ''vector'' db of (Some e, db1) \<Rightarrow> (Some e, db1) | (None, db1) \<Rightarrow> load_one env ''fts'' db1)"

definition base_schema :: "string list" where
  "base_schema =
    [''CREATE NODE TABLE IF NOT EXISTS Doc(path STRING, title STRING, PRIMARY KEY(path));'',
     ''CREATE NODE TABLE IF NOT EXISTS Value(id STRING, dim STRING, nk STRING, disp STRING, PRIMARY KEY(id));'',
     ''CREATE NODE TABLE IF NOT EXISTS Alias(nk STRING, canon STRING, PRIMARY KEY(nk));'',
     ''CREATE NODE TABLE IF NOT EXISTS Ordinal(id STRING, field STRING, key DOUBLE, PRIMARY KEY(id));'',
     ''CREATE REL TABLE IF NOT EXISTS HAS_VALUE(FROM Doc TO Value);'',
     ''CREATE REL TABLE IF NOT EXISTS HAS_ORDER(FROM Doc TO Ordinal);'']"

definition ensureBaseSchema :: "('v, 'db) lady_env \<Rightarrow> 'db \<Rightarrow> error option \<times> 'db" where
  "ensureBaseSchema env db =
     (case exec_all env base_schema db of (e, db') \<Rightarrow> (map_option (Wrap ''store: ladybug schema'') e, db'))"

fun names_chunk :: "lrow list \<Rightarrow> bool" where
  "names_chunk [] = False"
| "names_chunk (NextFailed e # rows) = False"
| "names_chunk (Row (LString s # vs) # rows) = (s = ''Chunk'' \<or> names_chunk rows)"
| "names_chunk (_ # rows) = names_chunk rows"

definition chunkTableExists :: "('v, 'db) lady_env \<Rightarrow> 'db \<Rightarrow> bool \<times> 'db" where
  "chunkTableExists env db =
     (case le_query env ''CALL SHOW_TABLES() RETURN name;'' db of (Inl e, db') \<Rightarrow> (False, db') | (Inr rows, db') \<Rightarrow> (names_chunk rows, db'))"

text \<open>\<^verbatim>\<open>fmt.Sscanf(typ, "FLOAT[%d]", &dim)\<close>: the literal text, spaces, a number, the closing bracket.\<close>

definition scan_dim :: "string \<Rightarrow> int option" where
  "scan_dim typ =
     (if \<not> prefix ''FLOAT['' typ then None
      else (let t = dropWhile (\<lambda>c. c = CHR '' '') (drop 6 typ);
                sgn = (case t of c # u \<Rightarrow> if c = CHR ''-'' \<or> c = CHR ''+'' then [c] else [] | [] \<Rightarrow> []);
                u = drop (length sgn) t; ds = takeWhile is_digit u
            in if ds \<noteq> [] \<and> prefix '']'' (dropWhile is_digit u) then ParseInt (sgn @ ds) else None))"

text \<open>The embedding column's row: the dimension, an error, or none found.\<close>

fun find_dim :: "lrow list \<Rightarrow> int option result" where
  "find_dim [] = Inr None"
| "find_dim (NextFailed e # rows) = Inl e"
| "find_dim (Row (n # t # vs) # rows) =
     (if asString n \<noteq> ''embedding'' then find_dim rows
      else (case scan_dim (asString t) of
          None \<Rightarrow> Inl (ErrMsg ''unreadable embedding column type'')
        | Some d \<Rightarrow> if d \<le> 0 then Inl (ErrMsg ''unreadable embedding column type'') else Inr (Some d)))"
| "find_dim (_ # rows) = find_dim rows"

definition loadDim :: "('v, 'db) lady_env \<Rightarrow> ('v, 'db) ladybug \<Rightarrow> error option \<times> ('v, 'db) ladybug" where
  "loadDim env l =
     (case chunkTableExists env (ld_db l) of
        (False, db1) \<Rightarrow> (None, l\<lparr>ld_db := db1\<rparr>)
      | (True, db1) \<Rightarrow> (case le_query env ''CALL TABLE_INFO('Chunk') RETURN name, type;'' db1 of
            (Inl e, db2) \<Rightarrow> (Some e, l\<lparr>ld_db := db2\<rparr>)
          | (Inr rows, db2) \<Rightarrow> (case find_dim rows of
                Inl e \<Rightarrow> (Some e, l\<lparr>ld_db := db2\<rparr>)
              | Inr (Some d) \<Rightarrow> (None, l\<lparr>ld_db := db2, ld_dim := d\<rparr>)
              | Inr None \<Rightarrow>
                  (if ld_embedder l \<noteq> None
                   then Some (ErrMsg ''the index holds no embeddings but an embedder is configured; remove it so it is rebuilt with them'')
                   else None, l\<lparr>ld_db := db2\<rparr>))))"

text \<open>The handles \<^verbatim>\<open>Close\<close> closes, of those that are open; what closing gives is not looked at.\<close>

datatype lhandle = Connection | Database

definition ld_Close :: "bool \<Rightarrow> bool \<Rightarrow> error option \<times> lhandle list" where
  "ld_Close conn db = (None, (if conn then [Connection] else []) @ (if db then [Database] else []))"

text \<open>
  \<open>opened\<close> and \<open>conn\<close> are what opening the database and a connection to it gave; the second result is
  the handles closed.
\<close>

definition NewLadybug ::
    "('v, 'db) lady_env \<Rightarrow> 'db result \<Rightarrow> error option \<Rightarrow> 'v embedder option \<Rightarrow> real
     \<Rightarrow> ('v, 'db) ladybug result \<times> lhandle list" where
  "NewLadybug env opened conn emb threshold =
     (case opened of Inl e \<Rightarrow> (Inl (Wrap ''store: open ladybug'' e), [])
      | Inr db \<Rightarrow>
     (case conn of Some e \<Rightarrow> (Inl (Wrap ''store: ladybug connection'' e), [Database])
      | None \<Rightarrow>
     (case loadExtensions env db of (Some e, db1) \<Rightarrow> (Inl e, snd (ld_Close True True))
      | (None, db1) \<Rightarrow>
     (case ensureBaseSchema env db1 of (Some e, db2) \<Rightarrow> (Inl e, snd (ld_Close True True))
      | (None, db2) \<Rightarrow>
     (case loadDim env \<lparr>ld_db = db2, ld_embedder = emb, ld_threshold = threshold, ld_dim = 0, ld_poisoned = False\<rparr> of
        (Some e, l) \<Rightarrow> (Inl (Wrap ''store: ladybug'' e), snd (ld_Close True True))
      | (None, l) \<Rightarrow> (Inr l, []))))))"

text \<open>An opening that fails leaves no handle open, and one that goes through closes none.\<close>

lemma NewLadybug_closes:
  "snd (NewLadybug env opened conn emb th) =
     (case fst (NewLadybug env opened conn emb th) of
        Inr l \<Rightarrow> []
      | Inl e \<Rightarrow> (if (\<exists>db. opened = Inr db) \<and> conn = None then [Connection] else []) @
          (if \<exists>db. opened = Inr db then [Database] else []))"
  by (auto simp: NewLadybug_def ld_Close_def split: sum.splits option.splits prod.splits)

section \<open>Indexing\<close>

text \<open>A build without the backend (\<^verbatim>\<open>ladybug_stub.go\<close>) refuses to open it.\<close>

definition ErrLadybugUnavailable :: error where
  "ErrLadybugUnavailable = ErrMsg ''store: this build was compiled without ladybug support (rebuild with -tags ladybug)''"

definition NewLadybug_stub :: "string \<Rightarrow> 'v embedder option \<Rightarrow> real \<Rightarrow> ('v, 'db) ladybug result" where
  "NewLadybug_stub path embedder threshold = Inl ErrLadybugUnavailable"

record staged =
  st_source :: string
  st_text :: string
  st_hash :: string

definition chunkHash :: "('v, 'db) lady_env \<Rightarrow> string \<Rightarrow> string \<Rightarrow> string" where
  "chunkHash env src txt' = le_hash env (src @ [CHR 0x00] @ txt')"

definition stage :: "('v, 'db) lady_env \<Rightarrow> doc list \<Rightarrow> staged list" where
  "stage env docs = map (\<lambda>c. \<lparr>st_source = c_Source c, st_text = c_Text c, st_hash = chunkHash env (c_Source c) (c_Text c)\<rparr>)
     (concat (map d_Chunks docs))"

fun hash_rows :: "lrow list \<Rightarrow> string set result" where
  "hash_rows [] = Inr {}"
| "hash_rows (NextFailed e # rows) = Inl e"
| "hash_rows (NoValues # rows) = Inl (ErrMsg ''value'')"
| "hash_rows (Row [] # rows) = Inl (ErrMsg ''value'')"
| "hash_rows (Row (v # vs) # rows) =
     (case hash_rows rows of Inl e \<Rightarrow> Inl e | Inr hs \<Rightarrow> Inr (case v of LString s \<Rightarrow> insert s hs | _ \<Rightarrow> hs))"

definition storedHashes :: "('v, 'db) lady_env \<Rightarrow> ('v, 'db) ladybug \<Rightarrow> string set result \<times> ('v, 'db) ladybug" where
  "storedHashes env l =
     (case (if ld_dim l = 0 then chunkTableExists env (ld_db l) else (True, ld_db l)) of
        (False, db1) \<Rightarrow> (Inr {}, l\<lparr>ld_db := db1\<rparr>)
      | (True, db1) \<Rightarrow> (case le_query env ''MATCH (c:Chunk) RETURN c.hash;'' db1 of
            (Inl e, db2) \<Rightarrow> (Inl e, l\<lparr>ld_db := db2\<rparr>)
          | (Inr rows, db2) \<Rightarrow> (hash_rows rows, l\<lparr>ld_db := db2\<rparr>)))"

definition embedTexts :: "('v, 'db) lady_env \<Rightarrow> string list \<Rightarrow> ('v, 'db) ladybug \<Rightarrow> 'v list result \<times> ('v, 'db) ladybug" where
  "embedTexts env texts l =
     (case ld_embedder l of None \<Rightarrow> (Inr [], l)
      | Some f \<Rightarrow>
          if texts = [] then (Inr [], l)
          else (case f texts of
              Inl e \<Rightarrow> (Inl (Wrap ''store: ladybug embed delta'' e), l)
            | Inr vecs \<Rightarrow>
                if length vecs \<noteq> length texts then (Inl (ErrMsg ''store: ladybug embedded some of the chunks''), l)
                else (Inr vecs, l\<lparr>ld_dim := int (length (le_vec env (hd vecs)))\<rparr>)))"

definition create_chunk_table :: "int \<Rightarrow> string" where
  "create_chunk_table d =
     (if d = 0 then ''CREATE NODE TABLE IF NOT EXISTS Chunk(hash STRING, source STRING, text STRING, PRIMARY KEY(hash));''
      else ''CREATE NODE TABLE IF NOT EXISTS Chunk(hash STRING, source STRING, text STRING, embedding FLOAT['' @ itoa d @
           ''], PRIMARY KEY(hash));'')"

definition ensureChunkTable :: "('v, 'db) lady_env \<Rightarrow> ('v, 'db) ladybug \<Rightarrow> error option \<times> ('v, 'db) ladybug" where
  "ensureChunkTable env l =
     (case chunkTableExists env (ld_db l) of
        (True, db1) \<Rightarrow> (None, l\<lparr>ld_db := db1\<rparr>)
      | (False, db1) \<Rightarrow> (case ld_exec env (create_chunk_table (ld_dim l)) db1 of (e, db2) \<Rightarrow> (e, l\<lparr>ld_db := db2\<rparr>)))"

definition upsertChunkBatch :: nat where
  "upsertChunkBatch = 100"

text \<open>A chunk's row; \<^verbatim>\<open>vectors[i]\<close> beyond the vectors is a panic, \<open>None\<close>.\<close>

definition chunk_row :: "('v, 'db) lady_env \<Rightarrow> bool \<Rightarrow> staged \<Rightarrow> 'v option \<Rightarrow> string option" where
  "chunk_row env withEmbedding p v =
     (let r = ''{hash:'' @ cypherString (st_hash p) @ '',source:'' @ cypherString (st_source p) @ '',text:'' @ cypherString (st_text p)
      in if \<not> withEmbedding then Some (r @ ''}'')
         else map_option (\<lambda>x. r @ '',embedding:'' @ floatArrayLiteral env x @ ''}'') v)"

fun chunk_rows :: "('v, 'db) lady_env \<Rightarrow> bool \<Rightarrow> (staged \<times> 'v option) list \<Rightarrow> string list option" where
  "chunk_rows env w [] = Some []"
| "chunk_rows env w ((p, v) # ps) =
     (case chunk_row env w p v of None \<Rightarrow> None
      | Some r \<Rightarrow> (case chunk_rows env w ps of None \<Rightarrow> None | Some rs \<Rightarrow> Some (r # rs)))"

definition upsert_query :: "bool \<Rightarrow> string list \<Rightarrow> string" where
  "upsert_query withEmbedding rows =
     ''UNWIND ['' @ join '','' rows @ ''] AS r MERGE (c:Chunk {hash: r.hash}) SET c.source = r.source, c.text = r.text'' @
     (if withEmbedding then '', c.embedding = r.embedding'' else []) @ '';''"

function batches :: "nat \<Rightarrow> 'a list \<Rightarrow> 'a list list" where
  "batches n xs = (if xs = [] \<or> n = 0 then [] else take n xs # batches n (drop n xs))"
  by auto
termination
  by (relation "measure (\<lambda>(n, xs). length xs)") auto

declare batches.simps [simp del]

fun upsert_batches :: "('v, 'db) lady_env \<Rightarrow> bool \<Rightarrow> (staged \<times> 'v option) list list \<Rightarrow> 'db \<Rightarrow> (error option \<times> 'db) option" where
  "upsert_batches env w [] db = Some (None, db)"
| "upsert_batches env w (b # bs) db =
     (case chunk_rows env w b of None \<Rightarrow> None
      | Some rows \<Rightarrow> (case ld_exec env (upsert_query w rows) db of
            (Some e, db') \<Rightarrow> Some (Some e, db')
          | (None, db') \<Rightarrow> upsert_batches env w bs db'))"

definition with_vectors :: "staged list \<Rightarrow> 'v list \<Rightarrow> (staged \<times> 'v option) list" where
  "with_vectors ps vs = map (\<lambda>(i, p). (p, if i < length vs then Some (vs ! i) else None)) (enumerate 0 ps)"

definition upsertChunks ::
    "('v, 'db) lady_env \<Rightarrow> int \<Rightarrow> staged list \<Rightarrow> 'v list \<Rightarrow> 'db \<Rightarrow> (error option \<times> 'db) option" where
  "upsertChunks env d toEmbed vectors db = upsert_batches env (d > 0) (batches upsertChunkBatch (with_vectors toEmbed vectors)) db"

definition prune_query :: "('v, 'db) lady_env \<Rightarrow> string set \<Rightarrow> string" where
  "prune_query env keep =
     (if le_range env keep = [] then ''MATCH (c:Chunk) DELETE c;''
      else ''MATCH (c:Chunk) WHERE NOT c.hash IN ['' @ join '','' (map cypherString (le_range env keep)) @ ''] DELETE c;'')"

definition pruneChunks :: "('v, 'db) lady_env \<Rightarrow> string set \<Rightarrow> 'db \<Rightarrow> error option \<times> 'db" where
  "pruneChunks env keep db = ld_exec env (prune_query env keep) db"

section \<open>The structured graph\<close>

definition bar :: string where "bar = ''|''"

definition ord_rows :: "('v, 'db) lady_env \<Rightarrow> doc \<Rightarrow> string list" where
  "ord_rows env d = map (\<lambda>f. ''{id:'' @ cypherString (f @ bar @ dr_Path (d_Ref d)) @ '',field:'' @ cypherString f @ '',key:'' @
     le_float env (the (d_Ordered d f)) @ ''}'') (le_fields env d)"

definition ord_edge_rows :: "('v, 'db) lady_env \<Rightarrow> doc \<Rightarrow> string list" where
  "ord_edge_rows env d = map (\<lambda>f. mapLiteral [(''path'', dr_Path (d_Ref d)), (''id'', f @ bar @ dr_Path (d_Ref d))]) (le_fields env d)"

definition doc_row :: "doc \<Rightarrow> string" where
  "doc_row d = mapLiteral [(''path'', dr_Path (d_Ref d)), (''title'', dr_Title (d_Ref d))]"

definition alias_rows :: "('v, 'db) lady_env \<Rightarrow> doc \<Rightarrow> string list" where
  "alias_rows env d =
     (let canon = le_key env (dr_Title (d_Ref d)) in
      if canon = [] then []
      else map (\<lambda>ak. mapLiteral [(''nk'', ak), (''canon'', canon)]) (filter (\<lambda>ak. ak \<noteq> []) (map (le_key env) (d_Aliases d))))"

text \<open>The state of the loops over the values: the ids seen, the value rows and the edge rows.\<close>

type_synonym value_state = "string set \<times> string list \<times> string list"

fun value_rows :: "('v, 'db) lady_env \<Rightarrow> string \<Rightarrow> string \<Rightarrow> string list \<Rightarrow> string set \<Rightarrow> value_state \<Rightarrow> value_state" where
  "value_rows env path dm [] seen s = s"
| "value_rows env path dm (v # vs) seen (ids, vrows, erows) =
     (let nk = le_key env v; i = dm @ bar @ nk in
      if nk = [] \<or> nk \<in> seen then value_rows env path dm vs seen (ids, vrows, erows)
      else value_rows env path dm vs (insert nk seen)
        (insert i ids,
         if i \<in> ids then vrows else vrows @ [mapLiteral [(''id'', i), (''dim'', dm), (''nk'', nk), (''disp'', TrimSpace v)]],
         erows @ [mapLiteral [(''path'', path), (''id'', i)]]))"

definition doc_values :: "('v, 'db) lady_env \<Rightarrow> value_state \<Rightarrow> doc \<Rightarrow> value_state" where
  "doc_values env s d = foldl (\<lambda>s dm. value_rows env (dr_Path (d_Ref d)) dm (the (d_Dimensions d dm)) {} s) s (le_dims env d)"

definition unwind :: "string list \<Rightarrow> string \<Rightarrow> string list" where
  "unwind rows rest = (if rows = [] then [] else [''UNWIND ['' @ join '','' rows @ ''] AS r '' @ rest])"

definition structured_deletes :: "string list" where
  "structured_deletes = [''MATCH (d:Doc) DETACH DELETE d;'', ''MATCH (v:Value) DETACH DELETE v;'', ''MATCH (a:Alias) DELETE a;'',
     ''MATCH (o:Ordinal) DETACH DELETE o;'']"

definition structured_inserts :: "('v, 'db) lady_env \<Rightarrow> doc list \<Rightarrow> string list" where
  "structured_inserts env docs =
     (case foldl (doc_values env) ({}, [], []) docs of (_, valueRows, edgeRows) \<Rightarrow>
        unwind (map doc_row docs) ''MERGE (d:Doc {path: r.path}) SET d.title = r.title;'' @
        unwind (concat (map (alias_rows env) docs)) ''MERGE (a:Alias {nk: r.nk}) SET a.canon = r.canon;'' @
        unwind valueRows ''MERGE (v:Value {id: r.id}) SET v.dim = r.dim, v.nk = r.nk, v.disp = r.disp;'' @
        unwind edgeRows ''MATCH (d:Doc {path: r.path}), (v:Value {id: r.id}) MERGE (d)-[:HAS_VALUE]->(v);'' @
        unwind (concat (map (ord_rows env) docs)) ''MERGE (o:Ordinal {id: r.id}) SET o.field = r.field, o.key = r.key;'' @
        unwind (concat (map (ord_edge_rows env) docs)) ''MATCH (d:Doc {path: r.path}), (o:Ordinal {id: r.id}) MERGE (d)-[:HAS_ORDER]->(o);'')"

definition rebuildStructured :: "('v, 'db) lady_env \<Rightarrow> doc list \<Rightarrow> 'db \<Rightarrow> error option \<times> 'db" where
  "rebuildStructured env docs db = exec_all env (structured_deletes @ structured_inserts env docs) db"

definition writeGraph ::
    "('v, 'db) lady_env \<Rightarrow> int \<Rightarrow> staged list \<Rightarrow> 'v list \<Rightarrow> doc list \<Rightarrow> string set \<Rightarrow> 'db \<Rightarrow> (error option \<times> 'db) option" where
  "writeGraph env d toEmbed vectors docs keep db =
     (case upsertChunks env d toEmbed vectors db of None \<Rightarrow> None
      | Some (Some e, db1) \<Rightarrow> Some (Some e, db1)
      | Some (None, db1) \<Rightarrow> Some (case pruneChunks env keep db1 of
            (Some e, db2) \<Rightarrow> (Some e, db2)
          | (None, db2) \<Rightarrow> rebuildStructured env docs db2))"

definition rebuildIndexes :: "('v, 'db) lady_env \<Rightarrow> int \<Rightarrow> 'db \<Rightarrow> error option \<times> 'db" where
  "rebuildIndexes env d db =
     (let db1 = snd (le_query env ''CALL DROP_FTS_INDEX('Chunk', 'chunk_fts');'' db);
          db2 = snd (ld_exec env ''CALL CREATE_FTS_INDEX('Chunk', 'chunk_fts', ['text']);'' db1)
      in if d > 0
         then (let db3 = snd (le_query env ''CALL DROP_VECTOR_INDEX('Chunk', 'chunk_vec');'' db2)
               in case ld_exec env ''CALL CREATE_VECTOR_INDEX('Chunk', 'chunk_vec', 'embedding', metric := 'cosine');'' db3 of
                    (e, db4) \<Rightarrow> (map_option (Wrap ''store: ladybug vector index'') e, db4))
         else (None, db2))"

text \<open>The write phase, as it runs under the deadline.\<close>

definition write_phase ::
    "('v, 'db) lady_env \<Rightarrow> int \<Rightarrow> staged list \<Rightarrow> 'v list \<Rightarrow> doc list \<Rightarrow> string set \<Rightarrow> 'db \<Rightarrow> (error option \<times> 'db) option" where
  "write_phase env d toEmbed vectors docs keep db =
     (case ld_exec env ''BEGIN TRANSACTION;'' db of
        (Some e, db1) \<Rightarrow> Some (Some e, db1)
      | (None, db1) \<Rightarrow> (case writeGraph env d toEmbed vectors docs keep db1 of None \<Rightarrow> None
          | Some (Some e, db2) \<Rightarrow> Some (Some e, snd (le_query env ''ROLLBACK;'' db2))
          | Some (None, db2) \<Rightarrow> Some (case ld_exec env ''COMMIT;'' db2 of
                (Some e, db3) \<Rightarrow> (Some e, db3)
              | (None, db3) \<Rightarrow> rebuildIndexes env d db3)))"

text \<open>
  \<open>wedged\<close> is the state the database was left in when the write phase did not return in time (or the
  caller gave up), \<open>None\<close> when it did return. A panic is \<open>None\<close>.
\<close>

definition runWriteWithDeadline ::
    "'db option \<Rightarrow> ('db \<Rightarrow> (error option \<times> 'db) option) \<Rightarrow> ('v, 'db) ladybug \<Rightarrow> (error option \<times> ('v, 'db) ladybug) option" where
  "runWriteWithDeadline wedged fn l =
     (case wedged of
        Some db \<Rightarrow> Some (Some (ErrMsg ''store: ladybug index write did not return, store poisoned''), l\<lparr>ld_db := db, ld_poisoned := True\<rparr>)
      | None \<Rightarrow> map_option (\<lambda>(e, db). (e, l\<lparr>ld_db := db\<rparr>)) (fn (ld_db l)))"

definition ld_Index ::
    "('v, 'db) lady_env \<Rightarrow> 'db option \<Rightarrow> doc list \<Rightarrow> ('v, 'db) ladybug \<Rightarrow> (error option \<times> ('v, 'db) ladybug) option" where
  "ld_Index env wedged docs l =
     (if ld_poisoned l then Some (Some errStorePoisoned, l)
      else (case storedHashes env l of (Inl e, l1) \<Rightarrow> Some (Some e, l1)
      | (Inr stored, l1) \<Rightarrow>
          (let toEmbed = filter (\<lambda>p. st_hash p \<notin> stored) (stage env docs) in
           case embedTexts env (map st_text toEmbed) l1 of (Inl e, l2) \<Rightarrow> Some (Some e, l2)
           | (Inr vectors, l2) \<Rightarrow>
          (case ensureChunkTable env l2 of (Some e, l3) \<Rightarrow> Some (Some e, l3)
           | (None, l3) \<Rightarrow>
               runWriteWithDeadline wedged
                 (write_phase env (ld_dim l3) toEmbed vectors docs (st_hash ` set (stage env docs))) l3))))"

section \<open>Queries\<close>

text \<open>A query under the mutex: refused on a poisoned store.\<close>

definition unless_poisoned ::
    "('v, 'db) ladybug \<Rightarrow> ('db \<Rightarrow> 'a result \<times> 'db) \<Rightarrow> 'a result \<times> ('v, 'db) ladybug" where
  "unless_poisoned l f =
     (if ld_poisoned l then (Inl errStorePoisoned, l) else (case f (ld_db l) of (r, db) \<Rightarrow> (r, l\<lparr>ld_db := db\<rparr>)))"

definition run_query :: "('v, 'db) lady_env \<Rightarrow> string \<Rightarrow> nat \<Rightarrow> (lvalue list \<Rightarrow> 'a option) \<Rightarrow> 'db \<Rightarrow> 'a list result \<times> 'db" where
  "run_query env q n f db = (case le_query env q db of (Inl e, db') \<Rightarrow> (Inl e, db') | (Inr rows, db') \<Rightarrow> (collect n f rows, db'))"

definition row_chunk :: "lvalue list \<Rightarrow> chunk option" where
  "row_chunk vs = Some \<lparr>c_Source = asString (vs ! 0), c_Text = asString (vs ! 1)\<rparr>"

definition row_ref :: "lvalue list \<Rightarrow> doc_ref option" where
  "row_ref vs = Some \<lparr>dr_Path = asString (vs ! 0), dr_Title = asString (vs ! 1)\<rparr>"

definition semantic_query :: "('v, 'db) lady_env \<Rightarrow> 'v \<Rightarrow> int \<Rightarrow> string" where
  "semantic_query env v k = ''CALL QUERY_VECTOR_INDEX('Chunk', 'chunk_vec', '' @ floatArrayLiteral env v @ '', '' @ itoa k @
     '') RETURN node.source, node.text, distance ORDER BY distance;''"

definition ld_Semantic :: "('v, 'db) lady_env \<Rightarrow> 'v \<Rightarrow> int \<Rightarrow> ('v, 'db) ladybug \<Rightarrow> chunk list result \<times> ('v, 'db) ladybug" where
  "ld_Semantic env v k l = unless_poisoned l (\<lambda>db.
     if le_vec env v = [] \<or> ld_dim l = 0 then (Inr [], db)
     else run_query env (semantic_query env v k) 3
       (\<lambda>vs. if ld_threshold l > 0 \<and> le_rnd env (1 - toFloat (le_rnd env) (vs ! 2)) < ld_threshold l then None else row_chunk vs) db)"

definition ld_SemanticStats :: "('v, 'db) lady_env \<Rightarrow> ('v, 'db) ladybug \<Rightarrow> (int \<times> int) result \<times> ('v, 'db) ladybug" where
  "ld_SemanticStats env l = unless_poisoned l (\<lambda>db.
     if ld_dim l = 0 then (Inr (0, 0), db)
     else (case le_query env ''MATCH (c:Chunk) WHERE c.embedding IS NOT NULL RETURN count(*);'' db of
         (Inl e, db') \<Rightarrow> (Inl e, db')
       | (Inr [], db') \<Rightarrow> (Inr (ld_dim l, 0), db')
       | (Inr (NextFailed e # rows), db') \<Rightarrow> (Inl e, db')
       | (Inr (Row (LInt n # vs) # rows), db') \<Rightarrow> (Inr (ld_dim l, n), db')
       | (Inr (_ # rows), db') \<Rightarrow> (Inl (ErrMsg ''store: ladybug vector count''), db')))"

definition keyword_query :: "string \<Rightarrow> int \<Rightarrow> string" where
  "keyword_query q k = ''CALL QUERY_FTS_INDEX('Chunk', 'chunk_fts', '' @ cypherString q @
     '') RETURN node.source, node.text, score ORDER BY score DESC LIMIT '' @ itoa k @ '';''"

definition ld_Keyword :: "('v, 'db) lady_env \<Rightarrow> string \<Rightarrow> int \<Rightarrow> ('v, 'db) ladybug \<Rightarrow> chunk list result \<times> ('v, 'db) ladybug" where
  "ld_Keyword env q k l = unless_poisoned l (\<lambda>db.
     if TrimSpace q = [] then (Inr [], db) else run_query env (keyword_query q k) 2 row_chunk db)"

definition alias_query :: "string \<Rightarrow> string" where
  "alias_query nk = ''MATCH (a:Alias {nk: '' @ cypherString nk @ ''}) RETURN a.canon;''"

text \<open>Its error is read as no alias by its one caller, so it is not kept apart here.\<close>

definition resolveAlias :: "('v, 'db) lady_env \<Rightarrow> string \<Rightarrow> 'db \<Rightarrow> string \<times> 'db" where
  "resolveAlias env nk db =
     (case le_query env (alias_query nk) db of
        (Inr (Row (v # vs) # rows), db') \<Rightarrow> (asString v, db')
      | (_, db') \<Rightarrow> ([], db'))"

definition enumerate_query :: "string \<Rightarrow> string \<Rightarrow> string" where
  "enumerate_query dm nk = ''MATCH (d:Doc)-[:HAS_VALUE]->(v:Value {dim: '' @ cypherString dm @ '', nk: '' @ cypherString nk @
     ''}) RETURN d.path, d.title;''"

definition ld_Enumerate :: "('v, 'db) lady_env \<Rightarrow> string \<Rightarrow> string \<Rightarrow> ('v, 'db) ladybug \<Rightarrow> doc_ref list result \<times> ('v, 'db) ladybug" where
  "ld_Enumerate env dm val l = unless_poisoned l (\<lambda>db.
     let nk = le_key env val in
     if nk = [] then (Inr [], db)
     else (case resolveAlias env nk db of (canon, db1) \<Rightarrow>
       run_query env (enumerate_query dm (if canon \<noteq> [] then canon else nk)) 2 row_ref db1))"

definition ordered_query :: "string \<Rightarrow> direction \<Rightarrow> int \<Rightarrow> string" where
  "ordered_query f dir limit = ''MATCH (d:Doc)-[:HAS_ORDER]->(o:Ordinal {field: '' @ cypherString f @
     ''}) RETURN d.path, d.title ORDER BY o.key '' @ (if dir = Ascending then ''ASC'' else ''DESC'') @ '', d.path ASC'' @
     (if limit > 0 then '' LIMIT '' @ itoa limit else []) @ '';''"

definition ld_Ordered :: "('v, 'db) lady_env \<Rightarrow> string \<Rightarrow> direction \<Rightarrow> int \<Rightarrow> ('v, 'db) ladybug \<Rightarrow> doc_ref list result \<times> ('v, 'db) ladybug" where
  "ld_Ordered env f dir limit l = unless_poisoned l (\<lambda>db.
     if TrimSpace f = [] then (Inr [], db) else run_query env (ordered_query f dir limit) 2 row_ref db)"

text \<open>The rows grouped by dimension, each display once, sorted.\<close>

definition group_displays :: "(string \<times> string) list \<Rightarrow> string \<Rightarrow> string list" where
  "group_displays ps dm = sort (map snd (filter (\<lambda>(m, p). m = dm) (remdups ps)))"

definition ld_Dimensions :: "('v, 'db) lady_env \<Rightarrow> ('v, 'db) ladybug \<Rightarrow> (string \<rightharpoonup> string list) result \<times> ('v, 'db) ladybug" where
  "ld_Dimensions env l = unless_poisoned l (\<lambda>db.
     case run_query env ''MATCH (v:Value) RETURN v.dim, v.disp;'' 2
        (\<lambda>vs. let dm = asString (vs ! 0); disp = asString (vs ! 1) in if dm = [] \<or> disp = [] then None else Some (dm, disp)) db of
       (Inl e, db') \<Rightarrow> (Inl e, db')
     | (Inr ps, db') \<Rightarrow> (Inr (\<lambda>dm. if dm \<in> fst ` set ps then Some (group_displays ps dm) else None), db'))"

end
