(* ===== verification/Ladybug_Props.thy ===== *)
theory Ladybug_Props
  imports Ladybug
begin

text \<open>
  What the persistent backend promises: no text of a note or of a question becomes part of a statement,
  a rebuild is committed whole or rolled back, and a store whose write did not return refuses everything.
\<close>

section \<open>Statements\<close>

text \<open>
  A reader of a statement's single-quoted literals, with \<^verbatim>\<open>\\<close> escaping the character after it: the
  literal that starts here and what follows it.
\<close>

fun read_literal :: "string \<Rightarrow> (string \<times> string) option" where
  "read_literal [] = None"
| "read_literal (c # s) =
     (if c = CHR 0x27 then Some ([], s)
      else if c = CHR 0x5C then (case s of [] \<Rightarrow> None | d # t \<Rightarrow> map_option (\<lambda>(x, r). (d # x, r)) (read_literal t))
      else map_option (\<lambda>(x, r). (c # x, r)) (read_literal s))"

lemma read_literal_escaped: "read_literal (concat (map cypher_char s) @ CHR 0x27 # rest) = Some (s, rest)"
  by (induction s) (auto simp: cypher_char_def)

lemma read_literal_shorter: "read_literal s = Some (x, r) \<Longrightarrow> length r < length s"
proof (induction s arbitrary: x r rule: read_literal.induct)
  case (2 c s)
  show ?case
  proof (cases "c = CHR 0x5C")
    case True
    then obtain d t where "s = d # t" using 2(3) by (cases s) auto
    then show ?thesis using 2 True by fastforce
  next
    case False
    then show ?thesis using 2 by (cases "c = CHR 0x27") fastforce+
  qed
qed simp

text \<open>A statement with every literal emptied; a literal that never ends is marked.\<close>

function skeleton :: "string \<Rightarrow> string" where
  "skeleton [] = []"
| "skeleton (c # s) =
     (if c = CHR 0x27 then (case read_literal s of None \<Rightarrow> ''!'' | Some (x, r) \<Rightarrow> ''<>'' @ skeleton r) else c # skeleton s)"
  by pat_completeness auto
termination
  by (relation "measure length") (auto dest: read_literal_shorter)

lemma skeleton_literal [simp]: "skeleton (cypherString s @ rest) = ''<>'' @ skeleton rest"
  by (simp add: cypherString_def read_literal_escaped)

lemma skeleton_plain [simp]: "CHR 0x27 \<notin> set a \<Longrightarrow> skeleton (a @ b) = a @ skeleton b"
  by (induction a) auto

text \<open>Two texts that read the same, whatever follows.\<close>

definition same_shape :: "string \<Rightarrow> string \<Rightarrow> bool" where
  "same_shape a b \<longleftrightarrow> (\<forall>rest rest'. skeleton rest = skeleton rest' \<longrightarrow> skeleton (a @ rest) = skeleton (b @ rest'))"

lemma same_shape_refl [simp, intro]: "CHR 0x27 \<notin> set a \<Longrightarrow> same_shape a a"
  by (simp add: same_shape_def)

lemma same_shape_literal [simp, intro]: "same_shape (cypherString s) (cypherString t)"
  by (simp add: same_shape_def)

lemma same_shape_append [intro]: "same_shape a a' \<Longrightarrow> same_shape b b' \<Longrightarrow> same_shape (a @ b) (a' @ b')"
  unfolding same_shape_def by (metis append.assoc)

lemma same_shape_skeleton: "same_shape a b \<Longrightarrow> skeleton a = skeleton b"
  unfolding same_shape_def by (metis append_Nil2)

lemma same_shape_join:
  "list_all2 same_shape xs ys \<Longrightarrow> CHR 0x27 \<notin> set sep \<Longrightarrow> same_shape (join sep xs) (join sep ys)"
proof (induction xs ys rule: list_all2_induct)
  case (Cons x xs y ys)
  then show ?case by (cases xs; cases ys) (auto intro!: same_shape_append)
qed (simp add: same_shape_def)

lemma same_shape_fields:
  "map fst kvs = map fst kvs' \<Longrightarrow> \<forall>(k, v) \<in> set kvs. CHR 0x27 \<notin> set k \<Longrightarrow> list_all2 same_shape (map_fields kvs) (map_fields kvs')"
proof (induction kvs arbitrary: kvs')
  case (Cons kv kvs)
  obtain k v where kv: "kv = (k, v)" by (cases kv)
  obtain v' kvs2 where k2: "kvs' = (k, v') # kvs2" using Cons(2) kv by (cases kvs') auto
  have "same_shape (k @ '':'' @ cypherString v) (k @ '':'' @ cypherString v')"
    using Cons(3) kv by (intro same_shape_append same_shape_literal same_shape_refl) auto
  then show ?case using Cons kv k2 by simp
qed simp

lemma same_shape_map:
  "map fst kvs = map fst kvs' \<Longrightarrow> \<forall>(k, v) \<in> set kvs. CHR 0x27 \<notin> set k \<Longrightarrow> same_shape (mapLiteral kvs) (mapLiteral kvs')"
  unfolding mapLiteral_def by (intro same_shape_append same_shape_join same_shape_fields) auto

lemma same_shape_unwind:
  assumes "list_all2 same_shape rows rows'"
  shows "map skeleton (unwind rows rest) = map skeleton (unwind rows' rest)"
proof (cases "rows = []")
  case True
  then show ?thesis using assms by (simp add: unwind_def)
next
  case False
  then have ne: "rows' \<noteq> []" using assms by auto
  have "skeleton ((''UNWIND ['' @ join '','' rows) @ ''] AS r '' @ rest) = skeleton ((''UNWIND ['' @ join '','' rows') @ ''] AS r '' @ rest)"
    using same_shape_append [OF same_shape_refl [of "''UNWIND [''"] same_shape_join [OF assms, of "'',''"]]
    by (auto simp: same_shape_def)
  then show ?thesis using False ne by (simp add: unwind_def)
qed


text \<open>Decimals hold no quote.\<close>

definition plain_vectors :: "('v, 'db) lady_env \<Rightarrow> bool" where
  "plain_vectors env \<longleftrightarrow> (\<forall>v. \<forall>x \<in> set (le_vec env v). CHR 0x27 \<notin> set x)"

lemma join_chars: "c \<in> set (join sep xs) \<Longrightarrow> c \<in> set sep \<or> (\<exists>x \<in> set xs. c \<in> set x)"
  using set_join [of sep xs] by auto

lemma itoa_no_quote: "CHR 0x27 \<notin> set (itoa i)"
  using digits_chars [of "CHR 0x27"] by (auto simp: itoa_def)

lemma vector_no_quote: "plain_vectors env \<Longrightarrow> CHR 0x27 \<notin> set (floatArrayLiteral env v)"
  using itoa_no_quote by (auto simp: floatArrayLiteral_def plain_vectors_def dest!: join_chars)

lemma chunk_row_shape:
  assumes "plain_vectors env" "chunk_row env w p v = Some r" "chunk_row env w p' v = Some r'"
  shows "same_shape r r'"
proof -
  let ?r = "\<lambda>p. ''{hash:'' @ cypherString (st_hash p) @ '',source:'' @ cypherString (st_source p) @ '',text:'' @ cypherString (st_text p)"
  have s: "same_shape (?r p) (?r p')" by (intro same_shape_append same_shape_literal same_shape_refl) simp_all
  show ?thesis
  proof (cases w)
    case False
    have "same_shape (?r p @ ''}'') (?r p' @ ''}'')" by (intro same_shape_append [OF s] same_shape_refl) simp
    then show ?thesis using assms(2,3) False by (simp add: chunk_row_def)
  next
    case True
    obtain x where x: "v = Some x" using assms(2) True by (cases v) (simp_all add: chunk_row_def Let_def)
    have "same_shape (?r p @ '',embedding:'' @ floatArrayLiteral env x @ ''}'') (?r p' @ '',embedding:'' @ floatArrayLiteral env x @ ''}'')"
      by (intro same_shape_append [OF s] same_shape_refl) (simp add: vector_no_quote [OF assms(1)])
    then show ?thesis using assms(2,3) True x by (simp add: chunk_row_def Let_def)
  qed
qed

lemma chunk_rows_shape:
  assumes "plain_vectors env"
  shows "chunk_rows env w ps = Some rows \<Longrightarrow> chunk_rows env w ps' = Some rows' \<Longrightarrow> map snd ps = map snd ps' \<Longrightarrow>
    list_all2 same_shape rows rows'"
proof (induction ps arbitrary: ps' rows rows')
  case (Cons pv ps)
  obtain p v where pv: "pv = (p, v)" by (cases pv)
  obtain p' ps2 where ps': "ps' = (p', v) # ps2" using Cons(4) pv by (cases ps') auto
  obtain r rs where r: "chunk_row env w p v = Some r" "chunk_rows env w ps = Some rs" "rows = r # rs"
    using Cons(2) pv by (auto split: option.splits)
  obtain r' rs' where r': "chunk_row env w p' v = Some r'" "chunk_rows env w ps2 = Some rs'" "rows' = r' # rs'"
    using Cons(3) ps' by (auto split: option.splits)
  show ?case using chunk_row_shape [OF assms r(1) r'(1)] Cons(1) [OF r(2) r'(2)] Cons(4) ps' r(3) r'(3) by simp
qed simp

lemma upsert_shape:
  assumes "list_all2 same_shape rows rows'"
  shows "skeleton (upsert_query w rows) = skeleton (upsert_query w rows')"
  unfolding upsert_query_def by (intro same_shape_skeleton same_shape_append same_shape_refl same_shape_join [OF assms]) simp_all

lemma query_shapes:
  "skeleton (keyword_query q k) = skeleton (keyword_query q' k)"
  "skeleton (enumerate_query dm nk) = skeleton (enumerate_query dm' nk')"
  "skeleton (ordered_query f dir limit) = skeleton (ordered_query f' dir limit)"
  "skeleton (alias_query nk) = skeleton (alias_query nk')"
proof -
  have i: "same_shape (itoa j @ '';'') (itoa j @ '';'')" for j by (rule same_shape_refl) (simp add: itoa_no_quote)
  have "same_shape (keyword_query q k) (keyword_query q' k)"
  proof -
    have split: "keyword_query q k = ''CALL QUERY_FTS_INDEX('' @ cypherString ''Chunk'' @ '', '' @ cypherString ''chunk_fts'' @ '', '' @
        cypherString q @ '') RETURN node.source, node.text, score ORDER BY score DESC LIMIT '' @ itoa k @ '';''" for q
      by (simp add: keyword_query_def cypherString_def cypher_char_def)
    show ?thesis unfolding split by (intro same_shape_append same_shape_literal i same_shape_refl) simp_all
  qed
  then show "skeleton (keyword_query q k) = skeleton (keyword_query q' k)" by (rule same_shape_skeleton)
  show "skeleton (enumerate_query dm nk) = skeleton (enumerate_query dm' nk')"
    unfolding enumerate_query_def by (intro same_shape_skeleton same_shape_append same_shape_literal same_shape_refl) simp_all
  show "skeleton (ordered_query f dir limit) = skeleton (ordered_query f' dir limit)"
    unfolding ordered_query_def
    by (intro same_shape_skeleton same_shape_append same_shape_literal same_shape_refl) (simp_all add: itoa_no_quote)
  show "skeleton (alias_query nk) = skeleton (alias_query nk')"
    unfolding alias_query_def by (intro same_shape_skeleton same_shape_append same_shape_literal same_shape_refl) simp_all
qed

lemma prune_shape:
  assumes "length (le_range env keep) = length (le_range env keep')"
  shows "skeleton (prune_query env keep) = skeleton (prune_query env keep')"
proof (cases "le_range env keep = []")
  case False
  have "list_all2 same_shape (map cypherString (le_range env keep)) (map cypherString (le_range env keep'))"
    using assms by (auto simp: list_all2_conv_all_nth)
  moreover have "le_range env keep' \<noteq> []" using False assms by auto
  ultimately show ?thesis unfolding prune_query_def using False
    by (simp only: if_False) (intro same_shape_skeleton same_shape_append same_shape_refl same_shape_join, simp_all)
qed (use assms in \<open>simp add: prune_query_def\<close>)

lemma doc_rows_shape: "length docs = length docs' \<Longrightarrow> list_all2 same_shape (map doc_row docs) (map doc_row docs')"
  by (auto simp: list_all2_conv_all_nth doc_row_def intro!: same_shape_map)


text \<open>A test environment.\<close>

definition demo_lady :: "(nat, string list) lady_env" where
  "demo_lady = \<lparr>le_query = (\<lambda>q db. (Inr [], q # db)), le_hash = id, le_key = id, le_vec = (\<lambda>n. replicate n ''1''),
     le_float = (\<lambda>_. ''1''), le_rnd = id, le_fields = (\<lambda>_. []), le_dims = (\<lambda>_. []), le_range = (\<lambda>_. [])\<rparr>"


section \<open>The transaction\<close>

text \<open>The same connection with the statements sent kept, oldest first.\<close>

definition logged :: "('v, 'db) lady_env \<Rightarrow> ('v, 'db \<times> string list) lady_env" where
  "logged env = \<lparr>le_query = (\<lambda>q (db, lg). case le_query env q db of (r, db') \<Rightarrow> (r, (db', lg @ [q]))),
     le_hash = le_hash env, le_key = le_key env, le_vec = le_vec env, le_float = le_float env, le_rnd = le_rnd env,
     le_fields = le_fields env, le_dims = le_dims env, le_range = le_range env\<rparr>"

lemma logged_query [simp]:
  "le_query (logged env) q (db, lg) = (case le_query env q db of (r, db') \<Rightarrow> (r, (db', lg @ [q])))"
  by (simp add: logged_def)

lemma logged_fields [simp]: "le_hash (logged env) = le_hash env" "le_key (logged env) = le_key env" "le_vec (logged env) = le_vec env"
  "le_float (logged env) = le_float env" "le_fields (logged env) = le_fields env" "le_dims (logged env) = le_dims env"
  "le_range (logged env) = le_range env"
  by (simp_all add: logged_def)

lemma logged_exec: "\<exists>e db'. ld_exec (logged env) q (db, lg) = (e, (db', lg @ [q]))"
  by (auto simp: ld_exec_def split: prod.splits sum.splits)

lemma logged_execE:
  assumes "ld_exec (logged env) q (db, lg) = (e, s)"
  obtains db' where "s = (db', lg @ [q])"
  using logged_exec [of env q db lg] assms by auto

lemma logged_exec_all:
  "exec_all (logged env) qs (db, lg) = (e, s) \<Longrightarrow>
   \<exists>db' n. s = (db', lg @ take n qs) \<and> (e = None \<longrightarrow> take n qs = qs)"
proof (induction qs arbitrary: db lg)
  case (Cons q qs)
  obtain e1 db1 where x: "ld_exec (logged env) q (db, lg) = (e1, (db1, lg @ [q]))"
    using logged_exec [of env q db lg] by auto
  show ?case
  proof (cases e1)
    case None
    then obtain db' n where "s = (db', (lg @ [q]) @ take n qs)" "e = None \<longrightarrow> take n qs = qs"
      using Cons(1) [of db1 "lg @ [q]"] Cons(2) x by auto
    then show ?thesis by (intro exI [of _ db'] exI [of _ "Suc n"]) simp
  next
    case (Some err)
    then show ?thesis using Cons(2) x by (intro exI [of _ db1] exI [of _ 1]) auto
  qed
qed auto

text \<open>The statements of the upserts: the rows of each batch.\<close>

definition upserts :: "('v, 'db) lady_env \<Rightarrow> bool \<Rightarrow> (staged \<times> 'v option) list list \<Rightarrow> string list" where
  "upserts env w bs = map (\<lambda>b. upsert_query w (the (chunk_rows env w b))) bs"

lemma chunk_rows_logged: "chunk_rows (logged env) w b = chunk_rows env w b"
proof (induction env w b rule: chunk_rows.induct)
  case (2 env w p v ps)
  have "chunk_row (logged env) w p v = chunk_row env w p v"
    by (simp add: chunk_row_def floatArrayLiteral_def Let_def)
  then show ?case using 2 by (simp split: option.splits)
qed simp

lemma logged_upserts:
  "upsert_batches (logged env) w bs (db, lg) = Some (e, s) \<Longrightarrow>
   \<exists>db' n. s = (db', lg @ take n (upserts env w bs)) \<and> (e = None \<longrightarrow> take n (upserts env w bs) = upserts env w bs)"
proof (induction bs arbitrary: db lg)
  case (Cons b bs)
  obtain rows where r: "chunk_rows env w b = Some rows"
    using Cons(2) by (auto simp: chunk_rows_logged split: option.splits)
  obtain e1 db1 where x: "ld_exec (logged env) (upsert_query w rows) (db, lg) = (e1, (db1, lg @ [upsert_query w rows]))"
    using logged_exec [of env "upsert_query w rows" db lg] by auto
  show ?case
  proof (cases e1)
    case None
    then obtain db' n where "s = (db', (lg @ [upsert_query w rows]) @ take n (upserts env w bs))"
        "e = None \<longrightarrow> take n (upserts env w bs) = upserts env w bs"
      using Cons(1) [of db1 "lg @ [upsert_query w rows]"] Cons(2) x r by (auto simp: chunk_rows_logged)
    then show ?thesis by (intro exI [of _ db'] exI [of _ "Suc n"]) (simp add: upserts_def r)
  next
    case (Some err)
    then show ?thesis using Cons(2) x r by (intro exI [of _ db1] exI [of _ 1]) (auto simp: upserts_def chunk_rows_logged)
  qed
qed (auto simp: upserts_def)

text \<open>Everything a rebuild writes, in order.\<close>

definition all_writes ::
    "('v, 'db) lady_env \<Rightarrow> int \<Rightarrow> staged list \<Rightarrow> 'v list \<Rightarrow> doc list \<Rightarrow> string set \<Rightarrow> string list" where
  "all_writes env d toEmbed vectors docs keep =
     upserts env (d > 0) (batches upsertChunkBatch (with_vectors toEmbed vectors)) @ [prune_query env keep] @
     structured_deletes @ structured_inserts env docs"

lemma logged_same: "prune_query (logged env) keep = prune_query env keep" "structured_inserts (logged env) docs = structured_inserts env docs"
proof -
  have v: "value_rows (logged env) path dm vs seen s = value_rows env path dm vs seen s" for path dm vs seen s
    by (induction env path dm vs seen s rule: value_rows.induct) (simp_all add: Let_def)
  have "doc_values (logged env) = doc_values env" by (intro ext) (simp add: doc_values_def v)
  moreover have "alias_rows (logged env) = alias_rows env" "ord_rows (logged env) = ord_rows env"
      "ord_edge_rows (logged env) = ord_edge_rows env"
    by (simp_all add: fun_eq_iff alias_rows_def ord_rows_def ord_edge_rows_def Let_def)
  ultimately show "structured_inserts (logged env) docs = structured_inserts env docs" by (simp add: structured_inserts_def)
  show "prune_query (logged env) keep = prune_query env keep" by (simp add: prune_query_def)
qed

lemma logged_writeGraph:
  assumes "writeGraph (logged env) d toEmbed vectors docs keep (db, lg) = Some (e, s)"
  shows "\<exists>db' n. s = (db', lg @ take n (all_writes env d toEmbed vectors docs keep)) \<and>
    (e = None \<longrightarrow> take n (all_writes env d toEmbed vectors docs keep) = all_writes env d toEmbed vectors docs keep)"
proof -
  let ?us = "upserts env (d > 0) (batches upsertChunkBatch (with_vectors toEmbed vectors))"
  let ?st = "structured_deletes @ structured_inserts env docs"
  obtain e1 s1 where u: "upsertChunks (logged env) d toEmbed vectors (db, lg) = Some (e1, s1)"
    using assms by (auto simp: writeGraph_def split: option.splits)
  obtain db1 n1 where s1: "s1 = (db1, lg @ take n1 ?us)" "e1 = None \<longrightarrow> take n1 ?us = ?us"
    using logged_upserts [OF u [unfolded upsertChunks_def]] by blast
  show ?thesis
  proof (cases e1)
    case (Some err)
    have "take (min n1 (length ?us)) (?us @ [prune_query env keep] @ ?st) = take n1 ?us" by (simp add: min_def)
    then show ?thesis using assms u Some s1(1)
      by (intro exI [of _ db1] exI [of _ "min n1 (length ?us)"]) (auto simp: writeGraph_def all_writes_def)
  next
    case None
    obtain e2 db2 where p: "pruneChunks (logged env) keep s1 = (e2, (db2, lg @ ?us @ [prune_query env keep]))"
      using logged_exec [of env "prune_query env keep" db1 "lg @ ?us"] s1 None by (auto simp: pruneChunks_def logged_same)
    show ?thesis
    proof (cases e2)
      case (Some err)
      then show ?thesis using assms u None p
        by (intro exI [of _ db2] exI [of _ "Suc (length ?us)"]) (auto simp: writeGraph_def all_writes_def)
    next
      case e2: None
      have "exec_all (logged env) ?st (db2, lg @ ?us @ [prune_query env keep]) = (e, s)"
        using assms u None p e2 by (simp add: writeGraph_def rebuildStructured_def logged_same)
      from logged_exec_all [OF this] obtain db3 n3
        where "s = (db3, (lg @ ?us @ [prune_query env keep]) @ take n3 ?st)" "e = None \<longrightarrow> take n3 ?st = ?st" by blast
      then show ?thesis
        by (intro exI [of _ db3] exI [of _ "Suc (length ?us) + n3"]) (auto simp: all_writes_def)
    qed
  qed
qed

text \<open>What the statements of a write phase may be: the transaction did not begin, it was rolled back after some
  of the writes, or all of them were sent and it was committed, and only then the indexes are rebuilt.\<close>

definition index_statements :: "int \<Rightarrow> string list" where
  "index_statements d = [''CALL DROP_FTS_INDEX('Chunk', 'chunk_fts');'', ''CALL CREATE_FTS_INDEX('Chunk', 'chunk_fts', ['text']);''] @
     (if d > 0 then [''CALL DROP_VECTOR_INDEX('Chunk', 'chunk_vec');'',
        ''CALL CREATE_VECTOR_INDEX('Chunk', 'chunk_vec', 'embedding', metric := 'cosine');''] else [])"

definition transaction :: "string list \<Rightarrow> int \<Rightarrow> error option \<Rightarrow> string list \<Rightarrow> bool" where
  "transaction ws d e sent \<longleftrightarrow>
     (sent = [''BEGIN TRANSACTION;''] \<and> e \<noteq> None) \<or>
     (\<exists>n. sent = ''BEGIN TRANSACTION;'' # take n ws @ [''ROLLBACK;''] \<and> e \<noteq> None) \<or>
     (sent = ''BEGIN TRANSACTION;'' # ws @ [''COMMIT;''] \<and> e \<noteq> None) \<or>
     sent = ''BEGIN TRANSACTION;'' # ws @ [''COMMIT;''] @ index_statements d"

lemma logged_indexes: "\<exists>e db'. rebuildIndexes (logged env) d (db, lg) = (e, (db', lg @ index_statements d))"
  by (auto simp: rebuildIndexes_def index_statements_def ld_exec_def Let_def split: prod.splits sum.splits)

lemma logged_write_phase:
  assumes "write_phase (logged env) d toEmbed vectors docs keep (db, lg) = Some (e, s)"
  shows "\<exists>db' sent. s = (db', lg @ sent) \<and> transaction (all_writes env d toEmbed vectors docs keep) d e sent"
proof -
  let ?ws = "all_writes env d toEmbed vectors docs keep"
  let ?b = "''BEGIN TRANSACTION;''"
  obtain e1 db1 where b: "ld_exec (logged env) ?b (db, lg) = (e1, (db1, lg @ [?b]))"
    using logged_exec [of env ?b db lg] by auto
  show ?thesis
  proof (cases e1)
    case (Some err)
    then show ?thesis using assms b by (intro exI [of _ db1] exI [of _ "[?b]"]) (auto simp: write_phase_def transaction_def)
  next
    case None
    obtain e2 s2 where g: "writeGraph (logged env) d toEmbed vectors docs keep (db1, lg @ [?b]) = Some (e2, s2)"
      using assms b None by (auto simp: write_phase_def split: option.splits)
    obtain db2 n where s2: "s2 = (db2, (lg @ [?b]) @ take n ?ws)" "e2 = None \<longrightarrow> take n ?ws = ?ws"
      using logged_writeGraph [OF g] by blast
    show ?thesis
    proof (cases e2)
      case (Some err)
      have "s = snd (le_query (logged env) ''ROLLBACK;'' s2)" "e = Some err"
        using assms b None g Some by (auto simp: write_phase_def)
      then show ?thesis using s2(1)
        by (intro exI [of _ "fst s"] exI [of _ "?b # take n ?ws @ [''ROLLBACK;'']"])
          (auto simp: transaction_def split: prod.splits)
    next
      case e2: None
      obtain e3 db3 where c: "ld_exec (logged env) ''COMMIT;'' s2 = (e3, (db3, lg @ ?b # ?ws @ [''COMMIT;'']))"
        using logged_exec [of env "''COMMIT;''" db2 "lg @ ?b # ?ws"] s2 e2 by auto
      show ?thesis
      proof (cases e3)
        case (Some err)
        then show ?thesis using assms b None g e2 c
          by (intro exI [of _ db3] exI [of _ "?b # ?ws @ [''COMMIT;'']"]) (auto simp: write_phase_def transaction_def)
      next
        case e3: None
        obtain e4 db4 where "rebuildIndexes (logged env) d (db3, lg @ ?b # ?ws @ [''COMMIT;'']) =
            (e4, (db4, (lg @ ?b # ?ws @ [''COMMIT;'']) @ index_statements d))"
          using logged_indexes [of env d db3 "lg @ ?b # ?ws @ [''COMMIT;'']"] by auto
        then show ?thesis using assms b None g e2 c e3
          by (intro exI [of _ db4] exI [of _ "?b # ?ws @ [''COMMIT;''] @ index_statements d"])
            (auto simp: write_phase_def transaction_def)
      qed
    qed
  qed
qed

lemma batches_concat: "0 < n \<Longrightarrow> concat (batches n xs) = xs"
proof (induction n xs rule: batches.induct)
  case (1 n xs)
  then show ?case by (subst batches.simps) simp
qed

lemma batches_bound: "b \<in> set (batches n xs) \<Longrightarrow> length b \<le> n"
proof (induction n xs rule: batches.induct)
  case (1 n xs)
  then show ?case by (subst (asm) (2) batches.simps) (auto split: if_splits)
qed

text \<open>What the statements before the write phase may be: reads, and making the chunk table.\<close>

definition prelude_statement :: "string \<Rightarrow> bool" where
  "prelude_statement q \<longleftrightarrow> q = ''CALL SHOW_TABLES() RETURN name;'' \<or> q = ''MATCH (c:Chunk) RETURN c.hash;'' \<or> (\<exists>d. q = create_chunk_table d)"

definition same_store :: "('v, 'd) ladybug \<Rightarrow> ('v, 'e) ladybug \<Rightarrow> bool" where
  "same_store l l' \<longleftrightarrow> ld_embedder l = ld_embedder l' \<and> ld_threshold l = ld_threshold l' \<and> ld_poisoned l = ld_poisoned l'"

lemma logged_exists: "\<exists>b db'. chunkTableExists (logged env) (db, lg) = (b, (db', lg @ [''CALL SHOW_TABLES() RETURN name;'']))"
  by (auto simp: chunkTableExists_def split: prod.splits sum.splits)

lemma logged_storedHashes:
  assumes "storedHashes (logged env) l = (r, l1)" "ld_db l = (db, lg)"
  shows "\<exists>db' pre. ld_db l1 = (db', lg @ pre) \<and> (\<forall>q \<in> set pre. prelude_statement q)"
proof (cases "ld_dim l = 0")
  case True
  obtain b db1 where x: "chunkTableExists (logged env) (db, lg) = (b, (db1, lg @ [''CALL SHOW_TABLES() RETURN name;'']))"
    using logged_exists [of env db lg] by auto
  show ?thesis
  proof (cases b)
    case True
    then show ?thesis using assms x \<open>ld_dim l = 0\<close>
      by (auto simp: storedHashes_def prelude_statement_def split: prod.splits sum.splits)
  next
    case False
    then show ?thesis using assms x \<open>ld_dim l = 0\<close> by (auto simp: storedHashes_def prelude_statement_def)
  qed
next
  case False
  then show ?thesis using assms by (auto simp: storedHashes_def prelude_statement_def split: prod.splits sum.splits)
qed

lemma embedTexts_db: "embedTexts env ts l = (r, l1) \<Longrightarrow> ld_db l1 = ld_db l"
  by (auto simp: embedTexts_def split: option.splits if_splits sum.splits)

lemma logged_ensure:
  assumes "ensureChunkTable (logged env) l = (r, l1)" "ld_db l = (db, lg)"
  shows "\<exists>db' pre. ld_db l1 = (db', lg @ pre) \<and> (\<forall>q \<in> set pre. prelude_statement q)"
proof -
  obtain b db1 where x: "chunkTableExists (logged env) (db, lg) = (b, (db1, lg @ [''CALL SHOW_TABLES() RETURN name;'']))"
    using logged_exists [of env db lg] by auto
  show ?thesis
  proof (cases b)
    case True
    then show ?thesis using assms x by (auto simp: ensureChunkTable_def prelude_statement_def)
  next
    case False
    obtain e db2 where "ld_exec (logged env) (create_chunk_table (ld_dim l)) (db1, lg @ [''CALL SHOW_TABLES() RETURN name;'']) =
        (e, (db2, (lg @ [''CALL SHOW_TABLES() RETURN name;'']) @ [create_chunk_table (ld_dim l)]))"
      using logged_exec [of env "create_chunk_table (ld_dim l)" db1 "lg @ [''CALL SHOW_TABLES() RETURN name;'']"] by auto
    then show ?thesis using assms x False by (auto simp: ensureChunkTable_def prelude_statement_def)
  qed
qed

text \<open>An index that returns: either it stopped before its transaction, or what the transaction gave is its result.\<close>

lemma index_phases:
  assumes "ld_Index (logged env) None docs l = Some (e, l')" and "ld_db l = (db, [])" and "\<not> ld_poisoned l"
  shows "\<exists>db' pre. (\<forall>q \<in> set pre. prelude_statement q) \<and> \<not> ld_poisoned l' \<and>
    (e \<noteq> None \<and> ld_db l' = (db', pre) \<or>
     (\<exists>stored vectors d. write_phase (logged env) d (filter (\<lambda>p. st_hash p \<notin> stored) (stage env docs)) vectors docs
        (st_hash ` set (stage env docs)) (db', pre) = Some (e, ld_db l')))"
proof -
  let ?st = "stage env docs"
  have stage: "stage (logged env) docs = ?st" by (simp add: stage_def chunkHash_def)
  obtain r1 l1 where h: "storedHashes (logged env) l = (r1, l1)" by (cases "storedHashes (logged env) l")
  obtain db1 p1 where p1: "ld_db l1 = (db1, p1)" "\<forall>q \<in> set p1. prelude_statement q"
    using logged_storedHashes [OF h assms(2)] by auto
  have pois: "ld_poisoned l1 = ld_poisoned l" using h
    by (auto simp: storedHashes_def split: prod.splits bool.splits sum.splits)
  show ?thesis
  proof (cases r1)
    case (Inl err)
    then show ?thesis using assms h p1 pois by (intro exI [of _ db1] exI [of _ p1]) (auto simp: ld_Index_def)
  next
    case (Inr stored)
    let ?new = "filter (\<lambda>p. st_hash p \<notin> stored) ?st"
    obtain r2 l2 where m: "embedTexts (logged env) (map st_text ?new) l1 = (r2, l2)" by (cases "embedTexts (logged env) (map st_text ?new) l1")
    have l2: "ld_db l2 = (db1, p1)" "ld_poisoned l2 = ld_poisoned l" using embedTexts_db [OF m] p1(1) m pois
      by (auto simp: embedTexts_def split: option.splits if_splits sum.splits)
    show ?thesis
    proof (cases r2)
      case (Inl err)
      then show ?thesis using assms h p1 Inr m l2 stage
        by (intro exI [of _ db1] exI [of _ p1]) (auto simp: ld_Index_def Let_def)
    next
      case r2: (Inr vectors)
      obtain r3 l3 where t: "ensureChunkTable (logged env) l2 = (r3, l3)" by (cases "ensureChunkTable (logged env) l2")
      obtain db3 p3 where p3: "ld_db l3 = (db3, p1 @ p3)" "\<forall>q \<in> set p3. prelude_statement q"
        using logged_ensure [OF t l2(1)] by auto
      have l3: "ld_poisoned l3 = ld_poisoned l" using t l2(2)
        by (auto simp: ensureChunkTable_def split: prod.splits bool.splits)
      show ?thesis
      proof (cases r3)
        case (Some err)
        then show ?thesis using assms h p1 Inr m l2 stage r2 t p3 l3
          by (intro exI [of _ db3] exI [of _ "p1 @ p3"]) (auto simp: ld_Index_def Let_def)
      next
        case None
        then show ?thesis using assms h Inr m stage r2 t p1(2) p3 l3
          by (intro exI [of _ db3] exI [of _ "p1 @ p3"]) (auto simp: ld_Index_def Let_def runWriteWithDeadline_def)
      qed
    qed
  qed
qed


definition demo_store :: "(nat, string list \<times> string list) ladybug" where
  "demo_store = \<lparr>ld_db = ([], []), ld_embedder = None, ld_threshold = 0, ld_dim = 0, ld_poisoned = False\<rparr>"

definition demo_note :: doc where
  "demo_note = \<lparr>d_Ref = \<lparr>dr_Path = ''a.md'', dr_Title = ''A''\<rparr>, d_Chunks = [\<lparr>c_Source = ''a.md'', c_Text = ''cat''\<rparr>],
     d_Dimensions = Map.empty, d_Aliases = [], d_Ordered = Map.empty, d_OrderedSkipped = []\<rparr>"

lemma demo_rebuild: "\<exists>l'. ld_Index (logged demo_lady) None [demo_note] demo_store = Some (None, l')"
proof -
  have q: "le_query (logged demo_lady) q = (\<lambda>(d, lg). (Inr [], (q # d, lg @ [q])))" for q
    by (auto simp: logged_def demo_lady_def)
  have x: "ld_exec (logged demo_lady) q s = (None, (q # fst s, snd s @ [q]))" for q s
    by (cases s) (simp add: ld_exec_def q)
  have xs: "\<exists>s'. exec_all (logged demo_lady) qs s = (None, s')" for qs s
    by (induction qs arbitrary: s) (simp_all add: x)
  show ?thesis
  proof -
    obtain s' where r: "exec_all (logged demo_lady) (structured_deletes @ structured_inserts (logged demo_lady) [demo_note]) s = (None, s' s)" for s
      using xs by metis
    show ?thesis
      by (simp add: ld_Index_def demo_store_def storedHashes_def chunkTableExists_def q stage_def demo_note_def embedTexts_def
          ensureChunkTable_def x runWriteWithDeadline_def write_phase_def writeGraph_def upsertChunks_def batches.simps
          upsertChunkBatch_def with_vectors_def chunk_row_def pruneChunks_def rebuildStructured_def rebuildIndexes_def Let_def
          r [unfolded demo_note_def])
  qed
qed


section \<open>Refusals and flaws\<close>

text \<open>A store whose write did not return answers every operation with an error, and sends nothing more.\<close>

lemma poisoned_refuses:
  assumes "ld_poisoned l"
  shows "ld_Index env wedged docs l = Some (Some errStorePoisoned, l)" "ld_Semantic env v k l = (Inl errStorePoisoned, l)"
    "ld_SemanticStats env l = (Inl errStorePoisoned, l)" "ld_Keyword env q k l = (Inl errStorePoisoned, l)"
    "ld_Enumerate env dm val l = (Inl errStorePoisoned, l)" "ld_Ordered env f dir limit l = (Inl errStorePoisoned, l)"
    "ld_Dimensions env l = (Inl errStorePoisoned, l)"
  using assms by (simp_all add: ld_Index_def ld_Semantic_def ld_SemanticStats_def ld_Keyword_def ld_Enumerate_def ld_Ordered_def
      ld_Dimensions_def unless_poisoned_def)

text \<open>
  A store that was indexed with an embedder and is opened again without one has a dimension and no
  vectors: the first index with a chunk that is not stored reads past the end of the vectors.
\<close>

lemma reopened_without_embedder_panics:
  assumes open': "fst (NewLadybug env (Inr db) None None th) = Inr l" and "ld_dim l > 0"
    and stored: "storedHashes env l = (Inr stored, l1)"
    and new: "\<exists>p \<in> set (stage env docs). st_hash p \<notin> stored"
    and table: "\<exists>l2. ensureChunkTable env l1 = (None, l2)"
    and began: "\<And>db. fst (ld_exec env ''BEGIN TRANSACTION;'' db) = None"
  shows "ld_Index env None docs l = None"
proof -
  let ?new = "filter (\<lambda>p. st_hash p \<notin> stored) (stage env docs)"
  have e: "ld_embedder l = None" "\<not> ld_poisoned l" using open'
    by (auto simp: NewLadybug_def loadDim_def split: prod.splits option.splits bool.splits sum.splits)
  have l1: "ld_embedder l1 = None" "ld_dim l1 > 0" using stored e assms(2)
    by (auto simp: storedHashes_def split: prod.splits bool.splits sum.splits)
  obtain l2 where t: "ensureChunkTable env l1 = (None, l2)" using table by blast
  have l2: "ld_dim l2 > 0" using t l1 by (auto simp: ensureChunkTable_def split: prod.splits bool.splits)
  obtain p ps where ps: "?new = p # ps" using new by (cases ?new) (auto simp: filter_empty_conv)
  have "chunk_rows env True (take 100 (with_vectors ?new [])) = None"
    by (simp add: ps with_vectors_def chunk_row_def Let_def)
  then have u: "upsertChunks env (ld_dim l2) ?new [] db = None" for db
    using l2 by (simp add: upsertChunks_def upsertChunkBatch_def batches.simps ps with_vectors_def split: option.splits)
  have "write_phase env (ld_dim l2) ?new [] docs keep db = None" for keep db
    using began [of db] u by (auto simp: write_phase_def writeGraph_def split: prod.splits option.splits)
  then show ?thesis using e stored l1 t
    by (simp add: ld_Index_def embedTexts_def runWriteWithDeadline_def Let_def)
qed

text \<open>
  A first index of an empty vault, with an embedder, makes the chunk table without an embedding column;
  such a table is refused by every later opening with an embedder.
\<close>

lemma empty_vault_no_embeddings:
  assumes "ld_Index (logged env) None docs l = Some (None, l')" "ld_db l = (db, [])" "ld_dim l = 0" "\<not> ld_poisoned l"
    and "concat (map d_Chunks docs) = []" and none: "\<And>db. fst (chunkTableExists (logged env) db) = False"
  shows "create_chunk_table 0 \<in> set (snd (ld_db l'))"
proof -
  have st: "stage (logged env) docs = []" using assms(5) by (simp add: stage_def)
  have h: "storedHashes (logged env) l = (Inr {}, l\<lparr>ld_db := snd (chunkTableExists (logged env) (ld_db l))\<rparr>)"
    using none [of "ld_db l"] assms(3) by (auto simp: storedHashes_def split: prod.splits bool.splits)
  define l1 where "l1 = l\<lparr>ld_db := snd (chunkTableExists (logged env) (ld_db l))\<rparr>"
  have m: "embedTexts (logged env) [] l1 = (Inr [], l1)" by (simp add: embedTexts_def split: option.splits)
  obtain db1 lg where c: "chunkTableExists (logged env) (ld_db l1) = (False, (db1, lg))"
    using none [of "ld_db l1"] by (metis prod.collapse)
  obtain e db2 where x: "ld_exec (logged env) (create_chunk_table 0) (db1, lg) = (e, (db2, lg @ [create_chunk_table 0]))"
    using logged_exec [of env "create_chunk_table 0" db1 lg] by auto
  have "e = None" using assms(1,4) h st m c x assms(3)
    by (cases e) (simp_all add: ld_Index_def l1_def [symmetric] ensureChunkTable_def, simp add: l1_def)
  then obtain s where w: "write_phase (logged env) (ld_dim l1) [] [] docs {} (db2, lg @ [create_chunk_table 0]) = Some (None, s)"
      "ld_db l' = s"
    using assms(1,4) h st m c x assms(3)
    by (auto simp: ld_Index_def l1_def [symmetric] ensureChunkTable_def runWriteWithDeadline_def) (auto simp: l1_def runWriteWithDeadline_def)
  then show ?thesis using logged_write_phase [OF w(1)] by auto
qed

lemma no_embeddings_refused:
  "find_dim rows = Inr None \<Longrightarrow> chunkTableExists env db = (True, db1) \<Longrightarrow>
   le_query env ''CALL TABLE_INFO('Chunk') RETURN name, type;'' db1 = (Inr rows, db2) \<Longrightarrow> ld_db l = db \<Longrightarrow> ld_embedder l \<noteq> None \<Longrightarrow>
   fst (loadDim env l) \<noteq> None"
  by (simp add: loadDim_def)

end
