(* ===== verification/Replay.thy ===== *)
theory Replay
  imports Serve
begin

text \<open>
  The replay harness, \<^verbatim>\<open>cmd/yaad-grove/replay.go\<close>: the question file, the loop that asks each question of
  the engine \<^verbatim>\<open>serve\<close> would build, the run command around it, reading a run back, and the comparison of two
  runs. JSON is a parameter, as are the recordings and the clock (what each call did is a field of
  \<open>replay_env\<close>); log lines are left out.
\<close>

section \<open>The records\<close>

record replay_question =
  rp_ID :: string
  rp_Text :: string
  rp_ReplyTo :: string

record replay_answer =
  ra_ID :: string
  ra_Label :: string
  ra_Model :: string
  ra_Temperature :: "f64 option"
  ra_Question :: string
  ra_Answer :: string
  ra_Refused :: bool
  ra_Reason :: string
  ra_Calls :: "64 word"
  ra_Error :: string
  ra_MS :: int
  ra_ReplyTo :: string
  ra_Recording :: string

definition replayUser :: string where "replayUser = ''replay''"

definition reasonNoCall :: string where "reasonNoCall = ''no-call''"
definition reasonModel :: string where "reasonModel = ''model''"
definition reasonFixed :: string where "reasonFixed = ''fixed''"

definition engineDecline :: string where
  \<open>engineDecline = ''That'' @ [char_of (39 :: nat)] @ ''s outside what I can answer from my curated sources.''\<close>

definition refusalReason :: "string \<Rightarrow> 64 word \<Rightarrow> string" where
  "refusalReason txt' calls = (if calls = 0 then reasonNoCall else if txt' = engineDecline then reasonFixed else reasonModel)"

section \<open>The question file\<close>

text \<open>
  \<^verbatim>\<open>bufio.Scanner\<close> over lines with a buffer of 1 MiB: the lines without their end (and a carriage return
  before it), and whether a line too long for the buffer ended the scan.
\<close>

definition scan_limit :: nat where "scan_limit = 1048576"

definition drop_cr :: "string \<Rightarrow> string" where
  "drop_cr l = (if l \<noteq> [] \<and> last l = CHR 0x0D then butlast l else l)"

fun scan_lines :: "string \<Rightarrow> string list \<times> bool" where
  "scan_lines s =
     (if s = [] then ([], False)
      else if scan_limit \<le> length (takeWhile (\<lambda>c. c \<noteq> CHR 0x0A) s) then ([], True)
      else (case scan_lines (drop (Suc (length (takeWhile (\<lambda>c. c \<noteq> CHR 0x0A) s))) s) of
        (ls, too_long) \<Rightarrow> (drop_cr (takeWhile (\<lambda>c. c \<noteq> CHR 0x0A) s) # ls, too_long)))"

declare scan_lines.simps [simp del]

record question_line =
  ql_ID :: string
  ql_Query :: string
  ql_QueryEN :: string
  ql_ReplyTo :: string

text \<open>\<open>rd_seen\<close> is the map of the ids added.\<close>

record reading =
  rd_out :: "replay_question list"
  rd_seen :: "string \<Rightarrow> bool"

definition add_question :: "string \<Rightarrow> string \<Rightarrow> string \<Rightarrow> string \<Rightarrow> reading \<Rightarrow> reading result" where
  "add_question path i q reply rd =
     (if rd_seen rd i then Inl (ErrMsg (''replay: '' @ path @ '': id''))
      else Inr \<lparr>rd_out = rd_out rd @ [\<lparr>rp_ID = i, rp_Text = q, rp_ReplyTo = reply\<rparr>], rd_seen = (rd_seen rd)(i := True)\<rparr>)"

definition en_reply :: "reading \<Rightarrow> string \<Rightarrow> string" where
  "en_reply rd reply = (if reply \<noteq> [] \<and> rd_seen rd (reply @ ''@en'') then reply @ ''@en'' else reply)"

text \<open>One line of the file; \<open>prs\<close> is \<^verbatim>\<open>json.Unmarshal\<close> into the line's four fields.\<close>

definition read_question :: "(string \<Rightarrow> question_line result) \<Rightarrow> string \<Rightarrow> nat \<Rightarrow> string \<Rightarrow> reading \<Rightarrow> reading result" where
  "read_question prs path n l rd =
     (if TrimSpace l = [] then Inr rd
      else (case prs (TrimSpace l) of
        Inl e \<Rightarrow> Inl (Wrap (''replay: '' @ path @ '' line '' @ itoa (int n)) e)
      | Inr q \<Rightarrow>
          if ql_ID q = [] \<or> TrimSpace (ql_Query q) = []
          then Inl (ErrMsg (''replay: '' @ path @ '' line '' @ itoa (int n) @ '': needs an id and a query''))
          else if ql_ReplyTo q \<noteq> [] \<and> \<not> rd_seen rd (ql_ReplyTo q)
          then Inl (ErrMsg (''replay: '' @ path @ '' line '' @ itoa (int n) @ '': reply_to''))
          else (case add_question path (ql_ID q) (ql_Query q) (ql_ReplyTo q) rd of
              Inl e \<Rightarrow> Inl e
            | Inr rd' \<Rightarrow>
                if TrimSpace (ql_QueryEN q) = [] then Inr rd'
                else add_question path (ql_ID q @ ''@en'') (ql_QueryEN q) (en_reply rd' (ql_ReplyTo q)) rd')))"

fun read_lines :: "(string \<Rightarrow> question_line result) \<Rightarrow> string \<Rightarrow> nat \<Rightarrow> string list \<Rightarrow> reading \<Rightarrow> reading result" where
  "read_lines prs path n [] rd = Inr rd"
| "read_lines prs path n (l # ls) rd =
     (case read_question prs path n l rd of Inl e \<Rightarrow> Inl e | Inr rd' \<Rightarrow> read_lines prs path (n + 1) ls rd')"

text \<open>\<open>f\<close> is what opening the file gave: the bytes read and the error that ended reading them, if one did.\<close>

definition readQuestions ::
    "(string \<Rightarrow> question_line result) \<Rightarrow> string \<Rightarrow> (string \<times> error option) result \<Rightarrow> replay_question list result" where
  "readQuestions prs path f =
     (case f of Inl e \<Rightarrow> Inl (Wrap ''replay'' e)
      | Inr (bytes, read_err) \<Rightarrow>
     (case scan_lines bytes of (ls, too_long) \<Rightarrow>
     (case read_lines prs path 1 ls \<lparr>rd_out = [], rd_seen = (\<lambda>_. False)\<rparr> of
        Inl e \<Rightarrow> Inl e
      | Inr rd \<Rightarrow>
          if too_long then Inl (Wrap (''replay: '' @ path) (ErrMsg ''bufio.Scanner: token too long''))
          else (case read_err of Some e \<Rightarrow> Inl (Wrap (''replay: '' @ path) e)
            | None \<Rightarrow> if rd_out rd = [] then Inl (ErrMsg (''replay: '' @ path @ '' holds no questions'')) else Inr (rd_out rd)))))"

section \<open>The loop\<close>

text \<open>\<open>rr_Calls\<close> reads the counter of model calls, when there is one; \<open>rr_Record\<close> is whether runs are recorded.\<close>

record 'e replay_run =
  rr_Label :: string
  rr_Model :: string
  rr_Temperature :: "f64 option"
  rr_Calls :: "('e \<Rightarrow> 64 word) option"
  rr_Record :: bool

text \<open>
  Around one question: the context's error before it, opening the file of its recording and a recorder on
  it, the error of the question's own deadline once its run is over, the milliseconds it took, the
  recording's path, the entries it lost and closing it, the context's error after it, and writing its line.
\<close>

record replay_env =
  qe_ctx :: "error option"
  qe_open :: "error option"
  qe_recorder :: "error option"
  qe_deadline :: "error option"
  qe_ms :: int
  qe_path :: string
  qe_fails :: nat
  qe_close :: "error option"
  qe_ended :: "error option"
  qe_write :: io

definition recorder_begin :: "replay_env \<Rightarrow> error option" where
  "recorder_begin env = (case qe_open env of Some e \<Rightarrow> Some e | None \<Rightarrow> qe_recorder env)"

text \<open>A recording that lost an entry is an error, so a line never names it as whole.\<close>

definition recorder_end :: "replay_env \<Rightarrow> string result" where
  "recorder_end env =
     (case qe_close env of Some e \<Rightarrow> Inl e
      | None \<Rightarrow> if qe_fails env > 0 then Inl (ErrMsg (''record: '' @ itoa (int (qe_fails env)) @ '' entries of '' @ qe_path env @ '' were not written''))
          else Inr (qe_path env))"

definition replay_query :: "replay_question \<Rightarrow> (string \<rightharpoonup> string) \<Rightarrow> query" where
  "replay_query q answers =
     \<lparr>q_User = \<lparr>u_ID = replayUser, u_Display = []\<rparr>, q_Surface = SurfaceGroup, q_Text = rp_Text q, q_History = [],
      q_ReplyContext = (if rp_ReplyTo q \<noteq> [] then (case answers (rp_ReplyTo q) of None \<Rightarrow> [] | Some a \<Rightarrow> a) else []),
      q_Chat = [], q_Remember = False, q_Withdrawals = 0\<rparr>"

definition calls_made :: "('e \<Rightarrow> 64 word) option \<Rightarrow> 'e \<Rightarrow> 'e \<Rightarrow> 64 word" where
  "calls_made counter w w' = (case counter of None \<Rightarrow> 0 | Some load \<Rightarrow> load w' - load w)"

text \<open>A question's line, but for what was answered.\<close>

definition replay_line :: "'e replay_run \<Rightarrow> replay_env \<Rightarrow> replay_question \<Rightarrow> string \<Rightarrow> 64 word \<Rightarrow> replay_answer" where
  "replay_line run env q recording calls =
     \<lparr>ra_ID = rp_ID q, ra_Label = rr_Label run, ra_Model = rr_Model run, ra_Temperature = rr_Temperature run,
      ra_Question = rp_Text q, ra_Answer = [], ra_Refused = False, ra_Reason = [], ra_Calls = calls, ra_Error = [],
      ra_MS = qe_ms env, ra_ReplyTo = rp_ReplyTo q, ra_Recording = recording\<rparr>"

definition answered :: "(error \<Rightarrow> string) \<Rightarrow> reply result \<Rightarrow> replay_answer \<Rightarrow> replay_answer" where
  "answered show_error r l =
     (case r of Inl e \<Rightarrow> l\<lparr>ra_Error := show_error e\<rparr>
      | Inr rep \<Rightarrow> l\<lparr>ra_Answer := r_Text rep, ra_Refused := r_Refused rep,
                      ra_Reason := (if r_Refused rep then refusalReason (r_Text rep) (ra_Calls l) else [])\<rparr>)"

text \<open>
  The loop, at question \<open>i\<close>: \<open>ans\<close> is the engine. The result is the error that stopped it and the lines
  written, in order.
\<close>

fun replay ::
    "(error \<Rightarrow> string) \<Rightarrow> (replay_env \<Rightarrow> query \<Rightarrow> 'e \<Rightarrow> reply result \<times> 'e) \<Rightarrow> 'e replay_run \<Rightarrow> (nat \<Rightarrow> replay_env) \<Rightarrow> nat
     \<Rightarrow> replay_question list \<Rightarrow> (string \<rightharpoonup> string) \<Rightarrow> 'e \<Rightarrow> error option \<times> replay_answer list \<times> 'e" where
  "replay show_error ans run env i [] answers w = (None, [], w)"
| "replay show_error ans run env i (q # qs) answers w =
     (case qe_ctx (env i) of Some e \<Rightarrow> (Some e, [], w)
      | None \<Rightarrow>
     (case (if rr_Record run then recorder_begin (env i) else None) of Some e \<Rightarrow> (Some (Wrap (''replay: record '' @ rp_ID q) e), [], w)
      | None \<Rightarrow>
     (case ans (env i) (replay_query q answers) w of (r, w') \<Rightarrow>
     (case (if rr_Record run then recorder_end (env i) else Inr []) of Inl e \<Rightarrow> (Some (Wrap (''replay: record '' @ rp_ID q) e), [], w')
      | Inr recording \<Rightarrow>
          if isl r \<and> qe_ended (env i) \<noteq> None then (qe_ended (env i), [], w')
          else
            let l = answered show_error r (replay_line run (env i) q recording (calls_made (rr_Calls run) w w'));
                answers' = (case r of Inl _ \<Rightarrow> answers | Inr rep \<Rightarrow> answers(rp_ID q \<mapsto> r_Text rep))
            in (case qe_write (env i) of Failed e \<Rightarrow> (Some (Wrap (''replay: write '' @ rp_ID q) e), [], w')
                | Done \<Rightarrow> (case replay show_error ans run env (i + 1) qs answers' w' of
                    (err, ls, w'') \<Rightarrow> (err, l # ls, w'')))))))"

section \<open>The run command\<close>

text \<open>
  A context that cannot end on its own: \<open>rv_close\<close> is what the closing write-out of the file gave; the
  deferred close after it does nothing. \<open>rv_out\<close> is creating the file, which fails when it exists.
\<close>

record ('v, 'l, 'x, 'st, 'm, 'q) replay_outside =
  rv_questions :: "(string \<times> error option) result"
  rv_parse :: "string \<Rightarrow> question_line result"
  rv_out :: "error option"
  rv_now :: time
  rv_secret :: "string \<Rightarrow> secret_read"
  rv_setup :: "('v, 'l) setup_env"
  rv_outside :: "('x, 'st, 'm, 'q) outside"
  rv_dial :: "server_config \<Rightarrow> dialled"
  rv_world :: 'x
  rv_env :: "nat \<Rightarrow> replay_env"
  rv_close :: "error option"

record replay_run_cmd =
  rc_ServeCmd :: serve_cmd
  rc_Questions :: string
  rc_Label :: string
  rc_RecordDir :: string

text \<open>The replay indexes the vault in memory, whatever store is configured.\<close>

definition in_memory :: "serve_cmd \<Rightarrow> serve_cmd" where
  "in_memory c = (if storeName (sv_RetrievalStore c) = storeBackendMemory then c
                  else c\<lparr>sv_RetrievalStore := storeBackendMemory, sv_StorePath := []\<rparr>)"

text \<open>Every secret the process holds is resolved before anything is recorded.\<close>

fun resolve_all :: "(string \<Rightarrow> secret_read) \<Rightarrow> string list \<Rightarrow> error option" where
  "resolve_all rslv [] = None"
| "resolve_all rslv (name # names) =
     (case rslv name of SecretFailed e \<Rightarrow> Some (Wrap (''replay: resolve '' @ name) e) | _ \<Rightarrow> resolve_all rslv names)"

text \<open>The engine as the replay uses it: no long-term memory, so what the memory stores hold is not touched.\<close>

definition engine_answers :: "('e, 'st, 'm) engine \<Rightarrow> 'm \<Rightarrow> replay_env \<Rightarrow> query \<Rightarrow> 'e \<Rightarrow> reply result \<times> 'e" where
  "engine_answers e mem env q w = (case Answer e None None 0 (qe_deadline env) q (w, mem) of (r, w', _) \<Rightarrow> (r, w'))"

text \<open>The replay's own meter starts empty in memory.\<close>

definition fresh_store :: budget_memory where
  "fresh_store = \<lparr>bm_st = \<lparr>bs_PeriodStart = 0, bs_Spent = 0\<rparr>, bm_found = False\<rparr>"

definition replay_world :: "meter \<Rightarrow> 'x \<Rightarrow> (budget_memory, 'x) model_world" where
  "replay_world meter x = \<lparr>mw_meter = meter, mw_store = fresh_store, mw_calls = 0, mw_world = x\<rparr>"

definition replay_answering ::
    "('v, 'l, 'x, 'st, 'm, 'q) replay_outside \<Rightarrow> replay_run_cmd \<Rightarrow> ('v, 'l, (budget_memory, 'x) model_world, 'st, 'm) answering result" where
  "replay_answering ro rc = buildAnswering (rv_setup ro) (rv_outside ro) (\<lambda>_. bmem_save ()) True (in_memory (rc_ServeCmd rc))"

definition replay_settings :: "replay_run_cmd \<Rightarrow> ('k \<times> ('s, 'x) model_world) replay_run" where
  "replay_settings rc = \<lparr>rr_Label = rc_Label rc, rr_Model = sv_ModelName (rc_ServeCmd rc), rr_Temperature = sv_Temperature (rc_ServeCmd rc),
     rr_Calls = Some (\<lambda>(_, w). mw_calls w), rr_Record = (rc_RecordDir rc \<noteq> [])\<rparr>"

definition replay_cmd ::
    "(error \<Rightarrow> string) \<Rightarrow> 'm \<Rightarrow> ('v, 'l, 'x, 'st, 'm, 'q) replay_outside \<Rightarrow> replay_run_cmd
     \<Rightarrow> error option \<times> (('v, 'l, (budget_memory, 'x) model_world, 'st, 'm) answering \<times> replay_answer list) trace" where
  "replay_cmd show_error mem ro rc =
     (let c = rc_ServeCmd rc in
      unless_error (if sv_ContextSize c \<le> 0 then Some (ErrMsg ''--context-size is required'') else None)
       (with_result (readQuestions (rv_parse ro) (rc_Questions rc) (rv_questions ro))
        (\<lambda>qs. with_open OutFile (map_option (Wrap ''replay'') (rv_out ro))
          (with_result (meter_New bmem_load () (rv_now ro) \<lparr>bc_Ceiling = sv_SpendCeiling c, bc_Period = sv_SpendPeriod c\<rparr> (Some fresh_store))
            (\<lambda>meter. unless_error (if rc_RecordDir rc \<noteq> [] then resolve_all (rv_secret ro) processSecrets else None)
              (with_result (replay_answering ro rc)
                (\<lambda>a. with_open Signals None
                  (case connect_servers (rv_dial ro) a of (failed, reg) \<Rightarrow>
                    with_open Servers failed
                    (case replay show_error (engine_answers (an_engine a reg) mem) (replay_settings rc)
                        (rv_env ro) 0 qs Map.empty (an_kbStore a, replay_world meter (rv_world ro)) of
                       (err, ls, _) \<Rightarrow>
                         (case err of Some e \<Rightarrow> Some e | None \<Rightarrow> rv_close ro, [Serving (a, ls)]))))))))))"

section \<open>A run read back\<close>

text \<open>
  \<^verbatim>\<open>json.Decoder\<close> over the file's bytes: the next value and the bytes after it, \<open>None\<close> at the end.
  Without a bound on what a decoder may do, the loop is a partial function; \<open>None\<close> is not returning.
\<close>

partial_function (option) read_answers ::
    "(string \<Rightarrow> (replay_answer \<times> string) option result) \<Rightarrow> string \<Rightarrow> string \<Rightarrow> replay_answer list \<Rightarrow> replay_answer list result option" where
  "read_answers dec path bytes acc =
     (case dec bytes of
        Inl e \<Rightarrow> Some (Inl (Wrap (''replay: '' @ path) e))
      | Inr None \<Rightarrow> Some (Inr acc)
      | Inr (Some (a, rest)) \<Rightarrow> read_answers dec path rest (acc @ [a]))"

definition readAnswers ::
    "(string \<Rightarrow> (replay_answer \<times> string) option result) \<Rightarrow> string \<Rightarrow> string result \<Rightarrow> replay_answer list result option" where
  "readAnswers dec path f =
     (case f of Inl e \<Rightarrow> Some (Inl (Wrap ''replay'' e)) | Inr bytes \<Rightarrow> read_answers dec path bytes [])"

section \<open>The comparison\<close>

record pair =
  pa_id :: string
  pa_old :: "replay_answer option"
  pa_new :: "replay_answer option"

definition by_id :: "replay_answer list \<Rightarrow> string \<rightharpoonup> replay_answer" where
  "by_id older = foldl (\<lambda>m a. m(ra_ID a \<mapsto> a)) Map.empty older"

definition compare_pairs :: "replay_answer list \<Rightarrow> replay_answer list \<Rightarrow> pair list" where
  "compare_pairs older newer =
     map (\<lambda>n. \<lparr>pa_id = ra_ID n, pa_old = by_id older (ra_ID n), pa_new = Some n\<rparr>) newer @
     map (\<lambda>a. \<lparr>pa_id = ra_ID a, pa_old = Some a, pa_new = None\<rparr>)
       (filter (\<lambda>a. \<not> list_ex (\<lambda>n. ra_ID n = ra_ID a) newer) older)"

definition outcome :: "replay_answer \<Rightarrow> string" where
  "outcome a = (if ra_Refused a then ''refused'' else ''answered'')"

definition side_flags :: "string \<Rightarrow> replay_answer option \<Rightarrow> string list" where
  "side_flags name side =
     (case side of None \<Rightarrow> []
      | Some a \<Rightarrow> if ra_Error a \<noteq> [] then [name @ '' error'']
          else if TrimSpace (ra_Answer a) = [] then [name @ '' empty''] else [])"

definition pair_flags :: "pair \<Rightarrow> string list" where
  "pair_flags p =
     (case (pa_old p, pa_new p) of
        (None, _) \<Rightarrow> [''only in new'']
      | (Some _, None) \<Rightarrow> [''only in old'']
      | (Some a, Some n) \<Rightarrow>
          if ra_Error a = [] \<and> ra_Error n = [] \<and> ra_Refused a \<noteq> ra_Refused n
          then [''refusal changed: '' @ outcome a @ '' -> '' @ outcome n] else []) @
     side_flags ''old'' (pa_old p) @ side_flags ''new'' (pa_new p)"

definition flag_key :: "string \<Rightarrow> string" where
  "flag_key f = takeWhile (\<lambda>c. c \<noteq> CHR '':'') f"

definition flag_count :: "pair list \<Rightarrow> string \<Rightarrow> nat" where
  "flag_count ps k = length (filter (\<lambda>f. flag_key f = k) (concat (map pair_flags ps)))"

definition flagged :: "pair list \<Rightarrow> pair list" where
  "flagged ps = filter (\<lambda>p. pair_flags p \<noteq> []) ps"

definition flag_names :: "string list" where
  "flag_names = [''refusal changed'', ''old error'', ''new error'', ''old empty'', ''new empty'', ''only in old'', ''only in new'']"

definition writeSide :: "(f64 \<Rightarrow> string) \<Rightarrow> string \<Rightarrow> replay_answer option \<Rightarrow> string" where
  "writeSide show_float name side =
     (case side of None \<Rightarrow> ''--- '' @ name @ '': not asked'' @ newline
      | Some a \<Rightarrow>
          ''--- '' @ name @ '' ('' @ join '', '' (filter (\<lambda>s. s \<noteq> []) [ra_Label a, ra_Model a] @
             (case ra_Temperature a of None \<Rightarrow> [] | Some t \<Rightarrow> [''temperature '' @ show_float t]) @
             [itoa (ra_MS a) @ '' ms'', itoa (sint (ra_Calls a)) @ '' calls'']) @ '')'' @
          (if ra_Error a \<noteq> [] then '' error: '' @ ra_Error a @ newline
           else if ra_Refused a then '' refused ('' @ ra_Reason a @ '')'' @ newline @ ra_Answer a @ newline
           else newline @ ra_Answer a @ newline))"

definition compare_summary :: "pair list \<Rightarrow> string" where
  "compare_summary ps =
     ''replay compare: '' @ itoa (int (length ps)) @ '' questions, '' @ itoa (int (length (flagged ps))) @ '' flagged'' @
     concat (map (\<lambda>k. if flag_count ps k > 0 then ''; '' @ k @ '' '' @ itoa (int (flag_count ps k)) else []) flag_names) @ newline @
     (if flagged ps \<noteq> [] then ''flagged: '' @ join '', '' (map pa_id (flagged ps)) @ newline else [])"

text \<open>The question shown is the newer run's, or the older's when only it has one.\<close>

definition compare_entry :: "(f64 \<Rightarrow> string) \<Rightarrow> pair \<Rightarrow> string" where
  "compare_entry show_float p =
     newline @ ''## '' @ pa_id p @ (if pair_flags p \<noteq> [] then ''  ['' @ join ''; '' (pair_flags p) @ '']'' else []) @ newline @
     (case (pa_new p, pa_old p) of (Some q, _) \<Rightarrow> ''question: '' @ ra_Question q @ newline
      | (None, Some q) \<Rightarrow> ''question: '' @ ra_Question q @ newline | (None, None) \<Rightarrow> []) @
     writeSide show_float ''old'' (pa_old p) @ writeSide show_float ''new'' (pa_new p)"

definition compare :: "(f64 \<Rightarrow> string) \<Rightarrow> replay_answer list \<Rightarrow> replay_answer list \<Rightarrow> string" where
  "compare show_float older newer =
     compare_summary (compare_pairs older newer) @ concat (map (compare_entry show_float) (compare_pairs older newer))"

text \<open>The command: what it printed, and its error; \<open>out\<close> is what printing did.\<close>

definition compare_cmd ::
    "(f64 \<Rightarrow> string) \<Rightarrow> (string \<Rightarrow> (replay_answer \<times> string) option result) \<Rightarrow> string \<Rightarrow> string \<Rightarrow> (string \<Rightarrow> string result) \<Rightarrow> io
     \<Rightarrow> (error option \<times> string) option" where
  "compare_cmd show_float dec old new files out =
     (case readAnswers dec old (files old) of None \<Rightarrow> None
      | Some (Inl e) \<Rightarrow> Some (Some e, [])
      | Some (Inr older) \<Rightarrow>
     (case readAnswers dec new (files new) of None \<Rightarrow> None
      | Some (Inl e) \<Rightarrow> Some (Some e, [])
      | Some (Inr newer) \<Rightarrow> Some (case out of Done \<Rightarrow> None | Failed e \<Rightarrow> Some e, compare show_float older newer)))"

section \<open>The configuration file\<close>

text \<open>
  \<open>replay run\<close> and \<open>memory erase\<close> take serve's section unless the file has one of theirs. \<open>sect\<close> makes a
  section that holds one key.
\<close>

definition share_serve :: "(string \<Rightarrow> 'y \<Rightarrow> 'y) \<Rightarrow> (string \<rightharpoonup> 'y) \<Rightarrow> string \<rightharpoonup> 'y" where
  "share_serve sect config =
     (case config ''serve'' of None \<Rightarrow> config
      | Some serve \<Rightarrow>
          foldl (\<lambda>m (cmd, sub). if m cmd = None then m(cmd \<mapsto> sect sub serve) else m) config
            [(''replay'', ''run''), (''memory'', ''erase'')])"

text \<open>\<open>decode\<close> and \<open>encode\<close> are the YAML library's, \<open>loader\<close> the command line library's.\<close>

definition configLoader ::
    "(string \<Rightarrow> (string \<rightharpoonup> 'y) result) \<Rightarrow> ((string \<rightharpoonup> 'y) \<Rightarrow> string result) \<Rightarrow> (string \<Rightarrow> 'y \<Rightarrow> 'y) \<Rightarrow> (string \<Rightarrow> 'r result)
     \<Rightarrow> string result \<Rightarrow> 'r result" where
  "configLoader decode encode sect loader f =
     (case f of Inl e \<Rightarrow> Inl e
      | Inr b \<Rightarrow>
     (case decode b of Inl e \<Rightarrow> Inl (Wrap ''YAML config decode error'' e)
      | Inr config \<Rightarrow>
     (case encode (share_serve sect config) of Inl e \<Rightarrow> Inl e
      | Inr out \<Rightarrow> loader out)))"

end
