(* ===== verification/Replay_Props.thy ===== *)
theory Replay_Props
  imports Replay
begin

text \<open>
  What a replay reads, asks, writes and compares: the question file's invariants, the order of the run and
  what each question quotes, the reasons of refusals against the engine's own branches, reading a run back,
  and the flags of a comparison.
\<close>

section \<open>The question file\<close>

text \<open>Ids are distinct and not empty, texts are not blank, and a reply names an earlier question.\<close>

definition well_formed_questions :: "replay_question list \<Rightarrow> bool" where
  "well_formed_questions qs \<longleftrightarrow> distinct (map rp_ID qs) \<and>
     (\<forall>q \<in> set qs. rp_ID q \<noteq> [] \<and> TrimSpace (rp_Text q) \<noteq> []) \<and>
     (\<forall>i < length qs. rp_ReplyTo (qs ! i) = [] \<or> (\<exists>j < i. rp_ID (qs ! j) = rp_ReplyTo (qs ! i)))"

text \<open>The questions one line of the file asks.\<close>

definition line_asks :: "(string \<Rightarrow> question_line result) \<Rightarrow> string \<Rightarrow> (string \<times> string) list" where
  "line_asks prs l =
     (if TrimSpace l = [] then []
      else (case prs (TrimSpace l) of Inl _ \<Rightarrow> []
        | Inr q \<Rightarrow> (ql_ID q, ql_Query q) #
            (if TrimSpace (ql_QueryEN q) = [] then [] else [(ql_ID q @ ''@en'', ql_QueryEN q)])))"

definition reading_ok :: "reading \<Rightarrow> bool" where
  "reading_ok rd \<longleftrightarrow> well_formed_questions (rd_out rd) \<and> (\<forall>i. rd_seen rd i \<longleftrightarrow> i \<in> rp_ID ` set (rd_out rd))"

lemma add_question_ok:
  assumes "add_question path i q reply rd = Inr rd'" "reading_ok rd" "i \<noteq> []" "TrimSpace q \<noteq> []"
    and "reply = [] \<or> rd_seen rd reply"
  shows "reading_ok rd'" "map (\<lambda>q. (rp_ID q, rp_Text q)) (rd_out rd') = map (\<lambda>q. (rp_ID q, rp_Text q)) (rd_out rd) @ [(i, q)]"
proof -
  let ?q = "\<lparr>rp_ID = i, rp_Text = q, rp_ReplyTo = reply\<rparr>"
  have rd': "rd' = \<lparr>rd_out = rd_out rd @ [?q], rd_seen = (rd_seen rd)(i := True)\<rparr>" and new: "\<not> rd_seen rd i"
    using assms(1) by (auto simp: add_question_def split: if_splits)
  show "map (\<lambda>q. (rp_ID q, rp_Text q)) (rd_out rd') = map (\<lambda>q. (rp_ID q, rp_Text q)) (rd_out rd) @ [(i, q)]"
    by (simp add: rd')
  have ok: "well_formed_questions (rd_out rd)" and seen: "rd_seen rd k \<longleftrightarrow> k \<in> rp_ID ` set (rd_out rd)" for k
    using assms(2) by (auto simp: reading_ok_def)
  have "\<exists>j < length (rd_out rd). rp_ID (rd_out rd ! j) = reply" if "reply \<noteq> []"
    using assms(5) that seen by (auto simp: in_set_conv_nth)
  then have "well_formed_questions (rd_out rd @ [?q])"
    using ok new assms(3,4) seen unfolding well_formed_questions_def
    by (auto simp: nth_append less_Suc_eq image_iff) (metis less_trans)+
  then show "reading_ok rd'" using seen by (auto simp: reading_ok_def rd')
qed

lemma read_question_ok:
  assumes "read_question prs path n l rd = Inr rd'" "reading_ok rd"
  shows "reading_ok rd' \<and> map (\<lambda>q. (rp_ID q, rp_Text q)) (rd_out rd') = map (\<lambda>q. (rp_ID q, rp_Text q)) (rd_out rd) @ line_asks prs l"
proof (cases "TrimSpace l = []")
  case True
  then show ?thesis using assms by (simp add: read_question_def line_asks_def)
next
  case False
  then obtain q where q: "prs (TrimSpace l) = Inr q" "ql_ID q \<noteq> []" "TrimSpace (ql_Query q) \<noteq> []"
      "ql_ReplyTo q = [] \<or> rd_seen rd (ql_ReplyTo q)"
    using assms(1) by (auto simp: read_question_def split: sum.splits if_splits)
  obtain rd1 where rd1: "add_question path (ql_ID q) (ql_Query q) (ql_ReplyTo q) rd = Inr rd1"
      "(if TrimSpace (ql_QueryEN q) = [] then Inr rd1
        else add_question path (ql_ID q @ ''@en'') (ql_QueryEN q) (en_reply rd1 (ql_ReplyTo q)) rd1) = Inr rd'"
    using assms(1) False q by (auto simp: read_question_def split: sum.splits if_splits)
  note first = add_question_ok [OF rd1(1) assms(2) q(2,3,4)]
  have "en_reply rd1 (ql_ReplyTo q) = [] \<or> rd_seen rd1 (en_reply rd1 (ql_ReplyTo q))"
    using q(4) rd1(1) by (auto simp: en_reply_def add_question_def split: if_splits)
  then show ?thesis
    using first rd1(2) add_question_ok [of path "ql_ID q @ ''@en''" "ql_QueryEN q" "en_reply rd1 (ql_ReplyTo q)" rd1 rd'] False q(1)
    by (auto simp: line_asks_def split: if_splits)
qed

lemma read_lines_ok:
  assumes "read_lines prs path n ls rd = Inr rd'" "reading_ok rd"
  shows "reading_ok rd' \<and> map (\<lambda>q. (rp_ID q, rp_Text q)) (rd_out rd') = map (\<lambda>q. (rp_ID q, rp_Text q)) (rd_out rd) @ concat (map (line_asks prs) ls)"
  using assms
proof (induction ls arbitrary: n rd)
  case (Cons l ls)
  then obtain rd1 where "read_question prs path n l rd = Inr rd1" "read_lines prs path (n + 1) ls rd1 = Inr rd'"
    by (auto split: sum.splits)
  with Cons.IH Cons.prems(2) read_question_ok [of prs path n l rd rd1] show ?case by fastforce
qed simp

lemma readQuestions_ok:
  assumes "readQuestions prs path f = Inr qs"
  shows "\<exists>bytes ls. f = Inr (bytes, None) \<and> scan_lines bytes = (ls, False) \<and> qs \<noteq> [] \<and> well_formed_questions qs \<and>
    map (\<lambda>q. (rp_ID q, rp_Text q)) qs = concat (map (line_asks prs) ls)"
proof -
  obtain bytes read_err where f: "f = Inr (bytes, read_err)" using assms by (auto simp: readQuestions_def split: sum.splits)
  obtain ls too_long where ls: "scan_lines bytes = (ls, too_long)" by (cases "scan_lines bytes")
  let ?start = "\<lparr>rd_out = [], rd_seen = (\<lambda>_. False)\<rparr>"
  obtain rd where rd: "read_lines prs path 1 ls ?start = Inr rd" "\<not> too_long" "read_err = None" "rd_out rd \<noteq> []" "qs = rd_out rd"
    using assms f ls by (auto simp: readQuestions_def split: sum.splits if_splits option.splits)
  have "reading_ok ?start" by (simp add: reading_ok_def well_formed_questions_def)
  from read_lines_ok [OF rd(1) this] rd f ls show ?thesis by (auto simp: reading_ok_def)
qed

text \<open>C37: A question file that is read is read whole and makes a run that can be joined. Then every line of the file
  was scanned and gave its question, and its English one, in the file's order, nothing left out and nothing
  added; ids are distinct, so two runs join by id; no id is empty and no text blank; and a question asked as
  a reply names a question that is asked before it.\<close>

theorem questions_read_whole:
  assumes "readQuestions prs path (Inr (bytes, None)) = Inr qs"
  shows "qs \<noteq> [] \<and> well_formed_questions qs \<and> \<not> snd (scan_lines bytes) \<and>
    map (\<lambda>q. (rp_ID q, rp_Text q)) qs = concat (map (line_asks prs) (fst (scan_lines bytes)))"
  using readQuestions_ok [OF assms] by auto

section \<open>The run\<close>

text \<open>What the lines written so far answer to an id.\<close>

definition quotable :: "replay_answer list \<Rightarrow> string \<rightharpoonup> string" where
  "quotable ls = map_of (map (\<lambda>l. (ra_ID l, ra_Answer l)) ls)"

definition text_of :: "(string \<rightharpoonup> string) \<Rightarrow> string \<Rightarrow> string" where
  "text_of m i = (case m i of None \<Rightarrow> [] | Some a \<Rightarrow> a)"

lemma replay_query_cong: "text_of m (rp_ReplyTo q) = text_of m' (rp_ReplyTo q) \<Longrightarrow> replay_query q m = replay_query q m'"
  by (simp add: replay_query_def text_of_def)

lemma answered_ID [simp]: "ra_ID (answered show_error r l) = ra_ID l"
  by (simp add: answered_def split: sum.splits)

lemma answered_text: "ra_Answer (answered show_error r (replay_line run env q recording calls)) = (case r of Inl _ \<Rightarrow> [] | Inr rep \<Rightarrow> r_Text rep)"
  by (simp add: answered_def replay_line_def split: sum.splits)

lemma replay_line_ID [simp]: "ra_ID (replay_line run env q recording calls) = rp_ID q"
  by (simp add: replay_line_def)

lemma replay_Cons:
  assumes "replay show_error ans run env i (q # qs) answers w = (err, ls, w')"
  shows "(err \<noteq> None \<and> ls = []) \<or>
    (\<exists>r u recording ls'. ans (env i) (replay_query q answers) w = (r, u) \<and>
       ls = answered show_error r (replay_line run (env i) q recording (calls_made (rr_Calls run) w u)) # ls' \<and>
       replay show_error ans run env (i + 1) qs (case r of Inl _ \<Rightarrow> answers | Inr rep \<Rightarrow> answers(rp_ID q \<mapsto> r_Text rep)) u = (err, ls', w'))"
proof -
  obtain r u where a: "ans (env i) (replay_query q answers) w = (r, u)" by fastforce
  show ?thesis
  proof (cases "qe_ctx (env i)")
    case None
    then show ?thesis using assms a
      by (simp add: Let_def del: not_None_eq split: option.splits sum.splits if_splits io.splits prod.splits)
        (auto simp del: not_None_eq)
  next
    case (Some e)
    then have "(err, ls, w') = (Some e, [], w)" using assms by simp
    then show ?thesis by simp
  qed
qed

lemma replay_lines:
  assumes "replay show_error ans run env k qs answers w = (err, ls, w')" "distinct (map ra_ID pre @ map rp_ID qs)"
    and "\<And>i. text_of answers i = text_of (quotable pre) i"
  shows "map ra_ID ls = map rp_ID (take (length ls) qs) \<and> (err = None \<longleftrightarrow> length ls = length qs) \<and>
    (\<forall>i < length ls. \<exists>u u' r recording. ans (env (k + i)) (replay_query (qs ! i) (quotable (pre @ take i ls))) u = (r, u') \<and>
       ls ! i = answered show_error r (replay_line run (env (k + i)) (qs ! i) recording (calls_made (rr_Calls run) u u')))"
  using assms
proof (induction qs arbitrary: k answers w ls pre)
  case (Cons q qs)
  show ?case
  proof (cases "err \<noteq> None \<and> ls = []")
    case False
    then obtain r u recording ls' where s: "ans (env k) (replay_query q answers) w = (r, u)"
        "ls = answered show_error r (replay_line run (env k) q recording (calls_made (rr_Calls run) w u)) # ls'"
        "replay show_error ans run env (k + 1) qs (case r of Inl _ \<Rightarrow> answers | Inr rep \<Rightarrow> answers(rp_ID q \<mapsto> r_Text rep)) u = (err, ls', w')"
      using replay_Cons [OF Cons.prems(1)] by blast
    let ?l = "answered show_error r (replay_line run (env k) q recording (calls_made (rr_Calls run) w u))"
    have new: "quotable pre (rp_ID q) = None"
      using Cons.prems(2) by (auto simp: quotable_def map_of_eq_None_iff)
    have "text_of (case r of Inl _ \<Rightarrow> answers | Inr rep \<Rightarrow> answers(rp_ID q \<mapsto> r_Text rep)) i = text_of (quotable (pre @ [?l])) i" for i
      using Cons.prems(3) [of i] Cons.prems(3) [of "rp_ID q"] new answered_text [of show_error r run "env k" q recording "calls_made (rr_Calls run) w u"]
      by (auto simp: quotable_def text_of_def map_add_def split: sum.splits option.splits)
    moreover have "distinct (map ra_ID (pre @ [?l]) @ map rp_ID qs)" using Cons.prems(2) by auto
    ultimately have ih: "map ra_ID ls' = map rp_ID (take (length ls') qs) \<and> (err = None \<longleftrightarrow> length ls' = length qs) \<and>
      (\<forall>i < length ls'. \<exists>u u' r recording. ans (env (k + 1 + i)) (replay_query (qs ! i) (quotable ((pre @ [?l]) @ take i ls'))) u = (r, u') \<and>
         ls' ! i = answered show_error r (replay_line run (env (k + 1 + i)) (qs ! i) recording (calls_made (rr_Calls run) u u')))"
      by (intro Cons.IH [OF s(3)]) 
    have "replay_query q answers = replay_query q (quotable pre)" by (rule replay_query_cong) (rule Cons.prems(3))
    then show ?thesis using ih s(1,2) by (auto simp: All_less_Suc2)
  qed simp
qed simp

text \<open>C36: A run asks the file's questions in order and keeps what it finished. The lines written are those of the
  first questions of the file, one each, in its order, and the run ends without an error exactly when every
  question has its line: a question that fails or times out has a line too. Each line is what the engine
  gave for that question, asked with no history and no asker; one asked as a reply quotes exactly the
  answer on the line of the question it names, so nothing at all when that question failed.\<close>

theorem replay_in_order:
  assumes "readQuestions prs path f = Inr qs" and "replay show_error ans run env 0 qs Map.empty w = (err, ls, w')"
  shows "map ra_ID ls = map rp_ID (take (length ls) qs) \<and> (err = None \<longleftrightarrow> length ls = length qs) \<and>
    (\<forall>i < length ls. \<exists>u u' r recording. ans (env i) (replay_query (qs ! i) (quotable (take i ls))) u = (r, u') \<and>
       ls ! i = answered show_error r (replay_line run (env i) (qs ! i) recording (calls_made (rr_Calls run) u u'))) \<and>
    (\<forall>i < length ls. rp_ReplyTo (qs ! i) \<noteq> [] \<longrightarrow> (\<exists>j < i. ra_ID (ls ! j) = rp_ReplyTo (qs ! i) \<and>
       q_ReplyContext (replay_query (qs ! i) (quotable (take i ls))) = ra_Answer (ls ! j)))"
proof (intro conjI)
  have wf: "well_formed_questions qs" using readQuestions_ok [OF assms(1)] by auto
  then have d: "distinct (map ra_ID [] @ map rp_ID qs)" by (simp add: well_formed_questions_def)
  have t: "text_of Map.empty i = text_of (quotable []) i" for i by (simp add: quotable_def)
  note run = replay_lines [OF assms(2) d t, simplified]
  show ids: "map ra_ID ls = map rp_ID (take (length ls) qs)" and "err = None \<longleftrightarrow> length ls = length qs"
    and "\<forall>i < length ls. \<exists>u u' r recording. ans (env i) (replay_query (qs ! i) (quotable (take i ls))) u = (r, u') \<and>
       ls ! i = answered show_error r (replay_line run (env i) (qs ! i) recording (calls_made (rr_Calls run) u u'))"
    using run by auto
  show "\<forall>i < length ls. rp_ReplyTo (qs ! i) \<noteq> [] \<longrightarrow> (\<exists>j < i. ra_ID (ls ! j) = rp_ReplyTo (qs ! i) \<and>
       q_ReplyContext (replay_query (qs ! i) (quotable (take i ls))) = ra_Answer (ls ! j))"
  proof (intro allI impI)
    fix i assume i: "i < length ls" "rp_ReplyTo (qs ! i) \<noteq> []"
    have len: "length ls \<le> length qs" using arg_cong [OF ids, of length] by simp
    have nth: "ra_ID (ls ! j) = rp_ID (qs ! j)" if "j < length ls" for j
      using arg_cong [OF ids, of "\<lambda>l. l ! j"] that len by simp
    obtain j where j: "j < i" "rp_ID (qs ! j) = rp_ReplyTo (qs ! i)"
      using wf i len unfolding well_formed_questions_def by (meson less_le_trans)
    have "distinct (map ra_ID ls)" using d by (simp add: ids take_map [symmetric])
    then have "distinct (map ra_ID (take i ls))" by (simp add: take_map [symmetric])
    moreover have "ls ! j \<in> set (take i ls)" using i j by (metis in_set_conv_nth length_take min.absorb3 nth_take min_less_iff_conj)
    ultimately have "quotable (take i ls) (ra_ID (ls ! j)) = Some (ra_Answer (ls ! j))"
      unfolding quotable_def by (intro map_of_is_SomeI) (auto simp: comp_def)
    then show "\<exists>j < i. ra_ID (ls ! j) = rp_ReplyTo (qs ! i) \<and>
       q_ReplyContext (replay_query (qs ! i) (quotable (take i ls))) = ra_Answer (ls ! j)"
      using i j nth [of j] by (intro exI [of _ j]) (auto simp: replay_query_def)
  qed
qed

section \<open>Why a question was refused\<close>

lemma engineDecline_is [simp]: "engineDecline = outOfScopeReply"
  by (simp add: engineDecline_def outOfScopeReply_def)

lemma reasons_differ [simp]: "reasonNoCall \<noteq> reasonModel" "reasonNoCall \<noteq> reasonFixed" "reasonModel \<noteq> reasonFixed"
    "reasonModel \<noteq> reasonNoCall" "reasonFixed \<noteq> reasonNoCall" "reasonFixed \<noteq> reasonModel"
  by (simp_all add: reasonNoCall_def reasonModel_def reasonFixed_def)

text \<open>The engine's way to a refusal, as a replay asks it: without a run, or at the end of one.\<close>

lemma replay_refusals:
  fixes e :: "('e, 'st, 'm) engine"
  assumes "engine_answers e mem env (replay_query q answers) w = (Inr rep, w')" "r_Refused rep"
  shows "\<exists>found w1. e_retriever e (fst (retrievalQuery (replay_query q answers))) w = (Inr found, w1) \<and>
    (if capContext (e_render e) found (e_contextTokens e) = [] \<and> (e_tools e = None \<or> e_tools e = Some 0) \<and> q_ReplyContext (replay_query q answers) = []
     then w' = w1
     else (\<exists>req out. e_run e req w1 = (out, w') \<and>
       ((\<exists>a. out = RunAnswer a \<and> parseRefusal a = (r_Text rep, True)) \<or>
        (\<exists>x. out = RunEnded ReasonStepLimit x \<and> r_Text rep = outOfScopeReply))))"
proof -
  let ?q = "replay_query q answers"
  have h: "q_History ?q = []" by (simp add: replay_query_def)
  note [simp] = engine_answers_def Answer_def Let_def h refusal_reply_def empty_reply_def
  obtain found w1 where f: "e_retriever e (fst (retrievalQuery ?q)) w = (Inr found, w1)"
    using assms by (auto split: prod.splits sum.splits)
  show ?thesis
  proof (cases "capContext (e_render e) found (e_contextTokens e) = [] \<and> (e_tools e = None \<or> e_tools e = Some 0) \<and> q_ReplyContext ?q = []")
    case True
    then show ?thesis using assms f by auto
  next
    case False
    let ?req = "build_request e ?q (capContext (e_render e) found (e_contextTokens e)) (map_option tr_subject (mem_use (None :: 'st long_memory option) 0 ?q))"
    obtain out u where o: "e_run e ?req w1 = (out, u)" by fastforce
    have g: "\<not> (capContext (e_render e) found (e_contextTokens e) = [] \<and> (case e_tools e of None \<Rightarrow> 0 | Some n \<Rightarrow> n) = 0 \<and> q_ReplyContext ?q = [])"
      using False by (auto split: option.splits)
    have "u = w' \<and> ((\<exists>a. out = RunAnswer a \<and> parseRefusal a = (r_Text rep, True)) \<or> (\<exists>x. out = RunEnded ReasonStepLimit x \<and> r_Text rep = outOfScopeReply))"
      using assms f o g by (auto split: prod.splits run_outcome.splits if_splits option.splits)
    then show ?thesis using f o False by auto
  qed
qed

lemma refusal_reason_counted:
  assumes "\<And>s u. load (snd (e_retriever e s u)) = (load u :: 64 word)"
    and "\<And>req u out u'. e_run e req u = (out, u') \<Longrightarrow> (\<exists>a. out = RunAnswer a) \<or> (\<exists>x. out = RunEnded ReasonStepLimit x) \<Longrightarrow> load u' \<noteq> load u"
    and "engine_answers e mem env (replay_query q answers) w = (Inr rep, w')" "r_Refused rep"
  shows "(refusalReason (r_Text rep) (load w' - load w) = reasonNoCall \<longleftrightarrow>
      (\<exists>found. fst (e_retriever e (fst (retrievalQuery (replay_query q answers))) w) = Inr found \<and>
         capContext (e_render e) found (e_contextTokens e) = [] \<and> (e_tools e = None \<or> e_tools e = Some 0) \<and>
         q_ReplyContext (replay_query q answers) = [])) \<and>
    (refusalReason (r_Text rep) (load w' - load w) = reasonModel \<longrightarrow>
      (\<exists>req u a. e_run e req u = (RunAnswer a, w') \<and> parseRefusal a = (r_Text rep, True))) \<and>
    (refusalReason (r_Text rep) (load w' - load w) = reasonFixed \<longrightarrow>
      r_Text rep = outOfScopeReply \<and> (\<exists>req u out. e_run e req u = (out, w') \<and>
        ((\<exists>a. out = RunAnswer a \<and> parseRefusal a = (outOfScopeReply, True)) \<or> (\<exists>x. out = RunEnded ReasonStepLimit x))))"
proof -
  obtain found w1 where f: "e_retriever e (fst (retrievalQuery (replay_query q answers))) w = (Inr found, w1)"
    and c: "if capContext (e_render e) found (e_contextTokens e) = [] \<and> (e_tools e = None \<or> e_tools e = Some 0) \<and> q_ReplyContext (replay_query q answers) = []
     then w' = w1
     else (\<exists>req out. e_run e req w1 = (out, w') \<and>
       ((\<exists>a. out = RunAnswer a \<and> parseRefusal a = (r_Text rep, True)) \<or>
        (\<exists>x. out = RunEnded ReasonStepLimit x \<and> r_Text rep = outOfScopeReply)))"
    using replay_refusals [OF assms(3,4)] by blast
  have w1: "load w1 = load w" using assms(1) [of "fst (retrievalQuery (replay_query q answers))" w] f by simp
  show ?thesis
  proof (cases "capContext (e_render e) found (e_contextTokens e) = [] \<and> (e_tools e = None \<or> e_tools e = Some 0) \<and> q_ReplyContext (replay_query q answers) = []")
    case True
    then show ?thesis using c f w1 by (simp add: refusalReason_def)
  next
    case False
    then obtain req out where o: "e_run e req w1 = (out, w')"
        "(\<exists>a. out = RunAnswer a \<and> parseRefusal a = (r_Text rep, True)) \<or> (\<exists>x. out = RunEnded ReasonStepLimit x \<and> r_Text rep = outOfScopeReply)"
      using c by (simp only: if_False) blast
    then have ne: "load w' - load w \<noteq> 0" using assms(2) [OF o(1)] w1 by auto
    show ?thesis
    proof (intro conjI impI)
      assume "refusalReason (r_Text rep) (load w' - load w) = reasonFixed"
      then have t: "r_Text rep = outOfScopeReply" using ne by (simp add: refusalReason_def split: if_splits)
      then show "r_Text rep = outOfScopeReply" .
      show "\<exists>req u out. e_run e req u = (out, w') \<and>
        ((\<exists>a. out = RunAnswer a \<and> parseRefusal a = (outOfScopeReply, True)) \<or> (\<exists>x. out = RunEnded ReasonStepLimit x))"
        using o unfolding t by blast
    next
      assume "refusalReason (r_Text rep) (load w' - load w) = reasonModel"
      then have "r_Text rep \<noteq> outOfScopeReply" using ne by (simp add: refusalReason_def split: if_splits)
      then show "\<exists>req u a. e_run e req u = (RunAnswer a, w') \<and> parseRefusal a = (r_Text rep, True)"
        using o by blast
    next
      show "refusalReason (r_Text rep) (load w' - load w) = reasonNoCall \<longleftrightarrow>
        (\<exists>found. fst (e_retriever e (fst (retrievalQuery (replay_query q answers))) w) = Inr found \<and>
           capContext (e_render e) found (e_contextTokens e) = [] \<and> (e_tools e = None \<or> e_tools e = Some 0) \<and>
           q_ReplyContext (replay_query q answers) = [])"
        using ne f False by (auto simp: refusalReason_def)
    qed
  qed
qed

definition quiet_env :: replay_env where
  "quiet_env = \<lparr>qe_ctx = None, qe_open = None, qe_recorder = None, qe_deadline = None, qe_ms = 2,
     qe_path = [], qe_fails = 0, qe_close = None, qe_ended = None, qe_write = Done\<rparr>"

text \<open>C38: The reason on a refused line is the true one, on the engine a replay builds. When the agent library asks
  the model fewer than 2^64 times in a run and answers, or reaches its step limit, only after the model answered
  it, then the line says no-call exactly when the engine had nothing to answer from: nothing retrieved, no tools,
  nothing quoted. It says model only when the model declined in those words, and fixed only when the text is the
  engine's decline at the end of a run.\<close>

theorem refusal_reason_true:
  fixes ro :: "('v, 'l, 'x, 'st, 'm, 'q) replay_outside"
  assumes "replay_answering ro rc = Inr a"
    and "\<And>req. asks_at_most (ou_agent (rv_outside ro) req) (2 ^ 64 - 1) \<and> hears_first (ou_agent (rv_outside ro) req) False"
    and "engine_answers (an_engine a reg) mem env (replay_query q answers) (kb, w) = (Inr rep, (kb', w'))" "r_Refused rep"
  shows "let e = an_engine a reg; reason = refusalReason (r_Text rep) (calls_made (rr_Calls (replay_settings rc)) (kb, w) (kb', w')) in
    (reason = reasonNoCall \<longleftrightarrow>
      (\<exists>found. fst (e_retriever e (fst (retrievalQuery (replay_query q answers))) (kb, w)) = Inr found \<and>
         capContext (e_render e) found (e_contextTokens e) = [] \<and> (e_tools e = None \<or> e_tools e = Some 0) \<and>
         q_ReplyContext (replay_query q answers) = [])) \<and>
    (reason = reasonModel \<longrightarrow>
      (\<exists>req u a. e_run e req u = (RunAnswer a, (kb', w')) \<and> parseRefusal a = (r_Text rep, True))) \<and>
    (reason = reasonFixed \<longrightarrow>
      r_Text rep = outOfScopeReply \<and> (\<exists>req u out. e_run e req u = (out, (kb', w')) \<and>
        ((\<exists>a. out = RunAnswer a \<and> parseRefusal a = (outOfScopeReply, True)) \<or> (\<exists>x. out = RunEnded ReasonStepLimit x))))"
proof -
  let ?e = "an_engine a reg" and ?load = "\<lambda>(kb :: ('v, 'l) kb, w :: (budget_memory, 'x) model_world). mw_calls w"
  obtain chat where e: "\<And>reg. e_run (an_engine a reg) = wired_run (rv_setup ro) (rv_outside ro) (\<lambda>_. bmem_save ()) True chat (in_memory (rc_ServeCmd rc)) reg"
      "\<And>reg s u. snd (e_retriever (an_engine a reg) s u) = u"
    using assms(1) unfolding replay_answering_def by (rule built_engine) (rule that)
  have r: "?load (snd (e_retriever ?e s u)) = ?load u" for s u by (simp add: e(2))
  have run: "?load u' \<noteq> ?load u"
    if run: "e_run ?e req u = (out, u')" and "(\<exists>a. out = RunAnswer a) \<or> (\<exists>x. out = RunEnded ReasonStepLimit x)" for req u out u'
  proof -
    obtain k v k' v' where u: "u = (k, v)" "u' = (k', v')" by fastforce
    have "agent_exec (ou_agent (rv_outside ro) req) (ask_model (wired_model (rv_outside ro) (\<lambda>_. bmem_save ()) True chat))
        (wired_tools (rv_setup ro) (rv_outside ro) (in_memory (rc_ServeCmd rc)) reg k) v = (out, v')"
      using run by (simp add: e(1) u wired_run_def split: prod.splits)
    moreover have "concludes out" using that(2) by auto
    ultimately have "mw_calls v' \<noteq> mw_calls v"
      using assms(2) [of req] by (intro exec_counted_some) (auto simp: wired_model_def wired_tools_def call_tool_keeps)
    then show ?thesis by (simp add: u)
  qed
  show ?thesis using refusal_reason_counted [where load = ?load and e = ?e, OF r run assms(3,4)]
    by (simp add: Let_def calls_made_def replay_settings_def)
qed

section \<open>A run read back\<close>

lemma read_answers_ends:
  assumes "\<And>b a rest. dec b = Inr (Some (a, rest)) \<Longrightarrow> length rest < length b"
  shows "\<exists>r. read_answers dec path bytes acc = Some r"
proof (induction bytes arbitrary: acc rule: measure_induct_rule [of length])
  case (less bytes)
  show ?case using less assms [of bytes]
    by (subst read_answers.simps) (auto split: sum.splits option.splits)
qed

lemma read_answers_back:
  assumes "\<And>a rest. a \<in> set ls \<Longrightarrow> dec (enc a @ rest) = Inr (Some (a, rest))" and "dec [] = Inr None"
  shows "read_answers dec path (concat (map enc ls)) acc = Some (Inr (acc @ ls))"
  using assms(1)
proof (induction ls arbitrary: acc)
  case Nil
  then show ?case using assms(2) by (subst read_answers.simps) simp
next
  case (Cons a ls)
  then show ?case by (subst read_answers.simps) simp
qed


text \<open>Two answers, and a coding of them by their ids.\<close>

definition demo_answer :: "string \<Rightarrow> bool \<Rightarrow> replay_answer" where
  "demo_answer i declined = \<lparr>ra_ID = i, ra_Label = [], ra_Model = ''m'', ra_Temperature = None, ra_Question = ''q'', ra_Answer = ''yes'',
     ra_Refused = declined, ra_Reason = [], ra_Calls = 1, ra_Error = [], ra_MS = 2, ra_ReplyTo = [], ra_Recording = []\<rparr>"

definition demo_decode :: "string \<Rightarrow> (replay_answer \<times> string) option result" where
  "demo_decode b = (case b of [] \<Rightarrow> Inr None | c # rest \<Rightarrow> Inr (Some (demo_answer [c] False, rest)))"


section \<open>The comparison\<close>

lemma by_id_eq: "by_id older = map_of (rev (map (\<lambda>a. (ra_ID a, a)) older))"
proof -
  have "foldl (\<lambda>m a. m(ra_ID a \<mapsto> a)) m0 older = m0 ++ map_of (rev (map (\<lambda>a. (ra_ID a, a)) older))" for m0
    by (induction older arbitrary: m0) (auto simp: map_add_def fun_eq_iff split: option.splits)
  then show ?thesis by (simp add: by_id_def)
qed

text \<open>What each flag says of a question's two sides.\<close>

definition side_failed :: "replay_answer option \<Rightarrow> bool" where
  "side_failed side = (case side of None \<Rightarrow> False | Some a \<Rightarrow> ra_Error a \<noteq> [])"

definition side_empty :: "replay_answer option \<Rightarrow> bool" where
  "side_empty side = (case side of None \<Rightarrow> False | Some a \<Rightarrow> ra_Error a = [] \<and> TrimSpace (ra_Answer a) = [])"

definition refusal_changed :: "pair \<Rightarrow> bool" where
  "refusal_changed p = (case (pa_old p, pa_new p) of
     (Some a, Some n) \<Rightarrow> ra_Error a = [] \<and> ra_Error n = [] \<and> ra_Refused a \<noteq> ra_Refused n | _ \<Rightarrow> False)"

definition flag_meanings :: "(string \<times> (pair \<Rightarrow> bool)) list" where
  "flag_meanings = zip flag_names
     [refusal_changed, \<lambda>p. side_failed (pa_old p), \<lambda>p. side_failed (pa_new p), \<lambda>p. side_empty (pa_old p), \<lambda>p. side_empty (pa_new p),
      \<lambda>p. pa_old p \<noteq> None \<and> pa_new p = None, \<lambda>p. pa_old p = None]"

lemma flag_key_refusal: "flag_key (''refusal changed: '' @ s) = ''refusal changed''"
  by (simp add: flag_key_def)

lemma pair_flag_keys:
  "map flag_key (pair_flags p) =
     (if pa_old p = None then [''only in new''] else if pa_new p = None then [''only in old'']
      else if refusal_changed p then [''refusal changed''] else []) @
     (if side_failed (pa_old p) then [''old error''] else if side_empty (pa_old p) then [''old empty''] else []) @
     (if side_failed (pa_new p) then [''new error''] else if side_empty (pa_new p) then [''new empty''] else [])"
proof -
  have "flag_key ''only in new'' = ''only in new''" "flag_key ''only in old'' = ''only in old''" "flag_key ''old error'' = ''old error''"
    "flag_key ''new error'' = ''new error''" "flag_key ''old empty'' = ''old empty''" "flag_key ''new empty'' = ''new empty''"
    by (simp_all add: flag_key_def)
  then show ?thesis
    using flag_key_refusal
    by (cases "pa_old p"; cases "pa_new p")
      (simp_all add: pair_flags_def side_flags_def side_failed_def side_empty_def refusal_changed_def)
qed

lemma flag_count_eq:
  assumes "\<And>p. length (filter (\<lambda>k'. k' = k) (map flag_key (pair_flags p))) = (if P p then 1 else 0)"
  shows "flag_count ps k = length (filter P ps)"
proof (induction ps)
  case (Cons p ps)
  have "length (filter (\<lambda>f. flag_key f = k) (pair_flags p)) = (if P p then 1 else 0)"
    using assms [of p] by (simp add: filter_map comp_def)
  then show ?case using Cons by (simp add: flag_count_def)
qed (simp add: flag_count_def)

lemma failed_not_empty: "side_failed s \<Longrightarrow> \<not> side_empty s"
  by (auto simp: side_failed_def side_empty_def split: option.splits)

lemma compare_ids:
  "map pa_id (compare_pairs older newer) = map ra_ID newer @ filter (\<lambda>i. i \<notin> set (map ra_ID newer)) (map ra_ID older)"
  by (simp add: compare_pairs_def comp_def filter_map list_ex_iff image_iff) metis

text \<open>A comparison shows every question once and flags what differs. The questions are the newer run's, in its
  order, then those only the older run has, in its. A question carries no flag exactly when both runs have it,
  neither failed or was empty, and both refused or both answered. Each count of the summary is the number of
  questions its flag is true of, for each of the seven flags.\<close>

theorem compare_flags_differences:
  "map pa_id (compare_pairs older newer) =
     map ra_ID newer @ filter (\<lambda>i. i \<notin> set (map ra_ID newer)) (map ra_ID older) \<and>
   (\<forall>p. pair_flags p = [] \<longleftrightarrow> pa_old p \<noteq> None \<and> pa_new p \<noteq> None \<and> \<not> refusal_changed p \<and>
      \<not> side_failed (pa_old p) \<and> \<not> side_failed (pa_new p) \<and> \<not> side_empty (pa_old p) \<and> \<not> side_empty (pa_new p)) \<and>
   (\<forall>ps. \<forall>(k, P) \<in> set flag_meanings. flag_count ps k = length (filter P ps))"
proof (intro conjI allI)
  show "map pa_id (compare_pairs older newer) =
     map ra_ID newer @ filter (\<lambda>i. i \<notin> set (map ra_ID newer)) (map ra_ID older)" by (rule compare_ids)
  show "pair_flags p = [] \<longleftrightarrow> pa_old p \<noteq> None \<and> pa_new p \<noteq> None \<and> \<not> refusal_changed p \<and>
      \<not> side_failed (pa_old p) \<and> \<not> side_failed (pa_new p) \<and> \<not> side_empty (pa_old p) \<and> \<not> side_empty (pa_new p)" for p
    using arg_cong [OF pair_flag_keys [of p], of "\<lambda>l. l = []"] failed_not_empty by (auto split: if_splits)
  show "\<forall>(k, P) \<in> set flag_meanings. flag_count ps k = length (filter P ps)" for ps
    unfolding flag_meanings_def flag_names_def
    by simp (intro conjI flag_count_eq; simp add: pair_flag_keys failed_not_empty refusal_changed_def split: option.splits)
qed

lemma replay_asks:
  assumes "replay show_error ans run env k qs answers w = (None, ls, u)"
  shows "map (\<lambda>l. (ra_ID l, ra_Question l)) ls = map (\<lambda>q. (rp_ID q, rp_Text q)) qs"
  using assms
proof (induction qs arbitrary: k answers w ls)
  case (Cons q qs)
  have "ra_Question (answered show_error r (replay_line run env q recording calls)) = rp_Text q" for r env recording calls
    by (simp add: answered_def replay_line_def split: sum.splits)
  then show ?case using Cons.IH replay_Cons [OF Cons.prems] by fastforce
qed simp

text \<open>Two whole runs of one question file compare question by question: every question of the file has both
  sides, with the same text on both, so no flag says a run lacks one.\<close>

theorem runs_of_one_file_join:
  assumes "readQuestions prs path f = Inr qs"
    and "replay show_error ans run env 0 qs Map.empty w = (None, ls, u)"
    and "replay show_error ans' run' env' 0 qs Map.empty w' = (None, ls', u')"
  shows "map pa_id (compare_pairs ls ls') = map rp_ID qs \<and>
    (\<forall>p \<in> set (compare_pairs ls ls'). \<exists>a n. pa_old p = Some a \<and> pa_new p = Some n \<and> ra_ID a = ra_ID n \<and> ra_Question a = ra_Question n) \<and>
    flag_count (compare_pairs ls ls') ''only in old'' = 0 \<and> flag_count (compare_pairs ls ls') ''only in new'' = 0"
proof -
  have wf: "distinct (map rp_ID qs)" using readQuestions_ok [OF assms(1)] by (auto simp: well_formed_questions_def)
  note l = replay_asks [OF assms(2)] and l' = replay_asks [OF assms(3)]
  have ids: "map ra_ID ls = map rp_ID qs" "map ra_ID ls' = map rp_ID qs"
    using l l' by (auto dest: arg_cong [of _ _ "map fst"] simp: comp_def)
  have look: "by_id ls (ra_ID a) = Some a" if "a \<in> set ls" for a
    using that wf ids(1) by (auto simp: by_id_eq comp_def rev_map [symmetric] intro!: map_of_is_SomeI)
  have pairs: "\<exists>a n. pa_old p = Some a \<and> pa_new p = Some n \<and> ra_ID a = ra_ID n \<and> ra_Question a = ra_Question n"
    if p: "p \<in> set (compare_pairs ls ls')" for p
  proof -
    have "filter (\<lambda>a. \<not> list_ex (\<lambda>n. ra_ID n = ra_ID a) ls') ls = []"
      using arg_cong [OF ids(1), of set] arg_cong [OF ids(2), of set] by (auto simp: filter_empty_conv list_ex_iff) (metis imageE image_eqI)
    then obtain i where i: "i < length ls'" "p = \<lparr>pa_id = ra_ID (ls' ! i), pa_old = by_id ls (ra_ID (ls' ! i)), pa_new = Some (ls' ! i)\<rparr>"
      using p by (auto simp: compare_pairs_def in_set_conv_nth)
    have n: "length ls = length ls'" using ids by (metis length_map)
    have "(ra_ID (ls ! i), ra_Question (ls ! i)) = (ra_ID (ls' ! i), ra_Question (ls' ! i))"
      using arg_cong [OF trans [OF l l' [symmetric]], of "\<lambda>l. l ! i"] i(1) n by simp
    then show ?thesis using i look [of "ls ! i"] n by auto
  qed
  have "filter (\<lambda>i. i \<notin> set (map ra_ID ls')) (map ra_ID ls) = []" by (simp only: ids) (simp add: filter_empty_conv)
  then have "map pa_id (compare_pairs ls ls') = map rp_ID qs" using compare_ids [of ls ls'] ids by simp
  moreover have "flag_count (compare_pairs ls ls') ''only in old'' = length (filter (\<lambda>p. pa_old p \<noteq> None \<and> pa_new p = None) (compare_pairs ls ls'))"
      "flag_count (compare_pairs ls ls') ''only in new'' = length (filter (\<lambda>p. pa_old p = None) (compare_pairs ls ls'))"
    by (intro flag_count_eq; simp add: pair_flag_keys failed_not_empty refusal_changed_def split: option.splits)+
  ultimately show ?thesis using pairs by (fastforce simp: filter_empty_conv)
qed

section \<open>The command\<close>

lemma Answer_no_memory: "snd (snd (Answer e None None now d q (w, mem))) = mem"
  by (auto simp: Answer_def Let_def split: prod.splits sum.splits run_outcome.splits option.splits)

lemma replay_cmd_serving:
  assumes "Serving (a, ls) \<in> set (snd (replay_cmd show_error mem ro rc))"
  shows "\<exists>qs meter reg err u. readQuestions (rv_parse ro) (rc_Questions rc) (rv_questions ro) = Inr qs \<and>
    rv_out ro = None \<and> 0 < sint (sv_SpendCeiling (rc_ServeCmd rc)) \<and>
    replay_answering ro rc = Inr a \<and> connect_servers (rv_dial ro) a = (None, reg) \<and>
    replay show_error (engine_answers (an_engine a reg) mem) (replay_settings rc)
        (rv_env ro) 0 qs Map.empty (an_kbStore a, replay_world meter (rv_world ro)) = (err, ls, u) \<and>
    snd (replay_cmd show_error mem ro rc) = around [OutFile, Signals, Servers] [Serving (a, ls)]"
  using assms
  by (auto simp: replay_cmd_def Let_def with_result_def meter_New_def around_def split: sum.splits option.splits if_splits prod.splits)

lemma replay_cmd_opens: "e \<in> set (snd (replay_cmd show_error mem ro rc)) \<Longrightarrow>
    e \<in> Opened ` {OutFile, Signals, Servers} \<union> Closed ` {OutFile, Signals, Servers} \<union> range Serving"
  by (auto simp: replay_cmd_def Let_def with_result_def with_open_def unless_error_def split: sum.splits option.splits if_splits prod.splits)

lemma closes_replay: "closes [] (snd (replay_cmd show_error mem ro rc))"
  unfolding replay_cmd_def Let_def
  by (intro closes_unless_error closes_with_result closes_with_open) (auto intro!: closes_with_open split: prod.splits)


section \<open>A run\<close>

text \<open>A file of two questions, the second asked in English too and as a reply to the first.\<close>

definition demo_line :: "string \<Rightarrow> question_line result" where
  "demo_line l = (if l = ''a'' then Inr \<lparr>ql_ID = ''a'', ql_Query = ''who'', ql_QueryEN = [], ql_ReplyTo = []\<rparr>
     else if l = ''b'' then Inr \<lparr>ql_ID = ''b'', ql_Query = ''why'', ql_QueryEN = ''y'', ql_ReplyTo = ''a''\<rparr> else Inl ErrNoStore)"

definition demo_file :: string where "demo_file = [CHR ''a'', CHR 0x0D, CHR 0x0A, CHR 0x0A, CHR ''b'']"

definition demo_questions :: "replay_question list" where
  "demo_questions = [\<lparr>rp_ID = ''a'', rp_Text = ''who'', rp_ReplyTo = []\<rparr>, \<lparr>rp_ID = ''b'', rp_Text = ''why'', rp_ReplyTo = ''a''\<rparr>,
     \<lparr>rp_ID = ''b@en'', rp_Text = ''y'', rp_ReplyTo = ''a''\<rparr>]"

lemma demo_scan: "scan_lines demo_file = ([''a'', [], ''b''], False)"
  by (simp add: demo_file_def scan_lines.simps scan_limit_def drop_cr_def)

lemma demo_file_read: "readQuestions demo_line ''f'' (Inr (demo_file, None)) = Inr demo_questions"
proof -
  have "TrimSpace ''a'' = ''a''" "TrimSpace ''b'' = ''b''" "TrimSpace ''who'' = ''who''" "TrimSpace ''why'' = ''why''" "TrimSpace ''y'' = ''y''" "TrimSpace [] = []"
    by (simp_all add: TrimSpace_ascii is_space_def)
  then show ?thesis
    by (simp add: readQuestions_def demo_scan read_question_def demo_line_def add_question_def en_reply_def demo_questions_def)
qed

theorem questions_read_whole_witness:
  "well_formed_questions demo_questions \<and>
   map (\<lambda>q. (rp_ID q, rp_Text q)) demo_questions = concat (map (line_asks demo_line) [''a'', [], ''b''])"
  using questions_read_whole [OF demo_file_read] by (simp add: demo_scan)

definition demo_run :: "'e replay_run" where
  "demo_run = \<lparr>rr_Label = [], rr_Model = ''m'', rr_Temperature = None, rr_Calls = None, rr_Record = False\<rparr>"

text \<open>An engine that fails the first question of a run and answers a reply with what it quotes.\<close>

definition echo :: "replay_env \<Rightarrow> query \<Rightarrow> nat \<Rightarrow> reply result \<times> nat" where
  "echo env q n = (if n = 0 then Inl ErrNoStore else Inr (empty_reply\<lparr>r_Text := ''re '' @ q_ReplyContext q\<rparr>), n + 1)"

lemma echo_run: "\<exists>ls. replay (\<lambda>_. ''failed'') echo demo_run (\<lambda>_. quiet_env) 0 demo_questions Map.empty n = (None, ls, n + 3) \<and>
    map ra_Answer ls = (if n = 0 then [[], ''re '', ''re ''] else [''re '', ''re re '', ''re re ''])"
  by (simp add: demo_questions_def quiet_env_def demo_run_def echo_def replay_query_def replay_line_def answered_def empty_reply_def Let_def)

theorem replay_in_order_witness:
  "\<exists>ls. replay (\<lambda>_. ''failed'') echo demo_run (\<lambda>_. quiet_env) 0 demo_questions Map.empty 1 = (None, ls, 4) \<and>
     map ra_ID ls = [''a'', ''b'', ''b@en''] \<and>
     q_ReplyContext (replay_query (demo_questions ! 1) (quotable (take 1 ls))) = ''re ''"
proof -
  obtain ls where ls: "replay (\<lambda>_. ''failed'') echo demo_run (\<lambda>_. quiet_env) 0 demo_questions Map.empty 1 = (None, ls, 1 + 3)"
      "map ra_Answer ls = [''re '', ''re re '', ''re re '']" using echo_run [of 1] by auto
  note o = replay_in_order [OF demo_file_read ls(1)]
  have "length ls = length demo_questions" using conjunct1 [OF conjunct2 [OF o]] by blast
  then have n: "length ls = 3" by (simp add: demo_questions_def)
  have a: "ra_Answer (ls ! 0) = ''re ''" using arg_cong [OF ls(2), of "\<lambda>l. l ! 0"] n by simp
  have "rp_ReplyTo (demo_questions ! 1) \<noteq> []" by (simp add: demo_questions_def)
  then have "\<exists>j < 1. ra_ID (ls ! j) = rp_ReplyTo (demo_questions ! 1) \<and>
      q_ReplyContext (replay_query (demo_questions ! 1) (quotable (take 1 ls))) = ra_Answer (ls ! j)"
    using conjunct2 [OF conjunct2 [OF conjunct2 [OF o]], THEN spec, of 1] n by simp
  then have "q_ReplyContext (replay_query (demo_questions ! 1) (quotable (take 1 ls))) = ''re ''" using a by simp
  moreover have "map ra_ID ls = [''a'', ''b'', ''b@en'']" using conjunct1 [OF o] n by (simp add: demo_questions_def)
  ultimately show ?thesis using ls(1) by auto
qed

theorem runs_of_one_file_join_witness:
  "\<exists>ls ls'. replay (\<lambda>_. ''failed'') echo demo_run (\<lambda>_. quiet_env) 0 demo_questions Map.empty 0 = (None, ls, 3) \<and>
     replay (\<lambda>_. ''failed'') echo demo_run (\<lambda>_. quiet_env) 0 demo_questions Map.empty 1 = (None, ls', 4) \<and>
     map pa_id (compare_pairs ls ls') = [''a'', ''b'', ''b@en'']"
proof -
  obtain ls where ls: "replay (\<lambda>_. ''failed'') echo demo_run (\<lambda>_. quiet_env) 0 demo_questions Map.empty 0 = (None, ls, 0 + 3)"
    using echo_run [of 0] by blast
  obtain ls' where ls': "replay (\<lambda>_. ''failed'') echo demo_run (\<lambda>_. quiet_env) 0 demo_questions Map.empty 1 = (None, ls', 1 + 3)"
    using echo_run [of 1] by blast
  show ?thesis using runs_of_one_file_join [OF demo_file_read ls ls'] ls ls' by (auto simp: demo_questions_def)
qed

theorem compare_flags_differences_witness:
  "map pa_id (compare_pairs [demo_answer ''a'' False, demo_answer ''b'' False] [demo_answer ''b'' True, demo_answer ''c'' True]) = [''b'', ''c'', ''a''] \<and>
   flag_count (compare_pairs [demo_answer ''a'' False, demo_answer ''b'' False] [demo_answer ''b'' True, demo_answer ''c'' True]) ''refusal changed'' = 1"
proof -
  let ?ls = "[demo_answer ''a'' False, demo_answer ''b'' False]" and ?ls' = "[demo_answer ''b'' True, demo_answer ''c'' True]"
  have "(''refusal changed'', refusal_changed) \<in> set flag_meanings" by (simp add: flag_meanings_def flag_names_def)
  then have "flag_count (compare_pairs ?ls ?ls') ''refusal changed'' = length (filter refusal_changed (compare_pairs ?ls ?ls'))"
    using compare_flags_differences [of ?ls ?ls'] by fast
  then show ?thesis using compare_flags_differences [of ?ls ?ls']
    by (simp add: compare_pairs_def demo_answer_def by_id_def refusal_changed_def)
qed

text \<open>A command of two questions over a small vault; the model's answer ends the run at once.\<close>

definition demo_replay :: "(unit, unit, unit, string, (string \<times> string) list, unit) replay_outside" where
  "demo_replay = \<lparr>rv_questions = Inr (demo_file, None), rv_parse = demo_line, rv_out = None, rv_now = 5, rv_secret = (\<lambda>_. SecretMissing),
     rv_setup = demo_setup, rv_outside = demo_answering_outside, rv_dial = (\<lambda>_. Inl ErrNoStore), rv_world = (),
     rv_env = (\<lambda>_. quiet_env), rv_close = None\<rparr>"


text \<open>The loop of the model asks once and answers with what it said.\<close>

lemma demo_loop_relied: "asks_at_most (demo_loop req) (2 ^ 64 - 1) \<and> hears_first (demo_loop req) False"
  by (auto simp: demo_loop_def split: sum.splits)

text \<open>Over an empty vault, with no tools and nothing quoted, the engine declines without a call.\<close>

definition silent_replay :: "(unit, unit, unit, string, (string \<times> string) list, unit) replay_outside" where
  "silent_replay = demo_replay\<lparr>rv_setup := demo_setup\<lparr>se_vault := Inr []\<rparr>\<rparr>"

definition silent_cmd :: serve_cmd where
  "silent_cmd = demo_cmd\<lparr>sv_StoreOrderable := []\<rparr>"

definition silent_rc :: replay_run_cmd where
  "silent_rc = \<lparr>rc_ServeCmd = silent_cmd, rc_Questions = ''f'', rc_Label = [], rc_RecordDir = []\<rparr>"

definition silent_question :: query where
  "silent_question = replay_query \<lparr>rp_ID = ''a'', rp_Text = ''q'', rp_ReplyTo = []\<rparr> Map.empty"

lemma silent_retriever: "\<exists>rv. buildRetriever (demo_setup\<lparr>se_vault := Inr []\<rparr>) silent_cmd = Inr rv"
  "buildRetriever (demo_setup\<lparr>se_vault := Inr []\<rparr>) silent_cmd = Inr rv \<Longrightarrow> pl_mode (rv_planner rv) = ModeKeyword"
  by (auto simp: buildRetriever_def check_retrieval_def read_docs_def demo_setup_def silent_cmd_def demo_cmd_def demo_env_def
      embeddingsSet_def build_embedder_def retrieval_mode_def TrimSpace_ascii storeName_def VaultDocs_def buildStore_def kb_Index_def
      store_Index_def embedChunks_def build_planner_def NewPlanner_def Let_def split: prod.splits)

lemma silent_answers:
  obtains a where "replay_answering silent_replay silent_rc = Inr a"
    "engine_answers (an_engine a new_registry) [] quiet_env silent_question (KbMemory None empty_index, w) = (Inr refusal_reply, (KbMemory None empty_index, w))"
    "e_tools (an_engine a new_registry) = Some 0"
proof -
  obtain rv where rv: "buildRetriever (demo_setup\<lparr>se_vault := Inr []\<rparr>) silent_cmd = Inr rv"
    using silent_retriever by blast
  have c: "in_memory silent_cmd = silent_cmd" by (simp add: in_memory_def silent_cmd_def demo_cmd_def storeName_def TrimSpace_ascii)
  have b: "replay_answering silent_replay silent_rc =
      buildAnswering (demo_setup\<lparr>se_vault := Inr []\<rparr>) demo_answering_outside (\<lambda>_. bmem_save ()) True silent_cmd"
    by (simp add: replay_answering_def silent_replay_def demo_replay_def silent_rc_def c)
  have "parseMCPServers (sv_MCPServers silent_cmd) = Inr []" "applyToolLists [] (sv_MCPAllow silent_cmd) (sv_MCPDeny silent_cmd) = Inr []"
    and "temperature_ok (sv_Temperature silent_cmd)" "loadPersona (ou_read demo_answering_outside) (sv_PersonaFile silent_cmd) = Inr []"
    and "loadPromptTemplate (ou_read demo_answering_outside) (ou_template demo_answering_outside) (sv_PromptTemplate silent_cmd) = Inr None"
    and "\<exists>p. Load (ou_packs demo_answering_outside) (ou_external demo_answering_outside) (sv_Language silent_cmd) = Inr p"
    and "ou_chat demo_answering_outside = Inr demo_chat"
    by (simp_all add: silent_cmd_def demo_cmd_def applyToolLists_def temperature_ok_def loadPersona_def loadPromptTemplate_def
        demo_answering_outside_def Load_def baseCode_def)
  then have "\<exists>a. replay_answering silent_replay silent_rc = Inr a"
    using rv by (auto simp: b buildAnswering_def)
  then obtain a where a: "replay_answering silent_replay silent_rc = Inr a" ..
  show thesis
  proof (rule built_parts [OF a [unfolded b]])
    fix chat rv'
    assume p: "buildRetriever (demo_setup\<lparr>se_vault := Inr []\<rparr>) silent_cmd = Inr rv'"
      "\<And>reg. e_retriever (an_engine a reg) = (\<lambda>q (kb, x). (kb_Retrieve (demo_setup\<lparr>se_vault := Inr []\<rparr>) (rv_planner rv') (rv_embedder rv') kb q, kb, x))"
      "\<And>reg. e_tools (an_engine a reg) = Some (length (advertised (ou_tools demo_answering_outside) (sv_StoreDimensions silent_cmd) (sv_StoreOrderable silent_cmd) reg))"
    have t: "e_tools (an_engine a new_registry) = Some 0"
      by (simp add: p(3) silent_cmd_def demo_cmd_def advertised_def at_Definitions_def agent_toolset_def WithEnumerate_def reg_tools_def
          reg_Defs_def new_registry_def)
    have "e_retriever (an_engine a new_registry) (fst (retrievalQuery silent_question)) (KbMemory None empty_index, w) =
        (Inr [], KbMemory None empty_index, w)"
      using silent_retriever(2) [OF p(1)]
      by (simp add: p(2) kb_Retrieve_def kb_keyword_def Retrieve_def Keyword_def empty_index_def cap_def Let_def)
    then have "engine_answers (an_engine a new_registry) [] quiet_env silent_question (KbMemory None empty_index, w) =
        (Inr refusal_reply, (KbMemory None empty_index, w))"
      by (simp add: engine_answers_def Answer_def Let_def t capContext_def silent_question_def replay_query_def)
    then show thesis using that [OF a] t by blast
  qed
qed

definition silent_world :: "(unit, unit) kb \<times> (budget_memory, unit) model_world" where
  "silent_world = (KbMemory None empty_index, replay_world \<lparr>m_ceiling = 100, m_period = hour, m_start = 5, m_spent = 0\<rparr> ())"

theorem refusal_reason_true_witness:
  "\<exists>a found. replay_answering silent_replay silent_rc = Inr a \<and>
     engine_answers (an_engine a new_registry) [] quiet_env silent_question silent_world = (Inr refusal_reply, silent_world) \<and>
     fst (e_retriever (an_engine a new_registry) (fst (retrievalQuery silent_question)) silent_world) = Inr found \<and>
     capContext (e_render (an_engine a new_registry)) found (e_contextTokens (an_engine a new_registry)) = []"
proof -
  obtain a where a: "replay_answering silent_replay silent_rc = Inr a"
    "engine_answers (an_engine a new_registry) [] quiet_env silent_question silent_world = (Inr refusal_reply, silent_world)"
    by (rule silent_answers [where w = "snd silent_world"]) (rule that; simp add: silent_world_def)
  have l: "asks_at_most (ou_agent (rv_outside silent_replay) req) (2 ^ 64 - 1) \<and> hears_first (ou_agent (rv_outside silent_replay) req) False" for req
    using demo_loop_relied [of req] by (simp add: silent_replay_def demo_replay_def demo_answering_outside_def)
  have r: "r_Refused refusal_reply" by (simp add: refusal_reply_def empty_reply_def)
  have "refusalReason (r_Text refusal_reply) (calls_made (rr_Calls (replay_settings silent_rc)) silent_world silent_world) = reasonNoCall"
    by (simp add: calls_made_def replay_settings_def refusalReason_def)
  with refusal_reason_true [OF a(1) l a(2) [unfolded silent_question_def silent_world_def] r] show ?thesis
    using a by (auto simp: Let_def silent_question_def [symmetric] silent_world_def [symmetric])
qed

end
