(* ===== verification/Embed.thy ===== *)
theory Embed
  imports GoText "HOL-Library.Multiset"
begin

text \<open>
  The embeddings client, \<^verbatim>\<open>internal/embed/embed.go\<close>: one request, and the vectors of its response put back
  in the order of the texts. The HTTP client, the JSON encoder and decoder are parameters. A measured call's duration
  is left out; the tokens it is measured with are kept.
\<close>

section \<open>The client\<close>

record embed_config =
  ec_BaseURL :: string
  ec_APIKey :: string
  ec_Model :: string

record http_request =
  hr_url :: string
  hr_headers :: "(string \<times> string) list"
  hr_body :: string

text \<open>What sending a request gave: a response is its status and its body.\<close>

datatype http_result = HttpFailed error | HttpResponse int string

text \<open>
  \<open>en_marshal\<close> encodes the model and the texts, \<open>en_request\<close> is the error of making a request for a URL,
  \<open>en_decode\<close> reads a response: the tokens it reports, if any, and its data, each item an index and a vector.
\<close>

record 'v embed_net =
  en_marshal :: "string \<Rightarrow> string list \<Rightarrow> string result"
  en_request :: "string \<Rightarrow> error option"
  en_do :: "http_request \<Rightarrow> http_result"
  en_decode :: "string \<Rightarrow> (int option \<times> (int \<times> 'v) list) result"

text \<open>A response of another status: the status, and a bounded, trimmed excerpt of its body.\<close>

definition StatusError_Error :: "int \<Rightarrow> string \<Rightarrow> error" where
  "StatusError_Error status snippet =
     (if snippet = [] then ErrMsg (''embed: endpoint returned status '' @ itoa status)
      else ErrMsg (''embed: endpoint returned status '' @ itoa status @ '': '' @ snippet))"

definition TrimRight :: "char \<Rightarrow> string \<Rightarrow> string" where
  "TrimRight c s = rev (dropWhile (\<lambda>x. x = c) (rev s))"

definition embed_url :: "embed_config \<Rightarrow> string" where
  "embed_url c = TrimRight (CHR ''/'') (ec_BaseURL c) @ ''/embeddings''"

definition embed_request :: "embed_config \<Rightarrow> string \<Rightarrow> http_request" where
  "embed_request c body = \<lparr>hr_url = embed_url c,
     hr_headers = (''Content-Type'', ''application/json'') #
       (if ec_APIKey c \<noteq> [] then [(''Authorization'', ''Bearer '' @ ec_APIKey c)] else []),
     hr_body = body\<rparr>"

text \<open>
  The loop over the sorted data: position \<open>i\<close> must hold index \<open>i\<close>. Two items with one index have no
  order the code specifies; the loop refuses them in either.
\<close>

fun contiguous :: "int \<Rightarrow> (int \<times> 'v) list \<Rightarrow> 'v list result" where
  "contiguous i [] = Inr []"
| "contiguous i ((k, v) # ds) =
     (if k \<noteq> i then Inl (ErrMsg (''embed: non-contiguous response index '' @ itoa k @ '' at position '' @ itoa i))
      else (case contiguous (i + 1) ds of Inl e \<Rightarrow> Inl e | Inr vs \<Rightarrow> Inr (v # vs)))"

definition align :: "string list \<Rightarrow> (int \<times> 'v) list \<Rightarrow> 'v list result" where
  "align texts ds =
     (if length ds \<noteq> length texts
      then Inl (ErrMsg (''embed: got '' @ itoa (int (length ds)) @ '' vectors for '' @ itoa (int (length texts)) @ '' inputs''))
      else contiguous 0 (sort_key fst ds))"

text \<open>The call \<open>Embed\<close> measures: the vectors or an error, and the tokens reported, or \<open>-1\<close>.\<close>

definition embed_call :: "'v embed_net \<Rightarrow> embed_config \<Rightarrow> string list \<Rightarrow> 'v list result \<times> int" where
  "embed_call net c texts =
     (case en_marshal net (ec_Model c) texts of Inl e \<Rightarrow> (Inl e, - 1)
      | Inr body \<Rightarrow>
     (case en_request net (embed_url c) of Some e \<Rightarrow> (Inl e, - 1)
      | None \<Rightarrow>
     (case en_do net (embed_request c body) of
        HttpFailed e \<Rightarrow> (Inl e, - 1)
      | HttpResponse status resp \<Rightarrow>
          if status < 200 \<or> 300 \<le> status then (Inl (StatusError_Error status (TrimSpace (take 512 resp))), - 1)
          else (case en_decode net resp of Inl e \<Rightarrow> (Inl e, - 1)
                | Inr (usage, ds) \<Rightarrow> (align texts ds, case usage of None \<Rightarrow> - 1 | Some t \<Rightarrow> t)))))"

text \<open>\<open>Embed\<close> returns the call's result and what it measured: the model, the tokens and whether it failed.\<close>

definition Embed :: "'v embed_net \<Rightarrow> embed_config \<Rightarrow> string list \<Rightarrow> 'v list result \<times> (string \<times> int \<times> bool) option" where
  "Embed net c texts =
     (if texts = [] then (Inr [], None)
      else (case embed_call net c texts of (r, tokens) \<Rightarrow> (r, Some (ec_Model c, tokens, isl r))))"

section \<open>The vectors line up\<close>

text \<open>The data that answers vectors \<open>vs\<close> in input order, numbered from \<open>k\<close>.\<close>

fun numbered :: "int \<Rightarrow> 'v list \<Rightarrow> (int \<times> 'v) list" where
  "numbered k [] = []"
| "numbered k (v # vs) = (k, v) # numbered (k + 1) vs"

lemma length_numbered [simp]: "length (numbered k vs) = length vs"
  by (induction k vs rule: numbered.induct) simp_all

lemma nth_numbered: "i < length vs \<Longrightarrow> numbered k vs ! i = (k + int i, vs ! i)"
  by (induction k vs arbitrary: i rule: numbered.induct) (auto simp: nth_Cons split: nat.splits)

lemma numbered_lower: "x \<in> set (numbered k vs) \<Longrightarrow> k \<le> fst x"
  by (induction k vs rule: numbered.induct) fastforce+

lemma sorted_numbered: "sorted (map fst (numbered k vs))"
  by (induction k vs rule: numbered.induct) (auto dest: numbered_lower)

lemma filter_numbered: "x \<in> set (numbered k vs) \<Longrightarrow> filter (\<lambda>y. fst x = fst y) (numbered k vs) = [x]"
proof (induction k vs rule: numbered.induct)
  case (2 k v vs)
  have "filter (\<lambda>y. k = fst y) (numbered (k + 1) vs) = []" by (auto simp: filter_empty_conv dest: numbered_lower)
  then show ?case using 2 by (auto dest: numbered_lower)
qed simp

lemma numbered_inj [simp]: "numbered k a = numbered k b \<longleftrightarrow> a = b"
proof (induction a arbitrary: k b)
  case Nil
  show ?case by (cases b) simp_all
next
  case (Cons v vs)
  then show ?case by (cases b) simp_all
qed

lemma sort_numbered:
  assumes "mset ds = mset (numbered k vs)"
  shows "sort_key fst ds = numbered k vs"
proof (rule properties_for_sort_key [OF assms [symmetric] _ sorted_numbered])
  fix x assume x: "x \<in> set (numbered k vs)"
  have "mset (filter (\<lambda>y. fst x = fst y) ds) = {#x#}" using assms filter_numbered [OF x] by (metis mset_filter mset.simps)
  then have "filter (\<lambda>y. fst x = fst y) ds = [x]" by (metis mset_single_iff)
  then show "filter (\<lambda>y. fst x = fst y) (numbered k vs) = filter (\<lambda>y. fst x = fst y) ds" using filter_numbered [OF x] by simp
qed

lemma contiguous_iff: "contiguous k ds = Inr vs \<longleftrightarrow> ds = numbered k vs"
proof (induction k ds arbitrary: vs rule: contiguous.induct)
  case (1 i)
  show ?case by (cases vs) auto
next
  case (2 i k v ds)
  show ?case
  proof (cases vs)
    case Nil
    then show ?thesis by (auto split: sum.splits)
  next
    case (Cons w ws)
    show ?thesis
    proof (cases "k = i")
      case True
      then show ?thesis using 2 Cons by (cases "contiguous (i + 1) ds") auto
    qed (simp add: Cons)
  qed
qed

lemma align_iff: "align texts ds = Inr vs \<longleftrightarrow> length vs = length texts \<and> mset ds = mset (numbered 0 vs)"
proof
  assume a: "align texts ds = Inr vs"
  then have "sort_key fst ds = numbered 0 vs" "length ds = length texts" by (auto simp: align_def contiguous_iff split: if_splits)
  then show "length vs = length texts \<and> mset ds = mset (numbered 0 vs)" by (metis length_numbered length_sort mset_sort)
next
  assume a: "length vs = length texts \<and> mset ds = mset (numbered 0 vs)"
  then have "length ds = length texts" by (metis length_numbered size_mset)
  then show "align texts ds = Inr vs" using sort_numbered [of ds 0 vs] a by (simp add: align_def contiguous_iff)
qed

text \<open>C21: Vectors never slip against their texts. The client returns vectors exactly when the endpoint answered with
  success and its data, in whatever order, is one item per text with each position named exactly once; the
  vector at a position is then the one the response names for that position. A missing, repeated or
  out-of-range position, or one vector too many, is an error. Nothing is sent for no texts, and the key is
  in a header only: neither the address nor the body depends on it.\<close>

theorem embeddings_line_up:
  "(texts = [] \<longrightarrow> Embed net c texts = (Inr [], None)) \<and>
   (texts \<noteq> [] \<longrightarrow> (fst (Embed net c texts) = Inr vs \<longleftrightarrow>
     (\<exists>body status resp usage ds. en_marshal net (ec_Model c) texts = Inr body \<and> en_request net (embed_url c) = None \<and>
        en_do net (embed_request c body) = HttpResponse status resp \<and> 200 \<le> status \<and> status < 300 \<and>
        en_decode net resp = Inr (usage, ds) \<and> length vs = length texts \<and> mset ds = mset (numbered 0 vs)))) \<and>
   (\<forall>i < length vs. numbered 0 vs ! i = (int i, vs ! i)) \<and>
   hr_url (embed_request (c\<lparr>ec_APIKey := key\<rparr>) b) = hr_url (embed_request c b) \<and>
   hr_body (embed_request (c\<lparr>ec_APIKey := key\<rparr>) b) = hr_body (embed_request c b)"
proof (intro conjI impI)
  assume t: "texts \<noteq> []"
  show "fst (Embed net c texts) = Inr vs \<longleftrightarrow>
     (\<exists>body status resp usage ds. en_marshal net (ec_Model c) texts = Inr body \<and> en_request net (embed_url c) = None \<and>
        en_do net (embed_request c body) = HttpResponse status resp \<and> 200 \<le> status \<and> status < 300 \<and>
        en_decode net resp = Inr (usage, ds) \<and> length vs = length texts \<and> mset ds = mset (numbered 0 vs))"
    using t align_iff [of texts _ vs]
    by (auto simp: Embed_def embed_call_def split: sum.splits option.splits http_result.splits)
qed (simp_all add: Embed_def nth_numbered embed_request_def embed_url_def)

text \<open>A response out of order, and one that repeats a position.\<close>

definition demo_net :: "(int \<times> nat) list \<Rightarrow> nat embed_net" where
  "demo_net ds = \<lparr>en_marshal = (\<lambda>m ts. Inr (concat ts)), en_request = (\<lambda>_. None), en_do = (\<lambda>r. HttpResponse 200 (hr_url r)),
     en_decode = (\<lambda>_. Inr (Some 3, ds))\<rparr>"

theorem embeddings_line_up_witness:
  "fst (Embed (demo_net [(1, 7), (0, 5)]) \<lparr>ec_BaseURL = ''http://e/'', ec_APIKey = ''k'', ec_Model = ''m''\<rparr> [''a'', ''b'']) = Inr [5, 7] \<and>
   fst (Embed (demo_net [(1, 7), (1, 5)]) \<lparr>ec_BaseURL = ''http://e/'', ec_APIKey = ''k'', ec_Model = ''m''\<rparr> [''a'', ''b'']) \<noteq> Inr [5, 7]"
proof -
  let ?c = "\<lparr>ec_BaseURL = ''http://e/'', ec_APIKey = ''k'', ec_Model = ''m''\<rparr>"
  have iff: "fst (Embed (demo_net ds) ?c [''a'', ''b'']) = Inr [5, 7] \<longleftrightarrow> mset ds = mset [(0, 5), (1, 7)]" for ds
    using embeddings_line_up [of "[''a'', ''b'']" "demo_net ds" ?c "[5, 7]"] by (simp add: demo_net_def)
  show ?thesis unfolding iff by (simp add: add_eq_conv_ex)
qed

end
