(* ===== verification/Background.thy ===== *)
theory Background
  imports LongMemory Acl Budget Pending Logs
begin

text \<open>
  What runs beside the handler, and the opening and closing of the files: the retention loop
  (\<^verbatim>\<open>internal/runtime/purge.go\<close>), the sweeper of the button tokens (\<^verbatim>\<open>internal/pending/pending.go\<close>), the
  opening of the three databases, and the quarantine log's and the transcript's files. A loop is run on
  the finite list of what its select chose so far; when the list ends the loop is waiting.
\<close>

section \<open>The retention loop (purge.go)\<close>

text \<open>
  One round: how long its purges took, whether the context had ended when a purge failed, whether the
  select then chose the context's end, and how late the timer woke the loop.
\<close>

record purge_round =
  ro_took :: duration
  ro_ended :: bool
  ro_stop :: bool
  ro_late :: duration

text \<open>The purges of a round: whether one of them ended the loop, and the ones that were tried.\<close>

fun purge_each :: "(ns_purge \<Rightarrow> 'w \<Rightarrow> error option \<times> 'w) \<Rightarrow> bool \<Rightarrow> ns_purge list \<Rightarrow> 'w \<Rightarrow> bool \<times> ns_purge list \<times> 'w" where
  "purge_each purge ended [] s = (False, [], s)"
| "purge_each purge ended (p # ps) s =
     (case purge p s of (e, s') \<Rightarrow>
        if e \<noteq> None \<and> ended then (True, [p], s')
        else (case purge_each purge ended ps s' of (b, tried, s'') \<Rightarrow> (b, p # tried, s'')))"

text \<open>
  The loop from round \<open>i\<close> at time \<open>t\<close>: \<open>purge i t p\<close> is what \<open>p\<close>'s purge of that round does. The result is the
  purges tried, each with the time its round began, and the state.
\<close>

fun RunPurge ::
    "(nat \<Rightarrow> time \<Rightarrow> ns_purge \<Rightarrow> 'w \<Rightarrow> error option \<times> 'w) \<Rightarrow> ns_purge list \<Rightarrow> duration \<Rightarrow> purge_round list \<Rightarrow> nat \<Rightarrow> time \<Rightarrow> 'w
     \<Rightarrow> (time \<times> ns_purge) list \<times> 'w" where
  "RunPurge purge ps window [] i t s = ([], s)"
| "RunPurge purge ps window (ro # ros) i t s =
     (case purge_each (purge i t) (ro_ended ro) ps s of
        (True, tried, s') \<Rightarrow> (map (Pair t) tried, s')
      | (False, tried, s') \<Rightarrow>
          if ro_stop ro then (map (Pair t) tried, s')
          else let now = t + ro_took ro in
            (case RunPurge purge ps window ros (i + 1) (now + untilPurge now window + ro_late ro) s' of
               (calls, s'') \<Rightarrow> (map (Pair t) tried @ calls, s'')))"

section \<open>The token sweeper (pending.go)\<close>

datatype sweep_event = SweepTick time io | SweepStop

text \<open>Whether it returned, and the store.\<close>

fun RunSweeper :: "(time \<Rightarrow> io \<Rightarrow> 's \<Rightarrow> nat result \<times> 's) \<Rightarrow> duration \<Rightarrow> sweep_event list \<Rightarrow> 's \<Rightarrow> bool \<times> 's" where
  "RunSweeper sweep interval [] s = (interval \<le> 0, s)"
| "RunSweeper sweep interval (ev # evs) s =
     (if interval \<le> 0 then (True, s)
      else (case ev of
          SweepStop \<Rightarrow> (True, s)
        | SweepTick now io \<Rightarrow> RunSweeper sweep interval evs (snd (sweep now io s))))"

section \<open>Opening and closing\<close>

text \<open>
  \<open>f\<close> is what opening the file gave: the bucket, when the file has it. \<open>create\<close> is making the bucket. The
  second component is whether the database is left open.
\<close>

definition open_bolt :: "string \<Rightarrow> string \<Rightarrow> 'r bucket option result \<Rightarrow> io \<Rightarrow> 'r bucket result \<times> bool" where
  "open_bolt pkg path f create =
     (case f of Inl e \<Rightarrow> (Inl (Wrap (pkg @ '': open '' @ path) e), False)
      | Inr b \<Rightarrow>
     (case create of Failed e \<Rightarrow> (Inl (Wrap (pkg @ '': init bucket'') e), False)
      | Done \<Rightarrow> (Inr (case b of None \<Rightarrow> [] | Some rows \<Rightarrow> rows), True)))"

definition acl_OpenBolt :: "string \<Rightarrow> acl_db option result \<Rightarrow> io \<Rightarrow> acl_db result \<times> bool" where
  "acl_OpenBolt path f create = open_bolt ''acl'' path f create"

definition budget_OpenBolt :: "string \<Rightarrow> budget_db option result \<Rightarrow> io \<Rightarrow> budget_db result \<times> bool" where
  "budget_OpenBolt path f create = open_bolt ''budget'' path f create"

text \<open>With a sweep interval the store has a sweeper of its own, which \<open>Close\<close> stops and waits for.\<close>

definition pend_OpenBolt :: "string \<Rightarrow> duration \<Rightarrow> duration \<Rightarrow> pend_record bucket option result \<Rightarrow> io \<Rightarrow> (pend_bolt \<times> bool) result \<times> bool" where
  "pend_OpenBolt path ttl sweepInterval f create =
     (case open_bolt ''pending'' path f create of
        (Inl e, opened) \<Rightarrow> (Inl e, opened)
      | (Inr b, opened) \<Rightarrow> (Inr (\<lparr>pb_db = b, pb_ttl = ttl\<rparr>, sweepInterval > 0), opened))"

definition OpenFile :: "string \<Rightarrow> error option \<Rightarrow> error option" where
  "OpenFile path f = map_option (Wrap (''quarantine: open '' @ path)) f"

text \<open>The transcript's directory: made, and tried with a file that is removed again.\<close>

definition OpenDir :: "string \<Rightarrow> error option \<Rightarrow> error option \<Rightarrow> error option" where
  "OpenDir path mkdir probe =
     (case mkdir of Some e \<Rightarrow> Some (Wrap (''transcript: create dir '' @ path) e)
      | None \<Rightarrow> map_option (Wrap (''transcript: dir '' @ path @ '' not writable'')) probe)"

text \<open>Every open chat file is closed, in the order the map is ranged over; the first error is kept.\<close>

fun close_files :: "(string \<Rightarrow> error option) \<Rightarrow> string list \<Rightarrow> error option \<Rightarrow> string list \<Rightarrow> error option \<times> string list" where
  "close_files close [] first opened = (first, opened)"
| "close_files close (name # names) first opened =
     close_files close names (if first = None then close name else first) (filter (\<lambda>n. n \<noteq> name) opened)"

definition DirLog_Close :: "(string \<Rightarrow> error option) \<Rightarrow> string list \<Rightarrow> error option \<times> string list" where
  "DirLog_Close close opened = close_files close opened None opened"

lemma close_files_none: "snd (close_files close names first opened) = filter (\<lambda>n. n \<notin> set names) opened"
  by (induction names arbitrary: first opened) (auto intro: filter_cong)

lemma DirLog_Close_all: "snd (DirLog_Close close opened) = []"
  by (simp add: DirLog_Close_def close_files_none)

section \<open>Expired memory goes in time\<close>

fun purge_times :: "duration \<Rightarrow> purge_round list \<Rightarrow> time \<Rightarrow> time list" where
  "purge_times window [] t = []"
| "purge_times window (ro # ros) t =
     t # purge_times window ros (t + ro_took ro + untilPurge (t + ro_took ro) window + ro_late ro)"

text \<open>A failed purge stops neither the round nor the loop.\<close>

lemma purge_each_runs: "\<exists>s'. purge_each purge False ps s = (False, ps, s')"
proof (induction ps arbitrary: s)
  case (Cons p ps)
  then obtain s' where "purge_each purge False ps (snd (purge p s)) = (False, ps, s')" by blast
  then show ?case by (simp add: case_prod_beta)
qed simp

lemma RunPurge_times:
  assumes "\<And>ro. ro \<in> set ros \<Longrightarrow> \<not> ro_ended ro \<and> \<not> ro_stop ro"
  shows "fst (RunPurge purge ps window ros i t s) = concat (map (\<lambda>t. map (Pair t) ps) (purge_times window ros t))"
  using assms
proof (induction ros arbitrary: i t s)
  case (Cons ro ros)
  obtain s' where "purge_each (purge i t) False ps s = (False, ps, s')" using purge_each_runs [of "purge i t" ps s] by blast
  moreover have "\<not> ro_ended ro" "\<not> ro_stop ro" using Cons.prems by auto
  ultimately show ?case using Cons by (simp add: Let_def split: prod.splits) (metis fst_conv)
qed simp

text \<open>The wait ends the delay after the first boundary that is not passed yet.\<close>

lemma next_boundary:
  assumes "unix_epoch + purgeDelay \<le> now" "now < b + purgeDelay" "b \<le> unix_epoch + max_duration" "boundary w b"
    and "0 < w" "w + purgeDelay \<le> max_duration"
  shows "\<exists>c. now + untilPurge now w = c + purgeDelay \<and> boundary w c \<and> c \<le> b \<and> now < c + purgeDelay"
proof -
  have m: "modern (now - purgeDelay)" using assms(1,2,3) by (simp add: modern_def)
  note u = untilPurge_spec [OF m assms(5,6)]
  let ?c = "now + untilPurge now w - purgeDelay"
  have "?c \<le> b"
  proof (rule ccontr)
    assume "\<not> ?c \<le> b"
    then have "b + w \<le> ?c" using boundary_less [OF assms(4) _ assms(5), of ?c] u by simp
    then show False using u assms(2) by simp
  qed
  then show ?thesis using u by (intro exI [of _ ?c]) auto
qed

lemma purge_reaches:
  assumes "\<And>ro. ro \<in> set ros \<Longrightarrow> 0 \<le> ro_took ro \<and> ro_took ro \<le> took \<and> 0 \<le> ro_late ro \<and> ro_late ro \<le> late"
    and "took + late < w" "0 < w" "w + purgeDelay \<le> max_duration" "boundary w b" "b \<le> unix_epoch + max_duration"
    and "unix_epoch + purgeDelay \<le> t" "t + took < b + purgeDelay"
    and "x \<in> set (purge_times w ros t)" "b + purgeDelay \<le> x"
  shows "\<exists>x \<in> set (purge_times w ros t). b + purgeDelay \<le> x \<and> x \<le> b + purgeDelay + late"
  using assms(1,7-10)
proof (induction ros arbitrary: t)
  case (Cons ro ros)
  let ?now = "t + ro_took ro" and ?t = "t + ro_took ro + untilPurge (t + ro_took ro) w + ro_late ro"
  have ro: "0 \<le> ro_took ro" "ro_took ro \<le> took" "0 \<le> ro_late ro" "ro_late ro \<le> late" using Cons.prems(1) by auto
  obtain c where c: "?now + untilPurge ?now w = c + purgeDelay" "boundary w c" "c \<le> b" "?now < c + purgeDelay"
    using next_boundary [of ?now b w] Cons.prems(2,3) ro assms(3-6) by auto
  have x: "x \<in> set (purge_times w ros ?t)" using Cons.prems(3,4,5) ro by auto
  show ?case
  proof (cases "c = b")
    case True
    from x obtain ro' ros' where "ros = ro' # ros'" by (cases ros) auto
    then have "?t \<in> set (purge_times w (ro # ros) t)" by simp
    moreover have "b + purgeDelay \<le> ?t" "?t \<le> b + purgeDelay + late" using True c(1) ro by simp_all
    ultimately show ?thesis by blast
  next
    case False
    then have "c + w \<le> b" using boundary_less [OF c(2) assms(5,3)] c(3) by simp
    then have "?t + took < b + purgeDelay" using c(1) ro assms(2) by linarith
    moreover have "unix_epoch + purgeDelay \<le> ?t" using c(1,4) ro Cons.prems(2) by linarith
    ultimately show ?thesis using Cons.IH [OF _ _ _ x] Cons.prems(1,5) by auto
  qed
qed simp

lemma cut_after_boundary:
  assumes "modern t" "0 < w" "boundary w b" "b \<le> t" "r + retention < b"
  shows "r < PurgeCut t w retention"
proof -
  have "b \<le> WindowStart t w"
  proof (rule ccontr)
    assume "\<not> b \<le> WindowStart t w"
    then have "WindowStart t w + w \<le> b"
      using boundary_less [OF boundary_WindowStart [OF assms(1,2)] assms(3,2)] by simp
    then show False using WindowStart_gt [OF assms(1,2)] assms(4) by simp
  qed
  then show ?thesis using assms(5) by (simp add: PurgeCut_def)
qed


text \<open>Hourly windows, a record of five past kept an hour: it expires at five past one, and goes at a minute past
  two, though every purge before failed.\<close>

definition prompt_round :: purge_round where
  "prompt_round = \<lparr>ro_took = 0, ro_ended = False, ro_stop = False, ro_late = 0\<rparr>"

definition demo_purge :: ns_purge where
  "demo_purge = \<lparr>np_Namespace = ''n'', np_Retention = hour, np_Window = hour, np_Dropped = 0\<rparr>"

definition never_purges :: "nat \<Rightarrow> time \<Rightarrow> ns_purge \<Rightarrow> unit \<Rightarrow> error option \<times> unit" where
  "never_purges i t p s = (Some ErrNoStore, s)"


text \<open>
  The comment on \<open>PurgeCut\<close> says a record is deleted at most one window after it expires. One that expires on
  a boundary is not cut by any purge within the window after it, nor at its end: the loop's next purge
  comes the delay later.
\<close>

lemma purged_after_a_window:
  assumes "modern t" "0 < w" "boundary w (r + retention)" "t < r + retention + w"
  shows "\<not> r < PurgeCut t w retention"
proof
  assume "r < PurgeCut t w retention"
  then have "r + retention < WindowStart t w" by (simp add: PurgeCut_def)
  then have "r + retention + w \<le> WindowStart t w"
    using boundary_less [OF assms(3) boundary_WindowStart [OF assms(1,2)] assms(2)] by simp
  then show False using WindowStart_le [OF assms(1,2)] assms(4) by simp
qed

section \<open>Dead tokens are swept\<close>

lemma delete_all_filter: "foldl (\<lambda>b k. bk_delete k b) b ks = filter (\<lambda>(k, _). k \<notin> set ks) b"
proof (induction ks arbitrary: b)
  case (Cons k ks)
  then show ?case by (simp add: bk_delete_def case_prod_beta)
qed simp

lemma sweep_Done:
  assumes "bk_wf (pb_db s)"
  shows "pb_db (snd (pbolt_Sweep now Done s)) = filter (\<lambda>(k, v). \<not> pend_stale now v) (pb_db s)"
proof -
  have d: "distinct (map fst (pb_db s))" by (rule bk_wf_distinct [OF assms])
  have "filter (\<lambda>(k, _). k \<notin> set (map fst (filter (\<lambda>(k, v). pend_stale now v) (pb_db s)))) (pb_db s) =
      filter (\<lambda>(k, v). \<not> pend_stale now v) (pb_db s)"
  proof (rule filter_cong)
    fix x assume x: "x \<in> set (pb_db s)"
    have "fst x \<in> set (map fst (filter (\<lambda>(k, v). pend_stale now v) (pb_db s))) \<longleftrightarrow> pend_stale now (snd x)"
    proof
      assume "fst x \<in> set (map fst (filter (\<lambda>(k, v). pend_stale now v) (pb_db s)))"
      then obtain v where "(fst x, v) \<in> set (pb_db s)" "pend_stale now v" by auto
      then show "pend_stale now (snd x)" using eq_key_imp_eq_value [OF d, of "fst x" "snd x" v] x by simp
    next
      assume "pend_stale now (snd x)"
      then show "fst x \<in> set (map fst (filter (\<lambda>(k, v). pend_stale now v) (pb_db s)))" using x by force
    qed
    then show "(case x of (k, _) \<Rightarrow> k \<notin> set (map fst (filter (\<lambda>(k, v). pend_stale now v) (pb_db s)))) \<longleftrightarrow>
        (case x of (k, v) \<Rightarrow> \<not> pend_stale now v)" by (simp add: case_prod_beta)
  qed simp
  then show ?thesis by (simp add: pbolt_Sweep_def tx_update_def delete_all_filter del: set_map)
qed

text \<open>The sweeper drops exactly the dead tokens: what is left after any number of its ticks, some of which failed, is
  what none of the others found expired.\<close>

theorem sweeper_drops_expired:
  assumes "bk_wf (pb_db s)" "0 < interval"
  shows "fst (RunSweeper pbolt_Sweep interval (map (\<lambda>(t, io). SweepTick t io) ticks) s) = False \<and>
    pb_db (snd (RunSweeper pbolt_Sweep interval (map (\<lambda>(t, io). SweepTick t io) ticks) s)) =
      filter (\<lambda>(k, v). \<forall>t. (t, Done) \<in> set ticks \<longrightarrow> \<not> pend_stale t v) (pb_db s)"
  using assms
proof (induction ticks arbitrary: s)
  case (Cons tick ticks)
  obtain t io where tick: "tick = (t, io)" by (cases tick)
  let ?s = "snd (pbolt_Sweep t io s)"
  have db: "pb_db ?s = filter (\<lambda>(k, v). io = Done \<longrightarrow> \<not> pend_stale t v) (pb_db s)"
  proof (cases io)
    case Done
    then show ?thesis using sweep_Done [OF Cons.prems(1)] by simp
  next
    case (Failed e)
    then show ?thesis by (simp add: pbolt_Sweep_def tx_update_def)
  qed
  then have "bk_wf (pb_db ?s)" using Cons.prems(1) by simp
  from Cons.IH [OF this Cons.prems(2)] show ?case
    using Cons.prems(2) by (auto simp: tick db filter_filter intro!: filter_cong)
qed simp

end
