(* ===== verification/PromptTemplate.thy ===== *)
theory PromptTemplate
  imports Prelude
begin

text \<open>
  The inspection of an operator's prompt template, \<^verbatim>\<open>TemplateQueryFields\<close> of \<^verbatim>\<open>internal/core/prompt.go\<close>: which
  of the fields that no longer carry a query's content a template names. The nodes are those of the
  standard library's \<^verbatim>\<open>text/template/parse\<close>.
\<close>

text \<open>
  A pointer that may be nil is an option. \<open>TChain\<close> is a field of a parenthesised expression, \<open>TText\<close> stands
  for every node without parts (text, constants, the dot, comments).
\<close>

datatype tnode =
    TList "tnode list"
  | TAction tnode
  | TPipe "tnode list"
  | TCommand "tnode list"
  | TField "string list"
  | TVariable "string list"
  | TChain tnode "string list"
  | TIf tnode tnode tnode
  | TRange tnode tnode tnode
  | TWith tnode tnode tnode
  | TTemplate string tnode
  | TNil
  | TText string

definition queryFields :: "string list" where
  "queryFields = [''Asker'', ''ReplyContext'', ''History'', ''Context'', ''Query'']"

definition note_field :: "string list \<Rightarrow> string list \<Rightarrow> string list" where
  "note_field out ident =
     (case ident of [] \<Rightarrow> out | f # _ \<Rightarrow> if f \<in> set queryFields \<and> f \<notin> set out then out @ [f] else out)"

text \<open>The walk; a nil list or pipeline has nothing.\<close>

fun walk_node :: "tnode \<Rightarrow> string list \<Rightarrow> string list" where
  "walk_node (TList ns) out = fold walk_node ns out"
| "walk_node (TAction p) out = walk_node p out"
| "walk_node (TPipe cmds) out = fold walk_node cmds out"
| "walk_node (TCommand args) out = fold walk_node args out"
| "walk_node (TField ident) out = note_field out ident"
| "walk_node (TVariable ident) out = (case ident of v # f # fs \<Rightarrow> if v = ''$'' then note_field out (f # fs) else out | _ \<Rightarrow> out)"
| "walk_node (TChain n fs) out = out"
| "walk_node (TIf p l e) out = walk_node e (walk_node l (walk_node p out))"
| "walk_node (TRange p l e) out = walk_node e (walk_node l (walk_node p out))"
| "walk_node (TWith p l e) out = walk_node e (walk_node l (walk_node p out))"
| "walk_node (TTemplate name p) out = walk_node p out"
| "walk_node TNil out = out"
| "walk_node (TText s) out = out"

text \<open>
  The parsed templates, the one itself and the ones it defines, in the order they are listed in (a map's);
  \<open>None\<close> is a template without a tree, and a nil template is no list.
\<close>

definition TemplateQueryFields :: "tnode option list option \<Rightarrow> string list" where
  "TemplateQueryFields tmpl =
     (case tmpl of None \<Rightarrow> []
      | Some ts \<Rightarrow> foldl (\<lambda>out t. case t of None \<Rightarrow> out | Some root \<Rightarrow> walk_node root out) [] ts)"

section \<open>What is reported\<close>

text \<open>A template names a field where a field, or a field of the whole data, stands in a command or a condition.\<close>

inductive names_field :: "string \<Rightarrow> tnode \<Rightarrow> bool" where
  nf_field: "names_field f (TField (f # fs))"
| nf_root: "names_field f (TVariable (''$'' # f # fs))"
| nf_list: "n \<in> set ns \<Longrightarrow> names_field f n \<Longrightarrow> names_field f (TList ns)"
| nf_action: "names_field f p \<Longrightarrow> names_field f (TAction p)"
| nf_pipe: "n \<in> set ns \<Longrightarrow> names_field f n \<Longrightarrow> names_field f (TPipe ns)"
| nf_command: "n \<in> set ns \<Longrightarrow> names_field f n \<Longrightarrow> names_field f (TCommand ns)"
| nf_if: "n \<in> {p, l, e} \<Longrightarrow> names_field f n \<Longrightarrow> names_field f (TIf p l e)"
| nf_range: "n \<in> {p, l, e} \<Longrightarrow> names_field f n \<Longrightarrow> names_field f (TRange p l e)"
| nf_with: "n \<in> {p, l, e} \<Longrightarrow> names_field f n \<Longrightarrow> names_field f (TWith p l e)"
| nf_template: "names_field f p \<Longrightarrow> names_field f (TTemplate name p)"

inductive_simps names_field_simps [simp]:
  "names_field f (TField ident)" "names_field f (TVariable ident)" "names_field f (TList ns)" "names_field f (TAction p)"
  "names_field f (TPipe ns)" "names_field f (TCommand ns)" "names_field f (TIf p l e)" "names_field f (TRange p l e)"
  "names_field f (TWith p l e)" "names_field f (TTemplate name p)" "names_field f TNil" "names_field f (TText s)"
  "names_field f (TChain n fs)"

lemma note_field_set: "set (note_field out ident) = set out \<union> (case ident of [] \<Rightarrow> {} | f # _ \<Rightarrow> {f} \<inter> set queryFields)"
  by (auto simp: note_field_def split: list.splits)

lemma note_field_distinct: "distinct out \<Longrightarrow> distinct (note_field out ident)"
  by (auto simp: note_field_def split: list.splits)

lemma fold_names:
  assumes "\<And>n out. n \<in> set ns \<Longrightarrow> set (walk_node n out) = set out \<union> {f \<in> set queryFields. names_field f n}"
  shows "set (fold walk_node ns out) = set out \<union> {f \<in> set queryFields. \<exists>n \<in> set ns. names_field f n}"
  using assms by (induction ns arbitrary: out) auto

lemma walk_names: "set (walk_node n out) = set out \<union> {f \<in> set queryFields. names_field f n}"
proof (induction n out rule: walk_node.induct)
  case (5 ident out)
  then show ?case by (auto simp: note_field_set split: list.splits)
next
  case (6 ident out)
  then show ?case by (auto simp: note_field_set split: list.splits)
qed (auto simp: fold_names)

lemma fold_distinct: "(\<And>n out. n \<in> set ns \<Longrightarrow> distinct out \<Longrightarrow> distinct (walk_node n out)) \<Longrightarrow> distinct out \<Longrightarrow> distinct (fold walk_node ns out)"
  by (induction ns arbitrary: out) auto

lemma walk_distinct: "distinct out \<Longrightarrow> distinct (walk_node n out)"
proof (induction n out rule: walk_node.induct)
  case (6 ident out)
  then show ?case by (auto simp: note_field_distinct split: list.splits)
qed (auto simp: fold_distinct note_field_distinct)

text \<open>The startup warning lists each stale field a template names, once: exactly the fields that no longer carry a
  query's content and are named, as a field or a field of the whole data, anywhere in the template or in one
  it defines, outside a parenthesised expression whose own field is taken.\<close>

theorem stale_fields_reported:
  "distinct (TemplateQueryFields (Some ts)) \<and>
   set (TemplateQueryFields (Some ts)) = {f \<in> set queryFields. \<exists>root. Some root \<in> set ts \<and> names_field f root}"
proof -
  let ?step = "\<lambda>out t. case t of None \<Rightarrow> out | Some root \<Rightarrow> walk_node root out"
  have "distinct out \<Longrightarrow> distinct (foldl ?step out ts)" for out
    by (induction ts arbitrary: out) (auto simp: walk_distinct split: option.splits)
  moreover have "set (foldl ?step out ts) = set out \<union> {f \<in> set queryFields. \<exists>root. Some root \<in> set ts \<and> names_field f root}" for out
    by (induction ts arbitrary: out) (auto simp: walk_names split: option.splits)
  ultimately show ?thesis by (simp add: TemplateQueryFields_def)
qed

text \<open>
  The walk does not look into such an expression: a template that renders \<^verbatim>\<open>{{($).History}}\<close>, the stale
  field of the whole data, is not reported, and neither is \<^verbatim>\<open>{{(.History).X}}\<close>.
\<close>

lemma chain_not_reported:
  "TemplateQueryFields (Some [Some (TList [TAction (TPipe [TCommand [TChain (TPipe [TCommand [TVariable [''$'']]]) [''History'']]])])]) = []"
  by (simp add: TemplateQueryFields_def)

end
