(* ===== verification/Telemetry.thy ===== *)
theory Telemetry
  imports Serve Handler_Props
begin

text \<open>
  Metrics and their export: \<^verbatim>\<open>internal/metrics/metrics.go\<close> (what is measured, under which attributes),
  \<^verbatim>\<open>internal/otelexport/otelexport.go\<close> (when and how it is exported), and where the handler, the
  embeddings client and \<^verbatim>\<open>serve\<close> use them. The OpenTelemetry library is a parameter: what making an
  instrument, an exporter or a provider gave, and what shutting one down gave. The instruments'
  descriptions are left out.
\<close>

section \<open>Metrics (metrics.go)\<close>

datatype amount = Count int | Took duration

record measure =
  me_Name :: string
  me_Amount :: amount
  me_Attrs :: "(string \<times> string) list"

definition metricAnswers :: string where "metricAnswers = ''grove.answers''"
definition metricAnswerDuration :: string where "metricAnswerDuration = ''grove.answer.duration''"
definition metricRetrievalTime :: string where "metricRetrievalTime = ''grove.retrieval.duration''"
definition metricRetrievalChunks :: string where "metricRetrievalChunks = ''grove.retrieval.chunks''"
definition metricSpendRemaining :: string where "metricSpendRemaining = ''grove.spend.remaining''"
definition metricSpendCeiling :: string where "metricSpendCeiling = ''grove.spend.ceiling''"
definition keyAnswerOutcome :: string where "keyAnswerOutcome = ''grove.answer.outcome''"
definition keySurface :: string where "keySurface = ''grove.surface''"
definition keyRetrievalMode :: string where "keyRetrievalMode = ''grove.retrieval.mode''"

definition embedDuration :: string where "embedDuration = ''gen_ai.client.operation.duration''"
definition embedTokens :: string where "embedTokens = ''gen_ai.client.token.usage''"

datatype answer_end = Answered | Refused | AtCapacity | FailedAnswer

definition outcome_name :: "answer_end \<Rightarrow> string" where
  "outcome_name o' = (case o' of Answered \<Rightarrow> ''answered'' | Refused \<Rightarrow> ''refused'' | AtCapacity \<Rightarrow> ''at_capacity'' | FailedAnswer \<Rightarrow> ''error'')"

text \<open>The boundaries of the histograms' buckets, in seconds, tokens and chunks.\<close>

definition DurationBuckets :: "rat list" where
  "DurationBuckets = [1/100, 2/100, 4/100, 8/100, 16/100, 32/100, 64/100, 128/100, 256/100, 512/100, 1024/100,
     2048/100, 4096/100, 8192/100]"

definition TokenBuckets :: "rat list" where
  "TokenBuckets = [1, 4, 16, 64, 256, 1024, 4096, 16384, 65536, 262144, 1048576, 4194304, 16777216, 67108864]"

definition ChunkBuckets :: "rat list" where
  "ChunkBuckets = [1, 2, 4, 8, 16, 32, 64]"

text \<open>The instruments with their boundaries; the last two go by the names of the GenAI conventions.\<close>

definition instruments :: "(string \<times> rat list option) list" where
  "instruments = [(metricAnswers, None), (metricAnswerDuration, Some DurationBuckets), (metricRetrievalTime, Some DurationBuckets),
     (metricRetrievalChunks, Some ChunkBuckets), (embedDuration, Some DurationBuckets), (embedTokens, Some TokenBuckets)]"

text \<open>The instruments are made in this order; the first that fails is the error.\<close>

definition metrics_New :: "(string \<Rightarrow> error option) \<Rightarrow> error option" where
  "metrics_New mk = foldl (\<lambda>e (name, b). if e = None then mk name else e) None instruments"

text \<open>A nil \<open>Metrics\<close> records nothing; \<open>on\<close> is whether there is one.\<close>

definition metrics_Answer :: "bool \<Rightarrow> string \<Rightarrow> answer_end \<Rightarrow> duration \<Rightarrow> measure list" where
  "metrics_Answer on surface o' took =
     (if \<not> on then []
      else let attrs = [(keySurface, surface), (keyAnswerOutcome, outcome_name o')]
           in [\<lparr>me_Name = metricAnswers, me_Amount = Count 1, me_Attrs = attrs\<rparr>,
               \<lparr>me_Name = metricAnswerDuration, me_Amount = Took took, me_Attrs = attrs\<rparr>])"

definition metrics_Retrieval :: "bool \<Rightarrow> string \<Rightarrow> duration \<Rightarrow> measure list" where
  "metrics_Retrieval on mode took =
     (if \<not> on then [] else [\<lparr>me_Name = metricRetrievalTime, me_Amount = Took took, me_Attrs = [(keyRetrievalMode, mode)]\<rparr>])"

definition metrics_Chunks :: "bool \<Rightarrow> int \<Rightarrow> measure list" where
  "metrics_Chunks on n = (if \<not> on then [] else [\<lparr>me_Name = metricRetrievalChunks, me_Amount = Count n, me_Attrs = []\<rparr>])"

text \<open>\<open>timed_out\<close> is whether the error is the context's deadline.\<close>

definition metrics_Embedding :: "bool \<Rightarrow> string \<Rightarrow> duration \<Rightarrow> int \<Rightarrow> bool option \<Rightarrow> measure list" where
  "metrics_Embedding on model took tokens timed_out =
     (if \<not> on then []
      else let common = [(''gen_ai.operation.name'', ''embeddings''), (''gen_ai.request.model'', model)]
           in (case timed_out of
               Some t \<Rightarrow> [\<lparr>me_Name = embedDuration, me_Amount = Took took,
                            me_Attrs = common @ [(''error.type'', if t then ''timeout'' else ''_OTHER'')]\<rparr>]
             | None \<Rightarrow> \<lparr>me_Name = embedDuration, me_Amount = Took took, me_Attrs = common\<rparr> #
                 (if tokens \<ge> 0 then [\<lparr>me_Name = embedTokens, me_Amount = Count tokens, me_Attrs = common @ [(''gen_ai.token.type'', ''input'')]\<rparr>]
                  else [])))"

text \<open>The spend gauges, and what a collection reads from them.\<close>

definition ObserveSpend :: "bool \<Rightarrow> (string \<Rightarrow> error option) \<Rightarrow> error option \<Rightarrow> error option" where
  "ObserveSpend on mk register =
     (if \<not> on then None
      else (case mk metricSpendRemaining of Some e \<Rightarrow> Some e
        | None \<Rightarrow> (case mk metricSpendCeiling of Some e \<Rightarrow> Some e | None \<Rightarrow> register)))"

definition spend_collected :: "int \<Rightarrow> int \<Rightarrow> measure list" where
  "spend_collected ceil left =
     [\<lparr>me_Name = metricSpendRemaining, me_Amount = Count left, me_Attrs = []\<rparr>,
      \<lparr>me_Name = metricSpendCeiling, me_Amount = Count ceil, me_Attrs = []\<rparr>]"

text \<open>How the handler counts an answer (\<^verbatim>\<open>internal/runtime/handler.go\<close>).\<close>

definition answer_measured :: "bool \<Rightarrow> surface \<Rightarrow> reply result \<Rightarrow> duration \<Rightarrow> measure list" where
  "answer_measured on surface r took =
     metrics_Answer on (if surface = SurfaceDM then ''dm'' else ''group'')
       (case r of Inl e \<Rightarrow> if errors_is e ErrOverBudget then AtCapacity else FailedAnswer
        | Inr rep \<Rightarrow> if r_Refused rep then Refused else Answered) took"

section \<open>Export (otelexport.go)\<close>

datatype signal = Traces | Metrics

definition signal_name :: "signal \<Rightarrow> string" where
  "signal_name s = (case s of Traces \<Rightarrow> ''TRACES'' | Metrics \<Rightarrow> ''METRICS'')"

definition endpointSet :: "(string \<Rightarrow> string) \<Rightarrow> signal \<Rightarrow> bool" where
  "endpointSet getenv s \<longleftrightarrow> getenv ''OTEL_EXPORTER_OTLP_ENDPOINT'' \<noteq> [] \<or>
     getenv (''OTEL_EXPORTER_OTLP_'' @ signal_name s @ ''_ENDPOINT'') \<noteq> []"

definition protocolGRPC :: string where "protocolGRPC = ''grpc''"
definition protocolHTTP :: string where "protocolHTTP = ''http/protobuf''"

definition protocol :: "(string \<Rightarrow> string) \<Rightarrow> signal \<Rightarrow> string result" where
  "protocol getenv s =
     (let own = getenv (''OTEL_EXPORTER_OTLP_'' @ signal_name s @ ''_PROTOCOL'');
          p = TrimSpace (if own = [] then getenv ''OTEL_EXPORTER_OTLP_PROTOCOL'' else own)
      in if p = [] then Inr protocolHTTP
         else if p = protocolGRPC \<or> p = protocolHTTP then Inr p
         else Inl (ErrMsg ''OTLP protocol''))"

text \<open>\<open>mk s grpc\<close> is making the exporter of a signal.\<close>

definition signal_exporter :: "(string \<Rightarrow> string) \<Rightarrow> (signal \<Rightarrow> bool \<Rightarrow> error option) \<Rightarrow> signal \<Rightarrow> error option" where
  "signal_exporter getenv mk s =
     (case protocol getenv s of Inl e \<Rightarrow> Some e | Inr p \<Rightarrow> mk s (p = protocolGRPC))"

text \<open>
  The views of the meter provider: the agent library makes its two histograms without boundaries, so
  the provider gives them theirs.
\<close>

definition provider_views :: "(string \<times> rat list) list" where
  "provider_views = [(''gen_ai.client.operation.duration'', DurationBuckets), (''gen_ai.client.token.usage'', TokenBuckets)]"

lemma views_agree: "(n, b) \<in> set provider_views \<Longrightarrow> (n, Some b) \<in> set instruments"
  by (auto simp: provider_views_def instruments_def embedDuration_def embedTokens_def)

lemma buckets_increase: "(n, Some b) \<in> set instruments \<Longrightarrow> sorted_wrt (<) b \<and> hd b > 0"
  by (auto simp: instruments_def DurationBuckets_def TokenBuckets_def ChunkBuckets_def)

record exporter =
  ex_Traces :: bool
  ex_Metrics :: bool
  ex_shutdown :: "signal list"

text \<open>Both providers are shut down, whatever either gives; the errors are joined.\<close>

definition ex_Shutdown :: "(signal \<Rightarrow> error option) \<Rightarrow> exporter \<Rightarrow> error list \<times> signal list" where
  "ex_Shutdown stop e = (concat (map (\<lambda>s. case stop s of None \<Rightarrow> [] | Some err \<Rightarrow> [err]) (ex_shutdown e)), ex_shutdown e)"

text \<open>
  \<^verbatim>\<open>strings.EqualFold\<close> with \<^verbatim>\<open>true\<close>: no letter of the word has a fold outside ASCII.
\<close>

definition folds_true :: "string \<Rightarrow> bool" where
  "folds_true s \<longleftrightarrow> list_all2 (\<lambda>c (l, u). c = l \<or> c = u) s
     [(CHR ''t'', CHR ''T''), (CHR ''r'', CHR ''R''), (CHR ''u'', CHR ''U''), (CHR ''e'', CHR ''E'')]"

text \<open>The result, and the providers left running by it: \<open>resource\<close> is making the resource.\<close>

definition Setup ::
    "(string \<Rightarrow> string) \<Rightarrow> error option \<Rightarrow> (signal \<Rightarrow> bool \<Rightarrow> error option) \<Rightarrow> exporter option result \<times> signal list" where
  "Setup getenv resource mk =
     (if folds_true (TrimSpace (getenv ''OTEL_SDK_DISABLED'')) then (Inr None, [])
      else let tr = endpointSet getenv Traces; mt = endpointSet getenv Metrics in
        if \<not> tr \<and> \<not> mt then (Inr None, [])
        else (case resource of Some e \<Rightarrow> (Inl (Wrap ''telemetry resource'' e), [])
      | None \<Rightarrow>
          let e0 = \<lparr>ex_Traces = tr, ex_Metrics = mt, ex_shutdown = []\<rparr> in
          (case (if tr then signal_exporter getenv mk Traces else None) of Some err \<Rightarrow> (Inl err, [])
           | None \<Rightarrow>
               let e1 = (if tr then e0\<lparr>ex_shutdown := ex_shutdown e0 @ [Traces]\<rparr> else e0) in
               (case (if mt then signal_exporter getenv mk Metrics else None) of
                  Some err \<Rightarrow> (Inl err, filter (\<lambda>s. s \<notin> set (snd (ex_Shutdown (\<lambda>_. None) e1))) (ex_shutdown e1))
                | None \<Rightarrow>
                    let e2 = (if mt then e1\<lparr>ex_shutdown := ex_shutdown e1 @ [Metrics]\<rparr> else e1)
                    in (Inr (Some e2), ex_shutdown e2)))))"

text \<open>What \<^verbatim>\<open>serve\<close> does with it: \<open>tel\<close> is making the agent's instruments, \<open>instr\<close> making grove's.\<close>

definition serve_telemetry ::
    "exporter option result \<Rightarrow> error option \<Rightarrow> (string \<Rightarrow> error option) \<Rightarrow> error option \<Rightarrow> telemetry_setup" where
  "serve_telemetry setup tel instr register =
     (case setup of Inl e \<Rightarrow> TelemetryFailed e
      | Inr None \<Rightarrow> TelemetryOff
      | Inr (Some ex) \<Rightarrow> TelemetryOn
          (case tel of Some e \<Rightarrow> Some e
           | None \<Rightarrow> if \<not> ex_Metrics ex then None
               else (case metrics_New instr of Some e \<Rightarrow> Some e | None \<Rightarrow> ObserveSpend True instr register)))"

section \<open>What leaves the process\<close>

text \<open>Measures carry no content. What an answer is counted under is one of eight pairs, its surface and how it ended;
  two answers on one surface that end alike are counted alike, whoever asked, whatever was asked and
  answered; an embedding call is counted under its configured model and a fixed word, whatever was
  embedded; and with no metrics nothing is recorded.\<close>

theorem measures_carry_no_content:
  "(\<forall>m \<in> set (answer_measured on surface r took). \<exists>s o'. s \<in> {''group'', ''dm''} \<and>
      o' \<in> {''answered'', ''refused'', ''at_capacity'', ''error''} \<and> me_Attrs m = [(keySurface, s), (keyAnswerOutcome, o')]) \<and>
   (\<forall>rep rep'. r_Refused rep = r_Refused rep' \<longrightarrow> answer_measured on surface (Inr rep) took = answer_measured on surface (Inr rep') took) \<and>
   (\<forall>m \<in> set (metrics_Embedding on model took tokens timed_out). \<forall>(k, v) \<in> set (me_Attrs m).
      v = model \<or> v \<in> {''embeddings'', ''timeout'', ''_OTHER'', ''input''}) \<and>
   answer_measured False surface r took = [] \<and> metrics_Embedding False model took tokens timed_out = []"
proof (intro conjI)
  have o: "outcome_name x \<in> {''answered'', ''refused'', ''at_capacity'', ''error''}" for x
    by (cases x) (simp_all add: outcome_name_def)
  show "\<forall>m \<in> set (answer_measured on surface r took). \<exists>s o'. s \<in> {''group'', ''dm''} \<and>
      o' \<in> {''answered'', ''refused'', ''at_capacity'', ''error''} \<and> me_Attrs m = [(keySurface, s), (keyAnswerOutcome, o')]"
    using o by (auto simp: answer_measured_def metrics_Answer_def Let_def simp del: insert_iff)
  show "\<forall>m \<in> set (metrics_Embedding on model took tokens timed_out). \<forall>(k, v) \<in> set (me_Attrs m).
      v = model \<or> v \<in> {''embeddings'', ''timeout'', ''_OTHER'', ''input''}"
    by (auto simp: metrics_Embedding_def Let_def split: option.splits if_splits)
qed (simp_all add: answer_measured_def metrics_Answer_def metrics_Embedding_def)

text \<open>Export is off unless it is asked for, and a start that fails leaves nothing running: nothing is set up without
  an endpoint for a signal or with the SDK disabled; an error leaves no provider; and a setup runs exactly
  the providers it will shut down, those of the signals with an endpoint.\<close>

theorem setup_whole_or_off:
  "(fst (Setup getenv resource mk) = Inr None \<longleftrightarrow>
      folds_true (TrimSpace (getenv ''OTEL_SDK_DISABLED'')) \<or> \<not> endpointSet getenv Traces \<and> \<not> endpointSet getenv Metrics) \<and>
   (case Setup getenv resource mk of
      (Inl e, running) \<Rightarrow> running = []
    | (Inr None, running) \<Rightarrow> running = []
    | (Inr (Some ex), running) \<Rightarrow> running = snd (ex_Shutdown stop ex) \<and> ex_Traces ex = endpointSet getenv Traces \<and>
        ex_Metrics ex = endpointSet getenv Metrics \<and> set running = {s. endpointSet getenv s})"
proof -
  have s: "{s. endpointSet getenv s} = (if endpointSet getenv Traces then {Traces} else {}) \<union> (if endpointSet getenv Metrics then {Metrics} else {})"
    by (auto) (metis signal.exhaust)+
  show ?thesis by (auto simp: Setup_def Let_def ex_Shutdown_def s split: option.splits)
qed

end
