(* ===== verification/TelegramRun.thy ===== *)
theory TelegramRun
  imports Telegram_Props
begin

text \<open>
  The start of the Telegram adapter, \<^verbatim>\<open>Adapter.Run\<close> of \<^verbatim>\<open>internal/transport/telegram/telegram.go\<close>, and the calls
  it makes besides sending: the reaction and the answer to a click. What a call gave is an argument.
\<close>

datatype start_call = StartNew | StartGetMe | StartDropPending | StartPolling

text \<open>
  \<open>ts_new\<close> is making the client, \<open>ts_me\<close> the bot's identity, \<open>ts_drop\<close> dropping the backlog, \<open>ts_ended\<close> the
  context's error once polling stopped.
\<close>

record tg_start =
  ts_skipGetMe :: bool
  ts_new :: "error option"
  ts_me :: "(int \<times> string) result"
  ts_drop :: "error option"
  ts_ended :: "error option"

text \<open>The error, the adapter polling ran with (when it did) and the calls made.\<close>

definition tg_Run :: "(error \<Rightarrow> string) \<Rightarrow> tg_start \<Rightarrow> adapter \<Rightarrow> error option \<times> adapter \<times> start_call list" where
  "tg_Run show_error ts a =
     (case ts_new ts of Some e \<Rightarrow> (redact show_error a (Some e), a, [StartNew])
      | None \<Rightarrow>
          let a1 = a\<lparr>ad_running := True\<rparr>;
              a2 = (if ts_skipGetMe ts then a1
                    else (case ts_me ts of Inl _ \<Rightarrow> a1 | Inr (i, name) \<Rightarrow> a1\<lparr>ad_botID := i, ad_botUsername := name\<rparr>))
          in (ts_ended ts, a2, [StartNew] @ (if ts_skipGetMe ts then [] else [StartGetMe]) @ [StartDropPending, StartPolling]))"

definition react :: "(error \<Rightarrow> string) \<Rightarrow> adapter \<Rightarrow> api_out \<Rightarrow> int \<Rightarrow> int \<Rightarrow> string \<Rightarrow> error option \<times> tg_call list" where
  "react show_error a out chat msg emoji =
     (if \<not> ad_running a then (Some (ErrMsg ''telegram: transport not running''), [])
      else (redact show_error a (api_error out), [CallReact chat msg emoji]))"

definition answerCallback :: "(error \<Rightarrow> string) \<Rightarrow> adapter \<Rightarrow> api_out \<Rightarrow> string \<Rightarrow> string \<Rightarrow> error option \<times> tg_call list" where
  "answerCallback show_error a out queryID txt' = (redact show_error a (api_error out), [CallAnswer queryID txt'])"

text \<open>A bot whose identity could not be fetched takes no text for a mention of it.\<close>

lemma nameless_no_mention:
  assumes "ad_botUsername a = []" "en_Type e = EntMention"
  shows "\<not> mentions_bot a t e"
  using assms by (simp add: mentions_bot_def)

text \<open>Polling starts last, with the client made and the backlog dropped before it, and with the identity that was
  fetched or none.\<close>

lemma polling_last:
  assumes "tg_Run show_error ts a = (e, a', calls)"
  shows "StartPolling \<in> set calls \<longleftrightarrow> ts_new ts = None" and "StartPolling \<in> set calls \<Longrightarrow> last calls = StartPolling \<and>
      StartDropPending \<in> set (butlast calls) \<and> ad_running a' \<and> ad_AllowedGroups a' = ad_AllowedGroups a \<and> ad_AllowedTopics a' = ad_AllowedTopics a"
  using assms by (auto simp: tg_Run_def Let_def split: option.splits sum.splits if_splits)

end
