(* ===== verification/RecordFile.thy ===== *)
theory RecordFile
  imports LongMemory Logs
begin

text \<open>
  The namespace record on disk, \<^verbatim>\<open>Record.save\<close> of \<^verbatim>\<open>internal/namespaces/record.go\<close>, call by call,
  over a file system that can crash. Theory \<open>LongMemory\<close> has the record's operations over saves
  that go through or fail; here a save is the system calls it issues, the record is whatever the
  file of its path holds, and a crash can come between any two calls.

  The file system is one directory as \<^verbatim>\<open>fsync(2)\<close> and \<^verbatim>\<open>rename(2)\<close> document it: a file's content is
  sure to survive a crash only once the file was synced after its last write, and an entry of the
  directory is sure to survive only once the directory was synced after it was last changed; until
  then a crash may leave any content, and any entry the name had since that sync. A rename is
  atomic.
\<close>

section \<open>A file system that can crash\<close>

datatype fs_call =
    Creat string
  | WriteTo nat string
  | Fsync nat
  | Rename string string
  | SyncDir
  | Unlink string

record fsys =
  fs_names :: "string \<rightharpoonup> nat"
  fs_past :: "string \<Rightarrow> nat option list"
  fs_data :: "nat \<Rightarrow> string"
  fs_synced :: "nat \<Rightarrow> bool"
  fs_next :: nat

definition fs_link :: "string \<Rightarrow> nat option \<Rightarrow> fsys \<Rightarrow> fsys" where
  "fs_link name e fs = fs\<lparr>fs_names := (fs_names fs)(name := e),
     fs_past := (fs_past fs)(name := e # fs_past fs name)\<rparr>"

fun fs_do :: "fs_call \<Rightarrow> fsys \<Rightarrow> fsys" where
  "fs_do (Creat name) fs = fs_link name (Some (fs_next fs))
     (fs\<lparr>fs_data := (fs_data fs)(fs_next fs := []), fs_synced := (fs_synced fs)(fs_next fs := False),
        fs_next := Suc (fs_next fs)\<rparr>)"
| "fs_do (WriteTo i b) fs = fs\<lparr>fs_data := (fs_data fs)(i := fs_data fs i @ b), fs_synced := (fs_synced fs)(i := False)\<rparr>"
| "fs_do (Fsync i) fs = fs\<lparr>fs_synced := (fs_synced fs)(i := True)\<rparr>"
| "fs_do (Rename old new) fs =
     (case fs_names fs old of None \<Rightarrow> fs | Some i \<Rightarrow> fs_link old None (fs_link new (Some i) fs))"
| "fs_do SyncDir fs = fs\<lparr>fs_past := (\<lambda>name. [fs_names fs name])\<rparr>"
| "fs_do (Unlink name) fs = fs_link name None fs"

text \<open>Every state a list of calls passes through, the first and the last included.\<close>

fun fs_passed :: "fs_call list \<Rightarrow> fsys \<Rightarrow> fsys list" where
  "fs_passed [] fs = [fs]"
| "fs_passed (c # cs) fs = fs # fs_passed cs (fs_do c fs)"

text \<open>What reading the file gives, without a crash and after one.\<close>

definition fs_content :: "fsys \<Rightarrow> string \<Rightarrow> string option" where
  "fs_content fs name = map_option (fs_data fs) (fs_names fs name)"

definition after_crash :: "fsys \<Rightarrow> string \<Rightarrow> string option \<Rightarrow> bool" where
  "after_crash fs name c \<longleftrightarrow> (\<exists>e \<in> set (fs_past fs name).
     case e of None \<Rightarrow> c = None
     | Some i \<Rightarrow> (\<exists>d. c = Some d \<and> (fs_synced fs i \<longrightarrow> d = fs_data fs i)))"

section \<open>The calls of a save\<close>

text \<open>
  What each call of a save returned: the random part of the temporary file's name, or an error; a
  write may stop half way.
\<close>

record save_outs =
  so_create :: "string result"
  so_write :: write_io
  so_sync :: io
  so_close :: io
  so_rename :: io
  so_open :: io
  so_syncdir :: io
  so_remove :: io

definition tmp_name :: "string \<Rightarrow> string \<Rightarrow> string" where
  "tmp_name path rnd = path @ ''.'' @ rnd @ ''.tmp''"

text \<open>From the write to the directory's sync: the calls that took effect, and the error.\<close>

definition save_into :: "string \<Rightarrow> string \<Rightarrow> nat \<Rightarrow> string \<Rightarrow> save_outs \<Rightarrow> error option \<times> fs_call list" where
  "save_into path tmp i b so =
     (case so_write so of
        WriteFailed n e \<Rightarrow> (Some e, [WriteTo i (take n b)])
      | WriteDone \<Rightarrow>
     (case so_sync so of
        Failed e \<Rightarrow> (Some e, [WriteTo i b])
      | Done \<Rightarrow>
     (case so_close so of
        Failed e \<Rightarrow> (Some e, [WriteTo i b, Fsync i])
      | Done \<Rightarrow>
     (case so_rename so of
        Failed e \<Rightarrow> (Some e, [WriteTo i b, Fsync i])
      | Done \<Rightarrow>
     (case so_open so of
        Failed e \<Rightarrow> (Some e, [WriteTo i b, Fsync i, Rename tmp path])
      | Done \<Rightarrow>
     (case so_syncdir so of
        Failed e \<Rightarrow> (Some e, [WriteTo i b, Fsync i, Rename tmp path])
      | Done \<Rightarrow> (None, [WriteTo i b, Fsync i, Rename tmp path, SyncDir])))))))"

text \<open>\<open>enc\<close> is \<^verbatim>\<open>json.MarshalIndent\<close> of the document, when every time in it can be written.\<close>

type_synonym encoder = "(string \<times> time option) list \<Rightarrow> string"

definition file_save ::
    "string \<Rightarrow> encoder \<Rightarrow> save_outs \<Rightarrow> (string \<times> time) list \<Rightarrow> fsys \<Rightarrow> error option \<times> fs_call list" where
  "file_save path enc so m fs =
     (if \<not> (\<forall>(ns, t) \<in> set m. is_zero t \<or> json_time_ok t)
      then (Some (ErrMsg ''year outside of range [0,9999]''), [])
      else (case so_create so of
          Inl e \<Rightarrow> (Some (Wrap ''namespaces: save'' e), [])
        | Inr rnd \<Rightarrow>
            (case save_into path (tmp_name path rnd) (fs_next fs) (enc (ns_file m) @ [CHR 0x0A]) so of
               (err, cs) \<Rightarrow> (map_option (Wrap ''namespaces: save'') err,
                 Creat (tmp_name path rnd) # cs @
                 (if so_remove so = Done then [Unlink (tmp_name path rnd)] else [])))))"

section \<open>The record over its file\<close>

text \<open>
  The operations of \<^verbatim>\<open>Record\<close>: the map in memory and the file system before, and what they return,
  the map and the calls made.
\<close>

definition rf_Configured ::
    "string \<Rightarrow> encoder \<Rightarrow> save_outs \<Rightarrow> string list \<Rightarrow> (string \<times> time) list \<Rightarrow> fsys
     \<Rightarrow> error option \<times> (string \<times> time) list \<times> fs_call list" where
  "rf_Configured path enc so nss m fs =
     (let m' = foldl (\<lambda>m ns. bk_put ns 0 m) m nss
      in case file_save path enc so m' fs of (e, cs) \<Rightarrow> (e, m', cs))"

definition rf_Dropped ::
    "string \<Rightarrow> encoder \<Rightarrow> save_outs \<Rightarrow> string \<Rightarrow> time \<Rightarrow> (string \<times> time) list \<Rightarrow> fsys
     \<Rightarrow> time result \<times> (string \<times> time) list \<times> fs_call list" where
  "rf_Dropped path enc so ns now m fs =
     (let t = (case map_of m ns of None \<Rightarrow> 0 | Some t \<Rightarrow> t) in
      if \<not> is_zero t then (Inr t, m, [])
      else (case file_save path enc so (bk_put ns now m) fs of
          (Some e, cs) \<Rightarrow> (Inl e, bk_put ns 0 (bk_put ns now m), cs)
        | (None, cs) \<Rightarrow> (Inr now, bk_put ns now m, cs)))"

definition rf_Forget ::
    "string \<Rightarrow> encoder \<Rightarrow> save_outs \<Rightarrow> string \<Rightarrow> (string \<times> time) list \<Rightarrow> fsys
     \<Rightarrow> error option \<times> (string \<times> time) list \<times> fs_call list" where
  "rf_Forget path enc so ns m fs =
     (case map_of m ns of
        None \<Rightarrow> (None, m, [])
      | Some t \<Rightarrow> (case file_save path enc so (bk_delete ns m) fs of
            (Some e, cs) \<Rightarrow> (Some e, bk_put ns t (bk_delete ns m), cs)
          | (None, cs) \<Rightarrow> (None, bk_delete ns m, cs)))"

datatype rf_op = RfConfigured save_outs "string list" | RfDropped save_outs string time | RfForget save_outs string

fun rf_step ::
    "string \<Rightarrow> encoder \<Rightarrow> rf_op \<Rightarrow> (string \<times> time) list \<Rightarrow> fsys \<Rightarrow> bool \<times> (string \<times> time) list \<times> fs_call list" where
  "rf_step path enc (RfConfigured so nss) m fs =
     (case rf_Configured path enc so nss m fs of (e, r) \<Rightarrow> (e = None, r))"
| "rf_step path enc (RfDropped so ns now) m fs =
     (case rf_Dropped path enc so ns now m fs of (x, r) \<Rightarrow> (\<exists>t. x = Inr t, r))"
| "rf_step path enc (RfForget so ns) m fs =
     (case rf_Forget path enc so ns m fs of (e, r) \<Rightarrow> (e = None, r))"

text \<open>A run of operations: the map at the end, and every state the file system passes through.\<close>

abbreviation fs_all :: "fs_call list \<Rightarrow> fsys \<Rightarrow> fsys" where
  "fs_all cs fs \<equiv> foldl (\<lambda>fs c. fs_do c fs) fs cs"

fun rf_run :: "string \<Rightarrow> encoder \<Rightarrow> rf_op list \<Rightarrow> (string \<times> time) list \<Rightarrow> fsys \<Rightarrow> (string \<times> time) list \<times> fsys list" where
  "rf_run path enc [] m fs = (m, [fs])"
| "rf_run path enc (op # ops) m fs =
     (case rf_step path enc op m fs of (ok, m1, cs) \<Rightarrow>
       (case rf_run path enc ops m1 (fs_all cs fs) of (m2, fss) \<Rightarrow> (m2, fs_passed cs fs @ fss)))"

text \<open>\<open>dec\<close> is \<^verbatim>\<open>json.Unmarshal\<close> of the file's bytes.\<close>

definition read_record :: "(string \<Rightarrow> file_read) \<Rightarrow> string option \<Rightarrow> file_read" where
  "read_record dec c = (case c of None \<Rightarrow> NotExist | Some b \<Rightarrow> dec b)"

section \<open>What a crash can leave\<close>

text \<open>Whatever a crash leaves under the path satisfies \<open>P\<close>: every file it may name is synced.\<close>

definition durable :: "string \<Rightarrow> (string option \<Rightarrow> bool) \<Rightarrow> fsys \<Rightarrow> bool" where
  "durable path P fs \<longleftrightarrow> fs_names fs path \<in> set (fs_past fs path) \<and>
     (\<forall>e \<in> set (fs_past fs path). case e of None \<Rightarrow> P None
        | Some i \<Rightarrow> i < fs_next fs \<and> fs_synced fs i \<and> P (Some (fs_data fs i)))"

lemma durable_crash: "durable path P fs \<Longrightarrow> after_crash fs path c \<Longrightarrow> P c"
  by (auto simp: durable_def after_crash_def split: option.splits)

lemma durable_content: "durable path P fs \<Longrightarrow> P (fs_content fs path)"
  by (cases "fs_names fs path") (auto simp: durable_def fs_content_def)

lemma durable_mono: "durable path P fs \<Longrightarrow> (\<And>c. P c \<Longrightarrow> Q c) \<Longrightarrow> durable path Q fs"
  by (auto simp: durable_def split: option.splits)

text \<open>The temporary file of a save under way is no file the path may name.\<close>

definition staged :: "string \<Rightarrow> (string option \<Rightarrow> bool) \<Rightarrow> string \<Rightarrow> nat \<Rightarrow> fsys \<Rightarrow> bool" where
  "staged path P tmp i fs \<longleftrightarrow> durable path P fs \<and> Some i \<notin> set (fs_past fs path) \<and> i < fs_next fs \<and> fs_names fs tmp = Some i"

lemma staged_durable: "staged path P tmp i fs \<Longrightarrow> durable path P fs"
  by (simp add: staged_def)

lemma staged_Creat:
  assumes "durable path P fs" and "tmp \<noteq> path"
  shows "staged path P tmp (fs_next fs) (fs_do (Creat tmp) fs) \<and> fs_data (fs_do (Creat tmp) fs) (fs_next fs) = []"
  using assms by (auto simp: staged_def durable_def fs_link_def less_Suc_eq split: option.splits)

lemma staged_WriteTo: "staged path P tmp i fs \<Longrightarrow> staged path P tmp i (fs_do (WriteTo i b) fs)"
  by (auto simp: staged_def durable_def split: option.splits)

lemma staged_Fsync: "staged path P tmp i fs \<Longrightarrow> staged path P tmp i (fs_do (Fsync i) fs)"
  by (auto simp: staged_def durable_def split: option.splits)

lemma durable_Rename:
  assumes "staged path P tmp i fs" and "tmp \<noteq> path" and "fs_synced fs i" "P (Some (fs_data fs i))"
  shows "durable path P (fs_do (Rename tmp path) fs) \<and> fs_content (fs_do (Rename tmp path) fs) path = Some (fs_data fs i)"
  using assms by (auto simp: staged_def durable_def fs_link_def fs_content_def split: option.splits)

lemma durable_SyncDir:
  "durable path P fs \<Longrightarrow> durable path (\<lambda>c. c = fs_content fs path) (fs_do SyncDir fs)"
  by (auto simp: durable_def fs_content_def split: option.splits)

lemma durable_Unlink: "durable path P fs \<Longrightarrow> tmp \<noteq> path \<Longrightarrow> durable path P (fs_do (Unlink tmp) fs)"
  by (auto simp: durable_def fs_link_def split: option.splits)

lemma content_Unlink: "tmp \<noteq> path \<Longrightarrow> fs_content (fs_do (Unlink tmp) fs) path = fs_content fs path"
  by (simp add: fs_content_def fs_link_def)

lemma tmp_name_path [simp]: "tmp_name path rnd \<noteq> path" "path \<noteq> tmp_name path rnd"
  by (simp_all add: tmp_name_def)

lemma fs_passed_append: "fs_passed (cs @ cs') fs = butlast (fs_passed cs fs) @ fs_passed cs' (fs_all cs fs)"
proof (induction cs arbitrary: fs)
  case (Cons c cs)
  have "fs_passed cs (fs_do c fs) \<noteq> []" by (cases cs) simp_all
  with Cons show ?case by simp
qed simp

lemma fs_passed_last: "fs_all cs fs \<in> set (fs_passed cs fs)"
  by (induction cs arbitrary: fs) auto

lemma save_into_durable:
  assumes "save_into path tmp i b so = (e, cs)" and "staged path P tmp i fs" and "fs_data fs i = []"
    and "tmp \<noteq> path" and "P (Some b)"
  shows "\<forall>f \<in> set (fs_passed cs fs). durable path P f"
    and "e = None \<Longrightarrow> durable path (\<lambda>c. c = Some b) (fs_all cs fs)"
proof -
  note w = staged_WriteTo [OF assms(2)]
  note y = staged_Fsync [OF w]
  have r: "durable path P (fs_do (Rename tmp path) (fs_do (Fsync i) (fs_do (WriteTo i b) fs))) \<and>
      fs_content (fs_do (Rename tmp path) (fs_do (Fsync i) (fs_do (WriteTo i b) fs))) path = Some b"
    using durable_Rename [OF y [of b] assms(4)] assms(3,5) by simp
  note d = staged_durable [OF assms(2)] staged_durable [OF w] staged_durable [OF y] r [THEN conjunct1]
    durable_SyncDir [OF r [THEN conjunct1], unfolded r [THEN conjunct2]]
  have P: "durable path P (fs_do SyncDir (fs_do (Rename tmp path) (fs_do (Fsync i) (fs_do (WriteTo i b) fs))))"
    by (rule durable_mono [OF d(5)]) (use assms(5) in simp)
  show "\<forall>f \<in> set (fs_passed cs fs). durable path P f"
    using assms(1) d P by (auto simp: save_into_def simp del: fs_do.simps split: write_io.splits io.splits)
  show "e = None \<Longrightarrow> durable path (\<lambda>c. c = Some b) (fs_all cs fs)"
    using assms(1) d(5) by (auto simp: save_into_def simp del: fs_do.simps split: write_io.splits io.splits)
qed

lemma passed_Unlink:
  assumes "\<forall>f \<in> set (fs_passed cs fs). durable path P f" and "tmp \<noteq> path"
  shows "\<forall>f \<in> set (fs_passed (cs @ [Unlink tmp]) fs). durable path P f"
proof -
  have "durable path P (fs_all cs fs)" using assms(1) fs_passed_last by blast
  with assms durable_Unlink [OF this assms(2)] show ?thesis
    by (auto simp: fs_passed_append simp del: fs_do.simps dest: in_set_butlastD)
qed

lemma file_save_durable:
  assumes "file_save path enc so m fs = (e, cs)" and "durable path P fs" and "P (Some (enc (ns_file m) @ [CHR 0x0A]))"
  shows "\<forall>f \<in> set (fs_passed cs fs). durable path P f"
    and "e = None \<Longrightarrow> durable path (\<lambda>c. c = Some (enc (ns_file m) @ [CHR 0x0A])) (fs_all cs fs)"
proof -
  let ?b = "enc (ns_file m) @ [CHR 0x0A]"
  have "(\<forall>f \<in> set (fs_passed cs fs). durable path P f) \<and>
      (e = None \<longrightarrow> durable path (\<lambda>c. c = Some ?b) (fs_all cs fs))"
  proof (cases "cs = []")
    case True
    with assms(1,2) show ?thesis by (auto simp: file_save_def split: if_splits sum.splits prod.splits)
  next
    case False
    then obtain rnd err cs' where si: "save_into path (tmp_name path rnd) (fs_next fs) ?b so = (err, cs')"
      and e: "e = map_option (Wrap ''namespaces: save'') err"
      and cs: "cs = Creat (tmp_name path rnd) # cs' @ (if so_remove so = Done then [Unlink (tmp_name path rnd)] else [])"
      using assms(1) by (auto simp: file_save_def split: if_splits sum.splits prod.splits)
    define f1 where "f1 = fs_do (Creat (tmp_name path rnd)) fs"
    have st: "staged path P (tmp_name path rnd) (fs_next fs) f1 \<and> fs_data f1 (fs_next fs) = []"
      unfolding f1_def by (rule staged_Creat [OF assms(2)]) simp
    note into = save_into_durable [OF si st [THEN conjunct1] st [THEN conjunct2] _ assms(3)]
    have "\<forall>f \<in> set (fs_passed (tl cs) f1). durable path P f"
      using into(1) passed_Unlink [OF into(1) tmp_name_path(1)] by (simp add: cs)
    moreover have "e = None \<longrightarrow> durable path (\<lambda>c. c = Some ?b) (fs_all (tl cs) f1)"
      using into(2) durable_Unlink by (auto simp: cs e simp del: fs_do.simps)
    ultimately show ?thesis using assms(2) cs by (simp add: f1_def del: fs_do.simps)
  qed
  then show "\<forall>f \<in> set (fs_passed cs fs). durable path P f"
    and "e = None \<Longrightarrow> durable path (\<lambda>c. c = Some ?b) (fs_all cs fs)" by blast+
qed

section \<open>The record's operations over the file\<close>

text \<open>A save, seen from outside, is one of the three outcomes of theory \<open>LongMemory\<close>.\<close>

definition save_outcome :: "save_outs \<Rightarrow> save_io" where
  "save_outcome so =
     (case so_create so of Inl e \<Rightarrow> SaveFailed e | Inr rnd \<Rightarrow>
     (case so_write so of WriteFailed n e \<Rightarrow> SaveFailed e | WriteDone \<Rightarrow>
     (case so_sync so of Failed e \<Rightarrow> SaveFailed e | Done \<Rightarrow>
     (case so_close so of Failed e \<Rightarrow> SaveFailed e | Done \<Rightarrow>
     (case so_rename so of Failed e \<Rightarrow> SaveFailed e | Done \<Rightarrow>
     (case so_open so of Failed e \<Rightarrow> SaveUnsynced e | Done \<Rightarrow>
     (case so_syncdir so of Failed e \<Rightarrow> SaveUnsynced e | Done \<Rightarrow> SaveDone)))))))"

fun abstract_op :: "rf_op \<Rightarrow> ns_op" where
  "abstract_op (RfConfigured so nss) = NsConfigured (save_outcome so) nss"
| "abstract_op (RfDropped so ns now) = NsDropped (save_outcome so) ns now"
| "abstract_op (RfForget so ns) = NsForget (save_outcome so) ns"

definition on_file :: "string \<Rightarrow> encoder \<Rightarrow> ns_record \<Rightarrow> fsys \<Rightarrow> bool" where
  "on_file path enc r fs \<longleftrightarrow> fs_content fs path = map_option (\<lambda>f. enc f @ [CHR 0x0A]) (nr_disk r) \<and>
     (\<forall>i. fs_names fs path = Some i \<longrightarrow> i < fs_next fs)"

lemma map_option_upd_other [simp]: "x \<noteq> Some i \<Longrightarrow> map_option (f(i := v)) x = map_option f x"
  by (cases x) auto

lemma save_outcome_into:
  assumes "save_into path tmp i b so = (e, cs)"
  shows "save_outcome so = (case so_create so of Inl e \<Rightarrow> SaveFailed e
    | Inr rnd \<Rightarrow> (case e of None \<Rightarrow> SaveDone
        | Some e \<Rightarrow> if Rename tmp path \<in> set cs then SaveUnsynced e else SaveFailed e))"
    and "e = None \<Longrightarrow> Rename tmp path \<in> set cs"
  using assms by (auto simp: save_outcome_def save_into_def split: sum.splits write_io.splits io.splits)

lemma save_into_content:
  assumes "save_into path tmp i b so = (e, cs)" and "fs_names fs tmp = Some i" "tmp \<noteq> path"
    and "fs_names fs path \<noteq> Some i" "fs_data fs i = []"
  shows "fs_content (fs_all cs fs) path = (if Rename tmp path \<in> set cs then Some b else fs_content fs path)"
    and "fs_names (fs_all cs fs) path = (if Rename tmp path \<in> set cs then Some i else fs_names fs path)"
    and "fs_next (fs_all cs fs) = fs_next fs"
  using assms by (auto simp: save_into_def fs_content_def fs_link_def split: write_io.splits io.splits option.splits)

lemma file_save_refines:
  assumes "on_file path enc r fs" and "file_save path enc so (nr_dropped r) fs = (e, cs)"
  shows "\<exists>r'. ns_save (save_outcome so) r = (e, r') \<and> on_file path enc r' (fs_all cs fs)"
proof (cases "cs = []")
  case True
  with assms show ?thesis
    by (auto simp: file_save_def ns_save_def save_outcome_def split: if_splits sum.splits prod.splits)
next
  case False
  let ?b = "enc (ns_file (nr_dropped r)) @ [CHR 0x0A]"
  obtain rnd err cs' where rnd: "so_create so = Inr rnd"
    and si: "save_into path (tmp_name path rnd) (fs_next fs) ?b so = (err, cs')"
    and e: "e = map_option (Wrap ''namespaces: save'') err"
    and cs: "cs = Creat (tmp_name path rnd) # cs' @ (if so_remove so = Done then [Unlink (tmp_name path rnd)] else [])"
    and ok: "\<forall>(ns, t) \<in> set (nr_dropped r). is_zero t \<or> json_time_ok t"
    using assms(2) False by (auto simp: file_save_def split: if_splits sum.splits prod.splits)
  define f1 where "f1 = fs_do (Creat (tmp_name path rnd)) fs"
  define f2 where "f2 = fs_all cs' f1"
  have new: "fs_names fs path \<noteq> Some (fs_next fs)" using assms(1) by (auto simp: on_file_def)
  have f1: "fs_names f1 (tmp_name path rnd) = Some (fs_next fs)" "fs_names f1 path = fs_names fs path"
      "fs_data f1 (fs_next fs) = []" "fs_next f1 = Suc (fs_next fs)" "fs_content f1 path = fs_content fs path"
    using new by (simp_all add: f1_def fs_link_def fs_content_def)
  have "fs_names f1 path \<noteq> Some (fs_next fs)" using new f1(2) by simp
  note into = save_into_content [OF si f1(1) tmp_name_path(1) this f1(3), folded f2_def]
  have "fs_names (fs_all cs fs) path = fs_names f2 path" "fs_content (fs_all cs fs) path = fs_content f2 path"
      "fs_next (fs_all cs fs) = fs_next f2"
    by (simp_all add: cs f1_def [symmetric] f2_def [symmetric] fs_link_def fs_content_def del: fs_do.simps(1))
  with into f1 assms(1) rnd ok e save_outcome_into [OF si] show ?thesis
    by (auto simp: ns_save_def on_file_def less_Suc_eq split: option.splits if_splits)
qed

lemma on_file_dropped [simp]: "on_file path enc (r\<lparr>nr_dropped := m\<rparr>) fs = on_file path enc r fs"
  by (simp add: on_file_def)

text \<open>
  The operations over the file implement those of theory \<open>LongMemory\<close>: each returns what its
  abstract one returns, with the same map, and the file holds the abstract record's disk.
\<close>

theorem record_file_refines:
  assumes "on_file path enc r fs" and "rf_step path enc op (nr_dropped r) fs = (ok, m', cs)"
  shows "\<exists>r'. ns_step r (abstract_op op) = (ok, r') \<and> nr_dropped r' = m' \<and> on_file path enc r' (fs_all cs fs)"
proof -
  have save: "\<exists>r'. ns_save (save_outcome so) (r\<lparr>nr_dropped := m\<rparr>) = (e, r') \<and> nr_dropped r' = m \<and>
      on_file path enc r' (fs_all cs fs)"
    if "file_save path enc so m fs = (e, cs)" for so m e cs
    using file_save_refines [of path enc "r\<lparr>nr_dropped := m\<rparr>" fs so e cs] assms(1) that ns_save_cases(1) by fastforce
  show ?thesis
  proof (cases op)
    case (RfConfigured so nss)
    obtain e where f: "file_save path enc so m' fs = (e, cs)" "ok = (e = None)"
        "m' = foldl (\<lambda>m ns. bk_put ns 0 m) (nr_dropped r) nss"
      using assms(2) RfConfigured by (auto simp: rf_Configured_def Let_def split: prod.splits)
    with save [OF f(1)] RfConfigured show ?thesis by (auto simp: ns_Configured_def)
  next
    case (RfDropped so ns now)
    show ?thesis
    proof (cases "is_zero (ns_lookup r ns)")
      case True
      obtain e where f: "file_save path enc so (bk_put ns now (nr_dropped r)) fs = (e, cs)" "ok = (e = None)"
          "m' = (if e = None then bk_put ns now (nr_dropped r) else bk_put ns 0 (bk_put ns now (nr_dropped r)))"
        using assms(2) RfDropped True by (auto simp: rf_Dropped_def ns_lookup_def Let_def split: prod.splits option.splits)
      with save [OF f(1)] RfDropped True show ?thesis
        by (cases e) (auto simp: ns_Dropped_def)
    next
      case False
      with assms RfDropped show ?thesis by (auto simp: rf_Dropped_def ns_Dropped_def ns_lookup_def Let_def)
    qed
  next
    case (RfForget so ns)
    show ?thesis
    proof (cases "map_of (nr_dropped r) ns")
      case None
      with assms RfForget show ?thesis by (simp add: rf_Forget_def ns_Forget_def)
    next
      case (Some t)
      obtain e where f: "file_save path enc so (bk_delete ns (nr_dropped r)) fs = (e, cs)" "ok = (e = None)"
          "m' = (if e = None then bk_delete ns (nr_dropped r) else bk_put ns t (bk_delete ns (nr_dropped r)))"
        using assms(2) RfForget Some by (auto simp: rf_Forget_def split: prod.splits option.splits)
      with save [OF f(1)] RfForget Some show ?thesis
        by (cases e) (auto simp: ns_Forget_def)
    qed
  qed
qed

section \<open>What is on record survives a crash\<close>

text \<open>The files that hold a record which lists the namespace.\<close>

definition listing :: "encoder \<Rightarrow> string \<Rightarrow> string option \<Rightarrow> bool" where
  "listing enc ns c \<longleftrightarrow> (\<exists>m. bk_wf m \<and> ns \<in> set (map fst m) \<and> c = Some (enc (ns_file m) @ [CHR 0x0A]))"

definition forgets :: "string \<Rightarrow> rf_op \<Rightarrow> bool" where
  "forgets ns op \<longleftrightarrow> (\<exists>so. op = RfForget so ns)"

lemma listing_read:
  assumes "listing enc ns c" and "\<And>f. dec (enc f @ [CHR 0x0A]) = ReadFile f"
  shows "\<exists>m. ns_Open (read_record dec c) = Inr m \<and> ns \<in> set (map fst m)"
  using assms by (auto simp: listing_def read_record_def ns_Open_file)

lemma keys_configured: "set (map fst (foldl (\<lambda>m ns. bk_put ns 0 m) m nss)) = set nss \<union> set (map fst m)"
  by (induction nss arbitrary: m) (auto simp: keys_bk_put simp del: set_map)

lemma keys_bk_delete: "set (map fst (bk_delete k m)) = set (map fst m) - {k}"
  by (auto simp: bk_delete_def)

lemma save_listing:
  assumes "file_save path enc so m fs = (e, cs)" and "durable path (listing enc ns) fs"
    and "bk_wf m" "ns \<in> set (map fst m)"
  shows "\<forall>f \<in> set (fs_passed cs fs). durable path (listing enc ns) f"
  using assms by (intro file_save_durable(1) [OF assms(1,2)]) (auto simp: listing_def)

lemma rf_step_listing:
  assumes "rf_step path enc op m fs = (ok, m', cs)" and "\<not> forgets ns op"
    and "durable path (listing enc ns) fs" and "bk_wf m" "ns \<in> set (map fst m)"
  shows "bk_wf m' \<and> ns \<in> set (map fst m') \<and> (\<forall>f \<in> set (fs_passed cs fs). durable path (listing enc ns) f)"
proof (cases op)
  case (RfConfigured so nss)
  with assms show ?thesis
    by (auto simp: rf_Configured_def Let_def bk_wf_configured keys_configured simp del: set_map
        split: prod.splits intro: save_listing [THEN bspec])
next
  case (RfDropped so n now)
  with assms show ?thesis
    by (auto simp: rf_Dropped_def Let_def keys_bk_put simp del: set_map
        split: prod.splits option.splits if_splits intro: save_listing [THEN bspec])
next
  case (RfForget so n)
  with assms have "n \<noteq> ns" by (auto simp: forgets_def)
  with assms RfForget show ?thesis
    by (auto simp: rf_Forget_def keys_bk_put keys_bk_delete simp del: set_map
        split: prod.splits option.splits intro: save_listing [THEN bspec])
qed

lemma rf_run_listing:
  assumes "rf_run path enc ops m fs = (m', fss)" and "list_all (\<lambda>op. \<not> forgets ns op) ops"
    and "durable path (listing enc ns) fs" and "bk_wf m" "ns \<in> set (map fst m)"
  shows "\<forall>f \<in> set fss. durable path (listing enc ns) f"
  using assms
proof (induction ops arbitrary: m fs fss)
  case (Cons op ops)
  obtain ok m1 cs where st: "rf_step path enc op m fs = (ok, m1, cs)" by (metis prod.exhaust)
  obtain fss' where run: "rf_run path enc ops m1 (fs_all cs fs) = (m', fss')" and fss: "fss = fs_passed cs fs @ fss'"
    using Cons.prems(1) st by (auto split: prod.splits)
  note step = rf_step_listing [OF st _ Cons.prems(3-5)]
  have "\<forall>f \<in> set fss'. durable path (listing enc ns) f"
    using Cons.prems(2) step fs_passed_last by (intro Cons.IH [OF run]) auto
  with step Cons.prems(2) show ?case by (auto simp: fss)
qed simp

text \<open>C8: What is on record survives a crash. Once \<^verbatim>\<open>Configured\<close> has returned without an error for a
  namespace, and until someone forgets it, then whatever else happens to the record (more
  namespaces configured, others dropped or forgotten, any of it failing at any system call),
  and at whatever moment the machine then goes down, the file is there and reads back as a whole
  record that lists the namespace - so erasure and the retention purge still reach it after the
  restart. The record file is only written by saves (before, whatever a crash could leave under its
  name is synced), and the decoder reads back what the encoder wrote.\<close>

theorem configured_survives:
  assumes "\<And>f. dec (enc f @ [CHR 0x0A]) = ReadFile f" and "bk_wf m" and "durable path (\<lambda>_. True) fs"
    and "rf_Configured path enc so nss m fs = (None, m1, cs)" and "ns \<in> set nss"
    and "rf_run path enc ops m1 (fs_all cs fs) = (m2, fss)" and "\<not> (\<exists>op \<in> set ops. forgets ns op)"
    and "f \<in> set fss" and "after_crash f path c"
  shows "\<exists>rec. ns_Open (read_record dec c) = Inr rec \<and> ns \<in> set (map fst rec)"
proof -
  have m1: "m1 = foldl (\<lambda>m ns. bk_put ns 0 m) m nss" and save: "file_save path enc so m1 fs = (None, cs)"
    using assms(4) by (auto simp: rf_Configured_def Let_def split: prod.splits)
  have wf: "bk_wf m1" and key: "ns \<in> set (map fst m1)"
    using assms(2,5) unfolding m1 by (auto simp: bk_wf_configured keys_configured simp del: set_map)
  have "durable path (\<lambda>c. c = Some (enc (ns_file m1) @ [CHR 0x0A])) (fs_all cs fs)"
    using file_save_durable(2) [OF save assms(3)] by simp
  then have "durable path (listing enc ns) (fs_all cs fs)"
    by (rule durable_mono) (use wf key in \<open>auto simp: listing_def\<close>)
  with assms(7) have "\<forall>f \<in> set fss. durable path (listing enc ns) f"
    by (intro rf_run_listing [OF assms(6) _ _ wf key]) (auto simp: list_all_iff)
  then have "listing enc ns c" using assms(8,9) durable_crash by blast
  then show ?thesis by (rule listing_read) (rule assms(1))
qed

section \<open>Witnesses\<close>

text \<open>An encoder that reads back: every number is in unary, every string carries its length.\<close>

definition w_nat :: "nat \<Rightarrow> string" where
  "w_nat n = replicate n (CHR ''1'') @ ''0''"

definition r_nat :: "string \<Rightarrow> nat \<times> string" where
  "r_nat s = (length (takeWhile (\<lambda>c. c = CHR ''1'') s), tl (dropWhile (\<lambda>c. c = CHR ''1'') s))"

definition w_entry :: "string \<times> time option \<Rightarrow> string" where
  "w_entry e = (case e of (s, t) \<Rightarrow> w_nat (length s) @ s @
     (case t of None \<Rightarrow> w_nat 0 | Some t \<Rightarrow> w_nat (if t < 0 then 1 else 2) @ w_nat (nat \<bar>t\<bar>)))"

definition r_entry :: "string \<Rightarrow> (string \<times> time option) \<times> string" where
  "r_entry s = (case r_nat s of (n, s1) \<Rightarrow>
     (case r_nat (drop n s1) of (k, s2) \<Rightarrow>
        if k = 0 then ((take n s1, None), s2)
        else (case r_nat s2 of (a, s3) \<Rightarrow> ((take n s1, Some (if k = 1 then - int a else int a)), s3))))"

fun r_entries :: "nat \<Rightarrow> string \<Rightarrow> (string \<times> time option) list" where
  "r_entries 0 s = []"
| "r_entries (Suc n) s = (case r_entry s of (e, s') \<Rightarrow> e # r_entries n s')"

definition w_doc :: encoder where
  "w_doc es = w_nat (length es) @ concat (map w_entry es)"

definition r_doc :: "string \<Rightarrow> file_read" where
  "r_doc s = (case r_nat s of (n, s') \<Rightarrow> ReadFile (r_entries n s'))"

lemma r_nat_w [simp]: "r_nat (w_nat n @ s) = (n, s)"
  by (induction n) (simp_all add: r_nat_def w_nat_def)

lemma r_entry_w [simp]: "r_entry (w_entry e @ s) = (e, s)"
  by (cases e) (simp add: r_entry_def w_entry_def split: option.splits)

lemma r_entries_w: "r_entries (length es) (concat (map w_entry es) @ s) = es"
  by (induction es) simp_all

lemma r_doc_w: "r_doc (w_doc es @ s) = ReadFile es"
  by (simp add: r_doc_def w_doc_def r_entries_w)

definition all_done :: save_outs where
  "all_done = \<lparr>so_create = Inr ''7'', so_write = WriteDone, so_sync = Done, so_close = Done, so_rename = Done,
     so_open = Done, so_syncdir = Done, so_remove = Failed (ErrMsg ''no such file'')\<rparr>"

definition empty_fs :: fsys where
  "empty_fs = \<lparr>fs_names = Map.empty, fs_past = (\<lambda>_. [None]), fs_data = (\<lambda>_. []), fs_synced = (\<lambda>_. False), fs_next = 0\<rparr>"

lemma empty_fs_durable: "durable path (\<lambda>_. True) empty_fs"
  by (simp add: durable_def empty_fs_def)

text \<open>
  A namespace is configured; a second save gets as far as the rename, its directory sync fails,
  and the crash leaves the first file.
\<close>

theorem configured_survives_witness:
  "\<exists>m1 cs m2 fss f. rf_Configured ''r'' w_doc all_done [''a''] [] empty_fs = (None, m1, cs) \<and>
     rf_run ''r'' w_doc [RfConfigured (all_done\<lparr>so_syncdir := Failed (ErrMsg ''io'')\<rparr>) [''b'']] m1 (fs_all cs empty_fs) = (m2, fss) \<and>
     f \<in> set fss \<and> fs_content f ''r'' \<noteq> Some (w_doc [(''a'', None)] @ [CHR 0x0A]) \<and>
     after_crash f ''r'' (Some (w_doc [(''a'', None)] @ [CHR 0x0A])) \<and>
     (\<exists>rec. ns_Open (read_record r_doc (Some (w_doc [(''a'', None)] @ [CHR 0x0A]))) = Inr rec \<and> ''a'' \<in> set (map fst rec))"
proof -
  let ?c = "w_doc [(''a'', None)] @ [CHR 0x0A]"
  let ?op = "RfConfigured (all_done\<lparr>so_syncdir := Failed (ErrMsg ''io'')\<rparr>) [''b'']"
  obtain e m1 cs where one: "rf_Configured ''r'' w_doc all_done [''a''] [] empty_fs = (e, m1, cs)" by (metis prod.exhaust)
  obtain m2 fss where run: "rf_run ''r'' w_doc [?op] m1 (fs_all cs empty_fs) = (m2, fss)" by (metis prod.exhaust)
  note defs = rf_Configured_def file_save_def save_into_def all_done_def empty_fs_def tmp_name_def ns_file_def
    is_zero_def fs_link_def
  have one': "e = None" "m1 = [(''a'', 0)]" "cs = [Creat ''r.7.tmp'', WriteTo 0 ?c, Fsync 0, Rename ''r.7.tmp'' ''r'', SyncDir]"
    using one by (auto simp: defs)
  let ?f = "last fss"
  have f: "?f \<in> set fss" "fs_content ?f ''r'' = Some (w_doc [(''a'', None), (''b'', None)] @ [CHR 0x0A])"
      "after_crash ?f ''r'' (Some ?c)"
    using run by (auto simp: one' defs less_char_def fs_content_def after_crash_def)
  have "\<exists>rec. ns_Open (read_record r_doc (Some ?c)) = Inr rec \<and> ''a'' \<in> set (map fst rec)"
    by (rule configured_survives [OF r_doc_w _ empty_fs_durable one [unfolded one'(1)] _ run _ f(1,3)])
      (simp_all add: forgets_def)
  moreover have "w_doc [(''a'', None), (''b'', None)] \<noteq> w_doc [(''a'', None)]"
    by (simp add: w_doc_def w_nat_def)
  ultimately show ?thesis using one one'(1) run f by auto
qed

theorem record_file_refines_witness:
  "\<exists>cs r'. rf_step ''r'' w_doc (RfConfigured all_done [''a'']) [] empty_fs = (True, [(''a'', 0)], cs) \<and>
     nr_disk r' = Some [(''a'', None)] \<and> on_file ''r'' w_doc r' (fs_all cs empty_fs)"
proof -
  let ?r = "\<lparr>nr_dropped = [], nr_disk = None\<rparr>"
  obtain ok m cs where st: "rf_step ''r'' w_doc (RfConfigured all_done [''a'']) (nr_dropped ?r) empty_fs = (ok, m, cs)"
    by (metis prod.exhaust)
  have m: "ok" "m = [(''a'', 0)]"
    using st by (auto simp: rf_Configured_def file_save_def save_into_def all_done_def is_zero_def Let_def)
  have "on_file ''r'' w_doc ?r empty_fs" by (simp add: on_file_def fs_content_def empty_fs_def)
  from record_file_refines [OF this st] obtain r' where
    r': "ns_step ?r (NsConfigured (save_outcome all_done) [''a'']) = (ok, r')" "on_file ''r'' w_doc r' (fs_all cs empty_fs)"
    by auto
  then have "nr_disk r' = Some [(''a'', None)]"
    by (auto simp: ns_Configured_def ns_save_def save_outcome_def all_done_def is_zero_def ns_file_def)
  with st m r'(2) show ?thesis by auto
qed

end
