(* ===== verification/Served.thy ===== *)
theory Served
  imports Serve Handler_Props Telegram_Props TelegramFormat TelegramRun
begin

text \<open>
  The bot as \<^verbatim>\<open>ServeCmd.Run\<close> leaves it running: the adapter it makes, the handler over the engine and the
  verbs it wires, and what an update, a reindex (SIGHUP) or a sweep of tokens does to the state they share.
  An update is handled here from its arrival to its last call before the next one; what interleaves
  inside is the subject of \<open>Withdrawal\<close> and of the fleet of \<open>AnswerRun\<close>.
\<close>

section \<open>What runs\<close>

text \<open>\<^verbatim>\<open>telegram.New\<close> with the configuration of \<^verbatim>\<open>serve\<close>; \<open>tok\<close> is the token of the environment.\<close>

definition served_adapter :: "string \<Rightarrow> (rune \<Rightarrow> rune) \<Rightarrow> ('v, 'l, 'x, 'st, 'm) served \<Rightarrow> adapter" where
  "served_adapter tok folds sd =
     \<lparr>ad_Token = tok, ad_AllowedGroups = sd_groups sd, ad_AllowedTopics = sd_topics sd, ad_callbacks = True,
      ad_running = False, ad_botID = 0, ad_botUsername = [], ad_fold = folds\<rparr>"

type_synonym ('v, 'l, 'x) served_env = "('v, 'l) kb \<times> (budget_db, 'x) model_world"
type_synonym ('v, 'l, 'x, 'st, 'm) served_world = "(('v, 'l, 'x) served_env, 'st, 'm) world"

definition served_handler ::
    "unicode \<Rightarrow> ('v, 'l, 'x, 'st, 'm) served \<Rightarrow> happened \<Rightarrow> inbound \<Rightarrow> ('v, 'l, 'x, 'st, 'm) served_world
     \<Rightarrow> reply result \<times> ('v, 'l, 'x, 'st, 'm) served_world" where
  "served_handler uc sd hp =
     handle uc (an_engine (sd_answering sd) (sd_registry sd))
       (Some (DefaultRegistry (hp_io hp IoVerb) (po_Texts (sd_policy sd) ''consent_granted''))) hp (sd_policy sd)"

text \<open>
  The state as the transport starts: the rows, tokens and memory that are on disk, and the meter just
  loaded from the budget store \<open>b\<close>.
\<close>

definition served_start ::
    "('v, 'l, 'x, 'st, 'm) served \<Rightarrow> acl_db \<Rightarrow> pend_record bucket \<Rightarrow> ns_record \<Rightarrow> budget_db \<Rightarrow> 'x \<Rightarrow> 'm
     \<Rightarrow> ('v, 'l, 'x, 'st, 'm) served_world" where
  "served_start sd rows tokens ns b x mem =
     \<lparr>w_gate = sd_gate sd, w_acl = rows, w_buf = sd_buffer sd,
      w_qlog = (if sd_quarantine sd then Some [] else None), w_tlog = (if sd_transcript sd then Some [] else None),
      w_pend = Some \<lparr>pb_db = tokens, pb_ttl = sd_callbackTTL sd\<rparr>, w_lm = sd_memory sd, w_ns = ns,
      w_env = (an_kbStore (sd_answering sd), \<lparr>mw_meter = sd_meter sd, mw_store = b, mw_calls = 0, mw_world = x\<rparr>),
      w_mem = mem\<rparr>"

section \<open>What comes in\<close>

text \<open>
  What happens while one update is handled: at the handler's own calls, at the sends, and at each token a
  reply's buttons draw. The libraries of the adapter: the printing of errors, Unicode, the Markdown
  parser and the HTML tokenizer.
\<close>

record turn =
  tn_happened :: happened
  tn_out :: "attempt \<Rightarrow> api_out"
  tn_puts :: "nat \<Rightarrow> string result \<times> time \<times> io"

record formats =
  fm_show :: "error \<Rightarrow> string"
  fm_uc :: unicode
  fm_parse :: "string \<Rightarrow> md"
  fm_tokens :: "string \<Rightarrow> html_token list"

datatype ('v, 'l) served_event =
    Message tg_message turn
  | Click tg_click turn
  | Hangup "('v, 'l) setup_env"
  | Sweep time io

definition put_pending ::
    "(nat \<Rightarrow> string result \<times> time \<times> io) \<Rightarrow> action \<Rightarrow> ('e, 'st, 'm) world \<times> nat \<Rightarrow> string result \<times> ('e, 'st, 'm) world \<times> nat" where
  "put_pending puts act wn =
     (case wn of (w, n) \<Rightarrow>
     (case w_pend w of None \<Rightarrow> (Inl (ErrMsg ''telegram: no callback store''), w, n)
      | Some s \<Rightarrow> (case puts n of (token, now, io) \<Rightarrow>
          (case pbolt_Put token now io s act of (r, s') \<Rightarrow> (r, w\<lparr>w_pend := Some s'\<rparr>, Suc n)))))"

definition counting :: "(inbound \<Rightarrow> 'w \<Rightarrow> reply result \<times> 'w) \<Rightarrow> inbound \<Rightarrow> 'w \<times> nat \<Rightarrow> reply result \<times> 'w \<times> nat" where
  "counting h inb wn = (case h inb (fst wn) of (r, w') \<Rightarrow> (r, w', snd wn))"

text \<open>A panic ends the process: \<open>None\<close>.\<close>

fun served_step ::
    "formats \<Rightarrow> serve_cmd \<Rightarrow> adapter \<Rightarrow> ('v, 'l, 'x, 'st, 'm) served \<Rightarrow> ('v, 'l) served_event
     \<Rightarrow> ('v, 'l, 'x, 'st, 'm) served_world \<Rightarrow> (tg_call list \<times> ('v, 'l, 'x, 'st, 'm) served_world) option" where
  "served_step fm c a sd (Message m tn) w =
     map_option (\<lambda>(calls, w', n). (calls, w'))
       (dispatch_message (fm_show fm) (\<lambda>s. toTelegramHTML (fm_uc fm) (fm_parse fm s)) (\<lambda>h. plainFromHTML (fm_tokens fm h))
          (put_pending (tn_puts tn)) (counting (served_handler (fm_uc fm) sd (tn_happened tn))) a (tn_out tn) m (w, 0))"
| "served_step fm c a sd (Click cq tn) w =
     Some (handleCallback (served_handler (fm_uc fm) sd (tn_happened tn)) a cq w)"
| "served_step fm c a sd (Hangup env) w =
     Some ([], w\<lparr>w_env := (snd (reindex env c (fst (w_env w))), snd (w_env w))\<rparr>)"
| "served_step fm c a sd (Sweep now io) w =
     Some ([], w\<lparr>w_pend := map_option (\<lambda>s. snd (pbolt_Sweep now io s)) (w_pend w)\<rparr>)"

fun served_events ::
    "formats \<Rightarrow> serve_cmd \<Rightarrow> adapter \<Rightarrow> ('v, 'l, 'x, 'st, 'm) served \<Rightarrow> ('v, 'l) served_event list
     \<Rightarrow> ('v, 'l, 'x, 'st, 'm) served_world \<Rightarrow> (tg_call list \<times> ('v, 'l, 'x, 'st, 'm) served_world) option" where
  "served_events fm c a sd [] w = Some ([], w)"
| "served_events fm c a sd (ev # evs) w =
     (case served_step fm c a sd ev w of None \<Rightarrow> None
      | Some (calls, w') \<Rightarrow> map_option (\<lambda>(calls', w''). (calls @ calls', w'')) (served_events fm c a sd evs w'))"

section \<open>What an update does to the engine's environment\<close>

lemma Answer_env:
  assumes "\<And>s u. snd (e_retriever e s u) = u" and "Answer e mo mo' now ce q (env, mem) = (r, env', mem')"
  shows "env' = env \<or> (\<exists>req out. e_run e req env = (out, env'))"
proof -
  obtain x env1 where ret: "e_retriever e (fst (retrievalQuery q)) env = (x, env1)" by (metis prod.exhaust)
  then have "env1 = env" using assms(1) by (metis snd_conv)
  moreover have "env' = env1 \<or> (\<exists>req out. e_run e req env1 = (out, env'))"
    using assms(2) ret
    by (cases x) (auto simp: Answer_def Let_def split: prod.splits run_outcome.splits if_splits option.splits)
  ultimately show ?thesis by simp
qed

lemma answer_env:
  assumes "\<And>s u. snd (e_retriever e s u) = u" and "answer e hp strs inb h rem wd w = (r, w')"
  shows "w_env w' = w_env w \<or> (\<exists>req out. e_run e req (w_env w) = (out, w_env w'))"
proof -
  let ?q = "\<lparr>q_User = in_User inb, q_Surface = in_Surface inb, q_Text = in_Text inb, q_History = h,
    q_ReplyContext = replyContextOf inb, q_Chat = in_ReplyTo inb, q_Remember = rem, q_Withdrawals = wd\<rparr>"
  obtain x env' mem' where a: "Answer e (w_lm w) (w_lm w) (hp_clk hp ClkMemory) (hp_ctx_err hp) ?q (w_env w, w_mem w) = (x, env', mem')"
    by (metis prod.exhaust)
  then have "w_env w' = env'" using assms(2) by (cases x) (auto simp: answer_def)
  then show ?thesis using Answer_env [OF assms(1) a] by simp
qed

lemma answerRemembering_env:
  assumes "\<And>s u. snd (e_retriever e s u) = u" and "answerRemembering uc e hp po inb rem wd w = (r, w')"
  shows "w_env w' = w_env w \<or> (\<exists>req out. e_run e req (w_env w) = (out, w_env w'))"
proof (rule answerRemembering_cases [OF assms(2)])
  fix w2 b
  assume a: "answer e hp (po_Texts po) inb
      (selectHistory uc (hp_clk hp ClkSelect) (w_buf w) inb (po_Inject po) (po_FollowupWindow po)) rem wd
      (w\<lparr>w_buf := rememberUser (hp_clk hp ClkUserTurn) (w_buf w) inb\<rparr>) = (r, w2)" and w': "w' = w2\<lparr>w_buf := b\<rparr>"
  show ?thesis using answer_env [OF assms(1) a] by (simp add: w')
qed

lemma log_env [simp]: "w_env (logTranscriptBot hp inb x w) = w_env w" "w_env (logTranscriptSystem hp inb x w) = w_env w"
  by (simp_all add: logTranscriptBot_def logTranscriptSystem_def)

lemma act_env:
  assumes "\<And>s u. snd (e_retriever e s u) = u" and "act_on_decision uc e hp po inb wd d w = (r, w')"
  shows "w_env w' = w_env w \<or> (\<exists>req out. e_run e req (w_env w) = (out, w_env w'))"
proof (cases "d = DecideServe")
  case True
  obtain r2 w2 where a: "answerRemembering uc e hp po inb (in_Surface inb = SurfaceGroup) wd
      (logTranscriptHuman hp inb (logServed hp inb w)) = (r2, w2)" by (metis prod.exhaust)
  have "w_env w' = w_env w2" using assms(2) a True by (auto simp: act_on_decision_def Let_def split: sum.splits if_splits)
  then show ?thesis using answerRemembering_env [OF assms(1) a] by simp
next
  case False
  then show ?thesis using assms(2) by (cases d) (auto simp: act_on_decision_def Let_def)
qed

lemma dm_env: "w_env (snd (dmConsentFlow hp po inb w)) = w_env w"
  by (auto simp: dmConsentFlow_def Let_def split: prod.splits sum.splits option.splits)

lemma handle_env:
  assumes "\<And>s u. snd (e_retriever e s u) = u" and "handle uc e reg hp po inb w = (r, w')"
  shows "w_env w' = w_env w \<or> (\<exists>req out. e_run e req (w_env w) = (out, w_env w'))"
proof (cases "to_gate po inb")
  case True
  obtain d eo g' b' where c: "gate_check hp inb w = ((d, eo), g', b')" by (metis prod.exhaust)
  let ?w = "w\<lparr>w_gate := g', w_acl := b'\<rparr>"
  show ?thesis
  proof (cases eo)
    case None
    then have "act_on_decision uc e hp po inb (admitted_withdrawals po inb w) d ?w = (r, w')"
      using handle_gate [OF True c, of uc e reg] assms(2) by simp
    from act_env [OF assms(1) this] show ?thesis by simp
  next
    case (Some err)
    then show ?thesis using handle_gate [OF True c, of uc e reg] assms(2) by auto
  qed
next
  case False
  then show ?thesis
    using assms(2) answerRemembering_env [OF assms(1)] dm_env [of hp po inb w]
    by (cases "in_Callback inb") (auto simp: handle_def to_gate_def split: prod.splits if_splits)
qed

section \<open>Every answer is a run of the fleet\<close>

text \<open>A fleet of one slot, between two questions, over the meter and the store of the world \<open>w\<close>.\<close>

definition alone :: "run_outcome \<Rightarrow> ('s, 'x) model_world \<Rightarrow> ('q, 's) fleet" where
  "alone out w = \<lparr>fl_meter = mw_meter w, fl_store = mw_store w, fl_slots = [Thinking (AgentEnds out)]\<rparr>"

text \<open>A tool that was not advertised answers with an error.\<close>

definition closed_tools :: "tool_def list \<Rightarrow> 'q fleet_event list \<Rightarrow> bool" where
  "closed_tools defs tr \<longleftrightarrow> (\<forall>i name args r. ToolCalled i name args r \<in> set tr \<longrightarrow> name \<notin> td_Name ` set defs \<longrightarrow>
     r = Inl (ErrMsg ''unknown tool''))"

lemma closed_tools_simps [simp]: "closed_tools defs []" "closed_tools defs (tr @ tr') \<longleftrightarrow> closed_tools defs tr \<and> closed_tools defs tr'"
  by (auto simp: closed_tools_def)

lemma wired_tools_unknown:
  assumes "name \<notin> td_Name ` set (advertised (ou_tools ou) (sv_StoreDimensions c) (sv_StoreOrderable c) reg)"
  shows "fst (wired_tools env ou c reg kb name args w) = Inl (ErrMsg ''unknown tool'')"
  using assms by (simp add: wired_tools_def call_tool_def Let_def at_Call_unknown toolset_defs)

lemma wired_run_alone:
  fixes ou :: "('x, 'st, 'm, 'q) outside"
  and save :: "(io, 's) saver"
  assumes "wired_run env ou save counted chat c reg req (kb, w) = (out, kb', w')"
  shows "kb' = kb \<and> (\<exists>tr :: 'q fleet_event list. fleet_run save (native_response (ou_decode ou) (ou_marshal ou)) (alone out0 w) tr (alone out w') \<and>
    closed_tools (advertised (ou_tools ou) (sv_StoreDimensions c) (sv_StoreOrderable c) reg) tr)"
proof -
  let ?md = "wired_model ou save counted chat" and ?call = "wired_tools env ou c reg kb :: string \<Rightarrow> string \<Rightarrow> ('s, 'x) model_world \<Rightarrow> string result \<times> ('s, 'x) model_world" and ?run = "ou_agent ou req"
  have ex: "agent_exec ?run (ask_model ?md) ?call w = (out, w')" and kb: "kb' = kb"
    using assms by (auto simp: wired_run_def split: prod.splits)
  let ?st = "put_slot 0 ?run (alone out0 w) :: ('q, 's) fleet"
  have at: "at_world ?st w = ?st" "put_slot 0 (AgentEnds out) (at_world ?st w') = alone out w'"
    by (simp_all add: at_world_def put_slot_def alone_def)
  have k: "keeps_model ?call" using call_tool_keeps by (simp add: wired_tools_def)
  have l: "0 < length (fl_slots ?st)" "fl_slots ?st ! 0 = Thinking ?run" by (simp_all add: alone_def)
  have "\<exists>tr. fleet_run (md_save ?md) (native_response (md_decode ?md) (md_marshal ?md)) (at_world ?st w) tr
      (put_slot 0 (AgentEnds out) (at_world ?st w')) \<and> mw_calls w' = mw_calls w + (if md_counted ?md then calls_in tr else 0) \<and>
      (\<forall>j name args r. ToolCalled j name args r \<in> set tr \<longrightarrow> (\<exists>u. r = fst (?call name args u)))"
    by (rule exec_run [OF ex l k])
  then obtain tr where tr: "fleet_run save (native_response (ou_decode ou) (ou_marshal ou)) ?st tr (alone out w')"
      "\<forall>j name args r. ToolCalled j name args r \<in> set tr \<longrightarrow> (\<exists>u. r = fst (?call name args u))"
    unfolding at by (auto simp: wired_model_def)
  have "fleet_step save (native_response (ou_decode ou) (ou_marshal ou)) (alone out0 w) (Began 0) ?st"
    by (rule fleet_step.start) (simp_all add: alone_def)
  then have "fleet_run save (native_response (ou_decode ou) (ou_marshal ou)) (alone out0 w) (Began 0 # tr) (alone out w')"
    using tr(1) by (rule fleet_run.step)
  moreover have "closed_tools (advertised (ou_tools ou) (sv_StoreDimensions c) (sv_StoreOrderable c) reg) (Began 0 # tr)"
    using tr(2) wired_tools_unknown [of _ ou c reg env kb] by (fastforce simp: closed_tools_def)
  ultimately show ?thesis using kb by blast
qed

lemma mint_keeps: "(\<And>act s. f (snd (put act s)) = f s) \<Longrightarrow> f (snd (mint_tokens put acts s)) = f s"
  by (induction put acts s rule: mint_tokens.induct) (auto split: prod.splits sum.splits, (metis snd_conv)+)

lemma sendTo_keeps:
  assumes "\<And>act s. f (snd (put act s)) = f s"
  shows "f (snd (snd (sendTo show_error html plainOf put a out chat thread r s))) = f s"
proof -
  have "f (snd (renderActions a put acts s)) = f s" for acts
    using mint_keeps [of f put, OF assms] by (simp add: renderActions_def)
  then show ?thesis
    by (auto simp: sendTo_def Let_def split: prod.splits sum.splits) (metis snd_conv)+
qed

lemma sendTo_no_actions:
  assumes "r_Actions r = []" "sendTo show_error html plainOf put a out chat thread r s = (e, sends, s')"
  shows "s' = s" "\<And>x p. (x, p) \<in> set sends \<Longrightarrow> sp_chat p = chat \<and> sp_thread p = thread \<and> sp_keyboard p = None" "length sends \<le> 3"
  using assms
  by (auto simp: sendTo_def try_send_def Let_def split: if_splits api_out.splits)

lemma put_pending_keeps: "w_env (fst (snd (put_pending puts act s))) = w_env (fst s)"
  by (auto simp: put_pending_def split: prod.splits option.splits)

lemma counting_run: "counting h inb (w, n) = (r, w', n') \<longleftrightarrow> h inb w = (r, w') \<and> n' = n"
  by (auto simp: counting_def split: prod.splits)

text \<open>One event leaves the model's side of the environment alone, or runs the engine's loop once on it.\<close>

lemma served_step_env:
  assumes "served_step fm c a sd ev w = Some (calls, w')"
    and "\<And>s u. snd (e_retriever (an_engine (sd_answering sd) (sd_registry sd)) s u) = u"
  shows "snd (w_env w') = snd (w_env w) \<or>
    (\<exists>req out. e_run (an_engine (sd_answering sd) (sd_registry sd)) req (w_env w) = (out, w_env w'))"
proof (cases ev)
  case (Message m tn)
  then obtain n where d: "dispatch_message (fm_show fm) (\<lambda>s. toTelegramHTML (fm_uc fm) (fm_parse fm s)) (\<lambda>h. plainFromHTML (fm_tokens fm h))
      (put_pending (tn_puts tn)) (counting (served_handler (fm_uc fm) sd (tn_happened tn))) a (tn_out tn) m (w, 0) = Some (calls, w', n)"
    using assms(1) by auto
  show ?thesis
  proof (cases "toInbound a m = Some None")
    case True
    then show ?thesis using d by (simp add: dispatch_message_def)
  next
    case False
    then obtain i where i: "toInbound a m = Some (Some i)" using d by (auto simp: dispatch_message_def)
    obtain r w1 where h: "served_handler (fm_uc fm) sd (tn_happened tn) i w = (r, w1)" by fastforce
    have "w_env w' = w_env w1"
    proof (cases r)
      case (Inl e)
      then show ?thesis using d i h by (simp add: dispatch_message_def counting_def)
    next
      case (Inr rep)
      let ?send = "sendTo (fm_show fm) (\<lambda>s. toTelegramHTML (fm_uc fm) (fm_parse fm s)) (\<lambda>h. plainFromHTML (fm_tokens fm h))
          (put_pending (tn_puts tn)) a (tn_out tn) (tc_ID (tm_Chat m)) (tm_MessageThreadID m) rep (w1, 0)"
      have "snd (snd ?send) = (w', n)"
        using d i h Inr by (auto simp: dispatch_message_def counting_def split: prod.splits)
      then show ?thesis
        using sendTo_keeps [of "\<lambda>s. w_env (fst s)" "put_pending (tn_puts tn)", OF put_pending_keeps] by (metis fst_conv)
    qed
    then show ?thesis using handle_env [OF assms(2)] h by (fastforce simp: served_handler_def)
  qed
next
  case (Click cq tn)
  show ?thesis
  proof (cases "toCallbackInbound a cq")
    case None
    then show ?thesis using assms(1) Click by (simp add: handleCallback_def)
  next
    case (Some i)
    obtain r w1 where h: "served_handler (fm_uc fm) sd (tn_happened tn) i w = (r, w1)" by fastforce
    then have "w' = w1" using assms(1) Click Some by (auto simp: handleCallback_def Let_def split: sum.splits)
    then show ?thesis using handle_env [OF assms(2)] h by (fastforce simp: served_handler_def)
  qed
qed (use assms(1) in auto)

lemma served_step_alone:
  fixes ou :: "('x, 'st, 'm, 'q) outside"
  assumes "served_step fm c' ad sd ev w = Some (calls, w')"
    and "buildAnswering env ou save counted c = Inr (sd_answering sd)"
  shows "\<exists>out (tr :: 'q fleet_event list). fleet_run save (native_response (ou_decode ou) (ou_marshal ou)) (alone out0 (snd (w_env w))) tr (alone out (snd (w_env w'))) \<and>
    closed_tools (advertised (ou_tools ou) (sv_StoreDimensions c) (sv_StoreOrderable c) (sd_registry sd)) tr"
proof (rule built_engine [OF assms(2)])
  fix chat
  assume run: "\<And>reg. e_run (an_engine (sd_answering sd) reg) = wired_run env ou save counted chat c reg"
    and ret: "\<And>reg s u. snd (e_retriever (an_engine (sd_answering sd) reg) s u) = u"
  from served_step_env [OF assms(1) ret] show ?thesis
  proof (elim disjE exE)
    assume "snd (w_env w') = snd (w_env w)"
    then show ?thesis by (intro exI [of _ out0] exI [of _ "[]"]) simp
  next
    fix req out
    assume "e_run (an_engine (sd_answering sd) (sd_registry sd)) req (w_env w) = (out, w_env w')"
    then have "wired_run env ou save counted chat c (sd_registry sd) req (fst (w_env w), snd (w_env w)) = (out, fst (w_env w'), snd (w_env w'))"
      by (simp add: run)
    from wired_run_alone [OF this, of out0] show ?thesis by blast
  qed
qed

lemma served_events_alone:
  fixes ou :: "('x, 'st, 'm, 'q) outside"
  assumes "served_events fm c' ad sd evs w = Some (calls, w')"
    and "buildAnswering env ou save counted c = Inr (sd_answering sd)"
  shows "\<exists>out (tr :: 'q fleet_event list). fleet_run save (native_response (ou_decode ou) (ou_marshal ou)) (alone out0 (snd (w_env w))) tr (alone out (snd (w_env w'))) \<and>
    closed_tools (advertised (ou_tools ou) (sv_StoreDimensions c) (sv_StoreOrderable c) (sd_registry sd)) tr"
  using assms(1)
proof (induction evs arbitrary: w calls out0)
  case Nil
  then show ?case by (intro exI [of _ out0] exI [of _ "[]"]) simp
next
  case (Cons ev evs)
  obtain calls1 w1 where one: "served_step fm c' ad sd ev w = Some (calls1, w1)" using Cons.prems by (auto split: option.splits)
  then obtain calls2 where rest: "served_events fm c' ad sd evs w1 = Some (calls2, w')" using Cons.prems by auto
  obtain out1 and tr1 :: "'q fleet_event list" where "fleet_run save (native_response (ou_decode ou) (ou_marshal ou)) (alone out0 (snd (w_env w))) tr1 (alone out1 (snd (w_env w1)))"
      "closed_tools (advertised (ou_tools ou) (sv_StoreDimensions c) (sv_StoreOrderable c) (sd_registry sd)) tr1"
    using served_step_alone [OF one assms(2), of out0] by blast
  moreover obtain out and tr2 :: "'q fleet_event list" where "fleet_run save (native_response (ou_decode ou) (ou_marshal ou)) (alone out1 (snd (w_env w1))) tr2 (alone out (snd (w_env w')))"
      "closed_tools (advertised (ou_tools ou) (sv_StoreDimensions c) (sv_StoreOrderable c) (sd_registry sd)) tr2"
    using Cons.IH [OF rest, of out1] by blast
  ultimately show ?case by (intro exI [of _ out] exI [of _ "tr1 @ tr2"]) (auto simp: fleet_run_append)
qed

end
