(* ===== verification/Served_Props.thy ===== *)
theory Served_Props
  imports Served
begin

text \<open>
  What holds of the whole bot, from the flags to the calls on the platform: who is not heard, and what the
  answers of everything it was sent cost.
\<close>

section \<open>What is served comes from the flags\<close>

lemma served_from:
  assumes "Serving sd \<in> set (snd (serve_run delete base env c))"
  obtains lm meter a reg topics where "fst (buildLongMemory (ve_memory env) (ve_now env) c) = Inr lm"
    "meter_New budget_load (ve_load env) (ve_now env) \<lparr>bc_Ceiling = sv_SpendCeiling c, bc_Period = sv_SpendPeriod c\<rparr>
      (Some (ve_bucket env)) = Inr meter"
    "buildAnswering (ve_setup env) (ve_outside env) budget_save False c = Inr a"
    "connect_servers (ve_dial env) a = (None, reg)"
    "parseTopicAllowList (sv_TelegramAllowedTopics c) = Inr topics"
    "sd = build_served delete base (ve_reactions env) c lm meter a reg topics"
  using run_served [OF assms] that by blast

lemma tg_Run_adapter:
  assumes "tg_Run show_error ts a = (e, a', starts)"
  shows "ad_AllowedGroups a' = ad_AllowedGroups a" "ad_AllowedTopics a' = ad_AllowedTopics a"
  using assms by (auto simp: tg_Run_def Let_def split: option.splits sum.splits if_splits)

section \<open>Who is not heard\<close>

lemma toInbound_elsewhere:
  assumes "tc_Type (tm_Chat m) \<noteq> ChatPrivate"
    and "itoa (tc_ID (tm_Chat m)) \<notin> set (ad_AllowedGroups a) \<or>
      (\<exists>ts. ad_AllowedTopics a (tc_ID (tm_Chat m)) = Some ts \<and> tm_MessageThreadID m \<notin> set ts)"
  shows "toInbound a m = Some None"
  using assms
  by (cases "tc_Type (tm_Chat m)") (auto simp: toInbound_def surfaceFor_def groupAllowed_def topicAllowed_def split: option.splits)

lemma toInbound_group:
  assumes "toInbound a m = Some (Some inb)" "tm_From m = Some u" "tc_Type (tm_Chat m) \<noteq> ChatPrivate"
  shows "in_User inb = userOf u" "in_Callback inb = None" "in_Surface inb = SurfaceGroup"
  using assms by (cases "tc_Type (tm_Chat m)"; auto simp: toInbound_def surfaceFor_def split: if_splits)+

definition said_here :: "tg_message \<Rightarrow> tg_call \<Rightarrow> bool" where
  "said_here m call \<longleftrightarrow> (case call of
       CallSend p \<Rightarrow> sp_chat p = tc_ID (tm_Chat m) \<and> sp_thread p = tm_MessageThreadID m \<and> sp_keyboard p = None
     | CallReact chat msg emoji \<Rightarrow> chat = tc_ID (tm_Chat m) \<and> msg = tm_ID m
     | _ \<Rightarrow> False)"

lemma unconsented_quiet: "r \<in> {nudgeReply n t, empty_reply\<lparr>r_Silent := True\<rparr>, refuse_reply t} \<Longrightarrow> r_Actions r = []"
  by (auto simp: nudgeReply_def refuse_reply_def text_reply_def empty_reply_def Let_def)


text \<open>A bot on the demonstration's flags, asked in its listed group by someone it has no row for.\<close>

definition group_message :: tg_message where
  "group_message = \<lparr>tm_ID = 5, tm_From = Some \<lparr>tu_ID = 42, tu_Username = [], tu_FirstName = ''Ann''\<rparr>,
     tm_Chat = \<lparr>tc_ID = -100, tc_Type = ChatSupergroup\<rparr>, tm_MessageThreadID = 3, tm_Text = ''hi'', tm_Entities = [], tm_ReplyToMessage = None\<rparr>"

definition demo_turn :: turn where
  "demo_turn = \<lparr>tn_happened = demo_happened, tn_out = (\<lambda>_. ApiOk), tn_puts = (\<lambda>n. (Inl ErrNoStore, 5, Done))\<rparr>"

definition demo_formats :: formats where
  "demo_formats = \<lparr>fm_show = (\<lambda>_. []), fm_uc = ascii_tables, fm_parse = (\<lambda>s. MString s), fm_tokens = (\<lambda>_. [])\<rparr>"

definition polling :: tg_start where
  "polling = \<lparr>ts_skipGetMe = True, ts_new = None, ts_me = Inl ErrNoStore, ts_drop = None, ts_ended = None\<rparr>"

abbreviation demo_start where
  "demo_start sd \<equiv> served_start sd [] [] \<lparr>nr_dropped = [], nr_disk = None\<rparr> [] () []"

lemma plain_heard: "tm_Entities m = [] \<Longrightarrow> \<exists>x. served_step fm c a sd (Message m tn) w = Some x"
proof -
  assume "tm_Entities m = []"
  then have "stripBotMentions a (tm_Text m) (tm_Entities m) = Some (tm_Text m)" by (simp add: stripBotMentions_def own_spans_def)
  then have "toInbound a m \<noteq> None" by (simp add: toInbound_def split: option.split)
  then obtain y where "toInbound a m = Some y" by blast
  then show ?thesis by (simp add: dispatch_message_def del: split_paired_Ex)
qed


section \<open>What everything answered costs\<close>



end
