(* ===== verification/Startup.thy ===== *)
theory Startup
  imports Served
begin

text \<open>
  What \<^verbatim>\<open>serve\<close> says of itself when it starts (\<^verbatim>\<open>main.go\<close>): the attributes of the line about the index, those
  of the line about the whole, and the level the logger lets through; and the keys of the catalog the
  runtime asks for (\<^verbatim>\<open>runtime/strings.go\<close>). Printing a float or a duration is a parameter.
\<close>

section \<open>The level\<close>

datatype level = LevelDebug | LevelInfo | LevelWarn | LevelError

definition newLogger :: "string \<Rightarrow> level" where
  "newLogger l = (if l = ''debug'' then LevelDebug else if l = ''warn'' then LevelWarn
     else if l = ''error'' then LevelError else LevelInfo)"

section \<open>The index\<close>

definition orderedIndexed :: "doc list \<Rightarrow> nat" where
  "orderedIndexed docs = sum_list (map (\<lambda>d. card (dom (d_Ordered d))) docs)"

definition orderedSkipped :: "doc list \<Rightarrow> nat" where
  "orderedSkipped docs = sum_list (map (\<lambda>d. length (d_OrderedSkipped d)) docs)"

datatype attr = AText string | ANum int | AFloat f64 | ABool bool

definition comma_joined :: "string list \<Rightarrow> string" where
  "comma_joined xs = (case xs of [] \<Rightarrow> [] | x # ys \<Rightarrow> x @ concat (map (\<lambda>y. '','' @ y) ys))"

text \<open>\<open>stats\<close> is what the semantic index reports, asked for with embeddings only.\<close>

definition retrieval_attrs :: "serve_cmd \<Rightarrow> doc list \<Rightarrow> nat \<times> nat \<Rightarrow> (string \<times> attr) list" where
  "retrieval_attrs c docs stats =
     [(''retrieval_mode'', AText (retrieval_mode c)), (''retrieval_store'', AText (storeName (sv_RetrievalStore c))),
      (''chunks_indexed'', ANum (int (length (concat (map d_Chunks docs)))))] @
     (if embeddingsSet c then [(''embedding_model'', AText (TrimSpace (sv_EmbeddingModel c))),
        (''similarity_threshold'', AFloat (sv_SimilarityThreshold c))] else []) @
     (if sv_StoreDimensions c \<noteq> [] then [(''dimensions'', AText (comma_joined (sv_StoreDimensions c)))] else []) @
     (if sv_StoreOrderable c \<noteq> [] then [(''orderable'', AText (comma_joined (sv_StoreOrderable c))),
        (''orderable_indexed'', ANum (int (orderedIndexed docs))), (''orderable_skipped'', ANum (int (orderedSkipped docs)))] else []) @
     (if embeddingsSet c then [(''semantic_dim'', ANum (int (fst stats))), (''semantic_vectors'', ANum (int (snd stats)))] else [])"

text \<open>The declared fields a note carries a value for, whether or not it can be used.\<close>

definition carried :: "loader_env \<Rightarrow> string \<times> string result \<Rightarrow> nat" where
  "carried env file =
     (case snd file of Inl _ \<Rightarrow> 0 | Inr content \<Rightarrow>
       (case parseFrontmatter (le_yaml env) content of Inl _ \<Rightarrow> 0 | Inr (front, body) \<Rightarrow>
          if file_chunks (fst file) body = [] then 0
          else length (filter (\<lambda>f. carried_raw front f \<noteq> None) (le_orderable env))))"

lemma usable_carried: "usable parse K front f \<noteq> None \<Longrightarrow> carried_raw front f \<noteq> None"
  by (auto simp: usable_def split: option.splits)

lemma usable_refused_split: "distinct fs \<Longrightarrow>
    card (dom (usable_keys parse K front fs)) + length (filter (refused parse K front) fs) = length (filter (\<lambda>f. carried_raw front f \<noteq> None) fs)"
proof -
  assume d: "distinct fs"
  have "dom (usable_keys parse K front fs) = set (filter (\<lambda>f. usable parse K front f \<noteq> None) fs)"
    by (auto simp: usable_keys_def split: if_splits)
  then have "card (dom (usable_keys parse K front fs)) = length (filter (\<lambda>f. usable parse K front f \<noteq> None) fs)"
    using d by (metis distinct_card distinct_filter)
  also have "filter (\<lambda>f. usable parse K front f \<noteq> None) fs =
      filter (\<lambda>f. usable parse K front f \<noteq> None) (filter (\<lambda>f. carried_raw front f \<noteq> None) fs)"
    unfolding filter_filter by (rule filter_cong [OF refl]) (use usable_carried in blast)
  finally have u: "card (dom (usable_keys parse K front fs)) =
      length (filter (\<lambda>f. usable parse K front f \<noteq> None) (filter (\<lambda>f. carried_raw front f \<noteq> None) fs))" .
  have r: "filter (refused parse K front) fs = filter (\<lambda>f. \<not> usable parse K front f \<noteq> None) (filter (\<lambda>f. carried_raw front f \<noteq> None) fs)"
    by (auto simp: refused_def intro: filter_cong)
  show ?thesis unfolding u r by (rule sum_length_filter_compl)
qed

text \<open>The pair of counts says how often the notes carry an orderable field: nothing indexed and nothing skipped
  means that no note has one, nothing indexed and some skipped that none can be read.\<close>

theorem order_counts:
  assumes "VaultDocs env (Inr ns) = Inr docs" and "distinct (le_orderable env)"
  shows "orderedIndexed docs + orderedSkipped docs = sum_list (map (carried env) (md_files [] ns))"
proof -
  obtain K where docs: "docs = docs_of env K (md_files [] ns)" using scan_map [OF assms(1)] by blast
  have one: "orderedIndexed (docs_of env K [f]) + orderedSkipped (docs_of env K [f]) = carried env f" for f
    using usable_refused_split [OF assms(2)]
    by (simp add: doc_at_def carried_def orderedIndexed_def orderedSkipped_def split: sum.splits)
  have "orderedIndexed (docs_of env K fs) + orderedSkipped (docs_of env K fs) = sum_list (map (carried env) fs)" for fs
  proof (induction fs)
    case (Cons f fs)
    have "docs_of env K (f # fs) = docs_of env K [f] @ docs_of env K fs" by simp
    then have "orderedIndexed (docs_of env K (f # fs)) + orderedSkipped (docs_of env K (f # fs)) =
        (orderedIndexed (docs_of env K [f]) + orderedSkipped (docs_of env K [f])) + (orderedIndexed (docs_of env K fs) + orderedSkipped (docs_of env K fs))"
      by (simp only: orderedIndexed_def orderedSkipped_def map_append sum_list_append)
    then show ?case by (simp only: one Cons.IH list.map sum_list.Cons)
  qed (simp add: orderedIndexed_def orderedSkipped_def)
  then show ?thesis by (simp add: docs)
qed

section \<open>The whole\<close>

definition startup_attrs ::
    "(f64 \<Rightarrow> string) \<Rightarrow> (duration \<Rightarrow> string) \<Rightarrow> serve_cmd \<Rightarrow> 'x tool_outside \<Rightarrow> ('v, 'l, 'y, 'st, 'm) served \<Rightarrow> 64 word \<Rightarrow> (string \<times> attr) list" where
  "startup_attrs show_float show_duration c tls sd remaining' =
     [(''transport'', AText ''telegram''), (''model'', AText (sv_ModelName c)),
      (''temperature'', AText (case sv_Temperature c of None \<Rightarrow> ''provider default'' | Some t \<Rightarrow> show_float t)),
      (''vault_dir'', AText (sv_VaultDir c)), (''default_tier'', AText (sv_DefaultTier c)),
      (''acl_db'', AText (sv_ACLDB c)), (''callback_db'', AText (sv_CallbackDB c)),
      (''callback_sweep'', AText (show_duration (sv_CallbackSweepInterval c))),
      (''quarantine_log'', AText (if sv_QuarantineLog c = [] then ''disabled'' else sv_QuarantineLog c)),
      (''transcript_log'', AText (if sv_TranscriptLog c = [] then ''disabled'' else sv_TranscriptLog c)),
      (''persona'', ABool (an_persona (sd_answering sd) \<noteq> [])), (''language'', AText (pk_Code (an_pack (sd_answering sd)))),
      (''memory_turns'', ANum (sv_MemoryTurns c)), (''memory_inject'', ANum (sv_MemoryInject c)),
      (''long_memory'', ABool (po_Erase (sd_policy sd) \<noteq> None)), (''admins'', ANum (int (card (po_Admins (sd_policy sd))))),
      (''nudge_mode'', AText (sv_NudgeMode c)), (''mcp_servers'', ANum (int (length (an_servers (sd_answering sd))))),
      (''tools'', ANum (int (length (advertised tls (sv_StoreDimensions c) (sv_StoreOrderable c) (sd_registry sd))))),
      (''spend_remaining_tokens'', ANum (sint remaining'))]"

text \<open>The line names as many tools as the engine gives the model.\<close>

lemma tools_reported:
  assumes "buildAnswering env ou save counted c = Inr (sd_answering sd)"
  shows "map_of (startup_attrs sf sdur c (ou_tools ou) sd n) ''tools'' = map_option (\<lambda>k. ANum (int k)) (e_tools (an_engine (sd_answering sd) (sd_registry sd)))"
  by (rule built_parts [OF assms]) (simp add: startup_attrs_def)

section \<open>The catalog\<close>

definition stringKeys :: "string list" where
  "stringKeys = [''consent_disclosure_intro'', ''consent_transcript_line'', ''consent_disclosure_tap'',
     ''consent_granted'', ''consent_already'', ''consent_removed'', ''consent_error'', ''consent_opt_in_label'',
     ''consent_memory_line'', ''consent_memory_derive_line'', ''consent_removed_erased'', ''consent_erase_failed'',
     ''nudge'', ''refuse'', ''rate_limited'', ''at_capacity'',
     ''callback_done'', ''callback_expired'', ''callback_expired_edit'',
     ''callback_consumed'', ''callback_consumed_edit'', ''callback_error'',
     ''callback_denied'', ''callback_unknown_verb'', ''callback_invalid'', ''callback_failed'']"

definition complete_catalog :: "catalog \<Rightarrow> bool" where
  "complete_catalog base \<longleftrightarrow> list_all (\<lambda>k. case base k of None \<Rightarrow> False | Some v \<Rightarrow> v \<noteq> []) stringKeys"

lemma complete_speaks: "complete_catalog base \<Longrightarrow> k \<in> set stringKeys \<Longrightarrow> strings_Get base s k \<noteq> []"
  by (auto simp: complete_catalog_def list_all_iff strings_Get_nonempty split: option.splits)

text \<open>Over a complete base catalog the refusals, the nudge and the words of the consent flow are never empty,
  whatever the language pack leaves out.\<close>

theorem consent_never_silent:
  assumes "complete_catalog base" and "po_Texts po = strings_Get base s"
  shows "r_Text (fst (dmConsentFlow hp po inb w)) \<noteq> []"
    and "r_Text (nudgeReply n (po_Texts po)) \<noteq> [] \<or> r_Reaction (nudgeReply n (po_Texts po)) \<noteq> []"
    and "r_Text (refuse_reply (po_Texts po)) \<noteq> []"
proof -
  have t: "po_Texts po k \<noteq> []" if "k \<in> set stringKeys" for k
    using complete_speaks [OF assms(1) that] assms(2) by simp
  have keys: "po_Texts po ''consent_error'' \<noteq> []" "po_Texts po ''consent_granted'' \<noteq> []" "po_Texts po ''consent_removed'' \<noteq> []"
    "po_Texts po ''consent_erase_failed'' \<noteq> []" "po_Texts po ''consent_removed_erased'' \<noteq> []" "po_Texts po ''consent_already'' \<noteq> []"
    "po_Texts po ''consent_disclosure_intro'' \<noteq> []" "po_Texts po ''nudge'' \<noteq> []" "po_Texts po ''refuse'' \<noteq> []"
    by (rule t, simp add: stringKeys_def)+
  show "r_Text (fst (dmConsentFlow hp po inb w)) \<noteq> []"
    unfolding dmConsentFlow_def Let_def
  proof (split if_split, intro conjI impI)
    show "r_Text (fst (case SetConsent (hp_io hp IoConsentWrite) (w_acl w) (u_ID (in_User inb)) ConsentGranted of
        (Some e, b) \<Rightarrow> (text_reply (po_Texts po ''consent_error''), w\<lparr>w_acl := b\<rparr>)
      | (None, b) \<Rightarrow> ((text_reply (po_Texts po ''consent_granted''))\<lparr>r_Reaction := po_ConsentAck po\<rparr>, w\<lparr>w_acl := b\<rparr>))) \<noteq> []"
      using keys by (simp add: text_reply_def split: prod.split option.split)
  qed (split if_split, intro conjI impI, (simp add: text_reply_def disclosure_def keys split: prod.split option.split sum.split)+)
  show "r_Text (nudgeReply n (po_Texts po)) \<noteq> [] \<or> r_Reaction (nudgeReply n (po_Texts po)) \<noteq> []"
    using keys by (simp add: nudgeReply_def nudge_resolve_def text_reply_def DefaultNudgeEmoji_def Let_def)
  show "r_Text (refuse_reply (po_Texts po)) \<noteq> []"
    using keys by (simp add: refuse_reply_def)
qed

end
