(* ===== verification/Collected.thy ===== *)
theory Collected
  imports Telemetry "HOL-Library.Word"
begin

text \<open>
  Reading back what the metrics recorded, \<^verbatim>\<open>internal/metrics/metricstest/metricstest.go\<close>, the support the
  program's tests use. What the library's reader collects is a parameter: its instruments by scope, each
  with its data points. \<^verbatim>\<open>t.Fatal\<close> is an error.
\<close>

section \<open>What the library collects\<close>

text \<open>A number's point, and a histogram's: \<open>'n\<close> is the type of its sum. \<open>attr_value\<close> is printed by a parameter.\<close>

record ('v, 'n) number_point =
  np_Attributes :: "(string \<times> 'v) list"
  np_Value :: 'n

record ('v, 'n) histogram_point =
  ht_Attributes :: "(string \<times> 'v) list"
  ht_Count :: "64 word"
  ht_Sum :: 'n
  ht_Bounds :: "rat list"

datatype 'v aggregation =
    SumInt64 "('v, 64 word) number_point list"
  | GaugeInt64 "('v, 64 word) number_point list"
  | HistogramInt64 "('v, 64 word) histogram_point list"
  | HistogramFloat64 "('v, f64) histogram_point list"
  | OtherData

record 'v collected_metric =
  cm_Name :: string
  cm_Unit :: string
  cm_Data :: "'v aggregation"

section \<open>What is read of it\<close>

record point =
  pt_Attrs :: "string \<rightharpoonup> string"
  pt_Value :: "64 word"
  pt_Sum :: f64

record instrument =
  it_Unit :: string
  it_Points :: "point list"
  it_Bounds :: "rat list"

definition attrs :: "('v \<Rightarrow> string) \<Rightarrow> (string \<times> 'v) list \<Rightarrow> (string \<rightharpoonup> string)" where
  "attrs show_value kvs = foldl (\<lambda>out (k, v). out(k \<mapsto> show_value v)) Map.empty kvs"

text \<open>\<open>to_float\<close> is the conversion \<^verbatim>\<open>float64(p.Sum)\<close> of an int64.\<close>

definition points :: "('v \<Rightarrow> string) \<Rightarrow> (64 word \<Rightarrow> f64) \<Rightarrow> 'v aggregation \<Rightarrow> point list result" where
  "points show_value to_float data =
     (case data of
        SumInt64 ps \<Rightarrow> Inr (map (\<lambda>p. \<lparr>pt_Attrs = attrs show_value (np_Attributes p), pt_Value = np_Value p, pt_Sum = Fin 0\<rparr>) ps)
      | GaugeInt64 ps \<Rightarrow> Inr (map (\<lambda>p. \<lparr>pt_Attrs = attrs show_value (np_Attributes p), pt_Value = np_Value p, pt_Sum = Fin 0\<rparr>) ps)
      | HistogramInt64 ps \<Rightarrow> Inr (map (\<lambda>p. \<lparr>pt_Attrs = attrs show_value (ht_Attributes p), pt_Value = ht_Count p, pt_Sum = to_float (ht_Sum p)\<rparr>) ps)
      | HistogramFloat64 ps \<Rightarrow> Inr (map (\<lambda>p. \<lparr>pt_Attrs = attrs show_value (ht_Attributes p), pt_Value = ht_Count p, pt_Sum = ht_Sum p\<rparr>) ps)
      | OtherData \<Rightarrow> Inl (ErrMsg ''metric data is not read''))"

definition bounds :: "'v aggregation \<Rightarrow> rat list" where
  "bounds data =
     (case data of
        HistogramInt64 (p # ps) \<Rightarrow> ht_Bounds p
      | HistogramFloat64 (p # ps) \<Rightarrow> ht_Bounds p
      | _ \<Rightarrow> [])"

text \<open>The loop over the metrics of every scope, and the function \<^verbatim>\<open>New\<close> returns, once the metrics were made.\<close>

fun read_metrics :: "('v \<Rightarrow> string) \<Rightarrow> (64 word \<Rightarrow> f64) \<Rightarrow> 'v collected_metric list \<Rightarrow> (string \<rightharpoonup> instrument) \<Rightarrow> (string \<rightharpoonup> instrument) result" where
  "read_metrics show_value to_float [] out = Inr out"
| "read_metrics show_value to_float (m # ms) out =
     (case points show_value to_float (cm_Data m) of
        Inl e \<Rightarrow> Inl e
      | Inr ps \<Rightarrow> read_metrics show_value to_float ms
          (out(cm_Name m \<mapsto> \<lparr>it_Unit = cm_Unit m, it_Points = ps, it_Bounds = bounds (cm_Data m)\<rparr>)))"

definition metricstest_New ::
    "('v \<Rightarrow> string) \<Rightarrow> (64 word \<Rightarrow> f64) \<Rightarrow> (string \<Rightarrow> error option) \<Rightarrow> 'v collected_metric list list result \<Rightarrow> (string \<rightharpoonup> instrument) result" where
  "metricstest_New show_value to_float mk scopes =
     (case metrics_New mk of Some e \<Rightarrow> Inl e
      | None \<Rightarrow> (case scopes of Inl e \<Rightarrow> Inl e
          | Inr sms \<Rightarrow> read_metrics show_value to_float (concat sms) Map.empty))"

section \<open>Nothing collected is lost\<close>

lemma points_length: "points sv tf data = Inr ps \<Longrightarrow> length ps =
    (case data of SumInt64 qs \<Rightarrow> length qs | GaugeInt64 qs \<Rightarrow> length qs | HistogramInt64 qs \<Rightarrow> length qs
     | HistogramFloat64 qs \<Rightarrow> length qs | OtherData \<Rightarrow> 0)"
  by (auto simp: points_def split: aggregation.splits)

lemma points_other: "points sv tf OtherData \<noteq> Inr ps"
  by (simp add: points_def)

lemma read_metrics_keeps:
  "read_metrics sv tf ms out = Inr out' \<Longrightarrow> n \<notin> cm_Name ` set ms \<Longrightarrow> out' n = out n"
  by (induction ms arbitrary: out) (auto split: sum.splits)

lemma read_metrics_all:
  assumes "read_metrics sv tf ms out = Inr out'" and "distinct (map cm_Name ms)" and "m \<in> set ms"
  shows "\<exists>ps. points sv tf (cm_Data m) = Inr ps \<and>
    out' (cm_Name m) = Some \<lparr>it_Unit = cm_Unit m, it_Points = ps, it_Bounds = bounds (cm_Data m)\<rparr>"
  using assms
proof (induction ms arbitrary: out)
  case (Cons m' ms)
  obtain ps where ps: "points sv tf (cm_Data m') = Inr ps" using Cons.prems(1) by (auto split: sum.splits)
  let ?out = "out(cm_Name m' \<mapsto> \<lparr>it_Unit = cm_Unit m', it_Points = ps, it_Bounds = bounds (cm_Data m')\<rparr>)"
  have r: "read_metrics sv tf ms ?out = Inr out'" using Cons.prems(1) ps by simp
  show ?case
  proof (cases "m = m'")
    case True
    then show ?thesis using read_metrics_keeps [OF r, of "cm_Name m'"] Cons.prems(2) ps by simp
  next
    case False
    then show ?thesis using Cons.IH [OF r] Cons.prems(2,3) by simp
  qed
qed simp

text \<open>When every instrument has a name of its own, each is read with all its points, and nothing else is; data of
  another kind fails the whole reading.\<close>

theorem collected_whole:
  assumes "metricstest_New sv tf mk (Inr sms) = Inr out" and "distinct (map cm_Name (concat sms))"
  shows "dom out = cm_Name ` set (concat sms) \<and> (\<forall>m \<in> set (concat sms). cm_Data m \<noteq> OtherData)"
proof -
  have r: "read_metrics sv tf (concat sms) Map.empty = Inr out"
    using assms(1) by (auto simp: metricstest_New_def split: option.splits)
  have none: "out n = None" if "n \<notin> cm_Name ` set (concat sms)" for n
    using read_metrics_keeps [OF r that] by simp
  have some: "cm_Name m \<in> dom out \<and> cm_Data m \<noteq> OtherData" if m: "m \<in> set (concat sms)" for m
  proof -
    obtain ps where "points sv tf (cm_Data m) = Inr ps" "out (cm_Name m) \<noteq> None"
      using read_metrics_all [OF r assms(2) m] by auto
    then show ?thesis using points_other [of sv tf ps] by fastforce
  qed
  have "dom out = cm_Name ` set (concat sms)"
  proof (rule set_eqI, rule iffI)
    fix n assume "n \<in> dom out"
    then show "n \<in> cm_Name ` set (concat sms)" using none [of n] by (simp only: domIff) argo
  next
    fix n assume "n \<in> cm_Name ` set (concat sms)"
    then obtain m where "m \<in> set (concat sms)" "n = cm_Name m" by (rule imageE)
    then show "n \<in> dom out" using some by simp
  qed
  then show ?thesis using some by (intro conjI ballI) simp_all
qed

end
