(* ===== verification/Spec2Isabelle.thy ===== *)
theory Spec2Isabelle
  imports Acl_Props Budget Pending Withdrawal LongMemory Logs LangPacks Actions Engine_Props Handler_Props
    Vault_Props Mcp_Props Native_Props Config_Props Serve Telegram_Props TelegramFormat_Props Ladybug_Props Replay_Props Embed
    Background PromptTemplate Telemetry TelegramRun RecordFile AnswerRun_Props Served_Props Startup Collected
begin

text \<open>
  A verification library for yaad-grove, a consent-first community assistant written in Go. A chat
  platform delivers messages; the assistant answers those of consenting members from a vault of
  markdown notes through a language model, keeps what they said only while they agree, spends at
  most a configured number of tokens, and lets people confirm proposed actions with buttons. The
  theories below translate the program's own code under \<^verbatim>\<open>internal/\<close>, \<^verbatim>\<open>langpacks/\<close> and
  \<^verbatim>\<open>cmd/yaad-grove/\<close> into executable definitions, one theory per component, and prove what makes
  each component, and the whole, correct.

  \<^bold>\<open>How the parts interact\<close>

  A message travels through the library in the order the code calls:

  \<^item> \<^verbatim>\<open>telegram.go\<close> decides which updates reach the handler and as what (\<open>Telegram\<close>), and delivers the
    reply, formatted by \<^verbatim>\<open>format.go\<close> (\<open>TelegramFormat\<close>), started by \<^verbatim>\<open>Adapter.Run\<close> (\<open>TelegramRun\<close>);
  \<^item> the handler of \<^verbatim>\<open>internal/runtime/handler.go\<close> (\<open>Handler\<close>) asks the gate (\<open>Acl\<close>, over the bucket of
    \<open>Bolt\<close>), writes the logs (\<open>Logs\<close>) and the short-term buffer (\<open>ConvMemory\<close>), answers direct
    messages about consent in the words of a language pack (\<open>LangPacks\<close>), resolves the tokens of
    buttons (\<open>Pending\<close>) into verbs (\<open>Actions\<close>), and asks the engine;
  \<^item> the engine (\<open>Engine\<close>, over the values of \<open>Core\<close>) retrieves with the planner (\<open>Planner\<close>), which
    queries a store, in memory (\<open>StoreMem\<close>, on the keys of \<open>Normalize\<close>) or persistent (\<open>Ladybug\<close>, fed
    with the vectors of \<open>Embed\<close>), filled by the vault loader (\<open>Vault\<close>); it hands the model the tools of
    \<open>Tools\<close> and \<open>Mcp\<close>, reads calls the model wrote as text (\<open>Native\<close>), pays for each call from the
    budget (\<open>Budget\<close>), all of it wired by \<open>AnswerRun\<close>, and keeps answered turns in long-term memory
    (\<open>LongMemory\<close>);
  \<^item> beside it run the retention loop, the sweeper of tokens and the openings and closings of the
    files (\<open>Background\<close>), and messages and withdrawals of several users at once (\<open>Withdrawal\<close>);
  \<^item> the commands put this together: flags (\<open>Config\<close>, \<open>MemorySetup\<close>, \<open>PromptTemplate\<close>), \<^verbatim>\<open>serve\<close>
    (\<open>Serve\<close>), \<^verbatim>\<open>memory erase\<close> (\<open>MemorySetup\<close>), metrics and their export (\<open>Telemetry\<close>), and the replay
    of questions with its comparison of runs (\<open>Replay\<close>).

  \<^bold>\<open>The theories\<close>

  Each component theory holds the state, data, operations and the lemmas its clients use; a theory
  \<^verbatim>\<open>X_Props\<close> holds what is proved of \<^verbatim>\<open>X\<close>. Shared: \<open>Prelude\<close> (time, durations, errors, results, list
  facts and the hint collections time_simps, store_simps and step_defs), \<open>GoFloat\<close> (float64 and its order), \<open>GoText\<close>, \<open>GoSplit\<close> and
  \<open>Utf8\<close> (Go strings as byte lists, runes and their encoding, the functions of \<^verbatim>\<open>strings\<close> and
  \<^verbatim>\<open>unicode\<close> in use), \<open>Core\<close> (the structs every component passes around) and \<open>Bolt\<close> (a bbolt bucket
  with the outcome of each transaction).

  \<^item> \<open>Acl\<close>, \<open>Acl_Props\<close>: \<^verbatim>\<open>internal/acl\<close>. \<^verbatim>\<open>Gate.Check\<close>, consent, tiers and authority, over a store with
    one outcome per read and write. Which decision each state leads to; the gate fails closed; the
    number of answers a capped user gets in any interval; tiers stay valid.
  \<^item> \<open>Budget\<close>: \<^verbatim>\<open>internal/budget\<close> and \<^verbatim>\<open>runtime/metered.go\<close>. Counters are 64-bit words. With at most n
    calls in flight the overspend is bounded.
  \<^item> \<open>AnswerRun\<close>, \<open>AnswerRun_Props\<close>: the path of an answer's model and tool calls as \<^verbatim>\<open>answering.go\<close> wires
    it, from the provider's client to the metered model (\<open>ask_model\<close>) and the agent's tools
    (\<open>call_tool\<close>). The library's loop is a tree of questions to the model and calls of tools
    (\<open>agent_run\<close>), run by \<open>agent_exec\<close>; \<open>fleet_step\<close> interleaves any number of them over one meter. What
    all of them spend is exactly what the provider reported and is bounded; a run of the engine's
    loop alone is a run of the fleet (\<open>exec_run\<close>).
  \<^item> \<open>Pending\<close>, \<open>Actions\<close>: \<^verbatim>\<open>internal/pending\<close>, \<^verbatim>\<open>runtime/registry.go\<close>, \<^verbatim>\<open>verbs.go\<close>, \<^verbatim>\<open>proposer.go\<close>,
    \<^verbatim>\<open>policy.go\<close>. A token works at most once; a click changes access state only with the authority
    read at the click.
  \<^item> \<open>ConvMemory\<close>: \<^verbatim>\<open>internal/memory\<close>. The buffer refines the full history of a conversation, and what
    it injects is characterised.
  \<^item> \<open>Logs\<close>, \<open>LangPacks\<close>: \<^verbatim>\<open>internal/quarantine\<close>, \<^verbatim>\<open>internal/transcript\<close>, \<^verbatim>\<open>langpacks\<close>,
    \<^verbatim>\<open>runtime/strings.go\<close>.
  \<^item> \<open>LongMemory\<close>, \<open>Withdrawal\<close>: \<^verbatim>\<open>core/longmemory.go\<close>, \<^verbatim>\<open>runtime/erase.go\<close>, \<^verbatim>\<open>runtime/purge.go\<close>,
    \<^verbatim>\<open>internal/namespaces\<close>. \<open>Withdrawal\<close> is a step relation of turns and withdrawals interleaved at
    every call; it is shown to be the handler's, and a withdrawal to be final on it.
  \<^item> \<open>RecordFile\<close>: the save of \<^verbatim>\<open>internal/namespaces/record.go\<close> call by call over a file system that can
    crash; it implements the record of \<open>LongMemory\<close>, and what is configured survives a crash.
  \<^item> \<open>Engine\<close>, \<open>Engine_Props\<close>: \<^verbatim>\<open>core/engine.go\<close>, \<^verbatim>\<open>core/prompt.go\<close>: the request the model gets, what
    counts as a refusal, what is kept.
  \<^item> \<open>Handler\<close>, \<open>Handler_Props\<close>: \<^verbatim>\<open>runtime/handler.go\<close>, \<^verbatim>\<open>consent.go\<close>, \<^verbatim>\<open>memory.go\<close>: end to end, nothing
    of an unconsented user is recorded, direct messages are private, a withdrawal takes effect.
  \<^item> \<open>Normalize\<close>, \<open>StoreMem\<close>, \<open>StoreMem_Props\<close>: \<^verbatim>\<open>internal/store/normalize.go\<close>, \<^verbatim>\<open>store.go\<close>, \<^verbatim>\<open>memory.go\<close>:
    lookups are complete, ordered recall sorts.
  \<^item> \<open>Planner\<close>: \<^verbatim>\<open>retrieval/planner.go\<close>: every mode, every fallback, and the reciprocal rank fusion.
  \<^item> \<open>Vault\<close>, \<open>Vault_Props\<close>: \<^verbatim>\<open>retrieval/vault.go\<close>: from a directory tree to documents and back out
    through the store.
  \<^item> \<open>Ladybug\<close>, \<open>Ladybug_Props\<close>: \<^verbatim>\<open>store/ladybug.go\<close>, \<^verbatim>\<open>ladybug_ops.go\<close>: the statements sent to the
    graph database; a rebuild is committed whole or rolled back, and no text becomes part of a
    statement.
  \<^item> \<open>Embed\<close>: \<^verbatim>\<open>internal/embed\<close>: a vector never slips against its text.
  \<^item> \<open>Tools\<close>, \<open>Tools_Props\<close>, \<open>Mcp\<close>, \<open>Mcp_Props\<close>: \<^verbatim>\<open>internal/tools\<close>: the structured tools answer
    correctly, and the surface of external tools is closed.
  \<^item> \<open>Native\<close>, \<open>Native_Props\<close>: \<^verbatim>\<open>internal/model\<close>: no sentinel reaches the user, and a call reads back.
  \<^item> \<open>Telegram\<close>, \<open>TelegramFormat\<close>, \<open>TelegramRun\<close> and their properties: \<^verbatim>\<open>internal/transport\<close>: scoping,
    bounded delivery, answered clicks, well-formed HTML.
  \<^item> \<open>Config\<close>, \<open>MemorySetup\<close>, \<open>Serve\<close> and their properties: \<^verbatim>\<open>cmd/yaad-grove/main.go\<close>, \<^verbatim>\<open>answering.go\<close>,
    \<^verbatim>\<open>longmemory.go\<close>, \<^verbatim>\<open>memory.go\<close>: \<^verbatim>\<open>serve\<close> starts whole or not at all and leaves nothing open.
  \<^item> \<open>Served\<close>, \<open>Served_Props\<close>: the bot \<^verbatim>\<open>serve\<close> leaves running. \<open>served_step\<close> composes the adapter, the handler,
    the gate, the engine and the stores as \<^verbatim>\<open>main.go\<close> wires them, on a message, a click, a SIGHUP or a sweep.
    From the flags to the calls on the platform: who is not heard, and that everything answered is a run of
    the metered fleet. \<open>Startup\<close>: what the startup lines say, and the catalog's keys.
  \<^item> \<open>PromptTemplate\<close>: \<^verbatim>\<open>TemplateQueryFields\<close> of \<^verbatim>\<open>core/prompt.go\<close> over the parse tree of a template.
  \<^item> \<open>Telemetry\<close>: \<^verbatim>\<open>internal/metrics\<close>, \<^verbatim>\<open>internal/otelexport\<close>: no measure carries content, and export is
    set up whole or off. \<open>Collected\<close>: \<^verbatim>\<open>metricstest\<close>, which reads back what was recorded, whole.
  \<^item> \<open>Replay\<close>, \<open>Replay_Props\<close>: \<^verbatim>\<open>cmd/yaad-grove/replay.go\<close>: reading questions, the order of a run, what
    a comparison flags, and that a replay keeps apart from what the bot keeps.

  \<^bold>\<open>Interfaces\<close>

  Where a component relies on a contract of another, the contract is a locale, the client's lemmas
  are proved inside it once, and the provider's own definitions interpret it in the provider's theory:
  acl_store (the consent rows, interpreted on the bucket of \<open>Acl\<close>), meter_store (the meter's stored
  state, on the memory and the bucket of \<open>Budget\<close>), pending_store (tokens, on both stores of
  \<open>Pending\<close>), retrieval_store (the planner's store, declared in \<open>Planner\<close>, on the memory backend in
  \<open>StoreMem_Props\<close>), structured_store (the tools' lookups, on the memory backend in \<open>Tools_Props\<close>) and
  usage_keeper (what the meter relies on in the recovery of tool calls: the usage is passed on; on
  \<open>native_response\<close> in \<open>AnswerRun_Props\<close>).

  \<^bold>\<open>How code is modelled\<close>

  A Go string is an Isabelle string, one character per byte; runes are numbers and appear where the
  code ranges over runes. A struct is a record or a datatype with selectors; a Go map is a partial
  function where only lookups matter, an association list where it is written out, and a
  permutation is a parameter where the code ranges over a map. Integers are int where the code can
  not reach the bounds, and 64-bit words in the budget and withdrawal counters; a duration saturates
  as Go's \<^verbatim>\<open>Time.Sub\<close> does. The floats of retrieval are rationals, or carry the rounding as a parameter; the
  orderable values of the store are rationals with the two infinities and NaN.

  A call that returns an error returns \<^verbatim>\<open>Inl\<close> the error or an error option, with the message the code
  gives it; a call whose failure the operating system or a library decides takes its outcome as an
  argument (Done or Failed e), so that a theorem speaks of every possible failure at every call.
  A write that may stop half way says after how many bytes. A panic is None. The clock is an argument of
  every operation that reads it. A lock makes the section it guards one step.

  Recursion follows the code: structural where the loop ranges over a list, with a termination proof
  where it consumes a text (the native scan, splitting, the reading of a run). A loop that waits on a channel
  or a timer runs on the finite list of what its selects chose, so every finite prefix of a run of
  the process is a run of the model; no fuel is used. The numbers of the code are kept as they are:
  the scanner's line limit of 1 MiB, the batch sizes of the persistent index, its write deadline,
  the session window, the retry of a delivery, the rate windows and the nudge cooldown.

  Code that is not under \<^verbatim>\<open>src/\<close> is a parameter: the BoltDB and graph databases, the Telegram client,
  the markdown parser and HTML tokenizer, the JSON, YAML and template libraries, Unicode's tables and
  NFKC, the embedding endpoint, the tool servers, the memory service, the model and the agent loop
  around it, and OpenTelemetry. What a property needs of one of them is a hypothesis of that
  property, and its witness instantiates it.

  \<^bold>\<open>Not modelled\<close>

  Log lines, but for the two of \<open>Startup\<close>; the counting calls inside the handler, beyond the measures
  of \<open>Telemetry\<close>; the parsing of the command line into the flags' struct and \<^verbatim>\<open>main\<close> itself; the agent
  loop and the model client, which are a library; the recorder of replayed calls, whose spans no result
  depends on; the wire formats behind the codecs; the descriptions of the instruments; the cgo linking of
  the graph database; and the close of a bbolt handle, which is one call of the library. \<open>Served\<close> handles
  one update at a time: the interleavings of several are those of \<open>Withdrawal\<close> (consent, erasing and
  keeping) and of the fleet (the money), not of every pair of calls.
\<close>

end
